(* ===== verification/Prelude.thy ===== *)
theory Prelude imports "HOL-Library.Word" begin

text \<open>
  What every component shares: the names of the machine integers of the i386 C code, the
  collections of facts the component proofs are run with, characters as bytes, and the
  lemmas on words, lists and options that the components use.

  A C \<open>uint8_t\<close>, \<open>uint16_t\<close>, \<open>uint32_t\<close>, \<open>uint64_t\<close> (and \<open>size_t\<close>, and every
  pointer, which are 32 bits wide on this target) is a word of that width, so that
  additions wrap as they do in the code.  A \<open>char\<close> is signed on this target; it is kept
  as its byte, and read with \<open>sint\<close> where the code promotes it to \<open>int\<close>.
\<close>

unbundle bit_operations_syntax

type_synonym u8 = "8 word"
type_synonym u16 = "16 word"
type_synonym u32 = "32 word"
type_synonym u64 = "64 word"

section \<open>Collections of facts\<close>

text \<open>
  \<open>mem_simps\<close>: reads after writes in the byte-addressed memory.
  \<open>addr_simps\<close>: words that are images of small natural numbers.
  \<open>step_defs\<close>: definitions that are unfolded to run a component on a concrete input.
\<close>

named_theorems mem_simps
named_theorems addr_simps
named_theorems step_defs

section \<open>Characters and strings\<close>

text \<open>The bytes of a string literal, without the terminating zero.\<close>

abbreviation bytes_of :: "string \<Rightarrow> u8 list" where
  "bytes_of s \<equiv> map of_char s"

section \<open>Outcomes of operations that may halt the kernel\<close>

text \<open>
  \<open>debug_panic\<close> never returns: an operation that reaches it ends in \<open>Panic\<close> with the
  message.  \<open>Fault\<close> stands for a processor fault that the code does not guard against
  (the access named in the string).
\<close>

datatype 'a outcome = Ret 'a | Panic string | Fault string

fun bind_outcome :: "'a outcome \<Rightarrow> ('a \<Rightarrow> 'b outcome) \<Rightarrow> 'b outcome" where
  "bind_outcome (Ret x) f = f x"
| "bind_outcome (Panic e) f = Panic e"
| "bind_outcome (Fault e) f = Fault e"

lemma bind_outcome_Ret [simp]: "bind_outcome x Ret = x"
  by (cases x) simp_all

lemma bind_outcome_eq_Ret:
  "bind_outcome x f = Ret y \<longleftrightarrow> (\<exists>v. x = Ret v \<and> f v = Ret y)"
  by (cases x) simp_all

lemma bind_outcome_assoc:
  "bind_outcome (bind_outcome x f) g = bind_outcome x (\<lambda>v. bind_outcome (f v) g)"
  by (cases x) simp_all

section \<open>Words and natural numbers\<close>

lemma unat_of_nat32 [addr_simps]: "n < 4294967296 \<Longrightarrow> unat (of_nat n :: u32) = n"
  by (simp add: unat_of_nat take_bit_nat_eq_self)

lemma of_nat32_eq_iff [addr_simps]:
  "a < 4294967296 \<Longrightarrow> b < 4294967296 \<Longrightarrow> (of_nat a :: u32) = of_nat b \<longleftrightarrow> a = b"
  by (metis unat_of_nat32)

lemma of_nat32_less_iff [addr_simps]:
  "a < 4294967296 \<Longrightarrow> b < 4294967296 \<Longrightarrow> (of_nat a :: u32) < of_nat b \<longleftrightarrow> a < b"
  by (simp add: word_less_nat_alt unat_of_nat32)

lemma of_nat32_le_iff [addr_simps]:
  "a < 4294967296 \<Longrightarrow> b < 4294967296 \<Longrightarrow> (of_nat a :: u32) \<le> of_nat b \<longleftrightarrow> a \<le> b"
  by (simp add: word_le_nat_alt unat_of_nat32)

lemma of_nat32_eq_0_iff [addr_simps]:
  "a < 4294967296 \<Longrightarrow> (of_nat a :: u32) = 0 \<longleftrightarrow> a = 0"
  using of_nat32_eq_iff [of a 0] by simp

lemma of_nat32_diff [addr_simps]: "b \<le> a \<Longrightarrow> (of_nat a :: u32) - of_nat b = of_nat (a - b)"
  by (simp add: of_nat_diff)

lemma unat32_less [simp]: "unat (x :: u32) < 4294967296"
  using unsigned_less [of x, where ?'a = nat] by simp

lemma unat32_diff_swap: "(b::u32) \<noteq> a \<Longrightarrow> unat (b - a) = 4294967296 - unat (a - b)"
proof -
  assume ne: "b \<noteq> a"
  then have "unat b \<noteq> unat a" by (simp add: word_unat_eq_iff)
  moreover note unat32_less [of a] unat32_less [of b]
  ultimately show ?thesis
  proof (cases "unat a \<le> unat b")
    case True
    with \<open>unat b \<noteq> unat a\<close>
    have "unat (b - a) = unat b - unat a" "unat (a - b) = unat a + 4294967296 - unat b"
      by (simp_all add: unat_sub_if')
    with True \<open>unat b < 4294967296\<close> show ?thesis by linarith
  next
    case False
    then have "unat (b - a) = unat b + 4294967296 - unat a" "unat (a - b) = unat a - unat b"
      by (simp_all add: unat_sub_if')
    with False \<open>unat a < 4294967296\<close> show ?thesis by linarith
  qed
qed

lemma of_nat_unat32 [simp]: "of_nat (unat (x :: u32)) = x"
  by simp

lemma mask8: "(w :: u32) AND 255 = take_bit 8 w"
  by (simp add: take_bit_eq_mask mask_eq_exp_minus_1)

lemma unat_byte: "unat (ucast (w :: u32) :: u8) = unat w mod 256"
  by (simp add: unsigned_ucast_eq take_bit_eq_mod)

lemma unat_low_byte: "unat (ucast ((w :: u32) AND 255) :: u8) = unat w mod 256"
  by (simp add: unat_byte mask8 unsigned_take_bit_eq take_bit_eq_mod unat_mod)

lemma unat_drop_bit32: "unat (drop_bit n (w :: u32)) = unat w div 2 ^ n"
  by (metis unat_drop_bit_eq drop_bit_eq_div)

lemma unat_pred32: "(n::u32) \<noteq> 0 \<Longrightarrow> unat n = Suc (unat (n - 1))"
  by (simp add: unat_minus_one unat_gt_0)

lemma sint_diff_eq_0_iff [simp]: "sint (a::u8) - sint b = 0 \<longleftrightarrow> a = b"
  using signed_word_eqI [of a b] by auto

lemma sint8_eq_iff [simp]: "sint (a::u8) = sint b \<longleftrightarrow> a = b"
  using signed_word_eqI [of a b] by auto

lemma sint8_eq_0_iff [simp]: "sint (a::u8) = 0 \<longleftrightarrow> a = 0"
  using sint_diff_eq_0_iff [of a 0] by simp

section \<open>Lists and options\<close>

lemma nth_eq_update: "i < length xs \<Longrightarrow> xs[i := xs ! i] = xs"
  by simp

lemma list_update_id_length [simp]: "length (xs[i := x]) = length xs"
  by simp

lemma map_option_eq_Some: "map_option f x = Some y \<longleftrightarrow> (\<exists>z. x = Some z \<and> f z = y)"
  by (cases x) auto

lemma find_append: "find P (xs @ ys) = (case find P xs of None \<Rightarrow> find P ys | Some x \<Rightarrow> Some x)"
  by (induction xs) auto

lemma find_map: "find P (map f xs) = map_option f (find (P \<circ> f) xs)"
  by (induction xs) auto

lemma find_upt_Some: "find P [a..<b] = Some f \<longleftrightarrow> a \<le> f \<and> f < b \<and> P f \<and> (\<forall>g. a \<le> g \<and> g < f \<longrightarrow> \<not> P g)"
proof (induction b)
  case 0
  then show ?case by simp
next
  case (Suc b)
  show ?case
  proof (cases "a \<le> b")
    case True
    have "find P [a..<b] = None \<longleftrightarrow> (\<forall>g. a \<le> g \<and> g < b \<longrightarrow> \<not> P g)"
      by (auto simp: find_None_iff)
    with True Suc show ?thesis
      by (auto simp: find_append less_Suc_eq split: option.splits)
  next
    case False
    then show ?thesis by auto
  qed
qed

section \<open>Counted loops\<close>

text \<open>The loop \<^verbatim>\<open>for (uint32_t i = 0; i < n; i++)\<close>: its body runs for each \<open>i\<close> below \<open>n\<close> in order.\<close>

definition for_to :: "u32 \<Rightarrow> (u32 \<Rightarrow> 'a \<Rightarrow> 'a) \<Rightarrow> 'a \<Rightarrow> 'a" where
  "for_to n f = fold (\<lambda>i. f (of_nat i)) [0..<unat n]"

section \<open>Signed arithmetic\<close>

text \<open>A C \<open>int\<close> is an integer, its arithmetic reduced to 32 bits by \<open>int32\<close>.\<close>

definition int32 :: "int \<Rightarrow> int" where
  "int32 x = signed_take_bit 31 x"

lemma int32_id [simp]: "- 2147483648 \<le> x \<Longrightarrow> x < 2147483648 \<Longrightarrow> int32 x = x"
  unfolding int32_def by (rule signed_take_bit_int_eq_self) simp_all

end
