(* ===== verification/Ports.thy ===== *)
theory Ports imports Prelude begin

text \<open>
  Port input and output (\<^verbatim>\<open>drivers/io.c\<close>) and the two drivers that only talk to ports,
  the interrupt controllers (\<^verbatim>\<open>drivers/pic.c\<close>) and the interval timer
  (\<^verbatim>\<open>drivers/pit.c\<close>).

  The port instructions are recorded in a trace, newest event first.  What a device
  answers to an \<open>in\<close> instruction is not code of the kernel: it is a parameter, a function
  of the whole trace so far and of the port.
\<close>

datatype io_event = Out8 u16 u8 | Out16 u16 u16 | In8 u16 u8

type_synonym io_trace = "io_event list"
type_synonym device = "io_trace \<Rightarrow> u16 \<Rightarrow> u8"

section \<open>The port instructions\<close>

definition outb :: "u16 \<Rightarrow> u8 \<Rightarrow> io_trace \<Rightarrow> io_trace" where
  "outb port value tr = Out8 port value # tr"

definition inb :: "device \<Rightarrow> u16 \<Rightarrow> io_trace \<Rightarrow> u8 \<times> io_trace" where
  "inb dev port tr = (let ret = dev tr port in (ret, In8 port ret # tr))"

definition outw :: "u16 \<Rightarrow> u16 \<Rightarrow> io_trace \<Rightarrow> io_trace" where
  "outw port value tr = Out16 port value # tr"

section \<open>The interrupt controllers\<close>

definition pic_remap :: "device \<Rightarrow> io_trace \<Rightarrow> io_trace" where
  "pic_remap dev tr =
     (let (a1, tr) = inb dev 0x21 tr;
          (a2, tr) = inb dev 0xA1 tr;
          tr = outb 0x20 (0x10 OR 0x01) tr;
          tr = outb 0xA0 (0x10 OR 0x01) tr;
          tr = outb 0x21 0x20 tr;
          tr = outb 0xA1 0x28 tr;
          tr = outb 0x21 4 tr;
          tr = outb 0xA1 2 tr;
          tr = outb 0x21 0x01 tr;
          tr = outb 0xA1 0x01 tr;
          tr = outb 0x21 a1 tr
      in outb 0xA1 a2 tr)"

definition pic_send_eoi :: "u8 \<Rightarrow> io_trace \<Rightarrow> io_trace" where
  "pic_send_eoi irq tr =
     (let tr = (if irq \<ge> 8 then outb 0xA0 0x20 tr else tr)
      in outb 0x20 0x20 tr)"

section \<open>The interval timer\<close>

text \<open>The division faults on a frequency of 0.\<close>

definition pit_init :: "u32 \<Rightarrow> io_trace \<Rightarrow> io_trace outcome" where
  "pit_init frequency tr =
     (if frequency = 0 then Fault ''divide error''
      else let divisor = 1193182 div frequency;
               tr = outb 0x43 0x36 tr;
               tr = outb 0x40 (ucast (divisor AND 0xFF)) tr
           in Ret (outb 0x40 (ucast (drop_bit 8 divisor AND 0xFF)) tr))"

section \<open>An 8259 that follows the initialisation sequence\<close>

text \<open>
  What the controller at the two ports \<open>cmd\<close> and \<open>data\<close> makes of the bytes it is sent:
  after ICW1 it takes the vector offset, the cascade byte and ICW4 from its data port, and
  any later data byte is its interrupt mask.  \<open>phase\<close> counts the initialisation words
  still to come.
\<close>

record pic_chip =
  phase :: nat
  vector_base :: u8
  cascade :: u8
  imr :: u8

definition pic_chip_out :: "u16 \<Rightarrow> u16 \<Rightarrow> u16 \<Rightarrow> u8 \<Rightarrow> pic_chip \<Rightarrow> pic_chip" where
  "pic_chip_out cmd data port v c =
     (if port = cmd then (if bit v 4 then c\<lparr>phase := 3, imr := 0\<rparr> else c)
      else if port = data then
        (if phase c = 3 then c\<lparr>phase := 2, vector_base := v\<rparr>
         else if phase c = 2 then c\<lparr>phase := 1, cascade := v\<rparr>
         else if phase c = 1 then c\<lparr>phase := 0\<rparr>
         else c\<lparr>imr := v\<rparr>)
      else c)"

fun pic_chip_run :: "u16 \<Rightarrow> u16 \<Rightarrow> io_trace \<Rightarrow> pic_chip \<Rightarrow> pic_chip" where
  "pic_chip_run cmd data [] c = c"
| "pic_chip_run cmd data (Out8 port v # tr) c = pic_chip_out cmd data port v (pic_chip_run cmd data tr c)"
| "pic_chip_run cmd data (e # tr) c = pic_chip_run cmd data tr c"

text \<open>
  Whatever state the two controllers were in, after \<open>pic_remap\<close> both have left
  their initialisation, the master serves vectors from 32 and the slave from 40, and each
  has the interrupt mask that was read from it at the start.
\<close>

theorem pic_remap_correct:
  fixes dev :: device and tr :: io_trace
  defines "a1 \<equiv> dev tr 0x21" and "a2 \<equiv> dev (In8 0x21 (dev tr 0x21) # tr) 0xA1"
  shows "pic_chip_run 0x20 0x21 (pic_remap dev tr) c =
      \<lparr>phase = 0, vector_base = 32, cascade = 4, imr = a1\<rparr>
    \<and> pic_chip_run 0xA0 0xA1 (pic_remap dev tr) d =
      \<lparr>phase = 0, vector_base = 40, cascade = 2, imr = a2\<rparr>"
  by (simp add: pic_remap_def inb_def outb_def pic_chip_out_def a1_def a2_def Let_def)

lemma pic_send_eoi_trace:
  "pic_send_eoi irq tr =
     Out8 0x20 0x20 # (if 8 \<le> irq then [Out8 0xA0 0x20] else []) @ tr"
  by (simp add: pic_send_eoi_def outb_def Let_def)

text \<open>
  From 19 Hz up (below that the divisor does not fit the counter's 16 bits) the two
  bytes that \<open>pit_init\<close> sends, put together again, are the divisor of the requested
  frequency.
\<close>

theorem pit_init_divisor:
  assumes "19 \<le> f"
  shows "\<exists>lo hi. pit_init f tr = Ret (Out8 0x40 hi # Out8 0x40 lo # Out8 0x43 0x36 # tr)
    \<and> unat lo + 256 * unat hi = 1193182 div unat f"
proof -
  let ?d = "1193182 div f :: u32"
  have f: "f \<noteq> 0" "19 \<le> unat f" using assms by (auto simp: word_le_nat_alt)
  have ud: "unat ?d = 1193182 div unat f" by (simp add: unat_div)
  have "unat ?d \<le> 1193182 div 19" unfolding ud by (rule div_le_mono2) (use f in auto)
  then have small: "unat ?d < 65536" by simp
  have lo: "unat (ucast (?d AND 0xFF) :: u8) = unat ?d mod 256"
    by (rule unat_low_byte)
  have hi: "unat (ucast (drop_bit 8 ?d AND 0xFF) :: u8) = unat ?d div 256"
    using small by (simp only: unat_low_byte unat_drop_bit32) simp
  have "unat ?d mod 256 + 256 * (unat ?d div 256) = unat ?d" by simp
  then show ?thesis using f(1) lo hi
    by (simp add: pit_init_def outb_def ud Let_def)
qed

lemma pit_init_divisor_witness:
  "\<exists>lo hi. pit_init 100 [] = Ret [Out8 0x40 hi, Out8 0x40 lo, Out8 0x43 0x36]
    \<and> unat lo + 256 * unat hi = 1193182 div unat (100::u32)"
  by (rule pit_init_divisor) simp

end
