(* ===== verification/Memory.thy ===== *)
theory Memory imports Prelude begin

text \<open>
  The byte-addressed, little-endian memory of the target, with 32-bit addresses that wrap.
  The C code reaches the heap's block headers, the frame bitmap, the page tables and the
  multiboot structures through pointers of several widths; here each such access is a
  \<open>load\<close> or a \<open>store\<close> of that width, so that overlapping objects (the heap's tail marker
  and the next header, say) overlap in the model too.
\<close>

type_synonym mem = "u32 \<Rightarrow> u8"

section \<open>Loads and stores\<close>

definition load32 :: "mem \<Rightarrow> u32 \<Rightarrow> u32" where
  "load32 m a = ucast (m a) OR push_bit 8 (ucast (m (a + 1)))
     OR push_bit 16 (ucast (m (a + 2))) OR push_bit 24 (ucast (m (a + 3)))"

definition store32 :: "mem \<Rightarrow> u32 \<Rightarrow> u32 \<Rightarrow> mem" where
  "store32 m a v = m(a := ucast v, a + 1 := ucast (drop_bit 8 v),
     a + 2 := ucast (drop_bit 16 v), a + 3 := ucast (drop_bit 24 v))"

definition load64 :: "mem \<Rightarrow> u32 \<Rightarrow> u64" where
  "load64 m a = ucast (load32 m a) OR push_bit 32 (ucast (load32 m (a + 4)))"

text \<open>Two regions of \<open>n\<close> and \<open>k\<close> bytes, at \<open>a\<close> and \<open>b\<close>, with no byte in common.\<close>

definition apart :: "nat \<Rightarrow> u32 \<Rightarrow> nat \<Rightarrow> u32 \<Rightarrow> bool" where
  "apart n a k b \<longleftrightarrow> n \<le> unat (b - a) \<and> k \<le> unat (a - b)"

lemma apart_commute: "apart n a k b \<longleftrightarrow> apart k b n a"
  by (auto simp: apart_def)

lemma load32_store32_same [mem_simps]: "load32 (store32 m a v) a = v"
proof (rule bit_word_eqI)
  fix n assume n: "n < LENGTH(32)"
  then consider "n < 8" | "8 \<le> n" "n < 16" | "16 \<le> n" "n < 24" | "24 \<le> n" "n < 32"
    by force
  then show "bit (load32 (store32 m a v) a) n = bit v n"
    by cases (auto simp: load32_def store32_def bit_simps)
qed

lemma apart_offsets:
  assumes ap: "apart n a k b" and i: "i < k" and j: "j < n"
    and n: "n \<le> 4294967296" and k: "k \<le> 4294967296"
  shows "b + of_nat i \<noteq> a + of_nat j"
proof
  assume "b + of_nat i = a + of_nat j"
  then have d: "b - a = of_nat j - of_nat i" "a - b = of_nat i - of_nat j"
    by (simp_all add: algebra_simps)
  show False
  proof (cases "i \<le> j")
    case True
    then have "unat (b - a) = j - i"
      using j n by (simp add: d of_nat32_diff unat_of_nat32 del: of_nat_diff)
    with ap j True show False unfolding apart_def by linarith
  next
    case False
    then have "unat (a - b) = i - j"
      using i k by (simp add: d of_nat32_diff unat_of_nat32 del: of_nat_diff)
    with ap i False show False unfolding apart_def by linarith
  qed
qed

text \<open>Regions with no byte in common are apart, so parts of apart regions are apart.\<close>

lemma apartI:
  assumes "\<And>i j. i < k \<Longrightarrow> j < n \<Longrightarrow> b + of_nat i \<noteq> a + of_nat j" and "0 < n" and "0 < k"
  shows "apart n a k b"
  unfolding apart_def
proof (intro conjI; rule ccontr)
  assume "\<not> n \<le> unat (b - a)"
  then have "b + of_nat 0 \<noteq> a + of_nat (unat (b - a))" using assms by (intro assms(1)) auto
  then show False by simp
next
  assume "\<not> k \<le> unat (a - b)"
  then have "b + of_nat (unat (a - b)) \<noteq> a + of_nat 0" using assms by (intro assms(1)) auto
  then show False by simp
qed

lemma apart_part:
  assumes "apart n a k b" and "i + n' \<le> n" and "j + k' \<le> k" and "0 < n'" and "0 < k'"
    and "n \<le> 4294967296" and "k \<le> 4294967296"
  shows "apart n' (a + of_nat i) k' (b + of_nat j)"
proof (rule apartI)
  fix x y assume "x < k'" and "y < n'"
  with assms have "b + of_nat (j + x) \<noteq> a + of_nat (i + y)"
    by (intro apart_offsets [OF assms(1)]) auto
  then show "b + of_nat j + of_nat x \<noteq> a + of_nat i + of_nat y"
    by (simp add: algebra_simps)
qed fact+

lemma apart_of_nat [mem_simps]:
  assumes "a + n \<le> b \<or> b + k \<le> a" and "a + n \<le> 4294967296" and "b + k \<le> 4294967296"
    and "0 < n" and "0 < k"
  shows "apart n (of_nat a) k (of_nat b)"
proof -
  have ne: "(of_nat a :: u32) \<noteq> of_nat b" and ne': "(of_nat b :: u32) \<noteq> of_nat a"
    using assms by (auto simp: of_nat32_eq_iff)
  show ?thesis
  proof (cases "a + n \<le> b")
    case True
    then have "unat (of_nat b - of_nat a :: u32) = b - a"
      using assms by (simp add: of_nat32_diff unat_of_nat32 del: of_nat_diff)
    with True assms unat32_diff_swap [OF ne] show ?thesis
      unfolding apart_def by (simp del: of_nat_diff) linarith
  next
    case False
    with assms have "b + k \<le> a" by simp
    moreover from this have "unat (of_nat a - of_nat b :: u32) = a - b"
      using assms by (simp add: of_nat32_diff unat_of_nat32 del: of_nat_diff)
    ultimately show ?thesis using assms unat32_diff_swap [OF ne']
      unfolding apart_def by (simp del: of_nat_diff) linarith
  qed
qed

lemma load32_cong:
  assumes "\<And>i. i < 4 \<Longrightarrow> m (a + of_nat i) = m' (a + of_nat i)"
  shows "load32 m a = load32 m' a"
  using assms [of 0] assms [of 1] assms [of 2] assms [of 3]
  by (simp add: load32_def)

lemma store32_other [mem_simps]: "4 \<le> unat (b - a) \<Longrightarrow> store32 m a v b = m b"
proof -
  assume ge: "4 \<le> unat (b - a)"
  have "b - a \<noteq> of_nat i" if "i < 4" for i
    using ge that by (auto simp: unat_of_nat32)
  from this [of 0] this [of 1] this [of 2] this [of 3]
  have "b \<noteq> a" "b \<noteq> a + 1" "b \<noteq> a + 2" "b \<noteq> a + 3"
    by (auto simp: algebra_simps)
  then show ?thesis by (simp add: store32_def)
qed

lemma load32_store32_apart [mem_simps]:
  assumes ap: "apart 4 a 4 b"
  shows "load32 (store32 m a v) b = load32 m b"
proof (rule load32_cong)
  fix i :: nat assume i: "i < 4"
  have "b + of_nat i \<noteq> a + of_nat j" if "j < 4" for j
    using apart_offsets [OF ap i that] by simp
  from this [of 0] this [of 1] this [of 2] this [of 3]
  show "store32 m a v (b + of_nat i) = m (b + of_nat i)"
    by (simp add: store32_def)
qed

section \<open>Runs of bytes\<close>

text \<open>
  \<open>write_bytes m p bs\<close> is \<open>m\<close> after the bytes \<open>bs\<close> were stored at \<open>p\<close>, \<open>p + 1\<close>, \<open>\<dots>\<close>
  in this order; \<open>read_bytes m p n\<close> are the \<open>n\<close> bytes at \<open>p\<close>.  They are what the copy
  loops of the string library are compared with.
\<close>

primrec write_bytes :: "mem \<Rightarrow> u32 \<Rightarrow> u8 list \<Rightarrow> mem" where
  "write_bytes m p [] = m"
| "write_bytes m p (b # bs) = write_bytes (m(p := b)) (p + 1) bs"

primrec read_bytes :: "mem \<Rightarrow> u32 \<Rightarrow> nat \<Rightarrow> u8 list" where
  "read_bytes m p 0 = []"
| "read_bytes m p (Suc n) = m p # read_bytes m (p + 1) n"

lemma length_read_bytes [simp]: "length (read_bytes m p n) = n"
  by (induction n arbitrary: p) simp_all

lemma read_bytes_nth: "i < n \<Longrightarrow> read_bytes m p n ! i = m (p + of_nat i)"
  by (induction n arbitrary: p i) (auto simp: nth_Cons algebra_simps split: nat.splits)

lemma write_bytes_outside [mem_simps]:
  "length bs \<le> unat (a - p) \<Longrightarrow> write_bytes m p bs a = m a"
proof (induction bs arbitrary: m p)
  case Nil
  then show ?case by simp
next
  case (Cons b bs)
  have ne: "a \<noteq> p" using Cons.prems by auto
  have "a - p = (a - (p + 1)) + 1" by simp
  have "unat (a - p) = unat (a - (p + 1)) + 1"
  proof -
    have "unat (a - (p + 1)) = unat ((a - p) - 1)" by (simp add: algebra_simps)
    also have "\<dots> = unat (a - p) - 1"
      using ne by (subst unat_minus_one) auto
    finally show ?thesis using Cons.prems by simp
  qed
  with Cons.prems have "length bs \<le> unat (a - (p + 1))" by simp
  then have "write_bytes (m(p := b)) (p + 1) bs a = (m(p := b)) a" by (rule Cons.IH)
  with ne show ?case by simp
qed

lemma write_bytes_append: "write_bytes m p (bs @ cs) = write_bytes (write_bytes m p bs) (p + of_nat (length bs)) cs"
  by (induction bs arbitrary: m p) (simp_all add: algebra_simps)

lemma write_bytes_inside:
  "i < length bs \<Longrightarrow> length bs \<le> 4294967296 \<Longrightarrow> write_bytes m p bs (p + of_nat i) = bs ! i"
proof (induction bs arbitrary: m p i)
  case Nil
  then show ?case by simp
next
  case (Cons b bs)
  show ?case
  proof (cases i)
    case 0
    have "p - (p + 1) = 4294967295" by simp
    then have "unat (p - (p + 1)) = 4294967295" by (simp only:) simp
    then have "write_bytes (m(p := b)) (p + 1) bs p = (m(p := b)) p"
      using Cons.prems by (intro write_bytes_outside) simp
    with 0 show ?thesis by simp
  next
    case (Suc k)
    have "write_bytes (m(p := b)) (p + 1) bs ((p + 1) + of_nat k) = bs ! k"
      using Cons.prems Suc by (intro Cons.IH) auto
    with Suc show ?thesis by (simp add: algebra_simps)
  qed
qed

lemma read_write_bytes [mem_simps]:
  "length bs \<le> 4294967296 \<Longrightarrow> read_bytes (write_bytes m p bs) p (length bs) = bs"
  by (rule nth_equalityI) (simp_all add: read_bytes_nth write_bytes_inside)

lemma write_bytes_update:
  "i < length bs \<Longrightarrow> length bs \<le> 4294967296 \<Longrightarrow>
   (write_bytes m p bs)(p + of_nat i := v) = write_bytes m p (bs[i := v])"
proof (rule ext)
  fix a assume i: "i < length bs" and len: "length bs \<le> 4294967296"
  show "((write_bytes m p bs)(p + of_nat i := v)) a = write_bytes m p (bs[i := v]) a"
  proof (cases "unat (a - p) < length bs")
    case True
    define j where "j = unat (a - p)"
    have a: "a = p + of_nat j" by (simp add: j_def)
    have j: "j < length bs" using True by (simp add: j_def)
    have eq: "((of_nat j :: u32) = of_nat i) \<longleftrightarrow> j = i"
      using i j len by (intro of_nat32_eq_iff) auto
    show ?thesis unfolding a
      using i j len by (auto simp: write_bytes_inside eq nth_list_update)
  next
    case False
    then have "a \<noteq> p + of_nat i" using i len by (auto simp: unat_of_nat32)
    with False show ?thesis by (simp add: write_bytes_outside)
  qed
qed

lemma write_bytes_at_end: "(write_bytes m p bs)(p + of_nat (length bs) := v) = write_bytes m p (bs @ [v])"
  by (simp add: write_bytes_append)

lemma read_bytes_append: "read_bytes m p (a + b) = read_bytes m p a @ read_bytes m (p + of_nat a) b"
  by (induction a arbitrary: p) (simp_all add: algebra_simps)

lemma write_read_bytes_same: "read_bytes m p n = bs \<Longrightarrow> write_bytes m p bs = m"
  by (induction n arbitrary: p bs) (auto simp: fun_upd_idem)

lemma read_bytes_cong:
  assumes "\<And>i. i < n \<Longrightarrow> m (p + of_nat i) = m' (p + of_nat i)"
  shows "read_bytes m p n = read_bytes m' p n"
  by (rule nth_equalityI) (simp_all add: read_bytes_nth assms)

lemma apart_outside:
  assumes "apart n a k b" and "i < k" and "n \<le> 4294967296" and "k \<le> 4294967296"
  shows "n \<le> unat (b + of_nat i - a)"
proof (rule ccontr)
  assume "\<not> ?thesis"
  then have lt: "unat (b + of_nat i - a) < n" by simp
  have "b + of_nat i = a + of_nat (unat (b + of_nat i - a))" by simp
  with apart_offsets [OF assms(1,2) lt assms(3,4)] show False by blast
qed

lemma read_write_bytes_apart [mem_simps]:
  assumes "apart (length bs) p n q" and "length bs \<le> 4294967296" and "n \<le> 4294967296"
  shows "read_bytes (write_bytes m p bs) q n = read_bytes m q n"
  by (rule read_bytes_cong) (use apart_outside [OF assms(1) _ assms(2,3)] in \<open>simp add: write_bytes_outside\<close>)

lemma load32_write_bytes_apart [mem_simps]:
  assumes "apart (length bs) p 4 a" and "length bs \<le> 4294967296"
  shows "load32 (write_bytes m p bs) a = load32 m a"
  by (rule load32_cong) (use apart_outside [OF assms(1) _ assms(2)] in \<open>simp add: write_bytes_outside\<close>)

section \<open>Addresses as natural numbers\<close>

text \<open>
  \<open>ad a\<close> is the address with the number \<open>a\<close>, and \<open>rd m a\<close> the word stored there.  Proofs
  about a layout compute with the numbers, whose sums do not wrap, and these rules bring
  every address of the code into the form \<open>ad a\<close>.
\<close>

definition ad :: "nat \<Rightarrow> u32" where "ad a = of_nat a"

definition rd :: "mem \<Rightarrow> nat \<Rightarrow> u32" where "rd m a = load32 m (ad a)"

lemma ad_0 [addr_simps]: "ad 0 = 0" by (simp add: ad_def)
lemma ad_add [addr_simps]: "ad a + ad b = ad (a + b)" by (simp add: ad_def)
lemma ad_add_numeral [addr_simps]: "ad a + numeral k = ad (a + numeral k)" by (simp add: ad_def)
lemma numeral_add_ad [addr_simps]: "numeral k + ad a = ad (numeral k + a)" by (simp add: ad_def)
lemma ad_diff [addr_simps]: "b \<le> a \<Longrightarrow> ad a - ad b = ad (a - b)" by (simp add: ad_def)
lemma ad_diff_numeral [addr_simps]: "numeral k \<le> a \<Longrightarrow> ad a - numeral k = ad (a - numeral k)"
  by (simp add: ad_def)
lemma ad_numeral: "ad (numeral k) = numeral k" by (simp add: ad_def)
lemma unat_ad [addr_simps]: "a < 4294967296 \<Longrightarrow> unat (ad a) = a" by (simp add: ad_def unat_of_nat32)
lemma ad_unat [addr_simps]: "ad (unat w) = w" by (simp add: ad_def)
lemma ad_eq_iff [addr_simps]: "a < 4294967296 \<Longrightarrow> b < 4294967296 \<Longrightarrow> ad a = ad b \<longleftrightarrow> a = b"
  by (simp add: ad_def of_nat32_eq_iff)
lemma ad_less_iff [addr_simps]: "a < 4294967296 \<Longrightarrow> b < 4294967296 \<Longrightarrow> ad a < ad b \<longleftrightarrow> a < b"
  by (simp add: ad_def of_nat32_less_iff)
lemma ad_le_iff [addr_simps]: "a < 4294967296 \<Longrightarrow> b < 4294967296 \<Longrightarrow> ad a \<le> ad b \<longleftrightarrow> a \<le> b"
  by (simp add: ad_def of_nat32_le_iff)
lemma ad_eq_0_iff [addr_simps]: "a < 4294967296 \<Longrightarrow> ad a = 0 \<longleftrightarrow> a = 0"
  using ad_eq_iff [of a 0] by (simp add: ad_0)
lemma ad_numeral_iffs [addr_simps]:
  assumes "a < 4294967296" and "(numeral k :: nat) < 4294967296"
  shows "ad a < numeral k \<longleftrightarrow> a < numeral k" and "numeral k < ad a \<longleftrightarrow> numeral k < a"
    and "ad a \<le> numeral k \<longleftrightarrow> a \<le> numeral k" and "numeral k \<le> ad a \<longleftrightarrow> numeral k \<le> a"
  using assms ad_less_iff [of a "numeral k"] ad_less_iff [of "numeral k" a]
    ad_le_iff [of a "numeral k"] ad_le_iff [of "numeral k" a]
  by (simp_all only: ad_numeral)

lemma load32_ad [mem_simps]: "load32 m (ad a) = rd m a"
  by (simp add: rd_def)

lemma rd_store_same [mem_simps]: "rd (store32 m (ad a) v) a = v"
  by (simp add: rd_def load32_store32_same)

lemma rd_store_below [mem_simps]:
  "b + 4 \<le> a \<Longrightarrow> a + 4 \<le> 4294967296 \<Longrightarrow> rd (store32 m (ad a) v) b = rd m b"
  by (simp add: rd_def ad_def load32_store32_apart apart_of_nat)

lemma rd_store_above [mem_simps]:
  "a + 4 \<le> b \<Longrightarrow> b + 4 \<le> 4294967296 \<Longrightarrow> rd (store32 m (ad a) v) b = rd m b"
  by (simp add: rd_def ad_def load32_store32_apart apart_of_nat)

lemma store_byte_outside:
  assumes "x < a \<or> a + 4 \<le> x" and "a + 4 \<le> 4294967296" and "x < 4294967296"
  shows "store32 m (ad a) v (ad x) = m (ad x)"
proof (rule store32_other)
  have "apart 4 (ad a) 1 (ad x)"
    unfolding ad_def using assms by (intro apart_of_nat) auto
  then show "4 \<le> unat (ad x - ad a)" by (simp add: apart_def)
qed

lemma store_bytes_eqI: "(\<And>i. i < 4 \<Longrightarrow> m (a + of_nat i) = store32 m a v (a + of_nat i)) \<Longrightarrow> store32 m a v = m"
proof (rule ext)
  fix x assume eq: "\<And>i. i < 4 \<Longrightarrow> m (a + of_nat i) = store32 m a v (a + of_nat i)"
  show "store32 m a v x = m x"
  proof (cases "4 \<le> unat (x - a)")
    case True
    then show ?thesis by (rule store32_other)
  next
    case False
    then show ?thesis using eq [of "unat (x - a)"] by simp
  qed
qed

lemma not_bit8: "8 \<le> n \<Longrightarrow> \<not> bit (w :: u8) n"
  using bit_imp_le_length [of w n] by auto

lemma store32_load32_same: "store32 m a (load32 m a) = m"
proof (rule store_bytes_eqI)
  fix i :: nat assume "i < 4"
  then consider "i = 0" | "i = 1" | "i = 2" | "i = 3" by linarith
  then show "m (a + of_nat i) = store32 m a (load32 m a) (a + of_nat i)"
    by cases (auto simp: store32_def load32_def bit_simps not_bit8 intro!: bit_word_eqI)
qed

lemma rd_store_aligned:
  assumes "4 dvd x" and "4 dvd y" and "x < 4294967296" and "y < 4294967296"
  shows "rd (store32 m (ad x) v) y = (if y = x then v else rd m y)"
proof -
  consider "y = x" | "y + 4 \<le> x" | "x + 4 \<le> y" using assms(1,2) by fastforce
  moreover have "x + 4 \<le> 4294967296" "y + 4 \<le> 4294967296" using assms by presburger+
  ultimately show ?thesis by cases (auto simp: rd_store_same rd_store_below rd_store_above)
qed

lemma store_idem: "rd m a = v \<Longrightarrow> store32 m (ad a) v = m"
  using store32_load32_same [of m "ad a"] by (simp add: rd_def)

section \<open>Two stores\<close>

lemma store32_inside: "unat (y - a) < 4 \<Longrightarrow> store32 m a v y = store32 m' a v y"
proof -
  assume "unat (y - a) < 4"
  then consider "unat (y - a) = 0" | "unat (y - a) = 1" | "unat (y - a) = 2" | "unat (y - a) = 3" by linarith
  moreover have "y = a + of_nat (unat (y - a))" by simp
  ultimately have "y = a \<or> y = a + 1 \<or> y = a + 2 \<or> y = a + 3" by cases auto
  then show ?thesis by (auto simp: store32_def)
qed

lemma store32_commute:
  assumes ap: "apart 4 a 4 b"
  shows "store32 (store32 m a u) b v = store32 (store32 m b v) a u"
proof (rule ext)
  fix y
  have "4 \<le> unat (y - a) \<or> 4 \<le> unat (y - b)"
  proof (rule ccontr)
    assume "\<not> ?thesis"
    then have "b + of_nat (unat (y - b)) \<noteq> a + of_nat (unat (y - a))"
      by (intro apart_offsets [OF ap]) auto
    then show False by simp
  qed
  then show "store32 (store32 m a u) b v y = store32 (store32 m b v) a u y"
    by (metis store32_other store32_inside not_le)
qed

lemma store_store_same: "store32 (store32 m a v) a w = store32 m a w"
proof (rule ext)
  fix x
  show "store32 (store32 m a v) a w x = store32 m a w x"
    by (cases "unat (x - a) < 4") (metis store32_inside, simp add: store32_other)
qed

section \<open>The bytes that an operation leaves alone\<close>

text \<open>A word stored at \<open>x\<close> changes the four bytes from \<open>x\<close> on.\<close>

definition touches :: "mem \<Rightarrow> mem \<Rightarrow> nat set \<Rightarrow> bool" where
  "touches m m' S \<longleftrightarrow> (\<forall>y < 4294967296. y \<notin> S \<longrightarrow> m' (ad y) = m (ad y))"

lemma touches_refl [simp]: "touches m m S"
  by (simp add: touches_def)

lemma touches_store:
  "touches m m' S \<Longrightarrow> {x..<x + 4} \<subseteq> S \<Longrightarrow> x + 4 \<le> 4294967296 \<Longrightarrow> touches m (store32 m' (ad x) v) S"
  unfolding touches_def
proof (intro allI impI)
  fix y assume m: "\<forall>y<4294967296. y \<notin> S \<longrightarrow> m' (ad y) = m (ad y)" and S: "{x..<x + 4} \<subseteq> S"
    and x: "x + 4 \<le> 4294967296" and y: "y < 4294967296" "y \<notin> S"
  have "y < x \<or> x + 4 \<le> y" using S y(2) by (meson atLeastLessThan_iff not_le subsetD)
  with m x y show "store32 m' (ad x) v (ad y) = m (ad y)" by (simp add: store_byte_outside)
qed

lemma touches_mono: "touches m m' S \<Longrightarrow> S \<subseteq> T \<Longrightarrow> touches m m' T"
  by (auto simp: touches_def)

lemma touches_trans: "touches m m' S \<Longrightarrow> touches m' m'' S \<Longrightarrow> touches m m'' S"
  by (simp add: touches_def)

lemma write_byte_outside:
  assumes "y < x \<or> x + length bs \<le> y" and "x + length bs \<le> 4294967296" and "y < 4294967296"
  shows "write_bytes m (ad x) bs (ad y) = m (ad y)"
proof (cases "bs = []")
  case False
  have "apart (length bs) (ad x) 1 (ad y)" unfolding ad_def
    by (rule apart_of_nat) (use assms False in auto)
  from apart_outside [OF this, of 0] assms(2) show ?thesis by (simp add: write_bytes_outside)
qed simp

lemma touches_write:
  assumes "touches m m' S" and "{x..<x + length bs} \<subseteq> S" and "x + length bs \<le> 4294967296"
  shows "touches m (write_bytes m' (ad x) bs) S"
  unfolding touches_def
proof (intro allI impI)
  fix y assume y: "y < 4294967296" "y \<notin> S"
  then have "y < x \<or> x + length bs \<le> y" using assms(2) by (meson atLeastLessThan_iff not_le subsetD)
  from write_byte_outside [OF this assms(3) y(1)] assms(1) y
  show "write_bytes m' (ad x) bs (ad y) = m (ad y)" by (simp add: touches_def)
qed

lemma touches_byte: "touches m m' S \<Longrightarrow> y < 4294967296 \<Longrightarrow> y \<notin> S \<Longrightarrow> m' (ad y) = m (ad y)"
  by (simp add: touches_def)

lemma touches_read:
  assumes "touches m m' S" and "{x..<x + n} \<inter> S = {}" and "x + n \<le> 4294967296"
  shows "read_bytes m' (ad x) n = read_bytes m (ad x) n"
proof (rule read_bytes_cong)
  fix i assume "i < n"
  then have "x + i < 4294967296" "x + i \<notin> S" using assms(2,3) by (auto simp: disjoint_iff)
  then show "m' (ad x + of_nat i) = m (ad x + of_nat i)"
    using touches_byte [OF assms(1), of "x + i"] by (simp add: ad_def)
qed

lemma touches_rd:
  assumes "touches m m' S" and "{x..<x + 4} \<inter> S = {}" and "x + 4 \<le> 4294967296"
  shows "rd m' x = rd m x"
  unfolding rd_def
proof (rule load32_cong)
  fix i :: nat assume "i < 4"
  then have "x + i < 4294967296" "x + i \<notin> S" using assms(2,3) by (auto simp: disjoint_iff)
  then show "m' (ad x + of_nat i) = m (ad x + of_nat i)"
    using touches_byte [OF assms(1), of "x + i"] by (simp add: ad_def)
qed

end
