(* ===== verification/Kstring.thy ===== *)
theory Kstring imports Memory begin

text \<open>
  \<^verbatim>\<open>lib/string.c\<close>: the string and memory routines, on the byte-addressed memory.  A
  loop whose end depends on the bytes it meets is a \<open>partial_function (option)\<close>: \<open>None\<close>
  is a loop that never ends.  A routine that writes returns the new memory (the pointer
  it returns, always its first argument, is not repeated).
\<close>

section \<open>The routines\<close>

text \<open>\<^verbatim>\<open>strlen\<close>\<close>

partial_function (option) strlen_loop :: "mem \<Rightarrow> u32 \<Rightarrow> u32 \<Rightarrow> u32 option" where
  "strlen_loop m str len =
     (if m (str + len) \<noteq> 0 then strlen_loop m str (len + 1) else Some len)"

definition strlen :: "mem \<Rightarrow> u32 \<Rightarrow> u32 option" where
  "strlen m str = strlen_loop m str 0"

text \<open>\<^verbatim>\<open>strcmp\<close> and \<^verbatim>\<open>strncmp\<close>: the difference of the first two characters that
  differ, as signed characters promoted to \<open>int\<close>.\<close>

partial_function (option) strcmp :: "mem \<Rightarrow> u32 \<Rightarrow> u32 \<Rightarrow> int option" where
  "strcmp m a b =
     (if m a \<noteq> 0 \<and> m b \<noteq> 0
      then (if m a \<noteq> m b then Some (sint (m a) - sint (m b)) else strcmp m (a + 1) (b + 1))
      else Some (sint (m a) - sint (m b)))"

function strncmp :: "mem \<Rightarrow> u32 \<Rightarrow> u32 \<Rightarrow> u32 \<Rightarrow> int" where
  "strncmp m a b n =
     (if n \<noteq> 0 \<and> m a \<noteq> 0 \<and> m b \<noteq> 0
      then (if m a \<noteq> m b then sint (m a) - sint (m b) else strncmp m (a + 1) (b + 1) (n - 1))
      else if n = 0 then 0 else sint (m a) - sint (m b))"
  by pat_completeness auto
termination
  by (relation "measure (\<lambda>(m, a, b, n). unat n)") (auto simp: unat_minus_one unat_gt_0)

text \<open>\<^verbatim>\<open>strcpy\<close>: one byte at a time, the terminator included; overlapping arguments are
  copied as the loop copies them.\<close>

partial_function (option) strcpy :: "mem \<Rightarrow> u32 \<Rightarrow> u32 \<Rightarrow> mem option" where
  "strcpy m dest src =
     (let c = m src; m' = m(dest := c)
      in if c \<noteq> 0 then strcpy m' (dest + 1) (src + 1) else Some m')"

text \<open>\<^verbatim>\<open>strncpy\<close>: first the characters of the source, then zeros up to \<open>n\<close> bytes.\<close>

function strncpy_pad :: "mem \<Rightarrow> u32 \<Rightarrow> u32 \<Rightarrow> mem" where
  "strncpy_pad m dest n = (if n \<noteq> 0 then strncpy_pad (m(dest := 0)) (dest + 1) (n - 1) else m)"
  by pat_completeness auto
termination
  by (relation "measure (\<lambda>(m, dest, n). unat n)") (auto simp: unat_minus_one unat_gt_0)

function strncpy :: "mem \<Rightarrow> u32 \<Rightarrow> u32 \<Rightarrow> u32 \<Rightarrow> mem" where
  "strncpy m dest src n =
     (if n \<noteq> 0 \<and> m src \<noteq> 0
      then strncpy (m(dest := m src)) (dest + 1) (src + 1) (n - 1)
      else strncpy_pad m dest n)"
  by pat_completeness auto
termination
  by (relation "measure (\<lambda>(m, dest, src, n). unat n)") (auto simp: unat_minus_one unat_gt_0)

text \<open>\<^verbatim>\<open>memcpy\<close> and \<^verbatim>\<open>memset\<close>: \<open>while (n--)\<close> runs \<open>n\<close> times.\<close>

function memcpy :: "mem \<Rightarrow> u32 \<Rightarrow> u32 \<Rightarrow> u32 \<Rightarrow> mem" where
  "memcpy m d s n = (if n \<noteq> 0 then memcpy (m(d := m s)) (d + 1) (s + 1) (n - 1) else m)"
  by pat_completeness auto
termination
  by (relation "measure (\<lambda>(m, d, s, n). unat n)") (auto simp: unat_minus_one unat_gt_0)

function memset :: "mem \<Rightarrow> u32 \<Rightarrow> u32 \<Rightarrow> u32 \<Rightarrow> mem" where
  "memset m d v n = (if n \<noteq> 0 then memset (m(d := ucast v)) (d + 1) v (n - 1) else m)"
  by pat_completeness auto
termination
  by (relation "measure (\<lambda>(m, d, v, n). unat n)") (auto simp: unat_minus_one unat_gt_0)

text \<open>\<^verbatim>\<open>strcat\<close>: find the terminator of \<open>dest\<close>, then copy.\<close>

partial_function (option) strcat_end :: "mem \<Rightarrow> u32 \<Rightarrow> u32 option" where
  "strcat_end m dest = (if m dest \<noteq> 0 then strcat_end m (dest + 1) else Some dest)"

definition strcat :: "mem \<Rightarrow> u32 \<Rightarrow> u32 \<Rightarrow> mem option" where
  "strcat m dest src = Option.bind (strcat_end m dest) (\<lambda>e. strcpy m e src)"

text \<open>\<^verbatim>\<open>atoi\<close> and \<^verbatim>\<open>atoi_hex\<close>: the 32-bit \<open>int\<close> result, wrapping as the compiled
  code does.\<close>

partial_function (option) atoi_loop :: "mem \<Rightarrow> u32 \<Rightarrow> u32 \<Rightarrow> u32 option" where
  "atoi_loop m str result =
     (if m str \<noteq> 0
      then (if sint (m str) < 48 \<or> sint (m str) > 57 then Some result
            else atoi_loop m (str + 1) (result * 10 + (scast (m str) - 48)))
      else Some result)"

definition atoi :: "mem \<Rightarrow> u32 \<Rightarrow> u32 option" where
  "atoi m str = atoi_loop m str 0"

definition hex_value :: "u8 \<Rightarrow> u32 option" where
  "hex_value c =
     (if 48 \<le> sint c \<and> sint c \<le> 57 then Some (scast c - 48)
      else if 97 \<le> sint c \<and> sint c \<le> 102 then Some (scast c - 97 + 10)
      else if 65 \<le> sint c \<and> sint c \<le> 70 then Some (scast c - 65 + 10)
      else None)"

partial_function (option) atoi_hex_loop :: "mem \<Rightarrow> u32 \<Rightarrow> u32 \<Rightarrow> u32 option" where
  "atoi_hex_loop m str result =
     (if m str \<noteq> 0
      then (case hex_value (m str) of
              None \<Rightarrow> Some result
            | Some v \<Rightarrow> atoi_hex_loop m (str + 1) (result * 16 + v))
      else Some result)"

definition atoi_hex :: "mem \<Rightarrow> u32 \<Rightarrow> u32 option" where
  "atoi_hex m str =
     (let str' = (if m str = 48 \<and> (m (str + 1) = 120 \<or> m (str + 1) = 88) then str + 2 else str)
      in atoi_hex_loop m str' 0)"

text \<open>
  \<^verbatim>\<open>utoa\<close>: the digits are stored least significant first, then the string is reversed
  in place.  A base of 0 divides by zero (a processor fault) and a base of 1 never ends;
  both are \<open>None\<close>.
\<close>

definition utoa_digit :: "u32 \<Rightarrow> u8" where
  "utoa_digit d = (if d < 10 then 48 + ucast d else 65 + ucast (d - 10))"

partial_function (option) utoa_digits :: "mem \<Rightarrow> u32 \<Rightarrow> u32 \<Rightarrow> u32 \<Rightarrow> (mem \<times> u32) option" where
  "utoa_digits m ptr value base =
     (if value \<noteq> 0
      then (if base = 0 then None
            else utoa_digits (m(ptr := utoa_digit (value mod base))) (ptr + 1) (value div base) base)
      else Some (m, ptr))"

partial_function (option) utoa_reverse :: "mem \<Rightarrow> u32 \<Rightarrow> u32 \<Rightarrow> mem option" where
  "utoa_reverse m ptr1 ptr =
     (if ptr1 < ptr
      then (let tmp = m ptr; m1 = m(ptr := m ptr1); m2 = m1(ptr1 := tmp)
            in utoa_reverse m2 (ptr1 + 1) (ptr - 1))
      else Some m)"

definition utoa :: "mem \<Rightarrow> u32 \<Rightarrow> u32 \<Rightarrow> u32 \<Rightarrow> mem option" where
  "utoa m value buffer base =
     (if value = 0 then Some (m(buffer := 48, buffer + 1 := 0))
      else Option.bind (utoa_digits m buffer value base)
             (\<lambda>(m', ptr). utoa_reverse (m'(ptr := 0)) buffer (ptr - 1)))"

declare strncmp.simps [simp del] strncpy.simps [simp del] strncpy_pad.simps [simp del]
  memcpy.simps [simp del] memset.simps [simp del]

section \<open>Strings in memory\<close>

text \<open>\<open>cstr m p s\<close>: a zero-terminated string with the characters \<open>s\<close> lies at \<open>p\<close>.\<close>

primrec cstr :: "mem \<Rightarrow> u32 \<Rightarrow> u8 list \<Rightarrow> bool" where
  "cstr m p [] \<longleftrightarrow> m p = 0"
| "cstr m p (c # cs) \<longleftrightarrow> m p = c \<and> c \<noteq> 0 \<and> cstr m (p + 1) cs"

lemma cstr_read_bytes:
  "cstr m p s \<longleftrightarrow> read_bytes m p (length s + 1) = s @ [0] \<and> 0 \<notin> set s"
  by (induction s arbitrary: p) auto

lemma cstr_unique: "cstr m p s \<Longrightarrow> cstr m p t \<Longrightarrow> s = t"
proof (induction s arbitrary: p t)
  case Nil
  then show ?case by (cases t) auto
next
  case (Cons c s)
  then show ?case by (cases t) auto
qed

lemma cstr_cong:
  assumes "cstr m p s" and "\<And>i. i \<le> length s \<Longrightarrow> m' (p + of_nat i) = m (p + of_nat i)"
  shows "cstr m' p s"
proof -
  have "read_bytes m' p (length s + 1) = read_bytes m p (length s + 1)"
    by (rule read_bytes_cong) (use assms(2) in auto)
  with assms(1) show ?thesis by (simp add: cstr_read_bytes del: read_bytes.simps)
qed

lemma cstr_write_bytes:
  "length s < 4294967296 \<Longrightarrow> 0 \<notin> set s \<Longrightarrow> cstr (write_bytes m p (s @ [0])) p s"
  using read_write_bytes [of "s @ [0]" m p] by (simp only: cstr_read_bytes) simp

lemma cstr_length:
  assumes "cstr m p s" shows "length s < 4294967296"
proof (rule ccontr)
  assume "\<not> ?thesis"
  then have len: "4294967296 \<le> length s" by simp
  have bytes: "read_bytes m p (length s + 1) = s @ [0]" "0 \<notin> set s"
    using assms [unfolded cstr_read_bytes] by blast+
  have "m (p + of_nat (length s)) = read_bytes m p (length s + 1) ! length s"
    by (simp only: read_bytes_nth)
  then have z: "m (p + of_nat (length s)) = 0" by (simp only: bytes) (simp add: nth_append)
  define k where "k = length s mod 4294967296"
  have k: "(of_nat (length s) :: u32) = of_nat k" "k < length s"
    using len by (simp_all add: k_def word_of_nat_eq_iff take_bit_eq_mod)
  have "s ! k = read_bytes m p (length s + 1) ! k"
    using k(2) by (simp only: bytes) (simp add: nth_append)
  also have "\<dots> = m (p + of_nat k)" using k(2) by (simp only: read_bytes_nth)
  finally have "s ! k = 0" using z k(1) by simp
  with k(2) bytes(2) show False by (metis nth_mem)
qed

section \<open>Reading routines\<close>

lemma strlen_loop_cstr: "cstr m (str + len) s \<Longrightarrow> strlen_loop m str len = Some (len + of_nat (length s))"
proof (induction s arbitrary: len)
  case Nil
  then show ?case by (simp add: strlen_loop.simps)
next
  case (Cons c s)
  have "strlen_loop m str (len + 1) = Some (len + 1 + of_nat (length s))"
    using Cons.prems by (intro Cons.IH) (simp add: algebra_simps)
  with Cons.prems show ?case by (subst strlen_loop.simps) (simp add: algebra_simps)
qed

text \<open>
  On a zero-terminated string \<open>strlen\<close> ends and returns the number of characters
  before the terminator.
\<close>

theorem strlen_correct:
  assumes "cstr m p s"
  shows "strlen m p = Some (of_nat (length s))"
  using strlen_loop_cstr [of m p 0 s] assms by (simp add: strlen_def)

lemma strcmp_step: "strcmp m a b =
     (if m a \<noteq> 0 \<and> m b \<noteq> 0 \<and> m a = m b then strcmp m (a + 1) (b + 1)
      else Some (sint (m a) - sint (m b)))"
  by (subst strcmp.simps) auto

theorem strcmp_eq_iff:
  assumes "cstr m a s" and "cstr m b t"
  shows "\<exists>r. strcmp m a b = Some r \<and> (r = 0 \<longleftrightarrow> s = t)"
  using assms
proof (induction s arbitrary: a b t)
  case Nil
  then show ?case by (cases t; subst strcmp_step) auto
next
  case (Cons c s)
  show ?case
  proof (cases t)
    case Nil
    with Cons.prems show ?thesis by (subst strcmp_step) auto
  next
    case t: (Cons d t')
    show ?thesis
    proof (cases "c = d")
      case True
      from Cons.prems t Cons.IH [of "a + 1" "b + 1" t']
      show ?thesis using True by (subst strcmp_step) auto
    next
      case False
      with Cons.prems t show ?thesis by (subst strcmp_step) auto
    qed
  qed
qed

lemma strncmp_0 [simp]: "strncmp m a b 0 = 0"
  by (subst strncmp.simps) simp

lemma strncmp_step: "n \<noteq> 0 \<Longrightarrow> strncmp m a b n =
     (if m a \<noteq> 0 \<and> m b \<noteq> 0 \<and> m a = m b then strncmp m (a + 1) (b + 1) (n - 1)
      else sint (m a) - sint (m b))"
  by (subst strncmp.simps) auto

theorem strncmp_prefix_iff:
  assumes "cstr m a s" and "cstr m b t"
  shows "strncmp m a b n = 0 \<longleftrightarrow> take (unat n) s = take (unat n) t"
  using assms
proof (induction s arbitrary: a b t n)
  case Nil
  then show ?case by (cases "n = 0"; cases t) (auto simp: strncmp_step unat_pred32)
next
  case (Cons c s)
  show ?case
  proof (cases "n = 0")
    case n: False
    show ?thesis
    proof (cases t)
      case Nil
      with Cons.prems n show ?thesis by (auto simp: strncmp_step unat_pred32)
    next
      case t: (Cons d t')
      with Cons.prems Cons.IH [of "a + 1" "b + 1" t' "n - 1"] n
      show ?thesis by (auto simp: strncmp_step unat_pred32)
    qed
  qed simp
qed

section \<open>Copying routines\<close>

text \<open>
  The copies are correct when the bytes still to be read are not the ones being written.
  Moving both pointers one byte further keeps the regions apart.
\<close>

lemma apart_tails:
  assumes "apart (Suc n) d (Suc k) s" and "0 < n" "0 < k" "n < 4294967296" "k < 4294967296"
  shows "apart n (d + 1) k (s + 1)" "apart (Suc n) d k (s + 1)"
  using apart_part [OF assms(1), of 1 n 1 k] apart_part [OF assms(1), of 0 "Suc n" 1 k] assms(2-)
  by simp_all

lemma apart_head:
  assumes "apart n d k s" "i < k" "0 < n" "n \<le> 4294967296" "k \<le> 4294967296"
  shows "s + of_nat i \<noteq> d"
  using apart_offsets [OF assms(1,2), of 0] assms(3-5) by simp

lemma strcpy_step: "strcpy m dest src =
    (if m src \<noteq> 0 then strcpy (m(dest := m src)) (dest + 1) (src + 1) else Some (m(dest := 0)))"
  by (subst strcpy.simps) (simp add: Let_def)

lemma cstr_update_apart:
  assumes "cstr m p s" and "apart n d (Suc (length s)) p" and "0 < n" "n \<le> 4294967296"
  shows "cstr (m(d := v)) p s"
proof (rule cstr_cong [OF assms(1)])
  fix i assume "i \<le> length s"
  then have "p + of_nat i \<noteq> d"
    using apart_head [OF assms(2)] assms(3,4) cstr_length [OF assms(1)] by simp
  then show "(m(d := v)) (p + of_nat i) = m (p + of_nat i)" by simp
qed

theorem strcpy_correct:
  assumes "cstr m src s" and "apart (length s + 1) dest (length s + 1) src"
  shows "strcpy m dest src = Some (write_bytes m dest (s @ [0]))"
  using assms
proof (induction s arbitrary: m dest src)
  case Nil
  then show ?case by (subst strcpy_step) simp
next
  case (Cons c s)
  have len: "Suc (length s) < 4294967296" using cstr_length [OF Cons.prems(1)] by simp
  have src: "m src = c" "c \<noteq> 0" "cstr m (src + 1) s" using Cons.prems(1) by auto
  note ap = apart_tails [of "Suc (length s)" dest "Suc (length s)" src]
  have "cstr (m(dest := c)) (src + 1) s"
    using cstr_update_apart [OF src(3)] ap(2) Cons.prems(2) len by simp
  then have "strcpy (m(dest := c)) (dest + 1) (src + 1) =
      Some (write_bytes (m(dest := c)) (dest + 1) (s @ [0]))"
    using ap(1) Cons.prems(2) len by (intro Cons.IH) (simp_all del: fun_upd_apply)
  with src show ?case by (subst strcpy_step) simp
qed

lemma strncpy_pad_eq: "strncpy_pad m dest n = write_bytes m dest (replicate (unat n) 0)"
proof (induction m dest n rule: strncpy_pad.induct)
  case (1 m dest n)
  show ?case
  proof (cases "n = 0")
    case True
    then show ?thesis by (subst strncpy_pad.simps) simp
  next
    case False
    with 1 show ?thesis by (subst strncpy_pad.simps) (simp add: unat_pred32 del: fun_upd_apply)
  qed
qed

theorem strncpy_correct:
  assumes "cstr m src s" and "apart (unat n) dest (length s + 1) src \<or> n = 0"
  shows "strncpy m dest src n =
    write_bytes m dest (take (unat n) s @ replicate (unat n - length s) 0)"
  using assms
proof (induction s arbitrary: m dest src n)
  case Nil
  then show ?case by (subst strncpy.simps) (simp add: strncpy_pad_eq)
next
  case (Cons c s)
  show ?case
  proof (cases "n = 0")
    case True
    then show ?thesis by (subst strncpy.simps) (simp add: strncpy_pad_eq)
  next
    case n: False
    let ?n = "unat (n - 1)"
    have un: "unat n = Suc ?n" using n by (rule unat_pred32)
    have len: "Suc (length s) < 4294967296" using cstr_length [OF Cons.prems(1)] by simp
    have src: "m src = c" "c \<noteq> 0" "cstr m (src + 1) s" using Cons.prems(1) by auto
    have ap: "apart (Suc ?n) dest (Suc (Suc (length s))) src" using Cons.prems(2) n un by simp
    have bound: "Suc ?n \<le> 4294967296" using unat32_less [of n] un by simp
    have "apart (Suc ?n) dest (Suc (length s)) (src + 1)"
      using apart_part [OF ap, of 0 "Suc ?n" 1 "Suc (length s)"] len bound by simp
    then have "cstr (m(dest := c)) (src + 1) s"
      using bound by (intro cstr_update_apart [OF src(3), of "Suc ?n"]) simp_all
    moreover have "apart ?n (dest + 1) (length s + 1) (src + 1) \<or> n - 1 = 0"
      using apart_part [OF ap, of 1 ?n 1 "Suc (length s)"] len bound
      by (cases "n - 1 = 0") (simp_all add: unat_gt_0)
    ultimately have "strncpy (m(dest := c)) (dest + 1) (src + 1) (n - 1) =
        write_bytes (m(dest := c)) (dest + 1) (take ?n s @ replicate (?n - length s) 0)"
      by (rule Cons.IH)
    with src n show ?thesis by (subst strncpy.simps) (simp add: un)
  qed
qed

theorem memset_correct: "memset m d v n = write_bytes m d (replicate (unat n) (ucast v))"
proof (induction m d v n rule: memset.induct)
  case (1 m d v n)
  show ?case
  proof (cases "n = 0")
    case True
    then show ?thesis by (subst memset.simps) simp
  next
    case False
    with 1 show ?thesis by (subst memset.simps) (simp add: unat_pred32 del: fun_upd_apply)
  qed
qed

lemma read_bytes_update_apart:
  assumes "apart n d k s" "0 < n" "n \<le> 4294967296" "k \<le> 4294967296"
  shows "read_bytes (m(d := v)) s k = read_bytes m s k"
  by (rule read_bytes_cong) (use apart_head [OF assms(1) _ assms(2-)] in auto)

theorem memcpy_correct:
  assumes "n = 0 \<or> apart (unat n) d (unat n) s"
  shows "memcpy m d s n = write_bytes m d (read_bytes m s (unat n))"
  using assms
proof (induction m d s n rule: memcpy.induct)
  case (1 m d s n)
  show ?case
  proof (cases "n = 0")
    case True
    then show ?thesis by (subst memcpy.simps) simp
  next
    case n: False
    let ?n = "unat (n - 1)"
    have un: "unat n = Suc ?n" using n by (rule unat_pred32)
    have bound: "Suc ?n \<le> 4294967296" using unat32_less [of n] un by simp
    have ap: "apart (Suc ?n) d (Suc ?n) s" using "1.prems" n un by simp
    show ?thesis
    proof (cases "n - 1 = 0")
      case True
      with n show ?thesis by (subst memcpy.simps) (subst memcpy.simps, simp add: un)
    next
      case False
      then have pos: "0 < ?n" by (simp add: unat_gt_0)
      have "memcpy (m(d := m s)) (d + 1) (s + 1) (n - 1) =
          write_bytes (m(d := m s)) (d + 1) (read_bytes (m(d := m s)) (s + 1) ?n)"
        using apart_tails(1) [OF ap pos pos] bound n by (intro "1.IH") simp_all
      also have "read_bytes (m(d := m s)) (s + 1) ?n = read_bytes m (s + 1) ?n"
        using apart_tails(2) [OF ap pos pos] bound by (intro read_bytes_update_apart) auto
      finally show ?thesis using n by (subst memcpy.simps) (simp add: un del: fun_upd_apply)
    qed
  qed
qed

lemma strcat_end_cstr: "cstr m p s \<Longrightarrow> strcat_end m p = Some (p + of_nat (length s))"
  by (induction s arbitrary: p) (subst strcat_end.simps, simp add: algebra_simps)+

text \<open>
  \<open>strcat\<close> appends: when the source is apart from the destination's string and from the
  bytes that are added behind it, the destination holds the concatenation.
\<close>

theorem strcat_correct:
  assumes "cstr m d s" and "cstr m p t"
    and "apart (length s + length t + 1) d (length t + 1) p"
    and "length s + length t < 4294967295"
  shows "\<exists>m'. strcat m d p = Some m' \<and> cstr m' d (s @ t) \<and>
    (\<forall>a. length s + length t + 1 \<le> unat (a - d) \<longrightarrow> m' a = m a)"
proof -
  let ?m' = "write_bytes m (d + of_nat (length s)) (t @ [0])"
  have "apart (length t + 1) (d + of_nat (length s)) (length t + 1) p"
    using apart_part [OF assms(3), of "length s" "length t + 1" 0 "length t + 1"] assms(4)
    by simp
  then have "strcat m d p = Some ?m'"
    using strcpy_correct [OF assms(2)] by (simp add: strcat_def strcat_end_cstr [OF assms(1)])
  moreover have same: "write_bytes m d s = m"
  proof (rule write_read_bytes_same)
    have "read_bytes m d (length s) @ read_bytes m (d + of_nat (length s)) 1 = s @ [0]"
      using assms(1) by (simp only: read_bytes_append [symmetric] cstr_read_bytes)
    then show "read_bytes m d (length s) = s" by simp
  qed
  then have eq: "?m' = write_bytes m d ((s @ t) @ [0])"
    by (simp only: append_assoc write_bytes_append [of m d s])
  have "0 \<notin> set (s @ t)" using assms(1,2) by (simp add: cstr_read_bytes)
  then have "cstr ?m' d (s @ t)"
    unfolding eq using assms(4) by (intro cstr_write_bytes) simp_all
  moreover have "\<forall>a. length s + length t + 1 \<le> unat (a - d) \<longrightarrow> ?m' a = m a"
    unfolding eq by (simp add: write_bytes_outside del: write_bytes.simps)
  ultimately show ?thesis by blast
qed

section \<open>Numbers and their digits\<close>

text \<open>
  The digits of a number, least significant first, and the text \<open>utoa\<close> should leave in
  the buffer.
\<close>

function lsb_digits :: "nat \<Rightarrow> nat \<Rightarrow> nat list" where
  "lsb_digits base v = (if v = 0 \<or> base < 2 then [] else v mod base # lsb_digits base (v div base))"
  by pat_completeness auto
termination
  by (relation "measure (\<lambda>(base, v). v)") auto

declare lsb_digits.simps [simp del]

definition utoa_text :: "nat \<Rightarrow> nat \<Rightarrow> u8 list" where
  "utoa_text base v = (if v = 0 then [48] else map (\<lambda>d. utoa_digit (of_nat d)) (rev (lsb_digits base v)))"

lemma lsb_digits_less: "2 \<le> base \<Longrightarrow> d \<in> set (lsb_digits base v) \<Longrightarrow> d < base"
proof (induction base v rule: lsb_digits.induct)
  case (1 base v)
  show ?case
  proof (cases "v = 0")
    case True
    with "1.prems" show ?thesis by (simp add: lsb_digits.simps)
  next
    case False
    then have "lsb_digits base v = v mod base # lsb_digits base (v div base)"
      using "1.prems"(1) by (subst lsb_digits.simps) simp
    with "1.prems" "1.IH" False show ?thesis by auto
  qed
qed

lemma length_lsb_digits: "v < base ^ n \<Longrightarrow> length (lsb_digits base v) \<le> n"
proof (induction n arbitrary: v)
  case 0
  then show ?case by (simp add: lsb_digits.simps)
next
  case (Suc n)
  show ?case
  proof (cases "v = 0 \<or> base < 2")
    case True
    then show ?thesis by (subst lsb_digits.simps) simp
  next
    case False
    have "v div base < base ^ n"
      using Suc.prems False by (simp add: less_mult_imp_div_less mult.commute)
    with Suc.IH [of "v div base"] False show ?thesis by (subst lsb_digits.simps) simp
  qed
qed

lemma lsb_digits_value: "2 \<le> base \<Longrightarrow> foldr (\<lambda>d n. n * base + d) (lsb_digits base v) 0 = v"
proof (induction base v rule: lsb_digits.induct)
  case (1 base v)
  show ?case
  proof (cases "v = 0")
    case True
    then show ?thesis by (simp add: lsb_digits.simps)
  next
    case False
    then have "lsb_digits base v = v mod base # lsb_digits base (v div base)"
      using "1.prems"(1) by (subst lsb_digits.simps) simp
    with "1.prems" "1.IH" False show ?thesis by simp
  qed
qed

lemma lsb_digits_Nil_iff: "2 \<le> base \<Longrightarrow> lsb_digits base v = [] \<longleftrightarrow> v = 0"
  by (subst lsb_digits.simps) auto

lemma length_lsb_digits32:
  assumes "2 \<le> base" shows "length (lsb_digits base (unat (v::u32))) \<le> 32"
proof (rule length_lsb_digits)
  have "unat v < 2 ^ 32" using unat32_less [of v] by simp
  also have "(2::nat) ^ 32 \<le> base ^ 32" using assms by (intro power_mono) auto
  finally show "unat v < base ^ 32" .
qed

subsection \<open>Printing\<close>

lemma utoa_digits_eq:
  assumes "2 \<le> base"
  shows "utoa_digits m ptr v base =
    (let ds = map (\<lambda>d. utoa_digit (of_nat d)) (lsb_digits (unat base) (unat v))
     in Some (write_bytes m ptr ds, ptr + of_nat (length ds)))"
proof -
  have base: "base \<noteq> 0" "\<not> unat base < 2" using assms by (auto simp: word_le_nat_alt)
  show ?thesis
  proof (induction "unat v" arbitrary: m ptr v rule: less_induct)
    case less
    show ?case
    proof (cases "v = 0")
      case True
      then show ?thesis by (subst utoa_digits.simps) (simp add: lsb_digits.simps)
    next
      case False
      let ?q = "v div base"
      have q: "unat ?q = unat v div unat base" by (rule unat_div)
      have "unat ?q < unat v" using False base unat_gt_0 [of v] by (simp add: q)
      note IH = less [OF this]
      have "lsb_digits (unat base) (unat v) =
          unat v mod unat base # lsb_digits (unat base) (unat ?q)"
        using False base(2) by (subst lsb_digits.simps) (simp add: unat_0_iff q)
      moreover have "(of_nat (unat v mod unat base) :: u32) = v mod base"
        by (simp flip: unat_mod)
      ultimately show ?thesis
        using False base(1) IH by (subst utoa_digits.simps) (simp add: Let_def algebra_simps)
    qed
  qed
qed

text \<open>The reversal in place, on the list of bytes the buffer holds.\<close>

function swap_ends :: "nat \<Rightarrow> nat \<Rightarrow> 'a list \<Rightarrow> 'a list" where
  "swap_ends p q xs = (if p < q then swap_ends (Suc p) (q - 1) (xs[q := xs ! p, p := xs ! q]) else xs)"
  by pat_completeness auto
termination
  by (relation "measure (\<lambda>(p, q, xs). q - p)") auto

declare swap_ends.simps [simp del]

lemma swap_ends_nth:
  "q < length xs \<Longrightarrow> i < length xs \<Longrightarrow>
   swap_ends p q xs ! i = (if p \<le> i \<and> i \<le> q then xs ! (p + q - i) else xs ! i)"
proof (induction p q xs rule: swap_ends.induct)
  case (1 p q xs)
  show ?case
  proof (cases "p < q")
    case True
    let ?ys = "xs[q := xs ! p, p := xs ! q]"
    have "swap_ends p q xs ! i = swap_ends (Suc p) (q - 1) ?ys ! i"
      using True by (subst swap_ends.simps) simp
    also have "\<dots> = (if Suc p \<le> i \<and> i \<le> q - 1 then ?ys ! (Suc p + (q - 1) - i) else ?ys ! i)"
      using "1.IH" True "1.prems" by simp
    also have "\<dots> = (if p \<le> i \<and> i \<le> q then xs ! (p + q - i) else xs ! i)"
      using True "1.prems" by (auto simp: nth_list_update)
    finally show ?thesis .
  next
    case False
    then have "p + q - i = i" if "p \<le> i" "i \<le> q" using that by linarith
    with False show ?thesis by (subst swap_ends.simps) simp
  qed
qed

lemma length_swap_ends [simp]: "length (swap_ends p q xs) = length xs"
  by (induction p q xs rule: swap_ends.induct) (subst swap_ends.simps, simp)

lemma swap_ends_rev: "xs \<noteq> [] \<Longrightarrow> swap_ends 0 (length xs - 1) xs = rev xs"
  by (rule nth_equalityI) (auto simp: swap_ends_nth rev_nth)

lemma utoa_reverse_eq:
  assumes "p < length xs" and "q < length xs" and "unat buf + length xs \<le> 4294967296"
  shows "utoa_reverse (write_bytes m buf xs) (buf + of_nat p) (buf + of_nat q) =
    Some (write_bytes m buf (swap_ends p q xs))"
  using assms
proof (induction p q xs rule: swap_ends.induct)
  case (1 p q xs)
  let ?W = "write_bytes m buf"
  have len: "length xs \<le> 4294967296" using "1.prems"(3) by simp
  have less: "buf + of_nat p < buf + of_nat q \<longleftrightarrow> p < q"
  proof -
    have "unat (buf + of_nat p) = unat buf + p" "unat (buf + of_nat q) = unat buf + q"
      using "1.prems" by (simp_all add: unat_plus_if' unat_of_nat32)
    then show ?thesis by (simp add: word_less_nat_alt)
  qed
  show ?case
  proof (cases "p < q")
    case True
    let ?ys = "xs[q := xs ! p, p := xs ! q]"
    have rd: "?W xs (buf + of_nat p) = xs ! p" "?W xs (buf + of_nat q) = xs ! q"
      using "1.prems"(1,2) len by (simp_all add: write_bytes_inside)
    have wr: "(?W xs)(buf + of_nat q := xs ! p, buf + of_nat p := xs ! q) = ?W ?ys"
      using "1.prems"(1,2) len by (simp add: write_bytes_update)
    have idx: "buf + of_nat p + 1 = buf + of_nat (Suc p)" "buf + of_nat q - 1 = buf + of_nat (q - 1)"
      using True by (simp_all add: algebra_simps of_nat_diff)
    have "utoa_reverse (?W xs) (buf + of_nat p) (buf + of_nat q) =
        utoa_reverse (?W ?ys) (buf + of_nat (Suc p)) (buf + of_nat (q - 1))"
      using True less by (subst utoa_reverse.simps) (simp only: Let_def rd wr idx if_True)
    also have "\<dots> = Some (?W (swap_ends (Suc p) (q - 1) ?ys))"
      using "1.IH" True "1.prems" by simp
    also have "swap_ends (Suc p) (q - 1) ?ys = swap_ends p q xs"
      using True by (subst (2) swap_ends.simps) simp
    finally show ?thesis .
  next
    case False
    with less show ?thesis by (subst utoa_reverse.simps, subst swap_ends.simps) simp
  qed
qed

text \<open>
  For every base from 2 up \<open>utoa\<close> ends and leaves exactly the digits of the value,
  most significant first, and a terminator in the buffer, and no other byte changes; at
  most 33 bytes are written.
\<close>

theorem utoa_correct:
  assumes base: "2 \<le> base" and room: "unat buf + 33 \<le> 4294967296"
  shows "utoa m v buf base = Some (write_bytes m buf (utoa_text (unat base) (unat v) @ [0]))
    \<and> length (utoa_text (unat base) (unat v)) \<le> 32"
proof (cases "v = 0")
  case True
  then show ?thesis by (simp add: utoa_def utoa_text_def)
next
  case False
  define ds where "ds = map (\<lambda>d. utoa_digit (of_nat d)) (lsb_digits (unat base) (unat v))"
  have b: "2 \<le> unat base" using base by (simp add: word_le_nat_alt)
  have ds: "ds \<noteq> []" "length ds \<le> 32"
    using False b by (simp_all add: ds_def lsb_digits_Nil_iff length_lsb_digits32 unat_0_iff)
  have whole: "utoa_text (unat base) (unat v) = rev ds"
    using False by (simp add: utoa_text_def ds_def rev_map unat_0_iff)
  have last: "buf + of_nat (length ds) - 1 = buf + of_nat (length ds - 1)"
    using ds(1) by (cases ds) simp_all
  let ?n = "length ds - 1"
  have "utoa m v buf base =
      utoa_reverse (write_bytes m buf (ds @ [0])) (buf + of_nat 0) (buf + of_nat ?n)"
    using False by (simp add: utoa_def utoa_digits_eq [OF base] ds_def [symmetric] Let_def
        write_bytes_at_end last del: write_bytes.simps)
  also have "\<dots> = Some (write_bytes m buf (swap_ends 0 ?n (ds @ [0])))"
    using ds room by (intro utoa_reverse_eq) auto
  also have "swap_ends 0 ?n (ds @ [0]) = rev ds @ [0]"
    using ds(1) by (intro nth_equalityI)
      (auto simp: swap_ends_nth nth_append rev_nth less_Suc_eq_le)
  finally show ?thesis using whole ds by simp
qed

subsection \<open>Reading\<close>

text \<open>What the two parsers compute, on the characters of the string.\<close>

fun dec_value :: "u32 \<Rightarrow> u8 list \<Rightarrow> u32" where
  "dec_value r [] = r"
| "dec_value r (c # cs) =
     (if 48 \<le> sint c \<and> sint c \<le> 57 then dec_value (r * 10 + (scast c - 48)) cs else r)"

fun hex_text_value :: "u32 \<Rightarrow> u8 list \<Rightarrow> u32" where
  "hex_text_value r [] = r"
| "hex_text_value r (c # cs) =
     (case hex_value c of None \<Rightarrow> r | Some v \<Rightarrow> hex_text_value (r * 16 + v) cs)"

lemma atoi_loop_cstr: "cstr m p s \<Longrightarrow> atoi_loop m p r = Some (dec_value r s)"
  by (induction s arbitrary: p r) (subst atoi_loop.simps, auto)+

lemma atoi_hex_loop_cstr: "cstr m p s \<Longrightarrow> atoi_hex_loop m p r = Some (hex_text_value r s)"
  by (induction s arbitrary: p r) (subst atoi_hex_loop.simps, auto split: option.split)+

lemma atoi_cstr: "cstr m p s \<Longrightarrow> atoi m p = Some (dec_value 0 s)"
  by (simp add: atoi_def atoi_loop_cstr)

lemma small_digit_cases: "d < (16::nat) \<Longrightarrow> d \<in> {0,1,2,3,4,5,6,7,8,9,10,11,12,13,14,15}"
  by (simp, arith)

lemma utoa_digit_dec:
  assumes "d < 10"
  shows "sint (utoa_digit (of_nat d)) = 48 + int d" and "scast (utoa_digit (of_nat d)) - 48 = (of_nat d :: u32)"
    and "utoa_digit (of_nat d) \<noteq> 0"
proof -
  have "d \<in> {0,1,2,3,4,5,6,7,8,9}" using assms by (simp, arith)
  then show "sint (utoa_digit (of_nat d)) = 48 + int d" and "utoa_digit (of_nat d) \<noteq> 0"
    and "scast (utoa_digit (of_nat d)) - 48 = (of_nat d :: u32)"
    by (elim insertE emptyE; simp add: utoa_digit_def)+
qed

lemma utoa_digit_hex:
  assumes "d < 16"
  shows "hex_value (utoa_digit (of_nat d)) = Some (of_nat d)" and "utoa_digit (of_nat d) \<notin> {0, 88, 120}"
  using small_digit_cases [OF assms] by (elim insertE emptyE; simp add: utoa_digit_def hex_value_def)+

lemma dec_value_digits:
  "\<forall>d \<in> set ds. d < 10 \<Longrightarrow>
   dec_value (of_nat n) (map (\<lambda>d. utoa_digit (of_nat d)) ds) = of_nat (foldl (\<lambda>n d. n * 10 + d) n ds)"
proof (induction ds arbitrary: n)
  case Nil
  then show ?case by simp
next
  case (Cons d ds)
  then have d: "d < 10" "d \<le> 9" by simp_all
  from Cons.IH [of "n * 10 + d"] Cons.prems show ?case
    by (simp add: utoa_digit_dec [OF d(1)] d)
qed

lemma hex_value_digits:
  "\<forall>d \<in> set ds. d < 16 \<Longrightarrow>
   hex_text_value (of_nat n) (map (\<lambda>d. utoa_digit (of_nat d)) ds) = of_nat (foldl (\<lambda>n d. n * 16 + d) n ds)"
proof (induction ds arbitrary: n)
  case Nil
  then show ?case by simp
next
  case (Cons d ds)
  then have d: "d < 16" by simp
  from Cons.IH [of "n * 16 + d"] Cons.prems show ?case
    by (simp add: utoa_digit_hex [OF d])
qed

lemma foldl_rev_digits:
  "2 \<le> base \<Longrightarrow> foldl (\<lambda>n d. n * base + d) 0 (rev (lsb_digits base v)) = v"
  using lsb_digits_value [of base v] by (simp add: foldr_conv_foldl)

lemma zero_notin_utoa_text:
  assumes "2 \<le> base" "base \<le> 16" shows "0 \<notin> set (utoa_text base v)"
proof
  assume "0 \<in> set (utoa_text base v)"
  then obtain d where "d \<in> set (lsb_digits base v)" "utoa_digit (of_nat d) = 0"
    by (auto simp: utoa_text_def split: if_splits)
  with lsb_digits_less [OF assms(1), of d v] utoa_digit_hex(2) [of d] assms(2) show False by simp
qed

lemma utoa_text_no_prefix: "c = 88 \<or> c = 120 \<Longrightarrow> c \<notin> set (utoa_text 16 v)"
proof
  assume c: "c = 88 \<or> c = 120" and "c \<in> set (utoa_text 16 v)"
  then obtain d where "d \<in> set (lsb_digits 16 v)" "utoa_digit (of_nat d) = c"
    by (auto simp: utoa_text_def split: if_splits)
  with lsb_digits_less [of 16 d v] utoa_digit_hex(2) [of d] c show False by auto
qed

lemma utoa_cstr:
  assumes "unat buf + 33 \<le> 4294967296" and "base = 10 \<or> base = 16"
  shows "\<exists>m'. utoa m v buf base = Some m' \<and> cstr m' buf (utoa_text (unat base) (unat v))"
proof -
  have b: "2 \<le> base" "2 \<le> unat base" "unat base \<le> 16" using assms(2) by auto
  from utoa_correct [OF b(1) assms(1), of m v]
  have "utoa m v buf base = Some (write_bytes m buf (utoa_text (unat base) (unat v) @ [0]))"
    and "length (utoa_text (unat base) (unat v)) \<le> 32" by auto
  with cstr_write_bytes zero_notin_utoa_text [OF b(2,3)] show ?thesis by force
qed

text \<open>
  C30. Reading back what \<open>utoa\<close> printed gives the number again, for every 32-bit value,
  with \<open>atoi\<close> in base 10 and with \<open>atoi_hex\<close> in base 16.
\<close>

theorem utoa_atoi_roundtrip:
  assumes "unat buf + 33 \<le> 4294967296"
  shows "\<exists>m1 m2. utoa m v buf 10 = Some m1 \<and> atoi m1 buf = Some v \<and>
    utoa m v buf 16 = Some m2 \<and> atoi_hex m2 buf = Some v"
proof -
  obtain m1 where m1: "utoa m v buf 10 = Some m1" "cstr m1 buf (utoa_text 10 (unat v))"
    using utoa_cstr [OF assms, of 10 m v] by auto
  obtain m2 where m2: "utoa m v buf 16 = Some m2" "cstr m2 buf (utoa_text 16 (unat v))"
    using utoa_cstr [OF assms, of 16 m v] by auto
  have "dec_value 0 (utoa_text 10 (unat v)) = v"
    using dec_value_digits [of "rev (lsb_digits 10 (unat v))" 0] lsb_digits_less [of 10]
    by (auto simp: utoa_text_def foldl_rev_digits unat_0_iff)
  with m1(2) have "atoi m1 buf = Some v" by (simp add: atoi_cstr)
  moreover have hex: "hex_text_value 0 (utoa_text 16 (unat v)) = v"
    using hex_value_digits [of "rev (lsb_digits 16 (unat v))" 0] lsb_digits_less [of 16]
    by (auto simp: utoa_text_def foldl_rev_digits unat_0_iff hex_value_def)
  moreover have "\<not> (m2 buf = 48 \<and> (m2 (buf + 1) = 120 \<or> m2 (buf + 1) = 88))"
  proof -
    from utoa_text_no_prefix [of 88 "unat v"] utoa_text_no_prefix [of 120 "unat v"] m2(2)
    show ?thesis
      by (cases "utoa_text 16 (unat v)"; cases "tl (utoa_text 16 (unat v))") auto
  qed
  then have "atoi_hex m2 buf = Some v"
    using atoi_hex_loop_cstr [OF m2(2), of 0] hex by (auto simp: atoi_hex_def)
  ultimately show ?thesis using m1(1) m2(1) by blast
qed

lemma utoa_atoi_roundtrip_witness:
  "\<exists>m1 m2. utoa (\<lambda>_. 0) 4294967295 1048576 10 = Some m1 \<and> atoi m1 1048576 = Some 4294967295 \<and>
    utoa (\<lambda>_. 0) 4294967295 1048576 16 = Some m2 \<and> atoi_hex m2 1048576 = Some 4294967295"
  by (rule utoa_atoi_roundtrip) simp

end
