(* ===== verification/Vga.thy ===== *)
theory Vga imports Ports Kstring begin

text \<open>
  The text console, \<^verbatim>\<open>video/vga.c\<close>: an 80 by 25 grid of cells kept twice, in the kernel's
  \<open>back_buffer\<close> and in the adapter's memory at \<^verbatim>\<open>0xB8000\<close> (\<open>terminal_buffer\<close>), a cursor
  position, a current attribute, and the writes to the adapter's index and data ports.

  The position and the loop counters are natural numbers: \<open>vga_wf\<close>, which every operation
  keeps, says that the position stays on the screen, so no \<open>size_t\<close> ever wraps and no
  cell outside the two arrays is touched.  A C \<open>for\<close> loop over an index is a \<open>fold\<close> over
  the indices in order.  A string is the list of its bytes; printing stops at a zero byte.
\<close>

record vga =
  terminal_row :: nat
  terminal_column :: nat
  terminal_color :: u8
  terminal_buffer :: "u16 list"
  back_buffer :: "u16 list"
  crtc :: io_trace

definition default_terminal_color :: u8 where
  "default_terminal_color = 0x07"

text \<open>The statics as the loader leaves them; the adapter's memory holds anything.\<close>

definition vga_initial :: "u16 list \<Rightarrow> vga" where
  "vga_initial screen = \<lparr>terminal_row = 0, terminal_column = 0,
     terminal_color = default_terminal_color, terminal_buffer = screen,
     back_buffer = replicate 2000 0, crtc = []\<rparr>"

section \<open>Cells and the cursor\<close>

definition vga_entry :: "u8 \<Rightarrow> u8 \<Rightarrow> u16" where
  "vga_entry uc color = ucast uc OR push_bit 8 (ucast color)"

definition vga_flush :: "vga \<Rightarrow> vga" where
  "vga_flush v = v\<lparr>terminal_buffer :=
     fold (\<lambda>i t. t[i := back_buffer v ! i]) [0..<80 * 25] (terminal_buffer v)\<rparr>"

definition vga_disable_cursor :: "vga \<Rightarrow> vga" where
  "vga_disable_cursor v = v\<lparr>crtc := outb 0x3D5 0x20 (outb 0x3D4 0x0A (crtc v))\<rparr>"

definition vga_read_cell :: "vga \<Rightarrow> nat \<Rightarrow> nat \<Rightarrow> u16" where
  "vga_read_cell v row col =
     (if row \<ge> 25 \<or> col \<ge> 80 then 0 else back_buffer v ! (row * 80 + col))"

definition vga_write_cell :: "nat \<Rightarrow> nat \<Rightarrow> u16 \<Rightarrow> vga \<Rightarrow> vga" where
  "vga_write_cell row col value v =
     (if row \<ge> 25 \<or> col \<ge> 80 then v
      else v\<lparr>back_buffer := (back_buffer v)[row * 80 + col := value],
             terminal_buffer := (terminal_buffer v)[row * 80 + col := value]\<rparr>)"

definition vga_enable_cursor :: "device \<Rightarrow> u8 \<Rightarrow> u8 \<Rightarrow> vga \<Rightarrow> vga" where
  "vga_enable_cursor dev start_line end_line v =
     (let tr = outb 0x3D4 0x0A (crtc v);
          (x, tr) = inb dev 0x3D5 tr;
          tr = outb 0x3D5 ((x AND 0xC0) OR start_line) tr;
          tr = outb 0x3D4 0x0B tr;
          (y, tr) = inb dev 0x3D5 tr
      in v\<lparr>crtc := outb 0x3D5 ((y AND 0xE0) OR end_line) tr\<rparr>)"

definition vga_update_cursor :: "vga \<Rightarrow> vga" where
  "vga_update_cursor v =
     (let pos = of_nat (terminal_row v * 80 + terminal_column v) :: u16;
          tr = outb 0x3D4 0x0F (crtc v);
          tr = outb 0x3D5 (ucast (pos AND 0xFF)) tr;
          tr = outb 0x3D4 0x0E tr
      in v\<lparr>crtc := outb 0x3D5 (ucast (drop_bit 8 pos AND 0xFF)) tr\<rparr>)"

definition vga_set_color :: "u8 \<Rightarrow> vga \<Rightarrow> vga" where
  "vga_set_color color v = v\<lparr>terminal_color := color\<rparr>"

definition vga_set_cursor :: "nat \<Rightarrow> nat \<Rightarrow> vga \<Rightarrow> vga" where
  "vga_set_cursor row col v =
     (let v = (if row < 25 then v\<lparr>terminal_row := row\<rparr> else v)
      in if col < 80 then v\<lparr>terminal_column := col\<rparr> else v)"

definition vga_get_column :: "vga \<Rightarrow> nat" where
  "vga_get_column v = terminal_column v"

section \<open>Scrolling, clearing and printing\<close>

definition scroll_up :: "u16 list \<Rightarrow> u16 list" where
  "scroll_up b = fold (\<lambda>y. fold (\<lambda>x b. b[(y - 1) * 80 + x := b ! (y * 80 + x)]) [0..<80]) [1..<25] b"

definition vga_scroll :: "vga \<Rightarrow> vga" where
  "vga_scroll v =
     (if terminal_row v \<ge> 25
      then let b = scroll_up (back_buffer v);
               b = fold (\<lambda>x b. b[(25 - 1) * 80 + x := vga_entry 32 (terminal_color v)]) [0..<80] b
           in vga_flush (v\<lparr>back_buffer := b, terminal_row := 25 - 1\<rparr>)
      else v)"

definition vga_clear :: "vga \<Rightarrow> vga" where
  "vga_clear v =
     (let b = fold (\<lambda>y. fold (\<lambda>x b. b[y * 80 + x := vga_entry 32 (terminal_color v)]) [0..<80])
                [0..<25] (back_buffer v)
      in vga_flush (v\<lparr>back_buffer := b, terminal_row := 0, terminal_column := 0\<rparr>))"

definition vga_putchar :: "u8 \<Rightarrow> vga \<Rightarrow> vga" where
  "vga_putchar c v =
     (if c = 10 then vga_scroll (v\<lparr>terminal_column := 0, terminal_row := terminal_row v + 1\<rparr>)
      else if c = 8 then
        (let v = (if terminal_column v > 0 then v\<lparr>terminal_column := terminal_column v - 1\<rparr>
                  else if terminal_row v > 0
                    then v\<lparr>terminal_row := terminal_row v - 1, terminal_column := 80 - 1\<rparr>
                  else v);
             index = terminal_row v * 80 + terminal_column v
         in vga_update_cursor
              (v\<lparr>terminal_buffer := (terminal_buffer v)[index := vga_entry 32 (terminal_color v)]\<rparr>))
      else
        (let index = terminal_row v * 80 + terminal_column v;
             v = v\<lparr>back_buffer := (back_buffer v)[index := vga_entry c (terminal_color v)]\<rparr>;
             v = v\<lparr>terminal_column := terminal_column v + 1\<rparr>;
             v = (if terminal_column v \<ge> 80
                  then v\<lparr>terminal_column := 0, terminal_row := terminal_row v + 1\<rparr> else v)
         in vga_update_cursor (vga_flush (vga_scroll v))))"

fun vga_print :: "u8 list \<Rightarrow> vga \<Rightarrow> vga" where
  "vga_print [] v = v"
| "vga_print (c # cs) v = (if c = 0 then v else vga_print cs (vga_putchar c v))"

definition vga_print_color :: "u8 list \<Rightarrow> u8 \<Rightarrow> vga \<Rightarrow> vga" where
  "vga_print_color s color v =
     (vga_print s (v\<lparr>terminal_color := color\<rparr>))\<lparr>terminal_color := default_terminal_color\<rparr>"

section \<open>Numbers\<close>

text \<open>
  \<open>dec_buffer\<close> is the filled part of the local array of \<open>vga_print_dec\<close>: the digits, least
  significant first.  They are printed from the last to the first.
\<close>

function dec_buffer :: "u32 \<Rightarrow> u8 list" where
  "dec_buffer num = (if num > 0 then (48 + ucast (num mod 10)) # dec_buffer (num div 10) else [])"
  by pat_completeness auto
termination
proof (relation "measure unat")
  fix num :: u32 assume "num > 0"
  then have "0 < unat num" by (simp add: word_less_nat_alt)
  then show "(num div 10, num) \<in> measure unat" by (simp add: unat_div)
qed simp

declare dec_buffer.simps [simp del]

definition vga_print_dec :: "u32 \<Rightarrow> vga \<Rightarrow> vga" where
  "vga_print_dec num v =
     (if num = 0 then vga_print [48] v
      else fold (\<lambda>c. vga_print [c]) (rev (dec_buffer num)) v)"

definition hex_digit :: "u32 \<Rightarrow> u8" where
  "hex_digit nibble = bytes_of ''0123456789ABCDEF'' ! unat nibble"

definition hex_buffer :: "u32 \<Rightarrow> u8 list" where
  "hex_buffer value = [48, 120] @ map (\<lambda>i. hex_digit (drop_bit (28 - i * 4) value AND 0xF)) [0..<8]"

definition vga_print_hex :: "u32 \<Rightarrow> vga \<Rightarrow> vga" where
  "vga_print_hex value v = vga_print (hex_buffer value) v"

section \<open>What the loops compute\<close>

lemma fold_list_update:
  "n \<le> length xs \<Longrightarrow> fold (\<lambda>i t. t[i := f i]) [0..<n] xs = map f [0..<n] @ drop n xs"
proof (induction n)
  case 0
  then show ?case by simp
next
  case (Suc n)
  then show ?case
    by (simp add: list_update_append Cons_nth_drop_Suc [symmetric])
qed

lemma fold_list_update_offset:
  "d + n \<le> length xs \<Longrightarrow>
   fold (\<lambda>x b. b[d + x := c]) [0..<n] xs = take d xs @ replicate n c @ drop (d + n) xs"
proof (induction n)
  case 0
  then show ?case by simp
next
  case (Suc n)
  then have "drop (d + n) xs = xs ! (d + n) # drop (Suc (d + n)) xs"
    by (simp add: Cons_nth_drop_Suc)
  with Suc show ?case by (simp add: list_update_append replicate_append_same [symmetric])
qed

lemma fold_copy_down:
  "d + n \<le> s \<Longrightarrow> s + n \<le> length b \<Longrightarrow>
   fold (\<lambda>x b. b[d + x := b ! (s + x)]) [0..<n] b = take d b @ take n (drop s b) @ drop (d + n) b"
proof (induction n)
  case 0
  then show ?case by simp
next
  case (Suc n)
  let ?b = "take d b @ take n (drop s b) @ drop (d + n) b"
  have "\<not> s + n - d < n" "\<not> s + n < d" "d + n + (s + n - d - n) = s + n"
    using Suc.prems by linarith+
  then have "?b ! (s + n) = b ! (s + n)" using Suc.prems by (simp add: nth_append add.commute)
  moreover have "take (Suc n) (drop s b) = take n (drop s b) @ [b ! (s + n)]"
    using Suc.prems by (simp add: take_Suc_conv_app_nth)
  moreover have "drop (d + n) b = b ! (d + n) # drop (Suc (d + n)) b"
    using Suc.prems by (simp add: Cons_nth_drop_Suc)
  ultimately show ?case using Suc by (simp add: list_update_append)
qed

lemma vga_flush_eq:
  "length (terminal_buffer v) = 2000 \<Longrightarrow> length (back_buffer v) = 2000 \<Longrightarrow>
   vga_flush v = v\<lparr>terminal_buffer := back_buffer v\<rparr>"
  using fold_list_update [of 2000 "terminal_buffer v" "\<lambda>i. back_buffer v ! i"]
    map_nth [of "back_buffer v"]
  by (simp add: vga_flush_def)

lemma scroll_up_rows:
  "n \<le> 24 \<Longrightarrow> length b = 2000 \<Longrightarrow>
   fold (\<lambda>y. fold (\<lambda>x b. b[(y - 1) * 80 + x := b ! (y * 80 + x)]) [0..<80]) [1..<Suc n] b
     = take (n * 80) (drop 80 b) @ drop (n * 80) b"
proof (induction n)
  case 0
  then show ?case by simp
next
  case (Suc n)
  let ?b = "take (n * 80) (drop 80 b) @ drop (n * 80) b"
  have "fold (\<lambda>x b. b[n * 80 + x := b ! (Suc n * 80 + x)]) [0..<80] ?b =
      take (n * 80) ?b @ take 80 (drop (Suc n * 80) ?b) @ drop (n * 80 + 80) ?b"
    using Suc.prems by (intro fold_copy_down) auto
  also have "\<dots> = take (Suc n * 80) (drop 80 b) @ drop (Suc n * 80) b"
    using Suc.prems take_add [of "n * 80" 80 "drop 80 b"] by (simp add: min_def algebra_simps)
  finally show ?case using Suc by simp
qed

lemma scroll_up_eq: "length b = 2000 \<Longrightarrow> scroll_up b = drop 80 b @ drop 1920 b"
  using scroll_up_rows [of 24 b] by (simp add: scroll_up_def)

lemma clear_rows:
  "n \<le> 25 \<Longrightarrow> length b = 2000 \<Longrightarrow>
   fold (\<lambda>y. fold (\<lambda>x b. b[y * 80 + x := c]) [0..<80]) [0..<n] b
     = replicate (n * 80) c @ drop (n * 80) b"
proof (induction n)
  case 0
  then show ?case by simp
next
  case (Suc n)
  let ?b = "replicate (n * 80) c @ drop (n * 80) b"
  have "fold (\<lambda>x b. b[n * 80 + x := c]) [0..<80] ?b =
      take (n * 80) ?b @ replicate 80 c @ drop (n * 80 + 80) ?b"
    using Suc.prems by (intro fold_list_update_offset) auto
  also have "\<dots> = replicate (Suc n * 80) c @ drop (Suc n * 80) b"
    using replicate_add [of "n * 80" 80 c] by (simp add: add.commute)
  finally show ?case using Suc by simp
qed

section \<open>The screen invariant\<close>

definition vga_wf :: "vga \<Rightarrow> bool" where
  "vga_wf v \<longleftrightarrow> terminal_row v < 25 \<and> terminal_column v < 80
     \<and> length (terminal_buffer v) = 2000 \<and> length (back_buffer v) = 2000"

text \<open>The position as one index into the grid.\<close>

definition vga_pos :: "vga \<Rightarrow> nat" where
  "vga_pos v = terminal_row v * 80 + terminal_column v"

lemma vga_pos_less: "vga_wf v \<Longrightarrow> vga_pos v < 2000"
  by (auto simp: vga_wf_def vga_pos_def)

lemma vga_scroll_eq:
  assumes "length (terminal_buffer v) = 2000" "length (back_buffer v) = 2000"
  shows "vga_scroll v = (if 25 \<le> terminal_row v
    then let b = drop 80 (back_buffer v) @ replicate 80 (vga_entry 32 (terminal_color v))
         in v\<lparr>back_buffer := b, terminal_buffer := b, terminal_row := 24\<rparr>
    else v)"
proof -
  let ?b = "drop 80 (back_buffer v) @ drop 1920 (back_buffer v)"
  have "fold (\<lambda>x b. b[1920 + x := vga_entry 32 (terminal_color v)]) [0..<80] ?b =
      drop 80 (back_buffer v) @ replicate 80 (vga_entry 32 (terminal_color v))"
    using fold_list_update_offset [of 1920 80 ?b] assms by simp
  then show ?thesis
    using assms by (simp add: vga_scroll_def scroll_up_eq vga_flush_eq Let_def)
qed

lemma vga_clear_eq:
  assumes "length (terminal_buffer v) = 2000" "length (back_buffer v) = 2000"
  shows "vga_clear v = (let b = replicate 2000 (vga_entry 32 (terminal_color v))
    in v\<lparr>back_buffer := b, terminal_buffer := b, terminal_row := 0, terminal_column := 0\<rparr>)"
  using assms clear_rows [of 25 "back_buffer v" "vga_entry 32 (terminal_color v)"]
  by (simp add: vga_clear_def vga_flush_eq Let_def)

section \<open>One character\<close>

lemma vga_putchar_newline:
  "vga_wf v \<Longrightarrow> vga_putchar 10 v = vga_scroll (v\<lparr>terminal_column := 0, terminal_row := terminal_row v + 1\<rparr>)"
  by (simp add: vga_putchar_def)

text \<open>
  A visible character goes to the cell under the cursor, in both buffers; the cursor moves
  to the next cell, and past the last cell the screen scrolls by one line.
\<close>

lemma vga_putchar_visible:
  assumes wf: "vga_wf v" and c: "c \<noteq> 10" "c \<noteq> 8"
  shows "vga_wf (vga_putchar c v)"
    and "terminal_color (vga_putchar c v) = terminal_color v"
    and "terminal_buffer (vga_putchar c v) = back_buffer (vga_putchar c v)"
    and "back_buffer (vga_putchar c v) =
      (let b = (back_buffer v)[vga_pos v := vga_entry c (terminal_color v)]
       in if vga_pos v = 1999 then drop 80 b @ replicate 80 (vga_entry 32 (terminal_color v)) else b)"
    and "vga_pos (vga_putchar c v) = (if vga_pos v = 1999 then 1920 else vga_pos v + 1)"
proof -
  define b where "b = (back_buffer v)[vga_pos v := vga_entry c (terminal_color v)]"
  have wfD: "terminal_row v < 25" "terminal_column v < 80" "length (terminal_buffer v) = 2000"
    "length (back_buffer v) = 2000" "length b = 2000"
    using wf by (auto simp: vga_wf_def b_def)
  have last: "vga_pos v = 1999 \<longleftrightarrow> terminal_row v = 24 \<and> terminal_column v = 79"
  proof (cases "terminal_row v = 24")
    case True
    then show ?thesis by (simp add: vga_pos_def)
  next
    case False
    then have "vga_pos v < 1999" using wfD(1,2) by (simp add: vga_pos_def)
    with False show ?thesis by simp
  qed
  consider (stay) "terminal_column v < 79" | (wrap) "terminal_column v = 79" "terminal_row v < 24"
    | (scroll) "terminal_column v = 79" "terminal_row v = 24"
    using wfD by linarith
  then have "vga_wf (vga_putchar c v)
    \<and> terminal_color (vga_putchar c v) = terminal_color v
    \<and> terminal_buffer (vga_putchar c v) = back_buffer (vga_putchar c v)
    \<and> back_buffer (vga_putchar c v) =
        (if vga_pos v = 1999 then drop 80 b @ replicate 80 (vga_entry 32 (terminal_color v)) else b)
    \<and> vga_pos (vga_putchar c v) = (if vga_pos v = 1999 then 1920 else vga_pos v + 1)"
    by cases (use c wfD last in \<open>auto simp: vga_putchar_def Let_def vga_scroll_eq vga_flush_eq
        vga_update_cursor_def vga_wf_def vga_pos_def b_def\<close>)
  then show "vga_wf (vga_putchar c v)"
    and "terminal_color (vga_putchar c v) = terminal_color v"
    and "terminal_buffer (vga_putchar c v) = back_buffer (vga_putchar c v)"
    and "back_buffer (vga_putchar c v) =
      (let b = (back_buffer v)[vga_pos v := vga_entry c (terminal_color v)]
       in if vga_pos v = 1999 then drop 80 b @ replicate 80 (vga_entry 32 (terminal_color v)) else b)"
    and "vga_pos (vga_putchar c v) = (if vga_pos v = 1999 then 1920 else vga_pos v + 1)"
    by (auto simp: b_def Let_def)
qed

lemma vga_putchar_backspace:
  assumes "vga_wf v"
  shows "vga_wf (vga_putchar 8 v)"
    and "terminal_color (vga_putchar 8 v) = terminal_color v"
    and "back_buffer (vga_putchar 8 v) = back_buffer v"
    and "vga_pos (vga_putchar 8 v) = vga_pos v - 1"
    and "terminal_buffer (vga_putchar 8 v) =
      (terminal_buffer v)[vga_pos v - 1 := vga_entry 32 (terminal_color v)]"
  using assms
  by (auto simp: vga_putchar_def vga_wf_def vga_pos_def vga_update_cursor_def Let_def
      diff_mult_distrib add_diff_assoc2)

lemma vga_wf_putchar: "vga_wf v \<Longrightarrow> vga_wf (vga_putchar c v)"
proof -
  assume wf: "vga_wf v"
  consider "c = 10" | "c = 8" | "c \<noteq> 10" "c \<noteq> 8" by blast
  then show ?thesis
  proof cases
    case 1
    with wf show ?thesis
      by (auto simp: vga_putchar_newline [OF wf] vga_scroll_eq vga_wf_def Let_def)
  qed (use wf vga_putchar_visible(1) vga_putchar_backspace(1) in auto)
qed

lemma vga_wf_print: "vga_wf v \<Longrightarrow> vga_wf (vga_print s v)"
  by (induction s arbitrary: v) (auto simp: vga_wf_putchar)

lemma vga_wf_fold_print: "vga_wf v \<Longrightarrow> vga_wf (fold (\<lambda>c. vga_print [c]) cs v)"
  by (induction cs arbitrary: v) (auto simp: vga_wf_putchar)

lemma vga_print_append: "0 \<notin> set s \<Longrightarrow> vga_print (s @ t) v = vga_print t (vga_print s v)"
  by (induction s arbitrary: v) auto

lemma vga_wf_ops [simp]:
  assumes "vga_wf v"
  shows "vga_wf (vga_putchar c v)" "vga_wf (vga_print s v)" "vga_wf (vga_print_color s col v)"
    "vga_wf (vga_clear v)" "vga_wf (vga_scroll v)" "vga_wf (vga_set_cursor r k v)"
    "vga_wf (vga_set_color col v)" "vga_wf (vga_write_cell r k x v)"
    "vga_wf (vga_print_dec n v)" "vga_wf (vga_print_hex n v)"
    "vga_wf (vga_enable_cursor dev a b v)" "vga_wf (vga_disable_cursor v)"
proof -
  have upd: "vga_wf (v\<lparr>terminal_color := x\<rparr>) = vga_wf v"
    "vga_wf (v\<lparr>crtc := y\<rparr>) = vga_wf v" for v x y
    by (simp_all add: vga_wf_def)
  show "vga_wf (vga_print_color s col v)"
    using assms by (simp add: vga_print_color_def upd vga_wf_print)
  show "vga_wf (vga_clear v)" "vga_wf (vga_scroll v)"
    using assms by (auto simp: vga_wf_def vga_clear_eq vga_scroll_eq Let_def)
  show "vga_wf (vga_set_cursor r k v)" "vga_wf (vga_write_cell r k x v)"
    using assms by (auto simp: vga_wf_def vga_set_cursor_def vga_write_cell_def)
  show "vga_wf (vga_putchar c v)" "vga_wf (vga_print s v)" "vga_wf (vga_set_color col v)"
    "vga_wf (vga_print_dec n v)" "vga_wf (vga_print_hex n v)"
    "vga_wf (vga_enable_cursor dev a b v)" "vga_wf (vga_disable_cursor v)"
    using assms by (simp_all add: vga_wf_putchar vga_wf_print vga_set_color_def upd vga_print_dec_def
        vga_wf_fold_print vga_print_hex_def vga_enable_cursor_def vga_disable_cursor_def
        inb_def outb_def Let_def)
qed

text \<open>
  Every operation of the console keeps the cursor on the screen and both buffers at
  80 by 25 cells, so that no operation ever writes outside them.
\<close>

theorem vga_wf_preserved:
  assumes "vga_wf v"
  shows "vga_wf (vga_putchar c v) \<and> vga_wf (vga_print s v) \<and> vga_wf (vga_print_color s col v)
    \<and> vga_wf (vga_clear v) \<and> vga_wf (vga_scroll v) \<and> vga_wf (vga_set_cursor r k v)
    \<and> vga_wf (vga_set_color col v) \<and> vga_wf (vga_write_cell r k x v)
    \<and> vga_wf (vga_print_dec n v) \<and> vga_wf (vga_print_hex n v)
    \<and> vga_wf (vga_enable_cursor dev a b v) \<and> vga_wf (vga_disable_cursor v)"
  using assms by simp

lemma vga_wf_preserved_witness:
  "vga_wf (vga_putchar 65 (vga_initial (replicate 2000 0)))"
proof -
  have "vga_wf (vga_initial (replicate 2000 0))" by (simp add: vga_wf_def vga_initial_def)
  from vga_wf_preserved [OF this, of 65] show ?thesis by blast
qed

section \<open>Lines of text\<close>

definition visible :: "u8 \<Rightarrow> bool" where
  "visible c \<longleftrightarrow> c \<noteq> 0 \<and> c \<noteq> 8 \<and> c \<noteq> 10"

lemma vga_print_visible:
  "vga_wf v \<Longrightarrow> \<forall>c \<in> set s. visible c \<Longrightarrow> vga_pos v + length s < 2000 \<Longrightarrow>
   back_buffer (vga_print s v) = take (vga_pos v) (back_buffer v)
       @ map (\<lambda>c. vga_entry c (terminal_color v)) s @ drop (vga_pos v + length s) (back_buffer v)
   \<and> vga_pos (vga_print s v) = vga_pos v + length s
   \<and> terminal_color (vga_print s v) = terminal_color v
   \<and> (s \<noteq> [] \<longrightarrow> terminal_buffer (vga_print s v) = back_buffer (vga_print s v))"
proof (induction s arbitrary: v)
  case Nil
  then show ?case by simp
next
  case (Cons c s)
  have c: "c \<noteq> 10" "c \<noteq> 8" "c \<noteq> 0" using Cons.prems by (auto simp: visible_def)
  note p = vga_putchar_visible [OF Cons.prems(1) c(1,2)]
  let ?v = "vga_putchar c v"
  have pos: "vga_pos v \<noteq> 1999" "vga_pos v < length (back_buffer v)"
    using Cons.prems by (auto simp: vga_wf_def)
  have "back_buffer (vga_print s ?v) = take (vga_pos ?v) (back_buffer ?v)
       @ map (\<lambda>c. vga_entry c (terminal_color ?v)) s @ drop (vga_pos ?v + length s) (back_buffer ?v)
   \<and> vga_pos (vga_print s ?v) = vga_pos ?v + length s
   \<and> terminal_color (vga_print s ?v) = terminal_color ?v
   \<and> (s \<noteq> [] \<longrightarrow> terminal_buffer (vga_print s ?v) = back_buffer (vga_print s ?v))"
    using Cons.prems pos(1) p(1,5) by (intro Cons.IH) auto
  then show ?case
    using c pos p by (auto simp: Let_def take_Suc_conv_app_nth
        upd_conv_take_nth_drop add.commute)
qed

text \<open>
  C26. Printing text without control characters that ends before the last cell puts
  exactly its characters, in the current attribute, into the cells from the cursor on,
  on the adapter's screen as in the back buffer, leaves every other cell of the back
  buffer, and moves the cursor behind the text.
\<close>

theorem vga_print_text:
  assumes "vga_wf v" and "\<forall>c \<in> set s. visible c" and "vga_pos v + length s < 2000" and "s \<noteq> []"
  shows "terminal_buffer (vga_print s v) = take (vga_pos v) (back_buffer v)
       @ map (\<lambda>c. vga_entry c (terminal_color v)) s @ drop (vga_pos v + length s) (back_buffer v)
    \<and> vga_pos (vga_print s v) = vga_pos v + length s"
  using vga_print_visible [OF assms(1-3)] assms(4) by simp

lemma vga_print_text_witness:
  "vga_pos (vga_print (bytes_of ''ok'') (vga_initial (replicate 2000 0))) = 2"
proof -
  let ?v = "vga_initial (replicate 2000 0)"
  have "vga_wf ?v" "vga_pos ?v = 0" by (simp_all add: vga_wf_def vga_initial_def vga_pos_def)
  with vga_print_text [of ?v "bytes_of ''ok''"] show ?thesis by (simp add: visible_def)
qed

text \<open>
  A backspace blanks the cell on the adapter's screen only: the back buffer keeps the
  character, and the next visible character, which copies the whole back buffer to the
  screen, brings it back.  After two characters, two backspaces and a third character, the
  second character stands on the screen again, right at the cursor.
\<close>

theorem backspace_reappears:
  assumes "vga_wf v" and "visible a" "visible b" "visible c" and "vga_pos v + 2 < 2000"
  shows "terminal_buffer (vga_print [a, b, 8, 8] v) ! (vga_pos v + 1) = vga_entry 32 (terminal_color v)
    \<and> terminal_buffer (vga_print [a, b, 8, 8, c] v) ! (vga_pos v + 1) = vga_entry b (terminal_color v)
    \<and> vga_pos (vga_print [a, b, 8, 8, c] v) = vga_pos v + 1"
proof -
  have abc: "a \<noteq> 0" "b \<noteq> 0" "c \<noteq> 0" "c \<noteq> 10" "c \<noteq> 8"
    using assms by (auto simp: visible_def)
  define v2 where "v2 = vga_print [a, b] v"
  define v3 where "v3 = vga_putchar 8 v2"
  define v4 where "v4 = vga_putchar 8 v3"
  have run: "vga_print [a, b, 8, 8] v = v4" "vga_print [a, b, 8, 8, c] v = vga_putchar c v4"
    using abc by (simp_all add: v2_def v3_def v4_def)
  have wf: "vga_wf v2" "vga_wf v3" "vga_wf v4"
    using assms(1) by (simp_all add: v2_def v3_def v4_def vga_wf_print vga_wf_putchar del: vga_print.simps)
  have v2: "back_buffer v2 = take (vga_pos v) (back_buffer v)
      @ [vga_entry a (terminal_color v), vga_entry b (terminal_color v)]
      @ drop (vga_pos v + 2) (back_buffer v)"
    "vga_pos v2 = vga_pos v + 2" "terminal_color v2 = terminal_color v"
    "terminal_buffer v2 = back_buffer v2"
    using vga_print_visible [OF assms(1), of "[a, b]"] assms(2,3,5) by (simp_all add: v2_def del: vga_print.simps)
  note b3 = vga_putchar_backspace [OF wf(1)] and b4 = vga_putchar_backspace [OF wf(2)]
  have len: "length (back_buffer v) = 2000" using assms(1) by (simp add: vga_wf_def)
  have v4: "back_buffer v4 = back_buffer v2" "vga_pos v4 = vga_pos v" "terminal_color v4 = terminal_color v"
    and t4: "terminal_buffer v4 = (back_buffer v2)[vga_pos v + 1 := vga_entry 32 (terminal_color v),
      vga_pos v := vga_entry 32 (terminal_color v)]"
    using b3 b4 v2(2-) by (simp_all add: v3_def v4_def)
  have "terminal_buffer v4 ! (vga_pos v + 1) = vga_entry 32 (terminal_color v)"
    using assms(5) len by (simp add: t4 v2(1) nth_list_update)
  moreover have "terminal_buffer (vga_putchar c v4) ! (vga_pos v + 1) = vga_entry b (terminal_color v)"
    using vga_putchar_visible(3,4) [OF wf(3) abc(4,5)] assms(5) len v4
    by (simp add: v2(1) nth_append Let_def)
  moreover have "vga_pos (vga_putchar c v4) = vga_pos v + 1"
    using vga_putchar_visible(5) [OF wf(3) abc(4,5)] assms(5) v4 by simp
  ultimately show ?thesis by (simp only: run)
qed

lemma backspace_reappears_witness:
  "terminal_buffer (vga_print [97, 98, 8, 8, 99] (vga_initial (replicate 2000 0))) ! 1 = vga_entry 98 7"
proof -
  let ?v = "vga_initial (replicate 2000 0)"
  have "vga_wf ?v" "vga_pos ?v = 0" "terminal_color ?v = 7"
    by (simp_all add: vga_wf_def vga_initial_def vga_pos_def default_terminal_color_def)
  with backspace_reappears [of ?v 97 98 99] show ?thesis by (simp add: visible_def del: vga_print.simps)
qed

section \<open>Numbers\<close>

lemma dec_buffer_digits: "dec_buffer n = map (\<lambda>d. utoa_digit (of_nat d)) (lsb_digits 10 (unat n))"
proof (induction n rule: dec_buffer.induct)
  case (1 n)
  show ?case
  proof (cases "n = 0")
    case True
    then show ?thesis by (simp add: dec_buffer.simps lsb_digits.simps)
  next
    case False
    then have pos: "n > 0" "0 < unat n" by (simp_all add: word_gt_0 unat_gt_0)
    have "(48 + ucast (n mod 10) :: u8) = utoa_digit (of_nat (unat n mod 10))"
    proof -
      have "n mod 10 < 10" by (rule word_mod_less_divisor) simp
      moreover have "unat (n mod 10) = unat n mod 10" by (simp add: unat_mod)
      then have "(of_nat (unat n mod 10) :: u32) = n mod 10" by (metis of_nat_unat32)
      ultimately show ?thesis by (simp add: utoa_digit_def)
    qed
    with pos "1.IH" show ?thesis
      by (subst dec_buffer.simps, subst lsb_digits.simps) (simp add: unat_div)
  qed
qed

lemma fold_print_chars: "0 \<notin> set cs \<Longrightarrow> fold (\<lambda>c. vga_print [c]) cs v = vga_print cs v"
  by (induction cs arbitrary: v) auto

text \<open>
  The console's decimal printer prints the text that \<open>utoa\<close> produces in base 10, and
  its local buffer of 11 characters is never overrun: it needs at most 10.
\<close>

theorem vga_print_dec_eq_utoa:
  "vga_print_dec n v = vga_print (utoa_text 10 (unat n)) v \<and> length (dec_buffer n) \<le> 10"
proof -
  have "length (lsb_digits 10 (unat n)) \<le> 10"
    by (rule length_lsb_digits) (rule less_trans [OF unat32_less], simp)
  moreover have "rev (dec_buffer n) = utoa_text 10 (unat n)" if "n \<noteq> 0"
    using that by (simp add: dec_buffer_digits utoa_text_def rev_map unat_0_iff)
  ultimately show ?thesis
    using fold_print_chars [OF zero_notin_utoa_text [of 10 "unat n"]]
    by (auto simp: vga_print_dec_def dec_buffer_digits utoa_text_def)
qed

lemma hex_digit_value:
  assumes "n < 16"
  shows "hex_value (hex_digit n) = Some n" and "hex_digit n \<noteq> 0"
proof -
  have "unat n < 16" using assms by (simp add: word_less_nat_alt)
  then have "unat n \<in> {0,1,2,3,4,5,6,7,8,9,10,11,12,13,14,15}" by (rule small_digit_cases)
  then have "n \<in> {0,1,2,3,4,5,6,7,8,9,10,11,12,13,14,15}"
    by (simp add: word_unat_eq_iff)
  then show "hex_value (hex_digit n) = Some n" and "hex_digit n \<noteq> 0"
    by (elim insertE emptyE; simp add: hex_digit_def hex_value_def)+
qed

lemma nibble_less: "(w :: u32) AND 0xF < 16"
  using word_and_le1 [of w 15] by (simp add: le_less_trans [where y = 15])

lemma nibble_step: "drop_bit 4 (w :: u32) * 16 + (w AND 0xF) = w"
proof -
  have "w AND 0xF = w mod 16"
    using take_bit_eq_mod [of 4 w] take_bit_eq_mask [of 4 w] by (simp add: mask_eq_exp_minus_1)
  then show ?thesis using div_mult_mod_eq [of w 16] by (simp add: drop_bit_eq_div)
qed

lemma hex_text_value_append:
  "(\<forall>c \<in> set cs. hex_value c \<noteq> None) \<Longrightarrow>
   hex_text_value r (cs @ ds) = hex_text_value (hex_text_value r cs) ds"
  by (induction cs arbitrary: r) (auto split: option.split)

lemma hex_buffer_prefix_value:
  "n \<le> 8 \<Longrightarrow>
   hex_text_value 0 (map (\<lambda>i. hex_digit (drop_bit (28 - i * 4) v AND 0xF)) [0..<n]) = drop_bit (32 - n * 4) v"
proof (induction n)
  case 0
  then show ?case by (simp add: drop_bit_word_beyond)
next
  case (Suc n)
  let ?w = "drop_bit (28 - n * 4) v"
  have "drop_bit (32 - n * 4) v = drop_bit 4 ?w"
    using Suc.prems by (simp add: drop_bit_drop_bit)
  then have val: "drop_bit (32 - n * 4) v * 16 + (?w AND 0xF) = ?w"
    by (simp only: nibble_step)
  have digits: "\<forall>c \<in> set (map (\<lambda>i. hex_digit (drop_bit (28 - i * 4) v AND 0xF)) [0..<n]). hex_value c \<noteq> None"
    using hex_digit_value(1) [OF nibble_less] by auto
  have "hex_text_value 0 (map (\<lambda>i. hex_digit (drop_bit (28 - i * 4) v AND 0xF)) [0..<Suc n]) =
      hex_text_value (drop_bit (32 - n * 4) v) [hex_digit (?w AND 0xF)]"
    using Suc by (simp add: hex_text_value_append [OF digits] del: hex_text_value.simps)
  also have "\<dots> = drop_bit (32 - n * 4) v * 16 + (?w AND 0xF)"
    by (simp only: hex_text_value.simps hex_digit_value(1) [OF nibble_less] option.case)
  also have "\<dots> = ?w" by (rule val)
  also have "28 - n * 4 = 32 - Suc n * 4" by simp
  finally show ?case .
qed

text \<open>
  An address that the console prints in hexadecimal (as \<open>alloc\<close> does) and that is
  then read back from its text (as \<open>free\<close> does) is the same address.
\<close>

theorem vga_hex_roundtrip:
  assumes "cstr m p (hex_buffer w)"
  shows "atoi_hex m p = Some w"
proof -
  let ?ds = "map (\<lambda>i. hex_digit (drop_bit (28 - i * 4) w AND 0xF)) [0..<8]"
  have "m p = 48" "m (p + 1) = 120" "cstr m (p + 2) ?ds"
    using assms by (auto simp: hex_buffer_def add.assoc)
  moreover have "hex_text_value 0 ?ds = w"
    using hex_buffer_prefix_value [of 8 w] by simp
  ultimately show ?thesis by (simp add: atoi_hex_def atoi_hex_loop_cstr del: upt_Suc)
qed

lemma vga_hex_roundtrip_witness:
  "atoi_hex (write_bytes (\<lambda>_. 0) 1048576 (hex_buffer 4194324 @ [0])) 1048576 = Some 4194324"
proof (rule vga_hex_roundtrip, rule cstr_write_bytes)
  show "length (hex_buffer 4194324) < 4294967296" by (simp add: hex_buffer_def)
  show "0 \<notin> set (hex_buffer 4194324)"
    using hex_digit_value(2) [OF nibble_less] by (auto simp: hex_buffer_def simp del: upt_Suc)
qed

end
