(* ===== verification/Heap.thy ===== *)
theory Heap imports Vga begin

text \<open>
  The kernel heap, \<^verbatim>\<open>mm/heap.c\<close>: a doubly linked list of blocks between
  \<open>KERNEL_HEAP_START\<close> and \<open>heap_end\<close>, kept in the very memory it hands out.  A block is a
  header of 20 bytes (\<open>magic\<close>, \<open>size\<close>, \<open>free\<close>, \<open>next\<close>, \<open>prev\<close>, a word each), its payload
  and a tail word with the magic number.

  The model keeps the list where the code keeps it, in byte-addressed memory, and every
  field access is a load or a store.  A walk along \<open>next\<close> pointers is a
  \<open>partial_function (option)\<close>: \<open>None\<close> is a call that never returns.
\<close>

abbreviation (input) KERNEL_HEAP_START :: u32 where "KERNEL_HEAP_START \<equiv> 0x400000"
abbreviation (input) KERNEL_HEAP_END :: u32 where "KERNEL_HEAP_END \<equiv> 0x800000"
abbreviation (input) HEAP_MAGIC :: u32 where "HEAP_MAGIC \<equiv> 0xDEADBEEF"
abbreviation (input) MIN_BLOCK_SIZE :: u32 where "MIN_BLOCK_SIZE \<equiv> 8"
abbreviation (input) sizeof_block_header :: u32 where "sizeof_block_header \<equiv> 20"
abbreviation (input) sizeof_uint32 :: u32 where "sizeof_uint32 \<equiv> 4"

record heap =
  hmem :: mem
  heap_start :: u32
  heap_end :: u32
  heap_head :: u32
  screen :: vga

section \<open>The header fields\<close>

definition bh_magic :: "mem \<Rightarrow> u32 \<Rightarrow> u32" where "bh_magic m b = load32 m b"
definition bh_size :: "mem \<Rightarrow> u32 \<Rightarrow> u32" where "bh_size m b = load32 m (b + 4)"
definition bh_free :: "mem \<Rightarrow> u32 \<Rightarrow> u32" where "bh_free m b = load32 m (b + 8)"
definition bh_next :: "mem \<Rightarrow> u32 \<Rightarrow> u32" where "bh_next m b = load32 m (b + 12)"
definition bh_prev :: "mem \<Rightarrow> u32 \<Rightarrow> u32" where "bh_prev m b = load32 m (b + 16)"

definition set_magic :: "u32 \<Rightarrow> u32 \<Rightarrow> mem \<Rightarrow> mem" where "set_magic b v m = store32 m b v"
definition set_size :: "u32 \<Rightarrow> u32 \<Rightarrow> mem \<Rightarrow> mem" where "set_size b v m = store32 m (b + 4) v"
definition set_free :: "u32 \<Rightarrow> u32 \<Rightarrow> mem \<Rightarrow> mem" where "set_free b v m = store32 m (b + 8) v"
definition set_next :: "u32 \<Rightarrow> u32 \<Rightarrow> mem \<Rightarrow> mem" where "set_next b v m = store32 m (b + 12) v"
definition set_prev :: "u32 \<Rightarrow> u32 \<Rightarrow> mem \<Rightarrow> mem" where "set_prev b v m = store32 m (b + 16) v"

lemmas bh_defs = bh_magic_def bh_size_def bh_free_def bh_next_def bh_prev_def
  set_magic_def set_size_def set_free_def set_next_def set_prev_def

section \<open>Initialisation and allocation\<close>

definition heap_init :: "heap \<Rightarrow> heap" where
  "heap_init h = h\<lparr>heap_start := KERNEL_HEAP_START, heap_end := KERNEL_HEAP_START\<rparr>"

text \<open>The first allocation: there is no list yet.\<close>

definition kmalloc_first :: "u32 \<Rightarrow> heap \<Rightarrow> u32 \<times> heap" where
  "kmalloc_first sz h =
     (let new_end = heap_end h + sizeof_block_header + sz
      in if new_end \<ge> KERNEL_HEAP_END then (0, h)
         else let head = heap_end h;
                  m = set_magic head HEAP_MAGIC (hmem h);
                  m = set_size head sz m;
                  m = set_free head 0 m;
                  m = set_next head 0 m;
                  m = set_prev head 0 m;
                  m = store32 m (head + sizeof_block_header + sz) HEAP_MAGIC
              in (head + sizeof_block_header, h\<lparr>hmem := m, heap_head := head, heap_end := new_end\<rparr>))"

text \<open>
  The search for a free block that is large enough: \<open>(True, b)\<close> when \<open>b\<close> fits,
  \<open>(False, b)\<close> when the loop was left at the last block \<open>b\<close>.
\<close>

partial_function (option) kmalloc_search :: "mem \<Rightarrow> u32 \<Rightarrow> u32 \<Rightarrow> (bool \<times> u32) option" where
  "kmalloc_search m sz current =
     (if current \<noteq> 0
      then (if bh_free m current \<noteq> 0 \<and> bh_size m current \<ge> sz then Some (True, current)
            else if bh_next m current = 0 then Some (False, current)
            else kmalloc_search m sz (bh_next m current))
      else Some (False, current))"

text \<open>Cutting the rest off a block that is larger than needed.\<close>

definition kmalloc_split :: "u32 \<Rightarrow> u32 \<Rightarrow> mem \<Rightarrow> mem" where
  "kmalloc_split sz current m =
     (let new_block = current + sizeof_block_header + sz;
          m = set_magic new_block HEAP_MAGIC m;
          m = set_size new_block (bh_size m current - sz - sizeof_block_header - sizeof_uint32) m;
          m = set_free new_block 1 m;
          m = set_next new_block (bh_next m current) m;
          m = set_prev new_block current m;
          m = store32 m (new_block + sizeof_block_header + bh_size m new_block) HEAP_MAGIC;
          m = (if bh_next m new_block \<noteq> 0 then set_prev (bh_next m new_block) new_block m else m);
          m = set_size current sz m;
          m = set_next current new_block m
      in store32 m (current + sizeof_block_header + sz) HEAP_MAGIC)"

definition kmalloc_take :: "u32 \<Rightarrow> u32 \<Rightarrow> heap \<Rightarrow> u32 \<times> heap" where
  "kmalloc_take sz current h =
     (let m = hmem h;
          m = (if bh_size m current \<ge> sz + sizeof_block_header + sizeof_uint32 + MIN_BLOCK_SIZE
               then kmalloc_split sz current m else m)
      in (current + sizeof_block_header, h\<lparr>hmem := set_free current 0 m\<rparr>))"

text \<open>Adding a block behind the last one.\<close>

definition kmalloc_append :: "u32 \<Rightarrow> u32 \<Rightarrow> heap \<Rightarrow> u32 \<times> heap" where
  "kmalloc_append sz current h =
     (let new_end = heap_end h + sizeof_block_header + sz + sizeof_uint32
      in if new_end < heap_end h then (0, h)
         else if new_end \<ge> KERNEL_HEAP_END then (0, h)
         else let new_block = heap_end h;
                  m = set_magic new_block HEAP_MAGIC (hmem h);
                  m = set_size new_block sz m;
                  m = set_free new_block 0 m;
                  m = set_next new_block 0 m;
                  m = set_prev new_block current m;
                  m = store32 m (new_block + sizeof_block_header + bh_size m new_block) HEAP_MAGIC;
                  m = set_next current new_block m
              in (new_block + sizeof_block_header, h\<lparr>hmem := m, heap_end := new_end\<rparr>))"

definition kmalloc :: "u32 \<Rightarrow> heap \<Rightarrow> (u32 \<times> heap) option" where
  "kmalloc sz h =
     (if sz = 0 then Some (0, h)
      else let aligned = (sz + 7) AND NOT 7
      in if aligned < sz then Some (0, h)
      else let sz = aligned
      in if sz > KERNEL_HEAP_END - heap_end h - sizeof_block_header - sizeof_uint32 then Some (0, h)
      else if heap_head h = 0 then Some (kmalloc_first sz h)
      else map_option (\<lambda>(found, current).
             if found then kmalloc_take sz current h else kmalloc_append sz current h)
             (kmalloc_search (hmem h) sz (heap_head h)))"

section \<open>Freeing\<close>

definition heap_print :: "string \<Rightarrow> heap \<Rightarrow> heap" where
  "heap_print msg h = h\<lparr>screen := vga_print (bytes_of msg) (screen h)\<rparr>"

text \<open>\<open>in_heap h b\<close>: the bounds test that \<open>kfree\<close> makes on a neighbour of the block.\<close>

definition in_heap :: "heap \<Rightarrow> u32 \<Rightarrow> bool" where
  "in_heap h b \<longleftrightarrow> b \<ge> heap_start h \<and> b < heap_end h"

definition kfree_merge_next :: "u32 \<Rightarrow> heap \<Rightarrow> heap" where
  "kfree_merge_next block h =
     (let m = hmem h; next = bh_next m block
      in if next \<noteq> 0 \<and> in_heap h next \<and> bh_free m next \<noteq> 0
         then let m = set_size block
                    (bh_size m block + (sizeof_block_header + bh_size m next + sizeof_uint32)) m;
                  m = set_next block (bh_next m (bh_next m block)) m;
                  m = store32 m (block + sizeof_block_header + bh_size m block) HEAP_MAGIC;
                  m = (if bh_next m block \<noteq> 0 then set_prev (bh_next m block) block m else m)
              in h\<lparr>hmem := m\<rparr>
         else h)"

definition kfree_merge_prev :: "u32 \<Rightarrow> heap \<Rightarrow> heap" where
  "kfree_merge_prev block h =
     (let m = hmem h; prev = bh_prev m block
      in if prev \<noteq> 0 \<and> in_heap h prev \<and> bh_free m prev \<noteq> 0
         then let m = set_size prev
                    (bh_size m prev + (sizeof_block_header + bh_size m block + sizeof_uint32)) m;
                  prev = bh_prev m block;
                  m = store32 m (prev + sizeof_block_header + bh_size m prev) HEAP_MAGIC;
                  m = set_next (bh_prev m block) (bh_next m block) m;
                  m = (if bh_next m block \<noteq> 0 then set_prev (bh_next m block) (bh_prev m block) m else m)
              in h\<lparr>hmem := m\<rparr>
         else h)"

partial_function (option) heap_last :: "mem \<Rightarrow> u32 \<Rightarrow> u32 option" where
  "heap_last m blk =
     (if blk \<noteq> 0 \<and> bh_next m blk \<noteq> 0 then heap_last m (bh_next m blk) else Some blk)"

definition kfree_shrink :: "heap \<Rightarrow> heap option" where
  "kfree_shrink h =
     (if heap_head h \<noteq> 0 \<and> bh_free (hmem h) (heap_head h) \<noteq> 0 \<and> bh_next (hmem h) (heap_head h) = 0
      then Some (h\<lparr>heap_end := heap_start h, heap_head := 0\<rparr>)
      else map_option (\<lambda>last.
             if last \<noteq> 0 \<and> bh_free (hmem h) last \<noteq> 0 then h\<lparr>heap_end := last\<rparr> else h)
             (heap_last (hmem h) (heap_head h)))"

definition kfree :: "u32 \<Rightarrow> heap \<Rightarrow> heap option" where
  "kfree ptr h =
     (if ptr = 0 then Some h
      else let block = ptr - sizeof_block_header; m = hmem h
      in if block < heap_start h \<or> block \<ge> heap_end h
         then Some (heap_print ''Invalid free header!\<newline>'' h)
      else if bh_magic m block \<noteq> HEAP_MAGIC
         then Some (heap_print ''Heap header corrupted!\<newline>'' h)
      else if load32 m (block + sizeof_block_header + bh_size m block) \<noteq> HEAP_MAGIC
         then Some (heap_print ''Heap tail corruption detected!\<newline>'' h)
      else if bh_size m block = 0 \<or> block + sizeof_block_header + bh_size m block > heap_end h
         then Some (heap_print ''Heap corruption detected!\<newline>'' h)
      else if bh_free m block \<noteq> 0
         then Some (heap_print ''Double free detected!\<newline>'' h)
      else kfree_shrink (kfree_merge_prev block (kfree_merge_next block (h\<lparr>hmem := set_free block 1 m\<rparr>))))"

section \<open>Dump and validation\<close>

partial_function (option) heap_dump_loop :: "mem \<Rightarrow> u32 \<Rightarrow> u32 \<Rightarrow> vga \<Rightarrow> vga option" where
  "heap_dump_loop m current index v =
     (if current \<noteq> 0
      then (let v = vga_print (bytes_of ''  Block '') v;
                v = vga_print_dec index v;
                v = vga_print (bytes_of '': addr='') v;
                v = vga_print_hex current v;
                v = vga_print (bytes_of '' size='') v;
                v = vga_print_dec (bh_size m current) v;
                v = vga_print (bytes_of '' header='') v;
                v = vga_print_hex current v;
                v = vga_print (bytes_of '' payload='') v;
                v = vga_print_hex (current + sizeof_block_header) v;
                v = vga_print (bytes_of '' '') v;
                v = (if bh_free m current \<noteq> 0 then vga_print (bytes_of ''FREE'') v
                     else vga_print (bytes_of ''USED'') v);
                v = vga_print (bytes_of ''\<newline>'') v
            in heap_dump_loop m (bh_next m current) (index + 1) v)
      else Some v)"

definition heap_dump :: "heap \<Rightarrow> heap option" where
  "heap_dump h =
     (if heap_head h = 0 then Some (heap_print ''Heap empty.\<newline>'' h)
      else let h = heap_print ''Heap blocks:\<newline>'' h
           in map_option (\<lambda>v. h\<lparr>screen := v\<rparr>) (heap_dump_loop (hmem h) (heap_head h) 0 (screen h)))"

text \<open>The cycle test of \<open>heap_validate\<close>: \<open>True\<close> when the two pointers met.\<close>

partial_function (option) heap_cycle :: "mem \<Rightarrow> u32 \<Rightarrow> u32 \<Rightarrow> bool option" where
  "heap_cycle m slow fast =
     (if fast \<noteq> 0 \<and> bh_next m fast \<noteq> 0
      then (let slow = bh_next m slow; fast = bh_next m (bh_next m fast)
            in if slow = fast then Some True else heap_cycle m slow fast)
      else Some False)"

partial_function (option) heap_check :: "heap \<Rightarrow> u32 \<Rightarrow> string option" where
  "heap_check h current =
     (let m = hmem h
      in if current \<noteq> 0
         then (if bh_magic m current \<noteq> HEAP_MAGIC then Some ''Heap magic corrupted!\<newline>''
               else if bh_next m current \<noteq> 0 \<and> bh_prev m (bh_next m current) \<noteq> current
                 then Some ''Heap corruption detected!\<newline>''
               else if current < heap_start h \<or> current \<ge> heap_end h
                 then Some ''Block outside heap range!\<newline>''
               else if current + sizeof_block_header + bh_size m current > heap_end h
                 then Some ''Block exceeds heap boundary!\<newline>''
               else heap_check h (bh_next m current))
         else Some ''Heap structure valid.\<newline>'')"

definition heap_validate :: "heap \<Rightarrow> heap option" where
  "heap_validate h =
     Option.bind (heap_cycle (hmem h) (heap_head h) (heap_head h)) (\<lambda>cycle.
       if cycle then Some (heap_print ''Heap cycle detected!\<newline>'' h)
       else map_option (\<lambda>msg. heap_print msg h) (heap_check h (heap_head h)))"

end
