(* ===== verification/HeapSpec.thy ===== *)
theory HeapSpec imports Heap begin

text \<open>
  What the heap of \<^verbatim>\<open>mm/heap.c\<close> promises: the list of blocks that the memory holds, the
  layout they keep, and the allocator on that list that \<open>kmalloc\<close> and \<open>kfree\<close> implement.
\<close>

section \<open>Blocks and their layout\<close>

datatype blk = Blk (baddr: nat) (bsize: nat) (bfree: bool)

definition bend :: "blk \<Rightarrow> nat" where "bend b = baddr b + 20 + bsize b"

text \<open>
  The blocks follow each other without overlap, from \<open>lo\<close> up to \<open>e\<close>.  The tail word of a
  block is at \<open>bend b\<close>; it lies in the gap before the next header, or, where there is no gap
  (behind the first block and behind a block that was cut off), on the next header's magic
  number.
\<close>

fun laid :: "nat \<Rightarrow> blk list \<Rightarrow> nat \<Rightarrow> bool" where
  "laid lo [] e \<longleftrightarrow> lo \<le> e"
| "laid lo (b # bs) e \<longleftrightarrow> lo \<le> baddr b \<and> 4 dvd baddr b \<and> 0 < bsize b \<and> 8 dvd bsize b \<and> laid (bend b) bs e"

lemma laid_le: "laid lo bs e \<Longrightarrow> lo \<le> e"
  by (induction bs arbitrary: lo) (fastforce simp: bend_def)+

lemma laid_append:
  "laid lo (xs @ b # ys) e \<longleftrightarrow> laid lo xs (baddr b) \<and> laid (baddr b) (b # ys) e"
  by (induction xs arbitrary: lo) auto

lemma laid_weaken: "laid lo bs e \<Longrightarrow> lo' \<le> lo \<Longrightarrow> e \<le> e' \<Longrightarrow> laid lo' bs e'"
  by (induction bs arbitrary: lo lo') auto

lemma laid_mem: "laid lo bs e \<Longrightarrow> b \<in> set bs \<Longrightarrow>
  lo \<le> baddr b \<and> bend b \<le> e \<and> 4 dvd baddr b \<and> 0 < bsize b \<and> 8 dvd bsize b"
  by (induction bs arbitrary: lo) (fastforce simp: bend_def dest: laid_le)+

lemma laid_snoc:
  "laid lo bs e \<Longrightarrow> 4 dvd e \<Longrightarrow> 0 < n \<Longrightarrow> 8 dvd n \<Longrightarrow> e + 20 + n \<le> e' \<Longrightarrow>
   laid lo (bs @ [Blk e n f]) e'"
  by (simp add: laid_append bend_def)

section \<open>The list in memory\<close>

definition hdr :: "mem \<Rightarrow> blk \<Rightarrow> u32 \<Rightarrow> u32 \<Rightarrow> bool" where
  "hdr m b p nx \<longleftrightarrow> rd m (baddr b) = HEAP_MAGIC \<and> rd m (baddr b + 4) = ad (bsize b)
     \<and> rd m (baddr b + 8) = (if bfree b then 1 else 0) \<and> rd m (baddr b + 12) = nx
     \<and> rd m (baddr b + 16) = p \<and> rd m (bend b) = HEAP_MAGIC"

definition first_ad :: "blk list \<Rightarrow> u32 \<Rightarrow> u32" where
  "first_ad bs nx = (case bs of [] \<Rightarrow> nx | b # _ \<Rightarrow> ad (baddr b))"

definition last_ad :: "u32 \<Rightarrow> blk list \<Rightarrow> u32" where
  "last_ad p bs = (if bs = [] then p else ad (baddr (last bs)))"

fun seg :: "mem \<Rightarrow> u32 \<Rightarrow> blk list \<Rightarrow> u32 \<Rightarrow> bool" where
  "seg m p [] nx \<longleftrightarrow> True"
| "seg m p (b # bs) nx \<longleftrightarrow> hdr m b p (first_ad bs nx) \<and> seg m (ad (baddr b)) bs nx"

lemma first_ad_simps [simp]: "first_ad [] nx = nx" "first_ad (b # bs) nx = ad (baddr b)"
  by (simp_all add: first_ad_def)

lemma last_ad_simps [simp]: "last_ad p [] = p" "last_ad p (bs @ [b]) = ad (baddr b)"
  "last_ad p (b # bs) = last_ad (ad (baddr b)) bs"
  by (simp_all add: last_ad_def)

lemma first_ad_append [simp]: "first_ad (xs @ ys) nx = first_ad xs (first_ad ys nx)"
  by (cases xs) simp_all

lemma seg_append: "seg m p (xs @ ys) nx \<longleftrightarrow> seg m p xs (first_ad ys nx) \<and> seg m (last_ad p xs) ys nx"
  by (induction xs arbitrary: p) auto

text \<open>
  Where the heap keeps its bytes: from \<open>0x400000\<close> on, and below the kernel, where the blocks lie that
  were allocated before \<open>heap_init\<close> had set it up.  Those blocks are in use.
\<close>

definition heap_area :: "nat set" where
  "heap_area = {0x1014..<0x100000} \<union> {0x400000..<0x800000}"

text \<open>The \<open>n\<close> bytes at \<open>x\<close> lie where the heap keeps nothing, as those of the kernel's image do.\<close>

definition off_heap :: "nat \<Rightarrow> nat \<Rightarrow> bool" where
  "off_heap x n \<longleftrightarrow> x + n \<le> 0x1014 \<or> 0x100000 \<le> x \<and> x + n \<le> 0x400000 \<or> 0x800000 \<le> x"

lemma off_heap_disjoint: "off_heap x n \<Longrightarrow> {x..<x + n} \<inter> heap_area = {}"
  by (auto simp: off_heap_def heap_area_def)

lemma off_heap_numeral [simp]:
  "off_heap (numeral x) (numeral n) \<longleftrightarrow> numeral x + numeral n \<le> (0x1014 :: nat)
     \<or> 0x100000 \<le> (numeral x :: nat) \<and> numeral x + numeral n \<le> (0x400000 :: nat) \<or> 0x800000 \<le> (numeral x :: nat)"
  "off_heap (numeral x) (Suc k) \<longleftrightarrow> numeral x + Suc k \<le> (0x1014 :: nat)
     \<or> 0x100000 \<le> (numeral x :: nat) \<and> numeral x + Suc k \<le> (0x400000 :: nat) \<or> 0x800000 \<le> (numeral x :: nat)"
  by (simp_all add: off_heap_def)

lemma ivl_apart: "0 < n \<Longrightarrow> {y..<y + n} \<subseteq> A \<Longrightarrow> {x..<x + n} \<inter> A = {} \<Longrightarrow> x + n \<le> y \<or> y + n \<le> (x :: nat)"
  by (rule ccontr) (cases "x \<le> y"; auto simp: disjoint_iff subset_iff not_le; metis add_leD1 less_add_same_cancel1 nat_le_linear not_less order_less_le_trans)

lemma off_heap_mono: "off_heap x n \<Longrightarrow> k \<le> n \<Longrightarrow> off_heap x k"
  by (auto simp: off_heap_def)

definition early_used :: "blk \<Rightarrow> bool" where
  "early_used b \<longleftrightarrow> 0x400000 \<le> baddr b \<or> \<not> bfree b \<and> bend b + 4 \<le> 0x100000"

text \<open>
  The heap's variables and memory hold the blocks \<open>bs\<close> and end at \<open>e\<close>: the last block of a
  heap that is not empty is in use.
\<close>

definition heap_ok :: "heap \<Rightarrow> blk list \<Rightarrow> nat \<Rightarrow> bool" where
  "heap_ok h bs e \<longleftrightarrow> heap_start h = 0x400000 \<and> heap_end h = ad e \<and> 0x400000 \<le> e \<and> e < 0x800000 \<and> 4 dvd e
     \<and> heap_head h = first_ad bs 0 \<and> laid 0x1014 bs e \<and> (\<forall>b\<in>set bs. early_used b) \<and> seg (hmem h) 0 bs 0
     \<and> (if bs = [] then e = 0x400000 else \<not> bfree (last bs))"

text \<open>Reads of other words leave a part of the list as it is.\<close>

lemma seg_frame:
  assumes "seg m p bs nx" and "laid lo bs e"
    and "\<And>y. lo \<le> y \<Longrightarrow> y \<le> e \<Longrightarrow> 4 dvd y \<Longrightarrow> rd m' y = rd m y"
  shows "seg m' p bs nx"
  using assms
proof (induction bs arbitrary: p lo)
  case Nil
  then show ?case by simp
next
  case (Cons b bs)
  from Cons.prems have l: "lo \<le> baddr b" "4 dvd baddr b" "laid (bend b) bs e" and d8: "8 dvd bsize b"
    by auto
  from d8 have "4 dvd bsize b" using dvd_trans [of "4::nat" 8] by simp
  with l have d: "4 dvd bend b" by (simp add: bend_def)
  have le: "bend b \<le> e" using laid_le [OF l(3)] .
  have "seg m' (ad (baddr b)) bs nx"
    using Cons.prems l le by (intro Cons.IH) (auto simp: bend_def)
  moreover have "hdr m' b p (first_ad bs nx)"
    using Cons.prems(1) l le d by (simp add: hdr_def Cons.prems(3) bend_def)
  ultimately show ?case by simp
qed

section \<open>The allocator on the list of blocks\<close>

definition fits :: "nat \<Rightarrow> blk \<Rightarrow> bool" where "fits n b \<longleftrightarrow> bfree b \<and> n \<le> bsize b"

text \<open>The free block \<open>b\<close> given out for \<open>n\<close> bytes, the rest cut off when it can hold a block.\<close>

definition carve :: "nat \<Rightarrow> blk \<Rightarrow> blk list" where
  "carve n b =
     (if n + 32 \<le> bsize b
      then [Blk (baddr b) n False, Blk (baddr b + 20 + n) (bsize b - n - 24) True]
      else [Blk (baddr b) (bsize b) False])"

fun take_fit :: "nat \<Rightarrow> blk list \<Rightarrow> (nat \<times> blk list) option" where
  "take_fit n [] = None"
| "take_fit n (b # bs) =
     (if fits n b then Some (baddr b + 20, carve n b @ bs)
      else map_option (\<lambda>(p, bs'). (p, b # bs')) (take_fit n bs))"

definition round8 :: "nat \<Rightarrow> nat" where "round8 n = (n + 7) div 8 * 8"

text \<open>The test made first: the request would not fit behind the last block.\<close>

definition refused :: "nat \<Rightarrow> nat \<Rightarrow> bool" where
  "refused s e \<longleftrightarrow> e + 24 \<le> 0x800000 \<and> 0x800000 < e + 24 + s"

text \<open>
  \<open>alloc_spec n bs e\<close> is the address given out (0 for none), the blocks and the end after
  a request of \<open>n\<close> bytes: first fit, and a new block behind the last one where none fits.
  The request is refused early when it would not fit behind the last block, even if a free
  block could hold it.
\<close>

definition alloc_spec :: "nat \<Rightarrow> blk list \<Rightarrow> nat \<Rightarrow> nat \<times> blk list \<times> nat" where
  "alloc_spec n bs e =
     (let s = round8 n
      in if n = 0 \<or> refused s e then (0, bs, e)
         else if bs = [] then (e + 20, [Blk e s False], e + 20 + s)
         else case take_fit s bs of
                Some (p, bs') \<Rightarrow> (p, bs', e)
              | None \<Rightarrow> if 0x800000 \<le> e + 24 + s then (0, bs, e)
                        else (e + 20, bs @ [Blk e s False], e + 24 + s))"

lemma take_fit_Some:
  "take_fit n bs = Some (p, bs') \<Longrightarrow>
   \<exists>xs b ys. bs = xs @ b # ys \<and> (\<forall>x\<in>set xs. \<not> fits n x) \<and> fits n b
     \<and> p = baddr b + 20 \<and> bs' = xs @ carve n b @ ys"
proof (induction bs arbitrary: bs')
  case Nil
  then show ?case by simp
next
  case (Cons c bs)
  show ?case
  proof (cases "fits n c")
    case True
    then show ?thesis using Cons.prems by (intro exI [of _ "[]"] exI [of _ c] exI [of _ bs]) auto
  next
    case False
    then obtain bs'' where t: "take_fit n bs = Some (p, bs'')" and bs': "bs' = c # bs''"
      using Cons.prems by auto
    from Cons.IH [OF t] obtain xs b ys
      where "bs = xs @ b # ys" "\<forall>x\<in>set xs. \<not> fits n x" "fits n b" "p = baddr b + 20"
        "bs'' = xs @ carve n b @ ys" by blast
    with False bs' show ?thesis
      by (intro exI [of _ "c # xs"] exI [of _ b] exI [of _ ys]) auto
  qed
qed

lemma take_fit_None: "take_fit n bs = None \<longleftrightarrow> (\<forall>b\<in>set bs. \<not> fits n b)"
  by (induction bs) auto

lemma take_fit_first:
  "\<forall>x\<in>set xs. \<not> fits n x \<Longrightarrow> fits n b \<Longrightarrow>
   take_fit n (xs @ b # ys) = Some (baddr b + 20, xs @ carve n b @ ys)"
  by (induction xs) auto

lemma carve_nonempty [simp]: "carve n b \<noteq> []" by (simp add: carve_def)

end
