(* ===== verification/HeapAlloc.thy ===== *)
theory HeapAlloc imports HeapSpec begin

text \<open>
  \<open>kmalloc\<close> implements the first-fit allocator on the list of blocks, keeps the layout, and
  leaves the bytes of every block in use alone.
\<close>

section \<open>Field accesses at numbered addresses\<close>

lemma bh_ad [mem_simps]:
  "bh_magic m (ad a) = rd m a" "bh_size m (ad a) = rd m (a + 4)" "bh_free m (ad a) = rd m (a + 8)"
  "bh_next m (ad a) = rd m (a + 12)" "bh_prev m (ad a) = rd m (a + 16)"
  "set_magic (ad a) v m = store32 m (ad a) v" "set_size (ad a) v m = store32 m (ad (a + 4)) v"
  "set_free (ad a) v m = store32 m (ad (a + 8)) v" "set_next (ad a) v m = store32 m (ad (a + 12)) v"
  "set_prev (ad a) v m = store32 m (ad (a + 16)) v"
  by (simp_all add: bh_defs load32_ad ad_add_numeral)

lemmas rd_rules = rd_store_same rd_store_below rd_store_above

section \<open>The search\<close>

lemma search_walk:
  assumes "seg m p bs 0" and "bs \<noteq> []" and "laid lo bs e" and "0 < lo" and "e < 0x800000"
    and "n < 4294967296"
  shows "kmalloc_search m (ad n) (ad (baddr (hd bs))) =
    Some (case find (fits n) bs of Some b \<Rightarrow> (True, ad (baddr b)) | None \<Rightarrow> (False, ad (baddr (last bs))))"
  using assms
proof (induction bs arbitrary: p lo)
  case Nil
  then show ?case by simp
next
  case (Cons b bs)
  from Cons.prems have b: "lo \<le> baddr b" "laid (bend b) bs e" "hdr m b p (first_ad bs 0)"
    "seg m (ad (baddr b)) bs 0" by auto
  have le: "bend b \<le> e" using laid_le [OF b(2)] .
  then have lt: "baddr b < 4294967296" "bsize b < 4294967296" using Cons.prems by (auto simp: bend_def)
  have b0: "ad (baddr b) \<noteq> 0" using lt b(1) Cons.prems by (simp add: ad_eq_0_iff)
  have fit: "bh_free m (ad (baddr b)) \<noteq> 0 \<and> ad n \<le> bh_size m (ad (baddr b)) \<longleftrightarrow> fits n b"
    using b(3) lt Cons.prems by (simp add: hdr_def mem_simps fits_def ad_le_iff)
  have nx: "bh_next m (ad (baddr b)) = first_ad bs 0"
    using b(3) by (simp add: hdr_def mem_simps)
  show ?case
  proof (cases "fits n b")
    case True
    with fit b0 show ?thesis by (subst kmalloc_search.simps) simp
  next
    case False
    show ?thesis
    proof (cases bs)
      case Nil
      with False fit b0 nx show ?thesis by (subst kmalloc_search.simps) auto
    next
      case (Cons c cs)
      from b(2) Cons have "bend b \<le> baddr c" "bend c \<le> e" using laid_le by auto
      then have c0: "ad (baddr c) \<noteq> 0"
        using Cons.prems b(1) by (subst ad_eq_0_iff) (auto simp: bend_def)
      have "kmalloc_search m (ad n) (ad (baddr (hd bs))) =
        Some (case find (fits n) bs of Some b \<Rightarrow> (True, ad (baddr b)) | None \<Rightarrow> (False, ad (baddr (last bs))))"
        using Cons.prems b Cons by (intro Cons.IH) (auto simp: bend_def)
      with False fit b0 c0 nx Cons show ?thesis
        by (subst kmalloc_search.simps) (auto split: option.split)
    qed
  qed
qed

lemma find_first: "\<forall>x\<in>set xs. \<not> P x \<Longrightarrow> P b \<Longrightarrow> find P (xs @ b # ys) = Some b"
  by (induction xs) auto

section \<open>Cutting a block and taking it\<close>

text \<open>Every word after the cut, with the successor of the cut block at \<open>c\<close>.\<close>

lemma split_words:
  assumes nx: "rd m (a + 12) = ad c" and sz: "rd m (a + 4) = ad s"
    and fit: "n + 32 \<le> s" and n: "8 \<le> n" and c: "a + 20 + s \<le> c" "c < 0x800000" and a: "0x1014 \<le> a"
  defines "m' \<equiv> kmalloc_split (ad n) (ad a) m"
  shows "\<And>y. y + 4 \<le> a + 4 \<or> (a + 8 \<le> y \<and> y + 4 \<le> a + 12) \<or> (a + 16 \<le> y \<and> y + 4 \<le> a + 20)
      \<or> (a + 20 + s \<le> y \<and> y + 4 \<le> c + 16) \<or> c + 20 \<le> y \<and> y + 4 \<le> 4294967296 \<Longrightarrow> rd m' y = rd m y"
    and "rd m' (a + 4) = ad n" and "rd m' (a + 12) = ad (a + 20 + n)"
    and "rd m' (a + 20 + n) = HEAP_MAGIC" and "rd m' (a + 20 + n + 4) = ad (s - n - 24)"
    and "rd m' (a + 20 + n + 8) = 1" and "rd m' (a + 20 + n + 12) = ad c"
    and "rd m' (a + 20 + n + 16) = ad a" and "rd m' (a + 16 + s) = HEAP_MAGIC"
    and "rd m' (c + 16) = ad (a + 20 + n)"
    and "touches m m' ({a..<a + 20} \<union> {a + 20 + n..<a + 20 + s} \<union> {c..<c + 20})"
proof -
  have c0: "ad c \<noteq> 0" using c a by (simp add: ad_eq_0_iff)
  have m': "m' = store32 (store32 (store32 (store32 (store32 (store32 (store32 (store32 (store32 (store32 m
      (ad (a + 20 + n)) HEAP_MAGIC) (ad (a + 20 + n + 4)) (ad (s - n - 24))) (ad (a + 20 + n + 8)) 1)
      (ad (a + 20 + n + 12)) (ad c)) (ad (a + 20 + n + 16)) (ad a))
      (ad (a + 16 + s)) HEAP_MAGIC) (ad (c + 16)) (ad (a + 20 + n))) (ad (a + 4)) (ad n))
      (ad (a + 12)) (ad (a + 20 + n))) (ad (a + 20 + n)) HEAP_MAGIC"
    using assms(1-7) c0 unfolding m'_def kmalloc_split_def Let_def
    by (simp add: mem_simps addr_simps rd_rules ac_simps)
  show "rd m' y = rd m y" if "y + 4 \<le> a + 4 \<or> (a + 8 \<le> y \<and> y + 4 \<le> a + 12) \<or> (a + 16 \<le> y \<and> y + 4 \<le> a + 20)
      \<or> (a + 20 + s \<le> y \<and> y + 4 \<le> c + 16) \<or> c + 20 \<le> y \<and> y + 4 \<le> 4294967296" for y
    using that assms(3-7) unfolding m' by (elim disjE) (simp_all add: rd_rules)
  show "rd m' (a + 4) = ad n" and "rd m' (a + 12) = ad (a + 20 + n)"
    and "rd m' (a + 20 + n) = HEAP_MAGIC" and "rd m' (a + 20 + n + 4) = ad (s - n - 24)"
    and "rd m' (a + 20 + n + 8) = 1" and "rd m' (a + 20 + n + 12) = ad c"
    and "rd m' (a + 20 + n + 16) = ad a" and "rd m' (a + 16 + s) = HEAP_MAGIC"
    and "rd m' (c + 16) = ad (a + 20 + n)"
    unfolding m' using assms(3-7) by (simp_all add: rd_rules)
  show "touches m m' ({a..<a + 20} \<union> {a + 20 + n..<a + 20 + s} \<union> {c..<c + 20})"
    unfolding m' using assms(3-7) by (intro touches_store touches_refl) auto
qed

lemma seg_insert_split:
  assumes sg: "seg m 0 (xs @ b # c # zs) 0" and la: "laid 0x1014 (xs @ b # c # zs) e" and e: "e < 0x800000"
    and fit: "n + 32 \<le> bsize b" and n: "8 \<le> n" "8 dvd n"
  shows "seg (store32 (kmalloc_split (ad n) (ad (baddr b)) m) (ad (baddr b + 8)) 0) 0
    (xs @ [Blk (baddr b) n False, Blk (baddr b + 20 + n) (bsize b - n - 24) True] @ c # zs) 0"
    (is "seg ?m' _ _ _")
proof -
  define a where "a = baddr b"
  define s where "s = bsize b"
  from la have lx: "laid 0x1014 xs a" and ab: "0x1014 \<le> a" and bc: "a + 20 + s \<le> baddr c"
    and lz: "laid (bend c) zs e"
    using laid_le [of "0x1014" xs "baddr b"] by (auto simp: laid_append a_def s_def bend_def)
  have ce: "bend c \<le> e" using laid_le [OF lz] .
  have hb: "hdr m b (last_ad 0 xs) (ad (baddr c))" and hc: "hdr m c (ad a) (first_ad zs 0)"
    and sx: "seg m 0 xs (ad a)" and sz: "seg m (ad (baddr c)) zs 0"
    using sg by (auto simp: seg_append a_def)
  have nx: "rd m (a + 12) = ad (baddr c)" and szb: "rd m (a + 4) = ad s"
    using hb by (auto simp: hdr_def a_def s_def)
  have fit': "n + 32 \<le> s" using fit by (simp add: s_def)
  have cl: "baddr c < 0x800000" using ce e by (simp add: bend_def)
  note w = split_words [OF nx szb fit' n(1) bc cl ab]
  define m1 where "m1 = kmalloc_split (ad n) (ad a) m"
  have m': "?m' = store32 m1 (ad (a + 8)) 0" by (simp add: m1_def a_def)
  note w = w [folded m1_def]
  have same: "rd ?m' y = rd m y" if "y \<le> a \<or> bend c \<le> y \<and> y \<le> e \<or> baddr c \<le> y \<and> y \<le> baddr c + 12" for y
    using that w(1) [of y] fit' bc ce cl e ab unfolding m' by (auto simp: rd_rules bend_def)
  have "hdr ?m' (Blk a n False) (last_ad 0 xs) (ad (a + 20 + n))"
    using w hb fit' bc cl ab by (simp add: m' hdr_def rd_rules bend_def a_def)
  moreover have "hdr ?m' (Blk (a + 20 + n) (s - n - 24) True) (ad a) (ad (baddr c))"
  proof -
    have "bend (Blk (a + 20 + n) (s - n - 24) True) = a + 16 + s"
      using fit' by (simp add: bend_def)
    with w fit' bc cl ab show ?thesis by (simp add: m' hdr_def rd_rules add.assoc)
  qed
  moreover have "hdr ?m' c (ad (a + 20 + n)) (first_ad zs 0)"
  proof -
    have "rd ?m' (baddr c + 16) = ad (a + 20 + n)"
      using w fit' bc cl ab by (simp add: m' rd_rules)
    then show ?thesis using hc same ce by (simp add: hdr_def)
  qed
  moreover have "seg ?m' 0 xs (ad a)"
    using sx lx by (rule seg_frame) (simp add: same)
  moreover have "seg ?m' (ad (baddr c)) zs 0"
    using sz lz by (rule seg_frame) (simp add: same)
  ultimately show ?thesis
    by (simp add: seg_append a_def s_def)
qed

lemma seg_set_free:
  assumes sg: "seg m 0 (xs @ b # ys) 0" and la: "laid 0x1014 (xs @ b # ys) e" and e: "e < 0x800000"
    and v: "v = (if f then 1 else 0)"
  shows "seg (store32 m (ad (baddr b + 8)) v) 0 (xs @ Blk (baddr b) (bsize b) f # ys) 0"
proof -
  from la have lx: "laid 0x1014 xs (baddr b)" and ly: "laid (bend b) ys e" and b0: "0 < bsize b"
    by (auto simp: laid_append)
  note le = laid_le [OF lx] laid_le [OF ly]
  have same: "rd (store32 m (ad (baddr b + 8)) v) y = rd m y"
    if "y \<le> baddr b + 4 \<or> baddr b + 12 \<le> y \<and> y \<le> e" for y
    using that e le by (auto simp: rd_rules bend_def)
  show ?thesis
    using sg le e b0
    by (auto simp: seg_append hdr_def bend_def v rd_rules same
        intro: seg_frame [OF _ lx] seg_frame [OF _ ly])
qed

section \<open>What an operation leaves alone\<close>

definition payload :: "blk \<Rightarrow> nat set" where "payload b = {baddr b + 20..<bend b}"

text \<open>The bytes outside the heap, and the payloads of the blocks in use, stay as they are.\<close>

definition keeps :: "blk list \<Rightarrow> mem \<Rightarrow> mem \<Rightarrow> bool" where
  "keeps bs m m' \<longleftrightarrow> (\<forall>y < 4294967296.
     (y \<notin> heap_area \<or> (\<exists>b\<in>set bs. \<not> bfree b \<and> y \<in> payload b)) \<longrightarrow> m' (ad y) = m (ad y))"

lemma keeps_refl [simp]: "keeps bs m m"
  by (simp add: keeps_def)

lemma keepsI:
  assumes "touches m m' S" and "\<And>y. y \<in> S \<Longrightarrow> y \<in> heap_area"
    and "\<And>y b. y \<in> S \<Longrightarrow> b \<in> set bs \<Longrightarrow> \<not> bfree b \<Longrightarrow> y \<notin> payload b"
  shows "keeps bs m m'"
  using assms unfolding keeps_def touches_def by blast

text \<open>The payload of a block lies apart from the blocks before and behind it.\<close>

lemma payload_side:
  assumes "laid lo (xs @ b # ys) e"
  shows "x \<in> set xs \<Longrightarrow> y \<in> payload x \<Longrightarrow> y < baddr b"
    and "x \<in> set ys \<Longrightarrow> y \<in> payload x \<Longrightarrow> bend b + 20 \<le> y \<and> y < e"
  using assms by (fastforce simp: laid_append payload_def dest: laid_mem)+

lemma kmalloc_take_ok:
  assumes ok: "heap_ok h (xs @ b # ys) e" and fit: "fits n b" and n: "8 \<le> n" "8 dvd n"
  shows "\<exists>h'. kmalloc_take (ad n) (ad (baddr b)) h = (ad (baddr b + 20), h')
    \<and> heap_ok h' (xs @ carve n b @ ys) e \<and> keeps (xs @ b # ys) (hmem h) (hmem h') \<and> screen h' = screen h"
proof -
  define a where "a = baddr b"
  have fb: "bfree b" "n \<le> bsize b" using fit by (auto simp: fits_def)
  from ok fb obtain c zs where ys: "ys = c # zs" by (cases ys) (auto simp: heap_ok_def)
  from ok have la: "laid 0x1014 (xs @ b # c # zs) e" and sg: "seg (hmem h) 0 (xs @ b # c # zs) 0"
    and e: "e < 0x800000" by (auto simp: heap_ok_def ys)
  have ab: "0x1014 \<le> a" and bc: "bend b \<le> baddr c" and ce: "bend c \<le> e"
    using la laid_le [of "0x1014" xs a] laid_le [of "bend c" zs e] by (auto simp: laid_append a_def)
  have ah: "0x400000 \<le> a" using ok fb by (auto simp: heap_ok_def early_used_def a_def)
  have bs: "rd (hmem h) (a + 4) = ad (bsize b)" using sg by (auto simp: seg_append hdr_def a_def)
  define m where "m = (if n + 32 \<le> bsize b then kmalloc_split (ad n) (ad a) (hmem h) else hmem h)"
  define m' where "m' = store32 m (ad (a + 8)) 0"
  have take: "kmalloc_take (ad n) (ad (baddr b)) h = (ad (baddr b + 20), h\<lparr>hmem := m'\<rparr>)"
    using fb bc ce e by (simp add: kmalloc_take_def Let_def bh_ad bs [unfolded a_def] m'_def m_def a_def
        addr_simps bend_def)
  have lc: "laid 0x1014 (xs @ carve n b @ ys) e"
    using la fb n unfolding ys carve_def by (auto simp: laid_append bend_def dvd_diff_nat)
  have sg': "seg m' 0 (xs @ carve n b @ ys) 0"
  proof (cases "n + 32 \<le> bsize b")
    case True
    then show ?thesis
      using seg_insert_split [OF sg la e True n] by (simp add: m'_def m_def carve_def a_def ys)
  next
    case False
    then show ?thesis
      using seg_set_free [OF sg la e, of 0 False] by (simp add: m'_def m_def carve_def a_def ys)
  qed
  have t: "touches (hmem h) m' ({a..<a + 20} \<union> {a + 20..<bend b} \<union> {baddr c..<baddr c + 20})"
  proof (cases "n + 32 \<le> bsize b")
    case True
    have "rd (hmem h) (a + 12) = ad (baddr c)" using sg by (auto simp: seg_append hdr_def a_def)
    from split_words(11) [OF this bs True n(1) _ _ ab] bc ce e
    have "touches (hmem h) m ({a..<a + 20} \<union> {a + 20 + n..<a + 20 + bsize b} \<union> {baddr c..<baddr c + 20})"
      using True by (simp add: m_def bend_def a_def)
    then have "touches (hmem h) m ({a..<a + 20} \<union> {a + 20..<bend b} \<union> {baddr c..<baddr c + 20})"
      by (rule touches_mono) (auto simp: bend_def a_def)
    then show ?thesis unfolding m'_def
      by (rule touches_store) (use bc ce e in \<open>auto simp: bend_def a_def\<close>)
  next
    case False
    then show ?thesis unfolding m'_def m_def using ab bc ce e
      by (intro touches_store touches_refl) (auto simp: bend_def a_def)
  qed
  have "keeps (xs @ b # ys) (hmem h) m'"
    using t
  proof (rule keepsI)
    fix y assume y: "y \<in> {a..<a + 20} \<union> {a + 20..<bend b} \<union> {baddr c..<baddr c + 20}"
    then show "y \<in> heap_area" using ah bc ce e by (auto simp: bend_def a_def heap_area_def)
    fix d assume d: "d \<in> set (xs @ b # ys)" "\<not> bfree d"
    then consider "d \<in> set xs" | "d = c" | "d \<in> set zs" using fb ys by auto
    then show "y \<notin> payload d"
    proof cases
      case 1
      then show ?thesis using payload_side(1) [OF la 1, of y] y bc by (auto simp: a_def bend_def)
    next
      case 2
      then show ?thesis using y bc by (auto simp: a_def bend_def payload_def)
    next
      case 3
      have "laid 0x1014 ((xs @ [b]) @ c # zs) e" using la by simp
      from payload_side(2) [OF this 3, of y] show ?thesis using y bc by (auto simp: a_def bend_def)
    qed
  qed
  moreover have "heap_ok (h\<lparr>hmem := m'\<rparr>) (xs @ carve n b @ ys) e"
    using ok lc sg' ah by (cases xs) (auto simp: heap_ok_def ys carve_def early_used_def a_def)
  ultimately show ?thesis using take by simp
qed

section \<open>A new block at the end\<close>

text \<open>The stores, on any list of blocks whose end is known.\<close>

lemma append_words:
  assumes la: "laid lo (bs @ [c]) e" and sg: "seg (hmem h) 0 (bs @ [c]) 0"
    and e: "heap_end h = ad e" "4 dvd e" and n: "0 < n" and room: "e + 24 + n < 0x800000"
  shows "\<exists>m. kmalloc_append (ad n) (ad (baddr c)) h = (ad (e + 20), h\<lparr>hmem := m, heap_end := ad (e + 24 + n)\<rparr>)
    \<and> seg m 0 ((bs @ [c]) @ [Blk e n False]) 0
    \<and> touches (hmem h) m ({e..<e + 24 + n} \<union> {baddr c..<baddr c + 20})"
proof -
  from la have lb: "laid lo bs (baddr c)" and ce: "bend c \<le> e" by (auto simp: laid_append)
  define m where "m = store32 (store32 (store32 (store32 (store32 (store32 (store32 (hmem h)
     (ad e) HEAP_MAGIC) (ad (e + 4)) (ad n)) (ad (e + 8)) 0) (ad (e + 12)) 0) (ad (e + 16)) (ad (baddr c)))
     (ad (e + 20 + n)) HEAP_MAGIC) (ad (baddr c + 12)) (ad e)"
  have app: "kmalloc_append (ad n) (ad (baddr c)) h = (ad (e + 20), h\<lparr>hmem := m, heap_end := ad (e + 24 + n)\<rparr>)"
    using e n room by (simp add: kmalloc_append_def Let_def bh_ad rd_rules addr_simps m_def ac_simps)
  have same: "rd m y = rd (hmem h) y" if "y \<le> baddr c + 8 \<or> baddr c + 16 \<le> y \<and> y + 4 \<le> e" for y
    using that ce e n room unfolding m_def by (elim disjE) (simp_all add: rd_rules bend_def)
  have magic: "rd m e = HEAP_MAGIC" and next_c: "rd m (baddr c + 12) = ad e"
    using ce room n unfolding m_def by (simp_all add: rd_rules bend_def)
  have tail: "rd m (bend c) = HEAP_MAGIC"
  proof (cases "bend c = e")
    case True
    with magic show ?thesis by simp
  next
    case False
    have "4 dvd bend c" using laid_mem [OF la, of c] by (auto simp: bend_def intro: dvd_trans [of 4 8])
    with e False ce have "bend c + 4 \<le> e" by (auto elim!: dvdE)
    with same [of "bend c"] sg show ?thesis by (auto simp: seg_append hdr_def bend_def)
  qed
  have "hdr m (Blk e n False) (ad (baddr c)) 0"
    using ce room n unfolding m_def hdr_def by (simp add: rd_rules bend_def)
  moreover have "hdr m c (last_ad 0 bs) (ad e)"
    using sg tail next_c same ce by (auto simp: seg_append hdr_def bend_def)
  moreover have "seg m 0 bs (ad (baddr c))"
    by (rule seg_frame [OF _ lb]) (use sg same in \<open>auto simp: seg_append\<close>)
  moreover have "touches (hmem h) m ({e..<e + 24 + n} \<union> {baddr c..<baddr c + 20})"
    unfolding m_def using ce n room by (intro touches_store touches_refl) (auto simp: bend_def)
  ultimately show ?thesis using app by (auto simp: seg_append)
qed

lemma kmalloc_append_ok:
  assumes ok: "heap_ok h (bs @ [c]) e" and n: "0 < n" "8 dvd n" and room: "e + 24 + n < 0x800000"
  shows "\<exists>h'. kmalloc_append (ad n) (ad (baddr c)) h = (ad (e + 20), h')
    \<and> heap_ok h' ((bs @ [c]) @ [Blk e n False]) (e + 24 + n)
    \<and> keeps (bs @ [c]) (hmem h) (hmem h') \<and> screen h' = screen h"
proof -
  from ok have la: "laid 0x1014 (bs @ [c]) e" and sg: "seg (hmem h) 0 (bs @ [c]) 0"
    and e: "0x400000 \<le> e" "e < 0x800000" "4 dvd e" "heap_end h = ad e" and ec: "early_used c" by (auto simp: heap_ok_def)
  from la have lb: "laid 0x1014 bs (baddr c)" and ce: "bend c \<le> e" by (auto simp: laid_append)
  note cb = laid_le [OF lb]
  from append_words [OF la sg e(4,3) n(1) room] obtain m where
    app: "kmalloc_append (ad n) (ad (baddr c)) h = (ad (e + 20), h\<lparr>hmem := m, heap_end := ad (e + 24 + n)\<rparr>)"
    and sg': "seg m 0 ((bs @ [c]) @ [Blk e n False]) 0"
    and t: "touches (hmem h) m ({e..<e + 24 + n} \<union> {baddr c..<baddr c + 20})" by blast
  have "keeps (bs @ [c]) (hmem h) m"
    using t
  proof (rule keepsI)
    fix y assume y: "y \<in> {e..<e + 24 + n} \<union> {baddr c..<baddr c + 20}"
    then show "y \<in> heap_area" using cb ce e room ec by (auto simp: bend_def heap_area_def early_used_def)
    fix d assume d: "d \<in> set (bs @ [c])"
    show "y \<notin> payload d"
    proof (cases "d = c")
      case True
      with y ce show ?thesis by (auto simp: payload_def)
    next
      case False
      with d y payload_side(1) [OF la, of d y] ce show ?thesis by (auto simp: bend_def)
    qed
  qed
  moreover have "heap_ok (h\<lparr>hmem := m, heap_end := ad (e + 24 + n)\<rparr>) ((bs @ [c]) @ [Blk e n False]) (e + 24 + n)"
  proof -
    have "laid 0x1014 ((bs @ [c]) @ [Blk e n False]) (e + 24 + n)"
      using la e n by (intro laid_snoc) auto
    moreover have "4 dvd e + 24 + n" using e n by (auto intro: dvd_trans [of 4 8])
    ultimately show ?thesis using ok sg' room e(1) by (cases bs) (auto simp: heap_ok_def early_used_def)
  qed
  ultimately show ?thesis using app by auto
qed

lemma kmalloc_first_ok:
  assumes ok: "heap_ok h [] e" and n: "0 < n" "8 dvd n" and room: "e + 24 + n \<le> 0x800000"
  shows "\<exists>h'. kmalloc_first (ad n) h = (ad (e + 20), h') \<and> heap_ok h' [Blk e n False] (e + 20 + n)
    \<and> keeps [] (hmem h) (hmem h') \<and> screen h' = screen h"
proof -
  from ok have e: "e = 0x400000" "heap_end h = ad e" by (auto simp: heap_ok_def)
  define m where "m = store32 (store32 (store32 (store32 (store32 (store32 (hmem h)
     (ad e) HEAP_MAGIC) (ad (e + 4)) (ad n)) (ad (e + 8)) 0) (ad (e + 12)) 0) (ad (e + 16)) 0)
     (ad (e + 20 + n)) HEAP_MAGIC"
  have first: "kmalloc_first (ad n) h =
      (ad (e + 20), h\<lparr>hmem := m, heap_head := ad e, heap_end := ad (e + 20 + n)\<rparr>)"
    using n room unfolding kmalloc_first_def Let_def
    by (simp add: bh_ad e(2) addr_simps m_def add.commute add.left_commute)
  have sg: "seg m 0 [Blk e n False] 0"
    using e n room unfolding m_def by (simp add: hdr_def rd_rules bend_def)
  have "touches (hmem h) m {e..<e + 24 + n}"
    unfolding m_def using e n room by (intro touches_store touches_refl) auto
  then have "keeps [] (hmem h) m"
    by (rule keepsI) (use e room in \<open>auto simp: heap_area_def\<close>)
  moreover have "heap_ok (h\<lparr>hmem := m, heap_head := ad e, heap_end := ad (e + 20 + n)\<rparr>) [Blk e n False] (e + 20 + n)"
    using ok sg e n room by (auto simp: heap_ok_def early_used_def bend_def intro: dvd_trans [of 4 8])
  ultimately show ?thesis using first by auto
qed

section \<open>The whole allocation\<close>

lemma round8: "8 dvd round8 n" "n \<le> round8 n" "0 < n \<Longrightarrow> 8 \<le> round8 n" "round8 n \<le> n + 7"
  unfolding round8_def by (presburger | simp)+

lemma align8:
  assumes "unat sz \<le> 0x7FFFFFFF"
  shows "(sz + 7) AND NOT 7 = ad (round8 (unat sz))"
    and "\<not> (sz + 7) AND NOT 7 < sz"
proof -
  have seven: "(7 :: u32) = mask 3" by (simp add: mask_eq_exp_minus_1)
  have "sz + 7 = ad (unat sz + 7)" by (simp add: ad_def)
  then have u: "unat (sz + 7) = unat sz + 7" using assms by (simp add: unat_ad)
  have d: "drop_bit 3 (sz + 7) = ad ((unat sz + 7) div 8)"
    using unat_drop_bit32 [of 3 "sz + 7"] u by (metis ad_unat power3_eq_cube mult_2 numeral_Bit0 numeral_times_numeral semiring_norm(13) semiring_norm(12) semiring_norm(11))
  have "(sz + 7) AND NOT 7 = push_bit 3 (drop_bit 3 (sz + 7))"
    unfolding seven by (rule bit_word_eqI) (auto simp: bit_simps)
  also have "\<dots> = ad (round8 (unat sz))"
    unfolding d by (simp add: round8_def ad_def push_bit_eq_mult)
  finally show eq: "(sz + 7) AND NOT 7 = ad (round8 (unat sz))" .
  have "round8 (unat sz) < 4294967296" using assms round8(4) [of "unat sz"] by linarith
  then show "\<not> (sz + 7) AND NOT 7 < sz" using round8(2) [of "unat sz"]
    unfolding eq by (simp add: word_less_nat_alt unat_ad)
qed

lemma room_test:
  assumes "heap_end h = ad e" and "e < 0x800000" and s: "s \<le> 0x80000006"
  shows "KERNEL_HEAP_END - heap_end h - sizeof_block_header - sizeof_uint32 < ad s \<longleftrightarrow> refused s e"
proof (cases "e + 24 \<le> 0x800000")
  case True
  then have "KERNEL_HEAP_END - heap_end h - sizeof_block_header - sizeof_uint32 = ad (0x800000 - e - 24)"
    unfolding assms(1) by (simp add: ad_def of_nat_diff)
  with True s show ?thesis by (auto simp: refused_def ad_less_iff)
next
  case c: False
  have "KERNEL_HEAP_END - heap_end h - sizeof_block_header - sizeof_uint32 = ad (4294967296 + 0x800000 - e - 24)"
    using c assms by (simp add: ad_def of_nat_diff)
  with c assms s show ?thesis by (simp add: refused_def ad_less_iff)
qed

lemma kmalloc_tests:
  assumes sz: "unat sz \<le> 0x7FFFFFFF" "sz \<noteq> 0" and e: "heap_end h = ad e" "e < 0x800000"
  defines "s \<equiv> round8 (unat sz)"
  shows "kmalloc sz h =
     (if refused s e then Some (0, h) else if heap_head h = 0 then Some (kmalloc_first (ad s) h)
      else map_option (\<lambda>(found, current). if found then kmalloc_take (ad s) current h
             else kmalloc_append (ad s) current h) (kmalloc_search (hmem h) (ad s) (heap_head h)))"
proof -
  have "s \<le> 0x80000006" using sz round8(4) [of "unat sz"] by (auto simp: s_def)
  from room_test [OF e this] show ?thesis
    using sz(2) align8 [OF sz(1)] unfolding s_def by (simp add: kmalloc_def Let_def)
qed

lemma kmalloc_unfold:
  assumes ok: "heap_ok h bs e" and sz: "unat sz \<le> 0x7FFFFFFF" "sz \<noteq> 0"
  defines "s \<equiv> round8 (unat sz)"
  shows "kmalloc sz h =
     (if refused s e then Some (0, h) else if bs = [] then Some (kmalloc_first (ad s) h)
      else map_option (\<lambda>(found, current). if found then kmalloc_take (ad s) current h
             else kmalloc_append (ad s) current h) (kmalloc_search (hmem h) (ad s) (heap_head h)))"
proof -
  have "heap_head h = 0 \<longleftrightarrow> bs = []"
    using ok laid_mem [of "0x1014" bs e "hd bs"] by (cases bs) (auto simp: heap_ok_def ad_eq_0_iff bend_def)
  moreover have "e < 0x800000" "heap_end h = ad e" using ok by (auto simp: heap_ok_def)
  ultimately show ?thesis using kmalloc_tests [OF sz, of h e] unfolding s_def by simp
qed

text \<open>A heap that has blocks: the first that fits is taken, or a new one is added.\<close>

lemma kmalloc_list_ok:
  assumes ok: "heap_ok h bs e" and ne: "bs \<noteq> []" and s: "8 \<le> s" "8 dvd s" "s \<le> 0x80000006"
    and spec: "(case take_fit s bs of Some (p, bs') \<Rightarrow> (p, bs', e)
      | None \<Rightarrow> if 0x800000 \<le> e + 24 + s then (0, bs, e)
                else (e + 20, bs @ [Blk e s False], e + 24 + s)) = (p, bs', e')"
  shows "\<exists>h'. map_option (\<lambda>(found, current). if found then kmalloc_take (ad s) current h
             else kmalloc_append (ad s) current h) (kmalloc_search (hmem h) (ad s) (heap_head h)) = Some (ad p, h')
    \<and> heap_ok h' bs' e' \<and> keeps bs (hmem h) (hmem h') \<and> screen h' = screen h"
proof -
  have e: "e < 0x800000" "heap_end h = ad e" using ok by (auto simp: heap_ok_def)
  obtain b0 rest where bs0: "bs = b0 # rest" using ne by (cases bs) auto
  have head: "heap_head h = ad (baddr (hd bs))" using ok by (simp add: heap_ok_def bs0)
  have walk: "kmalloc_search (hmem h) (ad s) (heap_head h) =
      Some (case find (fits s) bs of Some b \<Rightarrow> (True, ad (baddr b)) | None \<Rightarrow> (False, ad (baddr (last bs))))"
    unfolding head using ok ne s by (intro search_walk [of _ 0 _ "0x1014" e]) (auto simp: heap_ok_def)
  show ?thesis
  proof (cases "take_fit s bs")
    case None
    then have f: "find (fits s) bs = None" by (simp add: take_fit_None find_None_iff)
    show ?thesis
    proof (cases "0x800000 \<le> e + 24 + s")
      case True
      have "kmalloc_append (ad s) (ad (baddr (last bs))) h = (0, h)"
        using True s e unfolding kmalloc_append_def Let_def e by (simp add: addr_simps)
      with walk f spec None True ok show ?thesis by (simp add: ad_0)
    next
      case False
      then have "\<exists>h'. kmalloc_append (ad s) (ad (baddr (last bs))) h = (ad (e + 20), h')
          \<and> heap_ok h' ((butlast bs @ [last bs]) @ [Blk e s False]) (e + 24 + s)
          \<and> keeps (butlast bs @ [last bs]) (hmem h) (hmem h') \<and> screen h' = screen h"
        using ok ne s by (intro kmalloc_append_ok) auto
      with walk f ne None False spec show ?thesis by auto
    qed
  next
    case (Some r)
    then have t: "take_fit s bs = Some (p, bs')" and e': "e' = e"
      using spec by (auto split: prod.splits)
    from take_fit_Some [OF t] obtain xs b ys where b: "bs = xs @ b # ys" "\<forall>x\<in>set xs. \<not> fits s x"
        "fits s b" "p = baddr b + 20" "bs' = xs @ carve s b @ ys" by blast
    then have "find (fits s) bs = Some b" by (simp add: find_first)
    with walk kmalloc_take_ok [OF _ b(3) s(1,2), of h xs ys e] ok b e' show ?thesis by auto
  qed
qed

text \<open>
  \<open>kmalloc\<close> returns: on a heap that holds the blocks \<open>bs\<close> it gives out the address that
  the first-fit allocator on \<open>bs\<close> gives (0 where that refuses), leaves the blocks of the
  allocator, linked both ways and with their magic numbers, and changes no byte outside the
  heap and none of a block in use.  The request must be below 2 GB.
\<close>

lemma kmalloc_refines:
  assumes ok: "heap_ok h bs e" and sz: "unat sz \<le> 0x7FFFFFFF"
    and spec: "alloc_spec (unat sz) bs e = (p, bs', e')"
  shows "\<exists>h'. kmalloc sz h = Some (ad p, h') \<and> heap_ok h' bs' e' \<and> keeps bs (hmem h) (hmem h')
    \<and> screen h' = screen h"
proof (cases "sz = 0")
  case True
  with ok spec show ?thesis by (simp add: kmalloc_def alloc_spec_def ad_0)
next
  case False
  define s where "s = round8 (unat sz)"
  have s: "8 \<le> s" "8 dvd s" "s \<le> 0x80000006"
    using False sz round8(1) round8(3,4) [of "unat sz"] by (auto simp: s_def unat_gt_0)
  note k = kmalloc_unfold [OF ok sz False, folded s_def]
  have sp: "alloc_spec (unat sz) bs e =
     (if refused s e then (0, bs, e) else if bs = [] then (e + 20, [Blk e s False], e + 20 + s)
      else case take_fit s bs of Some (p, bs') \<Rightarrow> (p, bs', e)
           | None \<Rightarrow> if 0x800000 \<le> e + 24 + s then (0, bs, e)
                     else (e + 20, bs @ [Blk e s False], e + 24 + s))"
    using False unfolding s_def by (simp add: alloc_spec_def Let_def unat_eq_0)
  consider "refused s e" | "\<not> refused s e" "bs = []" | "\<not> refused s e" "bs \<noteq> []" by blast
  then show ?thesis
  proof cases
    case 1
    with k sp spec ok show ?thesis by (simp add: ad_0)
  next
    case 2
    then have "e + 24 + s \<le> 0x800000" using ok by (auto simp: heap_ok_def refused_def)
    then have "\<exists>h'. kmalloc_first (ad s) h = (ad (e + 20), h') \<and> heap_ok h' [Blk e s False] (e + 20 + s)
        \<and> keeps [] (hmem h) (hmem h') \<and> screen h' = screen h"
      using ok s 2 by (intro kmalloc_first_ok) auto
    with k sp spec 2 show ?thesis by auto
  next
    case 3
    with kmalloc_list_ok [OF ok 3(2) s] k sp spec show ?thesis by simp
  qed
qed

end
