(* ===== verification/HeapFree.thy ===== *)
theory HeapFree imports HeapAlloc begin

text \<open>
  \<open>kfree\<close> implements the release of a block on the list of blocks: the block becomes free and
  is merged with a free neighbour on either side; a heap whose only block is free is reset.
  Each merge adds 24 bytes (a header and a tail) to the two sizes, so it needs the two gaps
  behind the blocks to hold a tail word between them: \<open>tails_fit\<close> states that of the gaps, and from it
  follows the layout of the result, \<open>merge_ok\<close>, which the proof of the merges uses.
\<close>

section \<open>The release on the list of blocks\<close>

definition joined :: "blk \<Rightarrow> blk \<Rightarrow> blk" where
  "joined x c = Blk (baddr x) (bsize x + 24 + bsize c) (bfree x)"

fun free_next :: "blk \<Rightarrow> blk list \<Rightarrow> blk \<times> blk list" where
  "free_next b [] = (b, [])"
| "free_next b (c # zs) = (if bfree c then (joined b c, zs) else (b, c # zs))"

definition free_prev :: "blk list \<Rightarrow> blk \<Rightarrow> blk list" where
  "free_prev xs b = (if xs \<noteq> [] \<and> bfree (last xs) then butlast xs @ [joined (last xs) b] else xs @ [b])"

definition free_spec :: "blk list \<Rightarrow> blk \<Rightarrow> blk list \<Rightarrow> blk list" where
  "free_spec xs b ys =
     (let (b', ys') = free_next (Blk (baddr b) (bsize b) True) ys in free_prev xs b' @ ys')"

text \<open>A heap that holds the blocks \<open>bs\<close>, where the last may be free.\<close>

definition heap_mem :: "heap \<Rightarrow> blk list \<Rightarrow> nat \<Rightarrow> bool" where
  "heap_mem h bs e \<longleftrightarrow> heap_start h = 0x400000 \<and> heap_end h = ad e \<and> 0x400000 \<le> e \<and> e < 0x800000 \<and> 4 dvd e
     \<and> bs \<noteq> [] \<and> heap_head h = first_ad bs 0 \<and> (\<forall>b\<in>set bs. early_used b)
     \<and> laid 0x1014 bs e \<and> seg (hmem h) 0 bs 0"

lemma heap_ok_iff_mem: "bs \<noteq> [] \<Longrightarrow> heap_ok h bs e \<longleftrightarrow> heap_mem h bs e \<and> \<not> bfree (last bs)"
  by (cases bs) (auto simp: heap_ok_def heap_mem_def)

text \<open>The words after a merge of \<open>x\<close> with its successor \<open>c\<close>.\<close>

lemma seg_joined:
  assumes sg: "seg m 0 (xs @ x # c # zs) 0" and la: "laid 0x1014 (xs @ x # c # zs) e"
    and lj: "laid 0x1014 (xs @ joined x c # zs) e"
    and w: "rd m' (baddr x + 4) = ad (bsize (joined x c))" "rd m' (baddr x + 12) = first_ad zs 0"
      "rd m' (bend (joined x c)) = HEAP_MAGIC"
      "zs \<noteq> [] \<Longrightarrow> rd m' (baddr (hd zs) + 16) = ad (baddr x)"
    and same: "\<And>y. y \<le> baddr x \<or> y = baddr x + 8 \<or> y = baddr x + 16 \<or>
      zs \<noteq> [] \<and> baddr (hd zs) \<le> y \<and> y \<noteq> baddr (hd zs) + 16 \<and> 4 dvd y \<and> y \<le> e \<Longrightarrow> rd m' y = rd m y"
  shows "seg m' 0 (xs @ joined x c # zs) 0"
proof -
  from la have lx: "laid 0x1014 xs (baddr x)" by (simp add: laid_append)
  have "seg m' 0 xs (ad (baddr x))"
    by (rule seg_frame [OF _ lx]) (use sg same in \<open>auto simp: seg_append\<close>)
  moreover have "hdr m' (joined x c) (last_ad 0 xs) (first_ad zs 0)"
    using sg w same by (auto simp: seg_append hdr_def joined_def)
  moreover have "seg m' (ad (baddr x)) zs 0"
  proof (cases zs)
    case Nil
    then show ?thesis by simp
  next
    case (Cons z zs')
    from la Cons have lz: "laid (bend z) zs' e" by (auto simp: laid_append)
    have z: "4 dvd baddr z" "8 dvd bsize z" "bend z \<le> e"
      using laid_mem [OF la, of z] Cons by auto
    have dz: "4 dvd bend z"
      using z by (auto simp: bend_def intro: dvd_trans [of 4 8])
    have "hdr m' z (ad (baddr x)) (first_ad zs' 0)"
      using sg w(4) Cons z dz same [of "baddr z"] same [of "baddr z + 4"] same [of "baddr z + 8"]
        same [of "baddr z + 12"] same [of "bend z"]
      by (auto simp: seg_append hdr_def bend_def)
    moreover have "seg m' (ad (baddr z)) zs' 0"
      by (rule seg_frame [OF _ lz]) (use sg Cons same in \<open>auto simp: seg_append bend_def\<close>)
    ultimately show ?thesis using Cons by simp
  qed
  ultimately show ?thesis
    by (simp add: seg_append joined_def)
qed

text \<open>The numbers of a merge: the new tail lies on the next header or before it.\<close>

lemma joined_bounds:
  assumes la: "laid 0x1014 (xs @ x # c # zs) e" and lj: "laid 0x1014 (xs @ joined x c # zs) e"
  shows "0x1014 \<le> baddr x" "bend x \<le> baddr c" "bend c \<le> e" "bend (joined x c) \<le> e"
    "bend (joined x c) = bend x + 24 + bsize c" "8 \<le> bsize c"
    "zs \<noteq> [] \<Longrightarrow> bend c \<le> baddr (hd zs) \<and> bend (hd zs) \<le> e \<and>
      (bend (joined x c) = baddr (hd zs) \<or> bend (joined x c) + 4 \<le> baddr (hd zs))"
proof -
  show "0x1014 \<le> baddr x" "bend x \<le> baddr c" "bend c \<le> e"
    using la laid_le [of "0x1014" xs "baddr x"] laid_le [of "bend c" zs e] by (auto simp: laid_append)
  show "bend (joined x c) \<le> e" using laid_mem [OF lj] by auto
  show "bend (joined x c) = bend x + 24 + bsize c" by (simp add: joined_def bend_def)
  show "8 \<le> bsize c" using laid_mem [OF la, of c] by (auto dest: dvd_imp_le)
  assume "zs \<noteq> []"
  then obtain z zs' where z: "zs = z # zs'" by (cases zs) auto
  from lj z have "bend (joined x c) \<le> baddr z" by (auto simp: laid_append joined_def bend_def)
  moreover have "4 dvd bend (joined x c)" using laid_mem [OF lj, of "joined x c"]
    by (auto simp: bend_def intro: dvd_trans [of 4 8])
  moreover have "4 dvd baddr z" using laid_mem [OF la, of z] z by auto
  ultimately have "bend (joined x c) = baddr z \<or> bend (joined x c) + 4 \<le> baddr z"
    by (auto elim!: dvdE)
  then show "bend c \<le> baddr (hd zs) \<and> bend (hd zs) \<le> e \<and>
      (bend (joined x c) = baddr (hd zs) \<or> bend (joined x c) + 4 \<le> baddr (hd zs))"
    using la z laid_le [of "bend z" zs' e] by (auto simp: laid_append)
qed

section \<open>The two merges\<close>

text \<open>The memory after a merge, the stores in the order of the merge with the successor.\<close>

definition merge_mem :: "nat \<Rightarrow> nat \<Rightarrow> u32 \<Rightarrow> nat \<Rightarrow> mem \<Rightarrow> mem" where
  "merge_mem a t nx z m =
     (let m = store32 (store32 (store32 m (ad (a + 4)) (ad (t - a - 20))) (ad (a + 12)) nx) (ad t) HEAP_MAGIC
      in if nx = 0 then m else store32 m (ad (z + 16)) (ad a))"

lemma merge_mem_order:
  assumes "a + 52 \<le> t" and "t < 0x800000"
  shows "store32 (store32 (store32 m (ad (a + 4)) s) (ad t) v) (ad (a + 12)) nx
       = store32 (store32 (store32 m (ad (a + 4)) s) (ad (a + 12)) nx) (ad t) v"
  unfolding ad_def by (intro store32_commute apart_of_nat) (use assms in auto)

lemma merge_words_at:
  fixes m :: mem
  assumes a: "a + 52 \<le> t" "t < 0x800000" and z: "nx \<noteq> 0 \<Longrightarrow> z < 0x800000 \<and> (t = z \<or> t + 4 \<le> z)"
  defines "m' \<equiv> merge_mem a t nx z m"
  shows "rd m' (a + 4) = ad (t - a - 20)" and "rd m' (a + 12) = nx" and "rd m' t = HEAP_MAGIC"
    and "nx \<noteq> 0 \<Longrightarrow> rd m' (z + 16) = ad a"
    and "y \<le> a \<or> y = a + 8 \<or> y = a + 16 \<Longrightarrow> rd m' y = rd m y"
    and "nx \<noteq> 0 \<Longrightarrow> t + 4 \<le> y \<Longrightarrow> y + 4 \<le> z + 16 \<or> z + 20 \<le> y \<Longrightarrow> y < 0x800000 \<Longrightarrow> rd m' y = rd m y"
    and "touches m m' ({a..<a + 20} \<union> {t..<t + 4} \<union> (if nx = 0 then {} else {z + 16..<z + 20}))"
proof -
  note [simp] = rd_rules
  show "rd m' (a + 4) = ad (t - a - 20)" and "rd m' (a + 12) = nx" and "rd m' t = HEAP_MAGIC"
    using a z by (cases "nx = 0"; auto simp: m'_def merge_mem_def Let_def)+
  show "nx \<noteq> 0 \<Longrightarrow> rd m' (z + 16) = ad a"
    using a z by (simp add: m'_def merge_mem_def Let_def)
  show "rd m' y = rd m y" if "y \<le> a \<or> y = a + 8 \<or> y = a + 16"
    using a z that by (cases "nx = 0"; elim disjE) (auto simp: m'_def merge_mem_def Let_def)
  show "rd m' y = rd m y" if "nx \<noteq> 0" "t + 4 \<le> y" "y + 4 \<le> z + 16 \<or> z + 20 \<le> y" "y < 0x800000"
    using a z that by (elim disjE) (simp_all add: m'_def merge_mem_def Let_def)
  show "touches m m' ({a..<a + 20} \<union> {t..<t + 4} \<union> (if nx = 0 then {} else {z + 16..<z + 20}))"
  proof (cases "nx = 0")
    case True
    then show ?thesis unfolding m'_def merge_mem_def Let_def if_P [OF True]
      using a by (intro touches_store touches_refl) auto
  next
    case False
    then show ?thesis unfolding m'_def merge_mem_def Let_def if_not_P [OF False]
      using a z False by (intro touches_store touches_refl) auto
  qed
qed

lemma merge_words:
  assumes sg: "seg m 0 (xs @ x # c # zs) 0" and la: "laid 0x1014 (xs @ x # c # zs) e"
    and lj: "laid 0x1014 (xs @ joined x c # zs) e" and e: "e < 0x800000"
  defines "m' \<equiv> merge_mem (baddr x) (bend (joined x c)) (first_ad zs 0) (baddr (hd zs)) m"
  shows "seg m' 0 (xs @ joined x c # zs) 0"
    and "touches m m' ({baddr x..<baddr x + 20} \<union> {bend (joined x c)..<bend (joined x c) + 4}
           \<union> (if zs = [] then {} else {baddr (hd zs) + 16..<baddr (hd zs) + 20}))"
proof -
  define t where "t = bend (joined x c)"
  define z where "z = baddr (hd zs)"
  note B = joined_bounds [OF la lj]
  have nx0: "first_ad zs 0 = 0 \<longleftrightarrow> zs = []"
    using B(1,2,3,7) e by (cases zs) (auto simp: bend_def ad_eq_0_iff)
  have at: "baddr x + 52 \<le> t" "t < 0x800000" and sj: "t - baddr x - 20 = bsize (joined x c)"
    using B e by (auto simp: t_def bend_def joined_def)
  have tz: "first_ad zs 0 \<noteq> 0 \<Longrightarrow> z < 0x800000 \<and> (t = z \<or> t + 4 \<le> z)"
    using B(7) e nx0 by (auto simp: t_def z_def bend_def)
  note w = merge_words_at [where nx = "first_ad zs 0" and m = m, OF at tz, folded t_def z_def, unfolded nx0]
  have m': "m' = merge_mem (baddr x) t (first_ad zs 0) z m" by (simp add: m'_def t_def z_def)
  note w = w [folded m']
  have far: "rd m' y = rd m y" if y: "zs \<noteq> []" "z \<le> y" "y \<noteq> z + 16" "4 dvd y" "y \<le> e" for y
  proof -
    have dz: "4 dvd z" using laid_mem [OF la, of "hd zs"] y(1) by (simp add: z_def)
    then have y16: "y + 4 \<le> z + 16 \<or> z + 20 \<le> y" using y(3,4) by presburger
    have ty: "t \<le> z" "t = z \<or> t + 4 \<le> z" using tz nx0 y(1) by auto
    show ?thesis
    proof (cases "t + 4 \<le> y")
      case True
      then show ?thesis using w(6) [where y = y] y(1,5) y16 e by simp
    next
      case False
      with ty y(2) have "t = z" by linarith
      moreover from this False y(2,4) dz have "y = z" by presburger
      moreover have "rd m z = HEAP_MAGIC"
        using sg y(1) by (cases zs) (auto simp: seg_append hdr_def z_def)
      ultimately show ?thesis using w(3) by simp
    qed
  qed
  show "seg m' 0 (xs @ joined x c # zs) 0"
    by (rule seg_joined [OF sg la lj]) (use w far sj in \<open>auto simp: t_def z_def\<close>)
  show "touches m m' ({baddr x..<baddr x + 20} \<union> {bend (joined x c)..<bend (joined x c) + 4}
           \<union> (if zs = [] then {} else {baddr (hd zs) + 16..<baddr (hd zs) + 20}))"
    using w(7) unfolding t_def z_def .
qed

text \<open>The facts of a block in the middle of the list, for the tests of the code.\<close>

lemma mem_block:
  assumes "heap_mem h (xs @ b # ys) e"
  shows "hdr (hmem h) b (last_ad 0 xs) (first_ad ys 0)" and "0x1014 \<le> baddr b" and "bend b \<le> e"
    and "e < 0x800000" and "heap_start h = 0x400000" and "heap_end h = ad e" and "0 < bsize b"
    and "laid 0x1014 (xs @ b # ys) e" and "seg (hmem h) 0 (xs @ b # ys) 0" and "early_used b"
  using assms laid_mem [of "0x1014" "xs @ b # ys" e b]
  by (auto simp: heap_mem_def seg_append)

lemma mem_hdr:
  assumes "heap_mem h (xs @ b # ys) e"
  shows "bh_size (hmem h) (ad (baddr b)) = ad (bsize b)"
    and "bh_free (hmem h) (ad (baddr b)) = (if bfree b then 1 else 0)"
    and "bh_next (hmem h) (ad (baddr b)) = first_ad ys 0"
    and "bh_prev (hmem h) (ad (baddr b)) = last_ad 0 xs"
    and "ad (baddr b) \<noteq> 0" and "0x400000 \<le> baddr b \<Longrightarrow> in_heap h (ad (baddr b))"
  using mem_block(1-7) [OF assms]
  by (auto simp: bh_ad hdr_def in_heap_def ad_less_iff ad_eq_0_iff ad_numeral_iffs bend_def)

lemma mem_free_in:
  assumes "heap_mem h (xs @ b # ys) e" and "bfree b"
  shows "in_heap h (ad (baddr b))"
  using mem_block(10) [OF assms(1)] assms(2) by (intro mem_hdr(6) [OF assms(1)]) (simp add: early_used_def)

lemma heap_mem_joined:
  assumes ok: "heap_mem h (xs @ x # c # zs) e" and lj: "laid 0x1014 (xs @ joined x c # zs) e"
    and hi: "0x400000 \<le> baddr x"
  shows "heap_mem (h\<lparr>hmem := merge_mem (baddr x) (bend (joined x c)) (first_ad zs 0) (baddr (hd zs)) (hmem h)\<rparr>)
    (xs @ joined x c # zs) e"
  using merge_words(1) [OF mem_block(9,8) [OF ok] lj mem_block(4) [OF ok]] ok lj
    hi by (cases xs) (auto simp: heap_mem_def joined_def early_used_def)

text \<open>The numbers that both merges of \<open>x\<close> and \<open>c\<close> compute.\<close>

lemma merge_numbers:
  assumes ok: "heap_mem h (xs @ x # c # zs) e" and lj: "laid 0x1014 (xs @ joined x c # zs) e"
  shows "ad (bsize x) + (sizeof_block_header + ad (bsize c) + sizeof_uint32) = ad (bend (joined x c) - baddr x - 20)"
    and "ad (baddr x) + sizeof_block_header + ad (bend (joined x c) - baddr x - 20) = ad (bend (joined x c))"
    and "baddr x + 52 \<le> bend (joined x c)" and "bend (joined x c) < 0x800000"
    and "baddr c \<ge> baddr x + 28" and "baddr c + 20 < 0x800000"
    and "first_ad zs 0 \<noteq> 0 \<Longrightarrow> first_ad zs 0 = ad (baddr (hd zs))"
    and "first_ad zs 0 \<noteq> 0 \<Longrightarrow> baddr (hd zs) < 0x800000 \<and> (bend (joined x c) = baddr (hd zs)
           \<or> bend (joined x c) + 4 \<le> baddr (hd zs))"
proof -
  note B = joined_bounds [OF mem_block(8) [OF ok] lj] mem_block(4,7) [OF ok]
  have "8 dvd bsize x" using laid_mem [OF mem_block(8) [OF ok]] by auto
  then have x8: "8 \<le> bsize x" using B(9) by (auto dest: dvd_imp_le)
  have j: "bsize (joined x c) = bsize x + 24 + bsize c" "bend (joined x c) - baddr x - 20 = bsize (joined x c)"
    by (simp_all add: joined_def bend_def)
  show "ad (bsize x) + (sizeof_block_header + ad (bsize c) + sizeof_uint32) = ad (bend (joined x c) - baddr x - 20)"
    unfolding j by (simp add: ad_def)
  show "ad (baddr x) + sizeof_block_header + ad (bend (joined x c) - baddr x - 20) = ad (bend (joined x c))"
    unfolding j(2) by (simp add: ad_def bend_def joined_def)
  show "baddr x + 52 \<le> bend (joined x c)" "bend (joined x c) < 0x800000"
    "baddr c \<ge> baddr x + 28" "baddr c + 20 < 0x800000"
    using B x8 by (auto simp: bend_def joined_def) 
  show "first_ad zs 0 \<noteq> 0 \<Longrightarrow> first_ad zs 0 = ad (baddr (hd zs))" by (cases zs) auto
  assume "first_ad zs 0 \<noteq> 0"
  then have "zs \<noteq> []" by auto
  then show "baddr (hd zs) < 0x800000 \<and> (bend (joined x c) = baddr (hd zs)
      \<or> bend (joined x c) + 4 \<le> baddr (hd zs))"
    using B(7,8) by (auto simp: bend_def)
qed

lemma merge_next_step:
  assumes ok: "heap_mem h (xs @ b # c # zs) e" and lj: "laid 0x1014 (xs @ joined b c # zs) e"
    and f: "bfree c"
  shows "kfree_merge_next (ad (baddr b)) h =
    h\<lparr>hmem := merge_mem (baddr b) (bend (joined b c)) (first_ad zs 0) (baddr (hd zs)) (hmem h)\<rparr>"
proof -
  have ok2: "heap_mem h ((xs @ [b]) @ c # zs) e" using ok by simp
  note N = merge_numbers [OF ok lj]
  define t where "t = bend (joined b c)"
  define m1 where "m1 = store32 (hmem h) (ad (baddr b + 4)) (ad (t - baddr b - 20))"
  define m2 where "m2 = store32 m1 (ad (baddr b + 12)) (first_ad zs 0)"
  define m3 where "m3 = store32 m2 (ad t) HEAP_MAGIC"
  have r: "bh_next m1 (ad (baddr b)) = ad (baddr c)" "bh_next m1 (ad (baddr c)) = first_ad zs 0"
    using mem_block(1) [OF ok] mem_block(1) [OF ok2] N
    by (auto simp: m1_def rd_rules hdr_def bh_ad)
  have sz: "bh_size m2 (ad (baddr b)) = ad (t - baddr b - 20)" "bh_next m3 (ad (baddr b)) = first_ad zs 0"
    using N by (auto simp: m3_def m2_def m1_def t_def rd_rules bh_ad)
  have "kfree_merge_next (ad (baddr b)) h =
      h\<lparr>hmem := if bh_next m3 (ad (baddr b)) \<noteq> 0 then set_prev (bh_next m3 (ad (baddr b))) (ad (baddr b)) m3 else m3\<rparr>"
    using mem_hdr(1-5) [OF ok] mem_hdr(1-5) [OF ok2] mem_free_in [OF ok2 f] f N(1,2) [folded t_def]
    unfolding kfree_merge_next_def Let_def
    by (simp only: first_ad_simps if_True simp_thms bh_ad(6-10) m1_def [symmetric] r m2_def [symmetric] sz
        m3_def [symmetric] not_False_eq_True one_neq_zero)
  then show ?thesis
    using N(7) unfolding merge_mem_def Let_def sz
    by (auto simp: m3_def m2_def m1_def t_def bh_ad)
qed

lemma merge_prev_step:
  assumes ok: "heap_mem h (xs @ x # c # zs) e" and lj: "laid 0x1014 (xs @ joined x c # zs) e"
    and g: "baddr c + 20 \<le> bend (joined x c)" and f: "bfree x"
  shows "kfree_merge_prev (ad (baddr c)) h =
    h\<lparr>hmem := merge_mem (baddr x) (bend (joined x c)) (first_ad zs 0) (baddr (hd zs)) (hmem h)\<rparr>"
proof -
  have ok2: "heap_mem h ((xs @ [x]) @ c # zs) e" using ok by simp
  note N = merge_numbers [OF ok lj]
  define t where "t = bend (joined x c)"
  define m1 where "m1 = store32 (hmem h) (ad (baddr x + 4)) (ad (t - baddr x - 20))"
  define m2 where "m2 = store32 m1 (ad t) HEAP_MAGIC"
  define m3 where "m3 = store32 m2 (ad (baddr x + 12)) (first_ad zs 0)"
  have pv: "rd (hmem h) (baddr c + 16) = ad (baddr x)" and nx: "rd (hmem h) (baddr c + 12) = first_ad zs 0"
    using mem_block(1) [OF ok2] by (auto simp: hdr_def)
  have g': "baddr c + 20 \<le> t" using g by (simp add: t_def)
  note N' = N(3-6,8) [folded t_def]
  have r1: "bh_prev m1 (ad (baddr c)) = ad (baddr x)" "bh_size m1 (ad (baddr x)) = ad (t - baddr x - 20)"
    using pv N' by (simp_all add: m1_def rd_rules bh_ad)
  have r2: "bh_prev m2 (ad (baddr c)) = ad (baddr x)" "bh_next m2 (ad (baddr c)) = first_ad zs 0"
    using pv nx N' g' by (simp_all add: m2_def m1_def rd_rules bh_ad)
  have r3: "bh_next m3 (ad (baddr c)) = first_ad zs 0" "bh_prev m3 (ad (baddr c)) = ad (baddr x)"
    using pv nx N' g' by (simp_all add: m3_def m2_def m1_def rd_rules bh_ad)
  have "kfree_merge_prev (ad (baddr c)) h =
      h\<lparr>hmem := if first_ad zs 0 \<noteq> 0 then set_prev (first_ad zs 0) (ad (baddr x)) m3 else m3\<rparr>"
    using mem_hdr(1-5) [OF ok] mem_hdr(1-5) [OF ok2] mem_free_in [OF ok f] f N(1,2) [folded t_def]
    unfolding kfree_merge_prev_def Let_def
    by (simp only: last_ad_simps if_True simp_thms bh_ad(6-10) m1_def [symmetric] r1 m2_def [symmetric] r2
        m3_def [symmetric] r3 not_False_eq_True one_neq_zero)
  moreover have "m3 = store32 (store32 m1 (ad (baddr x + 12)) (first_ad zs 0)) (ad t) HEAP_MAGIC"
    unfolding m3_def m2_def m1_def using N' by (intro merge_mem_order) auto
  ultimately show ?thesis
    using N(7) unfolding merge_mem_def Let_def by (auto simp: m1_def t_def bh_ad)
qed

lemma merge_next_keep:
  assumes "heap_mem h (xs @ b # ys) e" and "ys = [] \<or> \<not> bfree (hd ys)"
  shows "kfree_merge_next (ad (baddr b)) h = h"
proof (cases ys)
  case Nil
  with mem_hdr [OF assms(1)] show ?thesis by (simp add: kfree_merge_next_def)
next
  case (Cons c zs)
  then have "heap_mem h ((xs @ [b]) @ c # zs) e" using assms by simp
  from mem_hdr [OF this] mem_hdr [OF assms(1)] assms(2) Cons show ?thesis
    by (simp add: kfree_merge_next_def Let_def)
qed

lemma merge_prev_keep:
  assumes "heap_mem h (xs @ b # ys) e" and "xs = [] \<or> \<not> bfree (last xs)"
  shows "kfree_merge_prev (ad (baddr b)) h = h"
proof (cases xs rule: rev_cases)
  case Nil
  with mem_hdr [OF assms(1)] show ?thesis by (simp add: kfree_merge_prev_def)
next
  case (snoc xs' x)
  then have "heap_mem h (xs' @ x # b # ys) e" using assms by simp
  from mem_hdr [OF this] mem_hdr [OF assms(1)] assms(2) snoc show ?thesis
    by (simp add: kfree_merge_prev_def Let_def)
qed

section \<open>What a release leaves alone\<close>

lemma keeps_trans:
  "keeps bs m m' \<Longrightarrow> keeps bs' m' m'' \<Longrightarrow>
   (\<And>b. b \<in> set bs'' \<Longrightarrow> \<not> bfree b \<Longrightarrow> b \<in> set bs \<and> b \<in> set bs') \<Longrightarrow> keeps bs'' m m''"
  unfolding keeps_def by metis

lemma keeps_joined:
  assumes ok: "heap_mem h (xs @ x # c # zs) e" and lj: "laid 0x1014 (xs @ joined x c # zs) e"
    and f: "bfree x" and hi: "0x400000 \<le> baddr x"
  shows "keeps (xs @ joined x c # zs) (hmem h)
    (merge_mem (baddr x) (bend (joined x c)) (first_ad zs 0) (baddr (hd zs)) (hmem h))"
proof -
  note N = joined_bounds [OF mem_block(8) [OF ok] lj] mem_block(4) [OF ok]
  have t4: "bend (joined x c) + 4 \<le> 0x800000"
    using laid_mem [OF lj, of "joined x c"] N(8) by (simp add: bend_def) presburger
  show ?thesis
    using merge_words(2) [OF mem_block(9,8) [OF ok] lj mem_block(4) [OF ok]]
  proof (rule keepsI)
    fix y assume y: "y \<in> {baddr x..<baddr x + 20} \<union> {bend (joined x c)..<bend (joined x c) + 4}
      \<union> (if zs = [] then {} else {baddr (hd zs) + 16..<baddr (hd zs) + 20})"
    then show "y \<in> heap_area"
      using N t4 hi by (auto simp: bend_def heap_area_def split: if_splits)
    fix d assume d: "d \<in> set (xs @ joined x c # zs)" "\<not> bfree d"
    then consider "d \<in> set xs" | "d \<in> set zs" using f by (auto simp: joined_def)
    then show "y \<notin> payload d"
    proof cases
      case 1
      then show ?thesis
        using payload_side(1) [OF mem_block(8) [OF ok] 1, of y] y N by (auto simp: bend_def split: if_splits)
    next
      case 2
      then obtain z zs' where z: "zs = z # zs'" by (cases zs) auto
      have "d = z \<or> (y \<in> payload d \<longrightarrow> bend z + 20 \<le> y)"
        using payload_side(2) [of _ "xs @ [joined x c]" z zs' e d y] lj 2 z by auto
      then show ?thesis using y N z by (auto simp: payload_def bend_def split: if_splits)
    qed
  qed
qed

section \<open>The end of the list\<close>

lemma heap_last_walk:
  assumes "seg m p bs 0" and "bs \<noteq> []" and "laid lo bs e" and "0 < lo" and "e < 0x800000"
  shows "heap_last m (ad (baddr (hd bs))) = Some (ad (baddr (last bs)))"
  using assms
proof (induction bs arbitrary: p lo)
  case Nil
  then show ?case by simp
next
  case (Cons b bs)
  from Cons.prems have b: "lo \<le> baddr b" "laid (bend b) bs e" "bh_next m (ad (baddr b)) = first_ad bs 0"
    "seg m (ad (baddr b)) bs 0" by (auto simp: hdr_def bh_ad)
  have b0: "ad (baddr b) \<noteq> 0" using b(1) Cons.prems laid_le [OF b(2)] by (auto simp: ad_eq_0_iff bend_def)
  show ?case
  proof (cases bs)
    case Nil
    with b show ?thesis by (subst heap_last.simps) simp
  next
    case (Cons c cs)
    have "bend b \<le> baddr c" "bend c \<le> e" using b(2) Cons laid_le by auto
    then have c0: "ad (baddr c) \<noteq> 0" using Cons.prems b(1) by (subst ad_eq_0_iff) (auto simp: bend_def)
    have "heap_last m (ad (baddr (hd bs))) = Some (ad (baddr (last bs)))"
      using Cons.prems b Cons by (intro Cons.IH) (auto simp: bend_def)
    with b b0 c0 Cons show ?thesis by (subst heap_last.simps) simp
  qed
qed

lemma shrink_keep:
  assumes "heap_mem h bs e" and "\<not> bfree (last bs)"
  shows "kfree_shrink h = Some h"
proof -
  have ne: "bs \<noteq> []" and head: "heap_head h = ad (baddr (hd bs))"
    using assms by (auto simp: heap_mem_def first_ad_def split: list.splits)
  obtain xs b where bs: "bs = xs @ [b]" using ne by (cases bs rule: rev_cases) auto
  have "heap_last (hmem h) (heap_head h) = Some (ad (baddr (last bs)))"
    unfolding head using assms ne by (intro heap_last_walk [of _ 0 _ "0x1014" e]) (auto simp: heap_mem_def)
  moreover have "bh_free (hmem h) (ad (baddr b)) = 0"
    using mem_hdr(2) [of h xs b "[]" e] assms bs by simp
  moreover have "\<not> (bh_free (hmem h) (heap_head h) \<noteq> 0 \<and> bh_next (hmem h) (heap_head h) = 0)"
  proof (cases xs)
    case Nil
    with \<open>bh_free (hmem h) (ad (baddr b)) = 0\<close> head bs show ?thesis by simp
  next
    case (Cons x xs')
    then obtain c zs where c: "bs = [] @ x # c # zs" using bs by (cases xs') auto
    from mem_hdr [of h "[]" x "c # zs" e] mem_hdr(5) [of h "[x]" c zs e] assms(1) c head
    show ?thesis by simp
  qed
  ultimately show ?thesis using bs by (auto simp: kfree_shrink_def)
qed

lemma shrink_reset:
  assumes "heap_mem h [b] e" and "bfree b"
  shows "kfree_shrink h = Some (h\<lparr>heap_end := heap_start h, heap_head := 0\<rparr>)"
proof -
  have "heap_head h = ad (baddr b)" using assms by (auto simp: heap_mem_def)
  with mem_hdr [of h "[]" b "[]" e] assms show ?thesis by (simp add: kfree_shrink_def)
qed

section \<open>The whole release\<close>

definition merge_ok :: "blk list \<Rightarrow> blk \<Rightarrow> blk list \<Rightarrow> nat \<Rightarrow> bool" where
  "merge_ok xs b ys e \<longleftrightarrow>
     (let (b', ys') = free_next (Blk (baddr b) (bsize b) True) ys
      in laid 0x1014 (xs @ b' # ys') e \<and> laid 0x1014 (free_prev xs b' @ ys') e
         \<and> (xs \<noteq> [] \<and> bfree (last xs) \<longrightarrow> baddr b + 20 \<le> bend (joined (last xs) b')))"

text \<open>
  The room that the merges need: the bytes between a block's end and the next header.  It is 4
  behind a block that was added at the end of the heap and 0 behind one that was cut off or was the
  first.  Each merge needs 4 bytes of it, for the tail behind the joined block.
\<close>

definition gap :: "blk \<Rightarrow> blk \<Rightarrow> nat" where "gap b c = baddr c - bend b"

definition tails_fit :: "blk list \<Rightarrow> blk \<Rightarrow> blk list \<Rightarrow> bool" where
  "tails_fit xs b ys \<longleftrightarrow>
     (bfree (hd ys) \<longrightarrow> 4 \<le> gap b (hd ys) + gap (hd ys) (hd (tl ys)))
     \<and> (xs \<noteq> [] \<and> bfree (last xs) \<longrightarrow> gap (last xs) b \<le> 4
          \<and> (if bfree (hd ys) then 8 \<le> gap (last xs) b + gap b (hd ys) + gap (hd ys) (hd (tl ys))
             else 4 \<le> gap (last xs) b + gap b (hd ys)))"

text \<open>A block and its successor joined: the layout holds when the end of the two lies before the next header.\<close>

lemma laid_joined:
  assumes la: "laid lo (xs @ x # c # zs) e" and zs: "zs \<noteq> []" and fits: "bend (joined x c) \<le> baddr (hd zs)"
  shows "laid lo (xs @ joined x c # zs) e"
proof -
  obtain z zs' where z: "zs = z # zs'" using zs by (cases zs) auto
  show ?thesis using la fits unfolding z by (simp add: laid_append joined_def bend_def)
qed

text \<open>The block after the merge with its successor, and the block that then follows.\<close>

lemma free_next_fits:
  assumes la: "laid lo (xs @ b # c # zs) e" and lu: "\<not> bfree (last (c # zs))" and fit: "bfree c \<longrightarrow> 4 \<le> gap b c + gap c (hd zs)"
    and fn: "free_next (Blk (baddr b) (bsize b) True) (c # zs) = (b2, ys')"
  shows "laid lo (xs @ b2 # ys') e" and "ys' \<noteq> []" and "baddr b2 = baddr b" and "8 \<le> bsize b2"
    and "bend b2 = (if bfree c then bend b + 24 + bsize c else bend b)" and "hd ys' = (if bfree c then hd zs else c)"
    and "bfree c \<Longrightarrow> bend c \<le> baddr (hd zs)"
proof -
  let ?b = "Blk (baddr b) (bsize b) True"
  have lb: "laid lo (xs @ ?b # c # zs) e" using la by (simp add: laid_append bend_def)
  have b8: "8 \<le> bsize b" using laid_mem [OF la, of b] by (auto dest: dvd_imp_le)
  have "laid lo (xs @ b2 # ys') e \<and> ys' \<noteq> [] \<and> baddr b2 = baddr b \<and> 8 \<le> bsize b2
      \<and> bend b2 = (if bfree c then bend b + 24 + bsize c else bend b) \<and> hd ys' = (if bfree c then hd zs else c)
      \<and> (bfree c \<longrightarrow> bend c \<le> baddr (hd zs))"
  proof (cases "bfree c")
    case False
    then show ?thesis using fn lb b8 by (auto simp: bend_def)
  next
    case True
    then have e2: "b2 = joined ?b c" "ys' = zs" "zs \<noteq> []" using fn lu by (auto split: if_splits)
    then obtain d ws where d: "zs = d # ws" by (cases zs) auto
    have le: "bend b \<le> baddr c" "bend c \<le> baddr d" using la d by (auto simp: laid_append)
    moreover have "4 \<le> gap b c + gap c d" using fit True d by simp
    ultimately have "bend (joined ?b c) \<le> baddr (hd zs)" using d by (simp add: gap_def bend_def joined_def)
    from laid_joined [OF lb e2(3) this] show ?thesis using True e2 d b8 le by (simp add: joined_def bend_def)
  qed
  then show "laid lo (xs @ b2 # ys') e" "ys' \<noteq> []" "baddr b2 = baddr b" "8 \<le> bsize b2"
    "bend b2 = (if bfree c then bend b + 24 + bsize c else bend b)" "hd ys' = (if bfree c then hd zs else c)"
    "bfree c \<Longrightarrow> bend c \<le> baddr (hd zs)" by blast+
qed

lemma free_prev_fits:
  assumes la: "bend x \<le> baddr b" "bend b \<le> baddr c" and cd: "bfree c \<Longrightarrow> bend c \<le> baddr d"
    and fit: "if bfree c then 8 \<le> gap x b + gap b c + gap c d else 4 \<le> gap x b + gap b c"
    and b2: "baddr b2 = baddr b" "bend b2 = (if bfree c then bend b + 24 + bsize c else bend b)"
  shows "bend (joined x b2) \<le> baddr (if bfree c then d else c)"
proof -
  have "baddr b = bend x + gap x b" "baddr c = bend b + gap b c" "bfree c \<Longrightarrow> baddr d = bend c + gap c d"
    using la cd by (simp_all add: gap_def)
  moreover have "bend b2 = baddr b + 20 + bsize b2" "bend b = baddr b + 20 + bsize b" "bend c = baddr c + 20 + bsize c"
    using b2(1) by (simp_all add: bend_def)
  moreover have "bend (joined x b2) = bend x + 24 + bsize b2" by (simp add: joined_def bend_def)
  ultimately show ?thesis using fit b2(2) by (cases "bfree c") simp_all
qed

lemma tails_fit_merge_ok:
  assumes la: "laid 0x1014 (xs @ b # ys) e" and ys: "ys \<noteq> []" and lu: "\<not> bfree (last ys)"
    and fit: "tails_fit xs b ys"
  shows "merge_ok xs b ys e"
proof -
  obtain c zs where c: "ys = c # zs" using ys by (cases ys) auto
  obtain b2 ys' where fn: "free_next (Blk (baddr b) (bsize b) True) (c # zs) = (b2, ys')" by fastforce
  have "bfree c \<longrightarrow> 4 \<le> gap b c + gap c (hd zs)" using fit c by (simp add: tails_fit_def)
  note n = free_next_fits [OF la [unfolded c] lu [unfolded c] this fn]
  have "laid 0x1014 (free_prev xs b2 @ ys') e \<and> (xs \<noteq> [] \<and> bfree (last xs) \<longrightarrow> baddr b + 20 \<le> bend (joined (last xs) b2))"
  proof (cases "xs \<noteq> [] \<and> bfree (last xs)")
    case False
    then have "free_prev xs b2 = xs @ [b2]" by (auto simp: free_prev_def)
    then show ?thesis using False n(1) by auto
  next
    case True
    then obtain xs' x where xs: "xs = xs' @ [x]" and x: "bfree x" by (cases xs rule: rev_cases) auto
    have le: "bend x \<le> baddr b" "bend b \<le> baddr c" using la xs c by (auto simp: laid_append)
    have f: "gap x b \<le> 4" "if bfree c then 8 \<le> gap x b + gap b c + gap c (hd zs) else 4 \<le> gap x b + gap b c"
      using fit xs x c by (auto simp: tails_fit_def)
    have "bend (joined x b2) \<le> baddr (hd ys')" using free_prev_fits [OF le n(7) f(2) n(3,5)] n(6) by simp
    moreover have "laid 0x1014 (xs' @ x # b2 # ys') e" using n(1) xs by simp
    ultimately have "laid 0x1014 (xs' @ joined x b2 # ys') e" using laid_joined n(2) by blast
    moreover have "baddr b + 20 \<le> bend (joined x b2)"
      using f(1) le(1) n(4) by (simp add: gap_def joined_def bend_def)
    ultimately show ?thesis using xs x by (simp add: free_prev_def)
  qed
  then show ?thesis using fn n(1) c by (simp add: merge_ok_def)
qed

lemma kfree_marks:
  assumes ok: "heap_mem h (xs @ b # ys) e" and u: "\<not> bfree b" and hi: "0x400000 \<le> baddr b"
  defines "h1 \<equiv> h\<lparr>hmem := store32 (hmem h) (ad (baddr b + 8)) 1\<rparr>"
  shows "kfree (ad (baddr b + 20)) h = kfree_shrink (kfree_merge_prev (ad (baddr b)) (kfree_merge_next (ad (baddr b)) h1))"
    and "heap_mem h1 (xs @ Blk (baddr b) (bsize b) True # ys) e"
    and "keeps (xs @ Blk (baddr b) (bsize b) True # ys) (hmem h) (hmem h1)"
proof -
  note B = mem_block [OF ok]
  have b: "baddr b < 0x800000" "bend b < 0x800000" "baddr b + 20 + bsize b < 0x800000"
    using B by (auto simp: bend_def)
  have "bh_magic (hmem h) (ad (baddr b)) = HEAP_MAGIC" "load32 (hmem h) (ad (bend b)) = HEAP_MAGIC"
    using B(1) by (auto simp: hdr_def bh_ad load32_ad)
  moreover have "\<not> ad (baddr b) < 0x400000"
    using mem_hdr(6) [OF ok hi] B(5) by (simp add: in_heap_def not_less)
  ultimately show "kfree (ad (baddr b + 20)) h = kfree_shrink (kfree_merge_prev (ad (baddr b)) (kfree_merge_next (ad (baddr b)) h1))"
    using B b mem_hdr(1-5) [OF ok] mem_hdr(6) [OF ok hi] u
    by (simp add: kfree_def Let_def ad_eq_0_iff ad_diff_numeral ad_less_iff ad_add_numeral ad_add in_heap_def
        h1_def bh_ad bend_def ad_le_iff)
  show ok1: "heap_mem h1 (xs @ Blk (baddr b) (bsize b) True # ys) e"
    using ok seg_set_free [OF B(9,8,4), of 1 True] hi unfolding h1_def
    by (cases xs) (auto simp: heap_mem_def laid_append bend_def early_used_def)
  have "touches (hmem h) (hmem h1) {baddr b..<baddr b + 20}"
    unfolding h1_def using b by (auto intro!: touches_store)
  then show "keeps (xs @ Blk (baddr b) (bsize b) True # ys) (hmem h) (hmem h1)"
  proof (rule keepsI)
    fix y assume y: "y \<in> {baddr b..<baddr b + 20}"
    then show "y \<in> heap_area" using B b hi by (auto simp: bend_def heap_area_def)
    fix d assume d: "d \<in> set (xs @ Blk (baddr b) (bsize b) True # ys)" "\<not> bfree d"
    then show "y \<notin> payload d"
      using payload_side [OF B(8), of d y] y by (auto simp: bend_def)
  qed
qed

lemma merge_next_ok:
  assumes ok: "heap_mem h (xs @ b # ys) e" and f: "bfree b" and hi: "0x400000 \<le> baddr b"
    and fn: "free_next b ys = (b', ys')" and lj: "laid 0x1014 (xs @ b' # ys') e"
  shows "\<exists>h'. kfree_merge_next (ad (baddr b)) h = h' \<and> heap_mem h' (xs @ b' # ys') e \<and> bfree b'
    \<and> baddr b' = baddr b \<and> keeps (xs @ b' # ys') (hmem h) (hmem h') \<and> screen h' = screen h"
proof (cases "ys \<noteq> [] \<and> bfree (hd ys)")
  case True
  then obtain c zs where ys: "ys = c # zs" and c: "bfree c" by (cases ys) auto
  with fn have b': "b' = joined b c" "ys' = zs" by auto
  from ok ys have ok': "heap_mem h (xs @ b # c # zs) e" by simp
  from merge_next_step [OF ok' _ c] heap_mem_joined [OF ok' _ hi] keeps_joined [OF ok' _ f hi] lj b' f
  show ?thesis by (simp add: joined_def)
next
  case False
  then have "b' = b" "ys' = ys" using fn by (cases ys; auto)+
  with merge_next_keep [OF ok] False ok f show ?thesis by auto
qed

lemma merge_prev_ok:
  assumes ok: "heap_mem h (xs @ b # ys) e" and f: "bfree b"
    and lj: "laid 0x1014 (free_prev xs b @ ys) e"
    and g: "xs \<noteq> [] \<and> bfree (last xs) \<longrightarrow> baddr b + 20 \<le> bend (joined (last xs) b)"
  shows "\<exists>h'. kfree_merge_prev (ad (baddr b)) h = h' \<and> heap_mem h' (free_prev xs b @ ys) e
    \<and> keeps (free_prev xs b @ ys) (hmem h) (hmem h') \<and> screen h' = screen h"
proof (cases "xs \<noteq> [] \<and> bfree (last xs)")
  case True
  then obtain xs' x where xs: "xs = xs' @ [x]" and x: "bfree x" by (cases xs rule: rev_cases) auto
  then have p: "free_prev xs b = xs' @ [joined x b]" by (simp add: free_prev_def)
  from ok xs have ok': "heap_mem h (xs' @ x # b # ys) e" by simp
  have hi: "0x400000 \<le> baddr x" using mem_block(10) [OF ok'] x by (simp add: early_used_def)
  from merge_prev_step [OF ok' _ _ x] heap_mem_joined [OF ok' _ hi] keeps_joined [OF ok' _ x hi] lj p xs g x
  show ?thesis by simp
next
  case False
  then have "free_prev xs b = xs @ [b]" by (auto simp: free_prev_def)
  with merge_prev_keep [OF ok] False ok show ?thesis by auto
qed

lemma free_prev_used: "d \<in> set (free_prev xs b) \<Longrightarrow> \<not> bfree d \<Longrightarrow> bfree b \<Longrightarrow> d \<in> set xs"
  by (auto simp: free_prev_def joined_def split: if_splits dest: in_set_butlastD)

lemma free_next_used: "free_next b ys = (b', ys') \<Longrightarrow> d \<in> set ys' \<Longrightarrow> d \<in> set ys"
  by (cases ys) (auto split: if_splits)

lemma free_next_last: "free_next b ys = (b', ys') \<Longrightarrow> ys \<noteq> [] \<Longrightarrow> \<not> bfree (last ys) \<Longrightarrow>
  ys' \<noteq> [] \<and> last ys' = last ys"
  by (cases ys) (auto split: if_splits)

text \<open>
  \<open>kfree\<close> of the payload of a block in use, with a block behind it: it returns, the heap
  holds the blocks of \<open>free_spec\<close> (the block free, merged with its free neighbours), linked
  both ways and with their magic numbers, and no byte of a block still in use and none outside
  the heap has changed.  The hypothesis \<open>merge_ok\<close> is the layout that the two merges need.
\<close>

lemma kfree_refines:
  assumes ok: "heap_ok h (xs @ b # ys) e" and u: "\<not> bfree b" and ys: "ys \<noteq> []"
    and hi: "0x400000 \<le> baddr b" and mo: "merge_ok xs b ys e"
  shows "\<exists>h'. kfree (ad (baddr b + 20)) h = Some h' \<and> heap_ok h' (free_spec xs b ys) e
    \<and> keeps (xs @ ys) (hmem h) (hmem h') \<and> screen h' = screen h"
proof -
  define b1 where "b1 = Blk (baddr b) (bsize b) True"
  obtain b2 ys' where fn: "free_next b1 ys = (b2, ys')" by fastforce
  from ok have mem: "heap_mem h (xs @ b # ys) e" and lu: "\<not> bfree (last ys)"
    using ys by (simp_all add: heap_ok_iff_mem)
  from mo fn have l2: "laid 0x1014 (xs @ b2 # ys') e" and l3: "laid 0x1014 (free_prev xs b2 @ ys') e"
    and g: "xs \<noteq> [] \<and> bfree (last xs) \<longrightarrow> baddr b + 20 \<le> bend (joined (last xs) b2)"
    by (simp_all add: merge_ok_def b1_def [symmetric])
  define h1 where "h1 = h\<lparr>hmem := store32 (hmem h) (ad (baddr b + 8)) 1\<rparr>"
  note m1 = kfree_marks [OF mem u hi, folded h1_def b1_def]
  have f1: "bfree b1" "baddr b1 = baddr b" by (simp_all add: b1_def)
  have hi1: "0x400000 \<le> baddr b1" using hi f1(2) by simp
  from merge_next_ok [OF m1(2) f1(1) hi1 fn l2, unfolded f1(2)] obtain h2
    where h2: "kfree_merge_next (ad (baddr b)) h1 = h2" "heap_mem h2 (xs @ b2 # ys') e" "bfree b2"
      "baddr b2 = baddr b" "keeps (xs @ b2 # ys') (hmem h1) (hmem h2)" "screen h2 = screen h1" by blast
  from merge_prev_ok [OF h2(2,3) l3, unfolded h2(4)] g obtain h3
    where h3: "kfree_merge_prev (ad (baddr b)) h2 = h3" "heap_mem h3 (free_prev xs b2 @ ys') e"
      "keeps (free_prev xs b2 @ ys') (hmem h2) (hmem h3)" "screen h3 = screen h2" by blast
  have last: "\<not> bfree (last (free_prev xs b2 @ ys'))" and ne: "free_prev xs b2 @ ys' \<noteq> []"
    using free_next_last [OF fn ys lu] lu by auto
  have fs: "free_spec xs b ys = free_prev xs b2 @ ys'" by (simp add: free_spec_def b1_def [symmetric] fn)
  have "kfree (ad (baddr b + 20)) h = Some h3"
    using m1(1) h2(1) h3(1) shrink_keep [OF h3(2) last] by simp
  moreover have "heap_ok h3 (free_spec xs b ys) e" using h3(2) last ne by (simp add: fs heap_ok_iff_mem)
  moreover have "keeps (xs @ ys) (hmem h) (hmem h3)"
  proof -
    have zs: "d \<in> set ys'" if "d \<in> set ys" "\<not> bfree d" for d
      using that fn by (cases ys) (auto split: if_splits)
    have pv: "d \<in> set (free_prev xs b2)" if "d \<in> set xs" "\<not> bfree d" for d
      using that by (cases xs rule: rev_cases) (auto simp: free_prev_def)
    have "keeps (xs @ ys) (hmem h) (hmem h2)"
      by (rule keeps_trans [OF m1(3) h2(5)]) (use zs in auto)
    from keeps_trans [OF this h3(3), of "xs @ ys"] show ?thesis using zs pv by auto
  qed
  moreover have "screen h3 = screen h" using h3(4) h2(6) by (simp add: h1_def)
  ultimately show ?thesis by blast
qed

text \<open>\<open>kfree\<close> of the only block resets the heap: no block is left and it ends where it starts.\<close>

lemma kfree_only_block:
  assumes ok: "heap_ok h [b] e" and hi: "0x400000 \<le> baddr b"
  shows "\<exists>h'. kfree (ad (baddr b + 20)) h = Some h' \<and> heap_ok h' [] 0x400000
    \<and> keeps [] (hmem h) (hmem h') \<and> screen h' = screen h"
proof -
  have mem: "heap_mem h ([] @ b # []) e" and u: "\<not> bfree b" using ok by (simp_all add: heap_ok_iff_mem)
  note m1 = kfree_marks [OF mem u hi]
  let ?h1 = "h\<lparr>hmem := store32 (hmem h) (ad (baddr b + 8)) 1\<rparr>"
  have mem1: "heap_mem ?h1 [Blk (baddr b) (bsize b) True] e" using m1(2) by simp
  have "kfree (ad (baddr b + 20)) h = Some (?h1\<lparr>heap_end := heap_start ?h1, heap_head := 0\<rparr>)"
    using m1(1) merge_next_keep [OF m1(2)] merge_prev_keep [OF m1(2)] shrink_reset [OF mem1] by simp
  moreover have "heap_ok (?h1\<lparr>heap_end := heap_start ?h1, heap_head := 0\<rparr>) [] 0x400000"
    using mem by (auto simp: heap_ok_def heap_mem_def ad_def)
  moreover have "keeps [] (hmem h) (hmem ?h1)"
    using m1(3) by (auto simp: keeps_def)
  ultimately show ?thesis by auto
qed

end
