(* ===== verification/HeapLaws.thy ===== *)
theory HeapLaws imports HeapFree begin

text \<open>
  What the rest of the kernel relies on: \<open>kmalloc\<close> as an allocator that hands out memory
  apart from everything in use (an interface, interpreted on the code's \<open>kmalloc\<close>), the
  release as its inverse, the error branches of \<open>kfree\<close>, the verdict of \<open>heap_validate\<close>, and
  runs on which the heap's bookkeeping breaks.
\<close>

section \<open>The interface of an allocator\<close>

text \<open>
  \<open>owns s R\<close>: in the state \<open>s\<close> the regions \<open>R\<close> (address, length) are in use.
\<close>

locale allocator =
  fixes alloc :: "u32 \<Rightarrow> 's \<Rightarrow> (u32 \<times> 's) option"
    and owns :: "'s \<Rightarrow> (nat \<times> nat) set \<Rightarrow> bool"
    and bytes :: "'s \<Rightarrow> mem"
  assumes alloc_returns: "owns s R \<Longrightarrow> unat n \<le> 0x7FFFFFFF \<Longrightarrow>
      \<exists>p s'. alloc n s = Some (p, s')
        \<and> (p = 0 \<and> owns s' R \<or> p \<noteq> 0 \<and> (\<exists>k. unat n \<le> k \<and> (unat p, k) \<notin> R \<and> owns s' (insert (unat p, k) R)))
        \<and> (\<forall>(a, k)\<in>R. \<forall>i<k. bytes s' (ad (a + i)) = bytes s (ad (a + i)))"
    and owns_apart: "owns s R \<Longrightarrow> (a, k) \<in> R \<Longrightarrow> (b, l) \<in> R \<Longrightarrow> (a, k) \<noteq> (b, l) \<Longrightarrow> a + k \<le> b \<or> b + l \<le> a"

text \<open>A client that asks for several blocks in turn, as the loaders of files and tasks do.\<close>

fun alloc_all :: "(u32 \<Rightarrow> 's \<Rightarrow> (u32 \<times> 's) option) \<Rightarrow> u32 list \<Rightarrow> 's \<Rightarrow> (u32 list \<times> 's) option" where
  "alloc_all alloc [] s = Some ([], s)"
| "alloc_all alloc (n # ns) s =
     (case alloc n s of None \<Rightarrow> None
      | Some (p, s) \<Rightarrow> map_option (\<lambda>(ps, s). (p # ps, s)) (alloc_all alloc ns s))"

text \<open>The regions handed out: no two of those that are not null overlap.\<close>

definition clear_of :: "u32 \<times> u32 \<Rightarrow> u32 \<times> u32 \<Rightarrow> bool" where
  "clear_of r x \<longleftrightarrow> fst r = 0 \<or> fst x = 0 \<or> unat (fst r) + unat (snd r) \<le> unat (fst x)
     \<or> unat (fst x) + unat (snd x) \<le> unat (fst r)"

definition separate :: "(u32 \<times> u32) list \<Rightarrow> bool" where
  "separate rs \<longleftrightarrow> sorted_wrt clear_of rs"

lemma separate_simps [simp]:
  "separate []" "separate (r # rs) \<longleftrightarrow> (\<forall>x\<in>set rs. clear_of r x) \<and> separate rs"
  by (simp_all add: separate_def)

context allocator begin

lemma alloc_all_owns:
  "owns s R \<Longrightarrow> \<forall>n\<in>set ns. unat n \<le> 0x7FFFFFFF \<Longrightarrow>
   \<exists>ps s' R'. alloc_all alloc ns s = Some (ps, s') \<and> length ps = length ns \<and> R \<subseteq> R' \<and> owns s' R'
     \<and> separate (zip ps ns)
     \<and> (\<forall>(p, n)\<in>set (zip ps ns). p \<noteq> 0 \<longrightarrow> (\<exists>k. unat n \<le> k \<and> (unat p, k) \<in> R' - R))
     \<and> (\<forall>(a, k)\<in>R. \<forall>i<k. bytes s' (ad (a + i)) = bytes s (ad (a + i)))"
proof (induction ns arbitrary: s R)
  case Nil
  then show ?case by auto
next
  case (Cons n ns)
  from alloc_returns [OF Cons.prems(1), of n] Cons.prems(2) obtain p s1 where
    p: "alloc n s = Some (p, s1)"
      "p = 0 \<and> owns s1 R \<or> p \<noteq> 0 \<and> (\<exists>k. unat n \<le> k \<and> (unat p, k) \<notin> R \<and> owns s1 (insert (unat p, k) R))"
      "\<forall>(a, k)\<in>R. \<forall>i<k. bytes s1 (ad (a + i)) = bytes s (ad (a + i))" by auto
  then obtain R1 where R1: "owns s1 R1" "R \<subseteq> R1"
    "p \<noteq> 0 \<longrightarrow> (\<exists>k. unat n \<le> k \<and> (unat p, k) \<in> R1 - R)" by blast
  from Cons.IH [OF R1(1)] Cons.prems(2) obtain ps s2 R2 where
    ih: "alloc_all alloc ns s1 = Some (ps, s2)" "length ps = length ns" "R1 \<subseteq> R2" "owns s2 R2"
      "separate (zip ps ns)"
      "\<forall>(p, n)\<in>set (zip ps ns). p \<noteq> 0 \<longrightarrow> (\<exists>k. unat n \<le> k \<and> (unat p, k) \<in> R2 - R1)"
      "\<forall>(a, k)\<in>R1. \<forall>i<k. bytes s2 (ad (a + i)) = bytes s1 (ad (a + i))" by auto
  have "clear_of (p, n) x" if x: "x \<in> set (zip ps ns)" for x
  proof (cases "p = 0 \<or> fst x = 0")
    case True
    then show ?thesis by (auto simp: clear_of_def)
  next
    case False
    with R1(3) obtain k where k: "unat n \<le> k" "(unat p, k) \<in> R1" by auto
    from False x ih(6) obtain l where l: "unat (snd x) \<le> l" "(unat (fst x), l) \<in> R2 - R1" by force
    have "unat p + k \<le> unat (fst x) \<or> unat (fst x) + l \<le> unat p"
      by (rule owns_apart [OF ih(4)]) (use k l ih(3) in auto)
    with k l show ?thesis by (auto simp: clear_of_def)
  qed
  then have "separate (zip (p # ps) (n # ns))" using ih(5) by simp
  moreover have "\<forall>(q, m)\<in>set (zip (p # ps) (n # ns)). q \<noteq> 0 \<longrightarrow> (\<exists>k. unat m \<le> k \<and> (unat q, k) \<in> R2 - R)"
    using R1 ih(3,6) by (fastforce split: prod.splits)
  moreover have "\<forall>(a, k)\<in>R. \<forall>i<k. bytes s2 (ad (a + i)) = bytes s (ad (a + i))"
    using p(3) ih(7) R1(2) by (fastforce split: prod.splits)
  ultimately show ?case using p(1) ih R1(2)
    by (intro exI [of _ "p # ps"] exI [of _ s2] exI [of _ R2]) auto
qed

end

section \<open>\<open>kmalloc\<close> is such an allocator\<close>

definition used :: "blk list \<Rightarrow> (nat \<times> nat) set" where
  "used bs = {(baddr b + 20, bsize b) | b. b \<in> set bs \<and> \<not> bfree b}"

definition heap_owns :: "heap \<Rightarrow> (nat \<times> nat) set \<Rightarrow> bool" where
  "heap_owns h R \<longleftrightarrow> (\<exists>bs e. heap_ok h bs e \<and> R = used bs)"

lemma used_simps [simp]: "used [] = {}" "used (xs @ ys) = used xs \<union> used ys"
  "used (b # bs) = (if bfree b then used bs else insert (baddr b + 20, bsize b) (used bs))"
  by (auto simp: used_def)

lemma used_apart:
  assumes "laid lo bs e" and "(a, k) \<in> used bs" and "(b, l) \<in> used bs" and "(a, k) \<noteq> (b, l)"
  shows "a + k \<le> b \<or> b + l \<le> a"
  using assms
proof (induction bs arbitrary: lo)
  case Nil
  then show ?case by simp
next
  case (Cons c bs)
  have far: "bend c + 20 \<le> x" if "(x, y) \<in> used bs" for x y
    using that Cons.prems(1) by (auto simp: used_def dest: laid_mem)
  from Cons.prems(2,3) consider "(a, k) \<in> used bs" "(b, l) \<in> used bs"
    | "(a, k) = (baddr c + 20, bsize c)" "(b, l) \<in> used bs"
    | "(b, l) = (baddr c + 20, bsize c)" "(a, k) \<in> used bs"
    using Cons.prems(4) by (auto split: if_splits)
  then show ?case
    using Cons.IH [of "bend c"] Cons.prems far by cases (fastforce simp: bend_def)+
qed

lemma used_fresh:
  assumes "laid lo (xs @ Blk a s False # ys) e"
  shows "(a + 20, s) \<notin> used xs \<union> used ys"
proof
  assume "(a + 20, s) \<in> used xs \<union> used ys"
  then obtain d where d: "d \<in> set xs \<union> set ys" "baddr d = a" by (auto simp: used_def)
  have "0 < bsize d" "0 < s" using d(1) laid_mem [OF assms, of d] laid_mem [OF assms, of "Blk a s False"] by auto
  with d assms show False by (fastforce simp: laid_append bend_def dest: laid_mem)
qed

text \<open>What the specification gives out is a new block of at least the size asked for.\<close>

lemma alloc_spec_fresh:
  assumes ok: "heap_ok h bs e" and spec: "alloc_spec n bs e = (p, bs', e')"
  shows "p = 0 \<and> bs' = bs \<or> (\<exists>k. p \<noteq> 0 \<and> n \<le> k \<and> (p, k) \<notin> used bs \<and> used bs' = insert (p, k) (used bs))"
proof -
  have la: "laid 0x1014 bs e" and e: "4 dvd e" using ok by (auto simp: heap_ok_def)
  have new: "(e + 20, s) \<notin> used bs" if "0 < s" for s
    using la that by (auto simp: used_def bend_def dest: laid_mem)
  show ?thesis
  proof (cases "p = 0 \<and> bs' = bs")
    case False
    have "\<not> (n = 0 \<or> refused (round8 n) e)"
    proof
      assume "n = 0 \<or> refused (round8 n) e"
      with spec have "p = 0 \<and> bs' = bs" by (simp add: alloc_spec_def Let_def)
      with False show False ..
    qed
    then have n0: "n \<noteq> 0" and nr: "\<not> refused (round8 n) e" by auto
    have s: "8 \<le> round8 n" "n \<le> round8 n" "8 dvd round8 n" using n0 round8(3) [of n] round8(1,2) by auto
    consider "p = e + 20" "bs' = bs @ [Blk e (round8 n) False]" | "take_fit (round8 n) bs = Some (p, bs')"
      using spec n0 nr False by (auto simp: alloc_spec_def Let_def split: if_splits option.splits prod.splits)
    then show ?thesis
    proof cases
      case 1
      then show ?thesis using new [of "round8 n"] s by (intro disjI2 exI [of _ "round8 n"]) auto
    next
      case 2
      from take_fit_Some [OF 2] obtain xs b ys where b: "bs = xs @ b # ys" "fits (round8 n) b"
        "p = baddr b + 20" "bs' = xs @ carve (round8 n) b @ ys" by blast
      define k where "k = (if round8 n + 32 \<le> bsize b then round8 n else bsize b)"
      have "n \<le> k" using b(2) s by (simp add: k_def fits_def)
      moreover have "used bs' = insert (p, k) (used bs)"
        using b by (auto simp: carve_def k_def fits_def)
      moreover have "laid 0x1014 (xs @ Blk (baddr b) (bsize b) False # ys) e"
        using la b by (simp add: laid_append bend_def)
      from used_fresh [OF this] have "(p, k) \<notin> used bs"
        using b la by (fastforce simp: used_def fits_def laid_append bend_def dest: laid_mem)
      ultimately show ?thesis using b by auto
    qed
  qed simp
qed

lemma heap_owns_frame:
  assumes "keeps bs m m'" and "laid lo bs e" and "e < 0x800000" and "(a, k) \<in> used bs" and "i < k"
  shows "m' (ad (a + i)) = m (ad (a + i))"
proof -
  from assms(4) obtain b where b: "b \<in> set bs" "\<not> bfree b" "a = baddr b + 20" "k = bsize b"
    by (auto simp: used_def)
  then have "a + i \<in> payload b" using assms(5) by (simp add: payload_def bend_def)
  moreover have "a + i < 4294967296" using laid_mem [OF assms(2) b(1)] b assms(3,5) by (simp add: bend_def)
  ultimately show ?thesis using assms(1) b unfolding keeps_def by blast
qed

interpretation kheap: allocator kmalloc heap_owns hmem
proof
  fix h R and n :: u32
  assume "heap_owns h R" and n: "unat n \<le> 0x7FFFFFFF"
  then obtain bs e where ok: "heap_ok h bs e" and R: "R = used bs" by (auto simp: heap_owns_def)
  obtain p bs' e' where spec: "alloc_spec (unat n) bs e = (p, bs', e')" by (cases "alloc_spec (unat n) bs e")
  from kmalloc_refines [OF ok n spec] obtain h' where h': "kmalloc n h = Some (ad p, h')"
    "heap_ok h' bs' e'" "keeps bs (hmem h) (hmem h')" by blast
  from ok have la: "laid 0x1014 bs e" "e < 0x800000" by (auto simp: heap_ok_def)
  have fr: "\<forall>(a, k)\<in>R. \<forall>i<k. hmem h' (ad (a + i)) = hmem h (ad (a + i))"
    using heap_owns_frame [OF h'(3) la] by (auto simp: R)
  have own: "heap_owns h' (used bs')" using h'(2) by (auto simp: heap_owns_def)
  from alloc_spec_fresh [OF ok spec] show "\<exists>p s'. kmalloc n h = Some (p, s') \<and>
      (p = 0 \<and> heap_owns s' R \<or> p \<noteq> 0 \<and> (\<exists>k\<ge>unat n. (unat p, k) \<notin> R \<and> heap_owns s' (insert (unat p, k) R))) \<and>
      (\<forall>(a, k)\<in>R. \<forall>i<k. hmem s' (ad (a + i)) = hmem h (ad (a + i)))"
  proof (elim disjE exE conjE)
    assume "p = 0" "bs' = bs"
    then show ?thesis using h'(1) own fr R by (auto simp: ad_0)
  next
    fix k assume k: "p \<noteq> 0" "unat n \<le> k" "(p, k) \<notin> used bs" "used bs' = insert (p, k) (used bs)"
    from h'(2) have "laid 0x1014 bs' e'" "e' < 0x800000" by (auto simp: heap_ok_def)
    moreover have "(p, k) \<in> used bs'" using k by simp
    ultimately have "p < 4294967296" by (auto simp: used_def bend_def dest: laid_mem)
    then have "unat (ad p) = p" "ad p \<noteq> 0" using k by (simp_all add: unat_ad ad_eq_0_iff)
    then show ?thesis using h'(1) own fr k R by (intro exI [of _ "ad p"] exI [of _ h']) auto
  qed
next
  fix h R a k b l
  assume "heap_owns h R" "(a, k) \<in> R" "(b, l) \<in> R" "(a, k) \<noteq> (b, l)"
  then show "a + k \<le> b \<or> b + l \<le> a"
    unfolding heap_owns_def heap_ok_def by (metis used_apart)
qed

text \<open>
  C14. A client that allocates several blocks in turn: the calls return, the blocks handed out
  (those that are not null) do not overlap each other nor any block in use before, and the
  bytes of the blocks in use before are as they were.
\<close>

theorem kmalloc_blocks_apart:
  assumes "heap_ok h bs e" and "\<forall>n\<in>set ns. unat n \<le> 0x7FFFFFFF"
  shows "\<exists>ps h' bs' e'. alloc_all kmalloc ns h = Some (ps, h') \<and> heap_ok h' bs' e' \<and> used bs \<subseteq> used bs'
     \<and> separate (zip ps ns)
     \<and> (\<forall>(p, n)\<in>set (zip ps ns). p \<noteq> 0 \<longrightarrow> (\<exists>k. unat n \<le> k \<and> (unat p, k) \<in> used bs' - used bs))
     \<and> (\<forall>(a, k)\<in>used bs. \<forall>i<k. hmem h' (ad (a + i)) = hmem h (ad (a + i)))"
proof -
  have "heap_owns h (used bs)" using assms(1) by (auto simp: heap_owns_def)
  from kheap.alloc_all_owns [OF this assms(2)] obtain ps h' R' where r:
    "alloc_all kmalloc ns h = Some (ps, h')" "used bs \<subseteq> R'" "heap_owns h' R'" "separate (zip ps ns)"
    "\<forall>(p, n)\<in>set (zip ps ns). p \<noteq> 0 \<longrightarrow> (\<exists>k. unat n \<le> k \<and> (unat p, k) \<in> R' - used bs)"
    "\<forall>(a, k)\<in>used bs. \<forall>i<k. hmem h' (ad (a + i)) = hmem h (ad (a + i))" by blast
  from r(3) obtain bs' e' where "heap_ok h' bs' e'" "R' = used bs'" by (auto simp: heap_owns_def)
  with r show ?thesis by blast
qed

section \<open>Releasing what was just allocated\<close>

text \<open>No two neighbours are both free.\<close>

fun merged :: "blk list \<Rightarrow> bool" where
  "merged (b # c # bs) \<longleftrightarrow> \<not> (bfree b \<and> bfree c) \<and> merged (c # bs)"
| "merged _ \<longleftrightarrow> True"

lemma merged_middle:
  "merged (xs @ b # ys) \<Longrightarrow> bfree b \<Longrightarrow> (xs \<noteq> [] \<longrightarrow> \<not> bfree (last xs)) \<and> (ys \<noteq> [] \<longrightarrow> \<not> bfree (hd ys))"
proof (induction xs)
  case Nil
  then show ?case by (cases ys) auto
next
  case (Cons x xs)
  then show ?case by (cases xs) auto
qed

text \<open>
  A block taken from the free list and released again gives back the very list of blocks
  there was: the rest that was cut off is merged with it.
\<close>

theorem kmalloc_kfree_roundtrip:
  assumes ok: "heap_ok h bs e" and mg: "merged bs" and n: "unat sz \<le> 0x7FFFFFFF" "sz \<noteq> 0"
    and nr: "\<not> refused (round8 (unat sz)) e" and ex: "\<exists>b\<in>set bs. fits (round8 (unat sz)) b"
  shows "\<exists>p h' h''. kmalloc sz h = Some (p, h') \<and> p \<noteq> 0 \<and> kfree p h' = Some h'' \<and> heap_ok h'' bs e"
proof -
  define s where "s = round8 (unat sz)"
  from ex have "take_fit s bs \<noteq> None" by (auto simp: take_fit_None s_def)
  then obtain p bs' where t: "take_fit s bs = Some (p, bs')" by auto
  from take_fit_Some [OF t] obtain xs b ys where b: "bs = xs @ b # ys" "fits s b" "p = baddr b + 20"
    "bs' = xs @ carve s b @ ys" by blast
  have fb: "bfree b" "s \<le> bsize b" using b(2) by (auto simp: fits_def)
  have "bs \<noteq> []" using b by simp
  then have "alloc_spec (unat sz) bs e = (p, bs', e)"
    using n nr t by (simp add: alloc_spec_def Let_def unat_eq_0 s_def)
  from kmalloc_refines [OF ok n(1) this] obtain h' where h': "kmalloc sz h = Some (ad p, h')" "heap_ok h' bs' e"
    by blast
  from ok have la: "laid 0x1014 (xs @ b # ys) e" and ne: "ys \<noteq> []" and e: "e < 0x800000"
    using b fb by (auto simp: heap_ok_def)
  have nb: "xs \<noteq> [] \<longrightarrow> \<not> bfree (last xs)" "ys \<noteq> [] \<longrightarrow> \<not> bfree (hd ys)"
    using merged_middle [of xs b ys] mg b(1) fb by auto
  define r where "r = (if s + 32 \<le> bsize b then [Blk (baddr b + 20 + s) (bsize b - s - 24) True] else [])"
  define k where "k = (if s + 32 \<le> bsize b then s else bsize b)"
  have bs': "bs' = xs @ Blk (baddr b) k False # (r @ ys)"
    using b by (simp add: carve_def r_def k_def)
  have bb: "Blk (baddr b) (bsize b) True = b" using fb by (cases b) simp
  have fn: "free_next (Blk (baddr b) k True) (r @ ys) = (b, ys)"
    using ne nb(2) fb by (cases ys) (auto simp: r_def k_def joined_def bb)
  have mo: "merge_ok xs (Blk (baddr b) k False) (r @ ys) e"
    using la nb by (auto simp: merge_ok_def fn free_prev_def)
  have fs: "free_spec xs (Blk (baddr b) k False) (r @ ys) = bs"
    using b nb by (auto simp: free_spec_def fn free_prev_def)
  have hi: "0x400000 \<le> baddr b" using ok b(1) fb(1) by (auto simp: heap_ok_def early_used_def)
  from kfree_refines [OF h'(2) [unfolded bs'] _ _ _ mo] ne hi obtain h'' where
    "kfree (ad p) h' = Some h''" "heap_ok h'' bs e" using fs b(3) by auto
  moreover have "ad p \<noteq> 0" using b(3) la e laid_mem [OF la, of b] by (auto simp: ad_eq_0_iff bend_def)
  ultimately show ?thesis using h'(1) by blast
qed

section \<open>The error branches of \<open>kfree\<close>\<close>

text \<open>A pointer whose header would lie outside the heap is reported, and nothing but the screen changes.\<close>

theorem kfree_outside:
  assumes "ptr \<noteq> 0" and "ptr - 20 < heap_start h \<or> heap_end h \<le> ptr - 20"
  shows "kfree ptr h = Some (heap_print ''Invalid free header!\<newline>'' h)"
  using assms by (simp add: kfree_def Let_def)

text \<open>Releasing a free block is reported as a double free, and nothing but the screen changes.\<close>

theorem kfree_double_free:
  assumes ok: "heap_ok h bs e" and b: "b \<in> set bs" "bfree b"
  shows "kfree (ad (baddr b + 20)) h = Some (heap_print ''Double free detected!\<newline>'' h)"
proof -
  obtain xs ys where bs: "bs = xs @ b # ys" using b(1) by (auto simp: in_set_conv_decomp)
  with ok have mem: "heap_mem h (xs @ b # ys) e" by (simp add: heap_ok_iff_mem)
  note B = mem_block [OF mem]
  have lt: "baddr b < 0x800000" "bend b < 0x800000" "baddr b + 20 + bsize b < 0x800000"
    using B by (auto simp: bend_def)
  have "\<not> ad (baddr b) < 0x400000"
    using mem_free_in [OF mem b(2)] B(5) by (simp add: in_heap_def not_less)
  moreover have "bh_magic (hmem h) (ad (baddr b)) = HEAP_MAGIC" "load32 (hmem h) (ad (bend b)) = HEAP_MAGIC"
    using B(1) by (auto simp: hdr_def bh_ad load32_ad)
  ultimately show ?thesis
    using B lt mem_hdr(1-5) [OF mem] mem_free_in [OF mem b(2)] b(2)
    by (simp add: kfree_def Let_def ad_eq_0_iff ad_diff_numeral ad_less_iff ad_add_numeral ad_add in_heap_def
        bh_ad bend_def ad_le_iff)
qed

section \<open>The verdict of \<open>heap_validate\<close>\<close>

lemma seg_next:
  assumes "seg m p (xs @ b # ys) 0"
  shows "bh_next m (ad (baddr b)) = first_ad ys 0"
  using assms by (auto simp: seg_append hdr_def bh_ad)

lemma laid_first_ne:
  assumes "laid lo (xs @ b # ys @ zs) e" and "0 < lo" and "e < 0x800000"
  shows "ad (baddr b) \<noteq> first_ad zs 0" and "ad (baddr b) \<noteq> 0"
proof -
  have b: "lo \<le> baddr b" "bend b \<le> e" and "laid (bend b) (ys @ zs) e" using assms(1) laid_mem [OF assms(1), of b]
    by (auto simp: laid_append)
  then show "ad (baddr b) \<noteq> 0" using assms by (subst ad_eq_0_iff) (auto simp: bend_def)
  then show "ad (baddr b) \<noteq> first_ad zs 0"
  proof (cases zs)
    case (Cons z zs')
    have "bend b \<le> baddr z" "bend z \<le> e"
      using \<open>laid (bend b) (ys @ zs) e\<close> Cons laid_mem [of "bend b" "ys @ zs" e z] by auto
    with Cons b assms(3) show ?thesis by (simp add: ad_eq_iff bend_def)
  qed simp
qed

lemma cycle_walk:
  assumes "seg m p bs 0" and "laid lo bs e" and "0 < lo" and "e < 0x800000" and "bs = xs @ ys"
  shows "heap_cycle m (first_ad bs 0) (first_ad ys 0) = Some False"
  using assms
proof (induction "length ys" arbitrary: p lo bs xs ys rule: less_induct)
  case less
  show ?case
  proof (cases ys)
    case Nil
    then show ?thesis by (subst heap_cycle.simps) simp
  next
    case (Cons y1 ys1)
    have n1: "bh_next m (ad (baddr y1)) = first_ad ys1 0"
      using seg_next [of m p xs y1 ys1] less.prems Cons by simp
    show ?thesis
    proof (cases ys1)
      case Nil
      with Cons n1 show ?thesis by (subst heap_cycle.simps) simp
    next
      case (Cons y2 ys2)
      note ys = \<open>ys = y1 # ys1\<close> this
      have "bs \<noteq> []" using less.prems(5) ys by simp
      then obtain b rest where bs: "bs = b # rest" by (auto simp: neq_Nil_conv)
      have "rest \<noteq> []" using less.prems(5) ys bs by (cases xs) auto
      then obtain c rest' where rest: "rest = c # rest'" by (auto simp: neq_Nil_conv)
      obtain zs where zs: "rest = zs @ ys2" "zs = c # tl zs"
        using less.prems ys bs rest by (cases xs) (auto simp: append_eq_Cons_conv Cons_eq_append_conv)
      have ld: "laid lo (xs @ y1 # y2 # ys2) e" using less.prems ys by simp
      have nz: "ad (baddr y1) \<noteq> 0" "ad (baddr y2) \<noteq> 0"
        using laid_first_ne(2) [of lo xs y1 "y2 # ys2" "[]" e] laid_first_ne(2) [of lo "xs @ [y1]" y2 ys2 "[]" e]
          ld less.prems by auto
      have n2: "bh_next m (ad (baddr y2)) = first_ad ys2 0"
        using seg_next [of m p "xs @ [y1]" y2 ys2] less.prems ys by simp
      have nb: "bh_next m (ad (baddr b)) = first_ad rest 0"
        using seg_next [of m p "[]" b rest] less.prems(1) bs by simp
      have lr: "laid (bend b) rest e" "seg m (ad (baddr b)) rest 0" "0 < bend b"
        using less.prems(1,2,3) bs by (auto simp: bend_def)
      have "ad (baddr c) \<noteq> first_ad ys2 0"
        using laid_first_ne(1) [of "bend b" "[]" c "tl zs" ys2 e] lr zs rest less.prems
        by (metis append_Cons append_Nil)
      moreover have "heap_cycle m (first_ad rest 0) (first_ad ys2 0) = Some False"
        using ys lr zs less.prems by (intro less.hyps [of ys2 "ad (baddr b)" rest "bend b" zs]) auto
      ultimately show ?thesis
        using ys n1 n2 nz nb bs rest by (subst heap_cycle.simps) simp
    qed
  qed
qed

text \<open>The message: a block that was allocated before the heap was set up is found outside it.\<close>

definition heap_verdict :: "blk list \<Rightarrow> string" where
  "heap_verdict bs =
     (if \<forall>b\<in>set bs. 0x400000 \<le> baddr b then ''Heap structure valid.\<newline>'' else ''Block outside heap range!\<newline>'')"

lemma check_walk:
  assumes "heap_mem h bs e" and "bs = xs @ ys"
  shows "heap_check h (first_ad ys 0) = Some (heap_verdict ys)"
  using assms
proof (induction ys arbitrary: xs)
  case Nil
  then show ?case by (subst heap_check.simps) (simp add: Let_def heap_verdict_def)
next
  case (Cons b ys)
  have ok: "heap_mem h (xs @ b # ys) e" using Cons.prems by simp
  note B = mem_block [OF ok] mem_hdr(1-5) [OF ok]
  have mg: "bh_magic (hmem h) (ad (baddr b)) = HEAP_MAGIC" using B(1) by (simp add: hdr_def bh_ad)
  have bp: "\<not> (first_ad ys 0 \<noteq> 0 \<and> bh_prev (hmem h) (first_ad ys 0) \<noteq> ad (baddr b))"
  proof (cases ys)
    case (Cons c zs)
    with mem_hdr(4) [of h "xs @ [b]" c zs e] ok show ?thesis by simp
  qed simp
  have bl: "ad (baddr b) < heap_start h \<or> ad (baddr b) \<ge> heap_end h \<longleftrightarrow> baddr b < 0x400000"
    using B by (auto simp: ad_less_iff ad_le_iff ad_numeral_iffs bend_def)
  have bd: "\<not> heap_end h < ad (baddr b) + sizeof_block_header + bh_size (hmem h) (ad (baddr b))"
    using B by (simp add: bend_def ad_add_numeral ad_add ad_less_iff)
  have ih: "heap_check h (first_ad ys 0) = Some (heap_verdict ys)"
    using Cons.IH [of "xs @ [b]"] Cons.prems by simp
  have nx: "bh_next (hmem h) (ad (baddr b)) = first_ad ys 0" "ad (baddr b) \<noteq> 0" using B by auto
  show ?case
  proof (cases "baddr b < 0x400000")
    case True
    with mg bp bl nx show ?thesis
      by (subst heap_check.simps) (simp add: Let_def heap_verdict_def not_le)
  next
    case False
    then have "heap_verdict (b # ys) = heap_verdict ys" by (simp add: heap_verdict_def)
    have "heap_check h (ad (baddr b)) = heap_check h (first_ad ys 0)"
      using False mg bp bl bd nx by (subst heap_check.simps) (simp only: Let_def if_True if_False simp_thms nx)
    with \<open>heap_verdict (b # ys) = heap_verdict ys\<close> ih show ?thesis by simp
  qed
qed

text \<open>
  On a list of blocks in order \<open>heap_validate\<close> returns, and reports that the structure is valid
  exactly when no block lies below the heap.
\<close>

theorem heap_validate_ok:
  assumes ok: "heap_ok h bs e"
  shows "heap_validate h = Some (heap_print (heap_verdict bs) h)"
proof (cases "bs = []")
  case True
  then have "heap_head h = 0" using ok by (simp add: heap_ok_def)
  then show ?thesis
    using True by (simp add: heap_validate_def heap_cycle.simps heap_check.simps Let_def heap_verdict_def)
next
  case False
  then have mem: "heap_mem h bs e" using ok by (simp add: heap_ok_iff_mem)
  then have hd: "heap_head h = first_ad bs 0" using ok by (simp add: heap_ok_def)
  have "heap_cycle (hmem h) (heap_head h) (heap_head h) = Some False"
    unfolding hd using mem by (intro cycle_walk [of _ 0 bs "0x1014" e "[]"]) (auto simp: heap_mem_def)
  with check_walk [OF mem, of "[]" bs] hd show ?thesis by (simp add: heap_validate_def)
qed

end
