(* ===== verification/HeapRuns.thy ===== *)
theory HeapRuns imports HeapLaws begin

text \<open>
  Runs of the allocator from a fresh heap, and what they show of its bookkeeping.
\<close>

datatype heap_op = Alloc u32 | Release u32

text \<open>The addresses that the allocations of a run return, and the heap after it.\<close>

fun heap_run :: "heap_op list \<Rightarrow> heap \<Rightarrow> (u32 list \<times> heap) option" where
  "heap_run [] h = Some ([], h)"
| "heap_run (Alloc n # ops) h =
     Option.bind (kmalloc n h) (\<lambda>(p, h). map_option (\<lambda>(ps, h). (p # ps, h)) (heap_run ops h))"
| "heap_run (Release p # ops) h = Option.bind (kfree p h) (heap_run ops)"

definition fresh_heap :: "mem \<Rightarrow> vga \<Rightarrow> heap" where
  "fresh_heap m v = heap_init \<lparr>hmem = m, heap_start = 0, heap_end = 0, heap_head = 0, screen = v\<rparr>"

lemmas run_defs = fresh_heap_def heap_init_def kmalloc_def kmalloc_first_def kmalloc_append_def
  kmalloc_take_def kmalloc_split_def kmalloc_search.simps kfree_def kfree_merge_next_def kfree_merge_prev_def
  kfree_shrink_def heap_last.simps in_heap_def Let_def bh_defs apart_def

lemma fresh_heap_ok: "heap_ok (fresh_heap m v) [] 0x400000"
  by (simp add: heap_ok_def fresh_heap_def heap_init_def ad_def)

section \<open>The last block released\<close>




section \<open>A merge of blocks without a gap\<close>

fun links :: "mem \<Rightarrow> blk list \<Rightarrow> bool" where
  "links m [] \<longleftrightarrow> True"
| "links m (b # bs) \<longleftrightarrow> rd m (baddr b + 12) = first_ad bs 0 \<and> links m bs"

lemma seg_links: "seg m p bs 0 \<Longrightarrow> links m bs"
  by (induction bs arbitrary: p) (auto simp: hdr_def)

lemma links_frame: "links m bs \<Longrightarrow> (\<And>b. b \<in> set bs \<Longrightarrow> rd m' (baddr b + 12) = rd m (baddr b + 12)) \<Longrightarrow> links m' bs"
  by (induction bs) auto

lemma links_append: "links m (xs @ y # ys) \<Longrightarrow> links m (y # ys)"
  by (induction xs) auto

lemma links_prefix:
  "links m (xs @ b # ys) \<Longrightarrow> (\<And>x. x \<in> set xs \<Longrightarrow> rd m' (baddr x + 12) = rd m (baddr x + 12)) \<Longrightarrow>
   links m' (c # zs) \<Longrightarrow> baddr b = baddr c \<Longrightarrow> links m' (xs @ c # zs)"
  by (induction xs) auto

lemma last_links:
  assumes "links m bs" and "bs \<noteq> []" and "laid lo bs e" and "0 < lo" and "e < 0x800000"
  shows "heap_last m (ad (baddr (hd bs))) = Some (ad (baddr (last bs)))"
  using assms
proof (induction bs arbitrary: lo)
  case (Cons b bs)
  have b0: "ad (baddr b) \<noteq> 0" using laid_first_ne(2) [of lo "[]" b bs "[]" e] Cons.prems by simp
  have nx: "bh_next m (ad (baddr b)) = first_ad bs 0" using Cons.prems(1) by (simp add: bh_ad)
  show ?case
  proof (cases bs)
    case Nil
    with nx show ?thesis by (subst heap_last.simps) simp
  next
    case (Cons c cs)
    have "ad (baddr c) \<noteq> 0"
      using laid_first_ne(2) [of lo "[b]" c cs "[]" e] Cons.prems Cons by simp
    moreover have "heap_last m (ad (baddr (hd bs))) = Some (ad (baddr (last bs)))"
      using Cons.prems Cons by (intro Cons.IH [of "bend b"]) (auto simp: bend_def)
    ultimately show ?thesis using Cons nx b0 by (subst heap_last.simps) simp
  qed
qed simp

text \<open>The four stores of the merge, with the new tail on the size field of \<open>c\<close>.\<close>

lemma merge_gapless_words:
  assumes ok: "heap_mem h (xs @ x # b # c # zs) e" and f: "bfree x"
    and g: "bend x = baddr b" "bend b = baddr c"
  defines "m1 \<equiv> store32 (hmem h) (ad (baddr x + 4)) (ad (baddr c - baddr x - 16))"
  defines "m2 \<equiv> store32 m1 (ad (baddr c + 4)) HEAP_MAGIC"
  defines "m3 \<equiv> store32 m2 (ad (baddr x + 12)) (ad (baddr c))"
  shows "kfree_merge_prev (ad (baddr b)) h = h\<lparr>hmem := store32 m3 (ad (baddr c + 16)) (ad (baddr x))\<rparr>"
proof -
  have ok2: "heap_mem h ((xs @ [x]) @ b # c # zs) e" and ok3: "heap_mem h ((xs @ [x, b]) @ c # zs) e"
    using ok by simp_all
  note B = mem_block [OF ok] mem_block(3) [OF ok3]
  have pv: "rd (hmem h) (baddr b + 16) = ad (baddr x)" and nx: "rd (hmem h) (baddr b + 12) = ad (baddr c)"
    using mem_block(1) [OF ok2] by (auto simp: hdr_def)
  have le: "baddr x + 20 + bsize x = baddr b" "baddr b + 20 + bsize b = baddr c" "baddr c + 20 < 0x800000"
    using g B by (auto simp: bend_def)
  have sz: "ad (bsize x) + (sizeof_block_header + ad (bsize b) + sizeof_uint32) = ad (baddr c - baddr x - 16)"
  proof -
    have "baddr c - baddr x - 16 = bsize x + 20 + bsize b + 4" using le by linarith
    then show ?thesis by (simp add: ad_def)
  qed
  have t: "ad (baddr x) + sizeof_block_header + ad (baddr c - baddr x - 16) = ad (baddr c + 4)"
    using le by (simp add: ad_def of_nat_diff)
  have r1: "bh_prev m1 (ad (baddr b)) = ad (baddr x)" "bh_size m1 (ad (baddr x)) = ad (baddr c - baddr x - 16)"
    using pv le by (simp_all add: m1_def rd_rules bh_ad)
  have r2: "bh_prev m2 (ad (baddr b)) = ad (baddr x)" "bh_next m2 (ad (baddr b)) = ad (baddr c)"
    using pv nx le by (simp_all add: m2_def m1_def rd_rules bh_ad)
  have r3: "bh_next m3 (ad (baddr b)) = ad (baddr c)" "bh_prev m3 (ad (baddr b)) = ad (baddr x)"
    using pv nx le by (simp_all add: m3_def m2_def m1_def rd_rules bh_ad)
  have "kfree_merge_prev (ad (baddr b)) h =
      h\<lparr>hmem := if ad (baddr c) \<noteq> 0 then set_prev (ad (baddr c)) (ad (baddr x)) m3 else m3\<rparr>"
    using mem_hdr(1-5) [OF ok] mem_hdr(1-5) [OF ok2] mem_free_in [OF ok f] f
    unfolding kfree_merge_prev_def Let_def
    by (simp only: last_ad_simps if_True simp_thms bh_ad(6-10) sz t m1_def [symmetric] r1 m2_def [symmetric] r2
        m3_def [symmetric] r3 not_False_eq_True one_neq_zero)
  with mem_hdr(5) [OF ok3] show ?thesis by (simp add: bh_ad)
qed

text \<open>The \<open>next\<close> pointers are still in order, so the walk to the last block ends.\<close>

lemma gapless_last:
  assumes mem: "heap_mem h (xs @ x # b # c # zs) e" and g: "bend x = baddr b" "bend b = baddr c"
    and m': "m' = store32 (store32 (store32 (store32 (hmem h) (ad (baddr x + 4)) s)
         (ad (baddr c + 4)) v) (ad (baddr x + 12)) (ad (baddr c))) (ad (baddr c + 16)) p"
  shows "\<exists>l. heap_last m' (heap_head h) = Some l"
proof -
  have mem3: "heap_mem h ((xs @ [x, b]) @ c # zs) e" using mem by simp
  note B = mem_block [OF mem] mem_block(3,8) [OF mem3]
  have le: "baddr x + 20 + bsize x = baddr b" "baddr b + 20 + bsize b = baddr c" "baddr c + 20 < 0x800000"
    using g B by (auto simp: bend_def)
  have "links m' (xs @ x # c # zs)"
  proof (rule links_prefix)
    show "links (hmem h) (xs @ x # b # c # zs)" using B(9) by (rule seg_links)
    show "rd m' (baddr d + 12) = rd (hmem h) (baddr d + 12)" if "d \<in> set xs" for d
    proof -
      have "bend d \<le> baddr x" using that B(8) by (auto simp: laid_append dest: laid_mem)
      then show ?thesis using le unfolding m' by (simp add: rd_rules bend_def)
    qed
    have "links (hmem h) (c # zs)"
      using links_append [of "hmem h" "xs @ [x, b]" c zs] seg_links [OF B(9)] by simp
    moreover have "rd m' (baddr d + 12) = rd (hmem h) (baddr d + 12)" if "d \<in> set (c # zs)" for d
    proof -
      have "d = c \<or> bend c \<le> baddr d" "baddr d + 20 \<le> e"
        using that B(12) laid_mem [of "bend c" zs e d] B(11) by (auto simp: laid_append bend_def)
      then show ?thesis using le B(4) unfolding m' by (elim disjE) (simp_all add: rd_rules bend_def)
    qed
    ultimately have "links m' (c # zs)" by (rule links_frame)
    then show "links m' (x # c # zs)" using le by (simp add: m' rd_rules)
  qed simp
  moreover have "laid 0x1014 (xs @ x # c # zs) e"
    using B(8) by (auto simp: laid_append bend_def intro: laid_weaken)
  moreover have "heap_head h = ad (baddr (hd (xs @ x # c # zs)))"
    using mem by (cases xs) (auto simp: heap_mem_def)
  ultimately show ?thesis using last_links [of m' "xs @ x # c # zs" "0x1014" e] B(4) by simp
qed

lemma shrink_mem: "heap_last (hmem h) (heap_head h) = Some l \<Longrightarrow> \<exists>h'. kfree_shrink h = Some h' \<and> hmem h' = hmem h"
  by (auto simp: kfree_shrink_def)

text \<open>
  The release of a block that follows a free one, where neither has a gap behind it (both
  were cut off larger blocks), writes the new tail over the size field of the next block,
  which may be in use: it becomes \<open>0xDEADBEEF\<close>.
\<close>

theorem kfree_gapless_corrupts:
  assumes ok: "heap_ok h (xs @ x # b # c # zs) e" and f: "bfree x" "\<not> bfree b" "\<not> bfree c"
    and g: "bend x = baddr b" "bend b = baddr c"
  shows "\<exists>h'. kfree (ad (baddr b + 20)) h = Some h' \<and> bh_size (hmem h') (ad (baddr c)) = HEAP_MAGIC"
proof -
  have mem: "heap_mem h ((xs @ [x]) @ b # c # zs) e"
    using ok by (simp add: heap_ok_iff_mem)
  define b1 where "b1 = Blk (baddr b) (bsize b) True"
  define h1 where "h1 = h\<lparr>hmem := store32 (hmem h) (ad (baddr b + 8)) 1\<rparr>"
  have hi: "0x400000 \<le> baddr b"
    using mem_block(10) [of h xs x "b # c # zs" e] mem_block(3) [of h xs x "b # c # zs" e] mem f(1) g(1)
    by (simp add: early_used_def bend_def)
  note m1 = kfree_marks [OF mem f(2) hi, folded h1_def b1_def]
  have n: "kfree_merge_next (ad (baddr b)) h1 = h1"
    using merge_next_keep [OF m1(2)] f(3) by (simp add: b1_def)
  have mem1: "heap_mem h1 (xs @ x # b1 # c # zs) e" using m1(2) by simp
  have g1: "bend x = baddr b1" "bend b1 = baddr c" using g by (simp_all add: b1_def bend_def)
  from merge_gapless_words [OF mem1 f(1) g1] obtain m' where
    mp: "kfree_merge_prev (ad (baddr b)) h1 = h1\<lparr>hmem := m'\<rparr>" and
    m': "m' = store32 (store32 (store32 (store32 (hmem h1) (ad (baddr x + 4)) (ad (baddr c - baddr x - 16)))
         (ad (baddr c + 4)) HEAP_MAGIC) (ad (baddr x + 12)) (ad (baddr c))) (ad (baddr c + 16)) (ad (baddr x))"
    by (simp add: b1_def)
  from gapless_last [OF mem1 g1 m'] obtain l where "heap_last m' (heap_head h1) = Some l" ..
  with shrink_mem [of "h1\<lparr>hmem := m'\<rparr>" l] obtain h' where
    "kfree_shrink (h1\<lparr>hmem := m'\<rparr>) = Some h'" "hmem h' = m'" by auto
  moreover have "bh_size m' (ad (baddr c)) = HEAP_MAGIC"
    using g mem_block(3,4) [of h1 "xs @ [x, b1]" c zs e] mem1 by (simp add: m' bh_ad rd_rules bend_def)
  ultimately show ?thesis using m1(1) n mp by auto
qed

text \<open>The situation arises from a fresh heap by seven calls, and the run of the eighth hits it.\<close>

lemma round8_numerals: "round8 8 = 8" "round8 200 = 200"
  by (simp_all add: round8_def)

text \<open>One call on the list of blocks, for runs whose blocks are numbers.\<close>

lemma alloc_step:
  assumes "heap_ok h bs e" and "unat n \<le> 0x7FFFFFFF" and "alloc_spec (unat n) bs e = (p, bs', e')"
  obtains h' where "kmalloc n h = Some (ad p, h')" and "heap_ok h' bs' e'"
  using kmalloc_refines [OF assms] by blast

lemma release_step:
  assumes "heap_ok h (xs @ b # ys) e" and "\<not> bfree b" and "ys \<noteq> []" and "0x400000 \<le> baddr b" and "merge_ok xs b ys e"
    and "p = ad (baddr b + 20)" and "free_spec xs b ys = bs'"
  obtains h' where "kfree p h = Some h'" and "heap_ok h' bs' e"
  using kfree_refines [OF assms(1-5)] assms(6,7) by blast

lemmas run_spec = alloc_spec_def refused_def round8_numerals carve_def fits_def Let_def
  merge_ok_def free_spec_def free_prev_def bend_def joined_def

lemma gapless_reachable:
  "\<exists>ps h. heap_run [Alloc 200, Alloc 8, Release 0x400014, Alloc 8, Alloc 8, Alloc 8, Release 0x400014]
       (fresh_heap m v) = Some (ps, h)
     \<and> heap_ok h [Blk 0x400000 8 True, Blk 0x40001C 8 False, Blk 0x400038 8 False,
         Blk 0x400054 104 True, Blk 0x4000DC 8 False] 0x4000FC"
proof -
  obtain h1 where h1: "kmalloc 200 (fresh_heap m v) = Some (ad 0x400014, h1)"
    "heap_ok h1 [Blk 0x400000 200 False] 0x4000DC"
    by (rule alloc_step [OF fresh_heap_ok [of m v], of 200]) (auto simp: run_spec)
  obtain h2 where h2: "kmalloc 8 h1 = Some (ad 0x4000F0, h2)"
    "heap_ok h2 [Blk 0x400000 200 False, Blk 0x4000DC 8 False] 0x4000FC"
    by (rule alloc_step [OF h1(2), of 8]) (auto simp: run_spec)
  obtain h3 where h3: "kfree 0x400014 h2 = Some h3"
    "heap_ok h3 [Blk 0x400000 200 True, Blk 0x4000DC 8 False] 0x4000FC"
    by (rule release_step [where h = h2 and xs = "[]" and b = "Blk 0x400000 200 False"
        and ys = "[Blk 0x4000DC 8 False]" and e = "0x4000FC" and p = "0x400014"])
      (use h2 in \<open>auto simp: run_spec ad_def\<close>)
  obtain h4 where h4: "kmalloc 8 h3 = Some (ad 0x400014, h4)"
    "heap_ok h4 [Blk 0x400000 8 False, Blk 0x40001C 168 True, Blk 0x4000DC 8 False] 0x4000FC"
    by (rule alloc_step [OF h3(2), of 8]) (auto simp: run_spec)
  obtain h5 where h5: "kmalloc 8 h4 = Some (ad 0x400030, h5)"
    "heap_ok h5 [Blk 0x400000 8 False, Blk 0x40001C 8 False, Blk 0x400038 136 True, Blk 0x4000DC 8 False] 0x4000FC"
    by (rule alloc_step [OF h4(2), of 8]) (auto simp: run_spec)
  obtain h6 where h6: "kmalloc 8 h5 = Some (ad 0x40004C, h6)"
    "heap_ok h6 [Blk 0x400000 8 False, Blk 0x40001C 8 False, Blk 0x400038 8 False, Blk 0x400054 104 True, Blk 0x4000DC 8 False] 0x4000FC"
    by (rule alloc_step [OF h5(2), of 8]) (auto simp: run_spec)
  obtain h7 where h7: "kfree 0x400014 h6 = Some h7"
    "heap_ok h7 [Blk 0x400000 8 True, Blk 0x40001C 8 False, Blk 0x400038 8 False, Blk 0x400054 104 True, Blk 0x4000DC 8 False] 0x4000FC"
    by (rule release_step [where h = h6 and xs = "[]" and b = "Blk 0x400000 8 False"
        and ys = "[Blk 0x40001C 8 False, Blk 0x400038 8 False, Blk 0x400054 104 True, Blk 0x4000DC 8 False]" and e = "0x4000FC" and p = "0x400014"])
      (use h6 in \<open>auto simp: run_spec ad_def\<close>)
  from h1 h2 h3 h4 h5 h6 h7 show ?thesis by simp
qed

lemma kfree_gapless_corrupts_witness:
  "\<exists>h h'. heap_ok h ([] @ Blk 0x400000 8 True # Blk 0x40001C 8 False # Blk 0x400038 8 False
         # [Blk 0x400054 104 True, Blk 0x4000DC 8 False]) 0x4000FC
     \<and> kfree (ad 0x400030) h = Some h' \<and> bh_size (hmem h') (ad 0x400038) = HEAP_MAGIC"
proof -
  from gapless_reachable [of "\<lambda>_. 0" "vga_initial (replicate 2000 0)"] obtain h where
    h: "heap_ok h ([] @ Blk 0x400000 8 True # Blk 0x40001C 8 False # Blk 0x400038 8 False
         # [Blk 0x400054 104 True, Blk 0x4000DC 8 False]) 0x4000FC" by auto
  from kfree_gapless_corrupts [OF h] h show ?thesis by (auto simp: bend_def)
qed

section \<open>The theorems on concrete heaps\<close>

lemma two_blocks: "\<exists>h. heap_ok h ([] @ Blk 0x400000 200 False # [Blk 0x4000DC 8 False]) 0x4000FC"
proof -
  obtain h1 where h1: "heap_ok h1 [Blk 0x400000 200 False] 0x4000DC"
    by (rule alloc_step [OF fresh_heap_ok [of "\<lambda>_. 0" "vga_initial (replicate 2000 0)"], of 200]) (auto simp: run_spec)
  obtain h2 where "heap_ok h2 [Blk 0x400000 200 False, Blk 0x4000DC 8 False] 0x4000FC"
    by (rule alloc_step [OF h1, of 8]) (auto simp: run_spec)
  then show ?thesis by auto
qed


lemma free_block: "\<exists>h. heap_ok h [Blk 0x400000 200 True, Blk 0x4000DC 8 False] 0x4000FC"
proof -
  obtain h2 where h2: "heap_ok h2 ([] @ Blk 0x400000 200 False # [Blk 0x4000DC 8 False]) 0x4000FC"
    using two_blocks by blast
  obtain h3 where "heap_ok h3 [Blk 0x400000 200 True, Blk 0x4000DC 8 False] 0x4000FC"
    by (rule release_step [OF h2, of "0x400014"]) (auto simp: run_spec ad_def)
  then show ?thesis by auto
qed

text \<open>
  C1. \<open>kmalloc\<close> returns: on a heap that holds the blocks \<open>bs\<close> it gives out the address that
  the first-fit allocator on \<open>bs\<close> gives (0 where that refuses), leaves the blocks of the
  allocator, linked both ways and with their magic numbers, and changes no byte outside the
  heap and none of a block in use.  The request must be below 2 GB.
\<close>

theorem kmalloc_correct:
  assumes "heap_ok h bs e" and "unat sz \<le> 0x7FFFFFFF" and "alloc_spec (unat sz) bs e = (p, bs', e')"
  shows "\<exists>h'. kmalloc sz h = Some (ad p, h') \<and> heap_ok h' bs' e' \<and> keeps bs (hmem h) (hmem h')
    \<and> screen h' = screen h"
  by (rule kmalloc_refines [OF assms])

lemma kmalloc_correct_witness:
  "\<exists>h h'. heap_ok h [] 0x400000 \<and> kmalloc 13 h = Some (ad 0x400014, h')
     \<and> heap_ok h' [Blk 0x400000 16 False] 0x400024"
  using kmalloc_correct [OF fresh_heap_ok [of "\<lambda>_. 0" "vga_initial (replicate 2000 0)"], of 13 "0x400014" "[Blk 0x400000 16 False]" "0x400024"]
    fresh_heap_ok [of "\<lambda>_. 0" "vga_initial (replicate 2000 0)"] by (auto simp: run_spec round8_def)

text \<open>
  C2. \<open>kfree\<close> of the payload of a block in use, with a block behind it.  Where the gaps between the
  blocks hold the tails of the merged ones (\<open>tails_fit\<close>: 4 bytes for each merge) it returns, the heap
  holds the blocks of \<open>free_spec\<close> (the block free, merged with its free neighbours), linked both
  ways and with their magic numbers, and no byte of a block still in use and none outside the heap has
  changed.  Where a free block before it and a used one behind it leave no gap, the merge writes the
  new tail over the size of the block behind, which becomes \<open>0xDEADBEEF\<close>.
\<close>

theorem kfree_correct:
  assumes "heap_ok h (xs @ b # ys) e" and "\<not> bfree b" and "ys \<noteq> []" and "0x400000 \<le> baddr b"
  shows "(tails_fit xs b ys \<longrightarrow> (\<exists>h'. kfree (ad (baddr b + 20)) h = Some h' \<and> heap_ok h' (free_spec xs b ys) e
      \<and> keeps (xs @ ys) (hmem h) (hmem h') \<and> screen h' = screen h))
    \<and> (xs \<noteq> [] \<and> bfree (last xs) \<and> \<not> bfree (hd ys) \<and> gap (last xs) b = 0 \<and> gap b (hd ys) = 0 \<longrightarrow>
      (\<exists>h'. kfree (ad (baddr b + 20)) h = Some h' \<and> bh_size (hmem h') (ad (baddr (hd ys))) = HEAP_MAGIC))"
proof (intro conjI impI; (elim conjE)?)
  from assms(1) have la: "laid 0x1014 (xs @ b # ys) e" by (simp add: heap_ok_def)
  have lu: "\<not> bfree (last ys)" using assms(1,3) by (simp add: heap_ok_def)
  show "\<exists>h'. kfree (ad (baddr b + 20)) h = Some h' \<and> heap_ok h' (free_spec xs b ys) e
      \<and> keeps (xs @ ys) (hmem h) (hmem h') \<and> screen h' = screen h" if "tails_fit xs b ys"
    by (rule kfree_refines [OF assms tails_fit_merge_ok [OF la assms(3) lu that]])
  assume xs: "xs \<noteq> []" "bfree (last xs)" and c: "\<not> bfree (hd ys)" and g: "gap (last xs) b = 0" "gap b (hd ys) = 0"
  obtain xs' x where x: "xs = xs' @ [x]" using xs(1) by (cases xs rule: rev_cases) auto
  obtain d zs where d: "ys = d # zs" using assms(3) by (cases ys) auto
  have "bend x \<le> baddr b" "bend b \<le> baddr d" using la x d by (auto simp: laid_append)
  then have "bend x = baddr b" "bend b = baddr d" using g x d by (simp_all add: gap_def)
  then show "\<exists>h'. kfree (ad (baddr b + 20)) h = Some h' \<and> bh_size (hmem h') (ad (baddr (hd ys))) = HEAP_MAGIC"
    using kfree_gapless_corrupts [of h xs' x b d zs e] assms(1,2) xs c x d by simp
qed

text \<open>Five blocks of 8 bytes, of which the second and the fourth are released.\<close>

lemma five_blocks:
  "\<exists>h. heap_ok h ([Blk 0x400000 8 False, Blk 0x40001C 8 True] @ Blk 0x40003C 8 False
     # [Blk 0x40005C 8 True, Blk 0x40007C 8 False]) 0x40009C"
proof -
  obtain h1 where h1: "heap_ok h1 [Blk 0x400000 8 False] 0x40001C"
    by (rule alloc_step [OF fresh_heap_ok [of "\<lambda>_. 0" "vga_initial (replicate 2000 0)"], of 8]) (auto simp: run_spec)
  obtain h2 where h2: "heap_ok h2 [Blk 0x400000 8 False, Blk 0x40001C 8 False] 0x40003C"
    by (rule alloc_step [OF h1, of 8]) (auto simp: run_spec)
  obtain h3 where h3: "heap_ok h3 [Blk 0x400000 8 False, Blk 0x40001C 8 False, Blk 0x40003C 8 False] 0x40005C"
    by (rule alloc_step [OF h2, of 8]) (auto simp: run_spec)
  obtain h4 where h4: "heap_ok h4 [Blk 0x400000 8 False, Blk 0x40001C 8 False, Blk 0x40003C 8 False, Blk 0x40005C 8 False] 0x40007C"
    by (rule alloc_step [OF h3, of 8]) (auto simp: run_spec)
  obtain h5 where h5: "heap_ok h5 ([Blk 0x400000 8 False] @ Blk 0x40001C 8 False
      # [Blk 0x40003C 8 False, Blk 0x40005C 8 False, Blk 0x40007C 8 False]) 0x40009C"
    by (rule alloc_step [OF h4, of 8]) (auto simp: run_spec)
  obtain h6 where h6: "heap_ok h6 ([Blk 0x400000 8 False, Blk 0x40001C 8 True, Blk 0x40003C 8 False] @ Blk 0x40005C 8 False
      # [Blk 0x40007C 8 False]) 0x40009C"
    by (rule release_step [OF h5, of "0x400030"]) (auto simp: run_spec ad_def)
  obtain h7 where "heap_ok h7 ([Blk 0x400000 8 False, Blk 0x40001C 8 True] @ Blk 0x40003C 8 False
     # [Blk 0x40005C 8 True, Blk 0x40007C 8 False]) 0x40009C"
    by (rule release_step [OF h6, of "0x400070"]) (auto simp: run_spec ad_def)
  then show ?thesis by blast
qed

text \<open>The release of the third merges it with the blocks on both sides.\<close>

lemma kfree_correct_witness:
  "\<exists>h h'. heap_ok h ([Blk 0x400000 8 False, Blk 0x40001C 8 True] @ Blk 0x40003C 8 False
        # [Blk 0x40005C 8 True, Blk 0x40007C 8 False]) 0x40009C
     \<and> kfree (ad 0x400050) h = Some h'
     \<and> heap_ok h' [Blk 0x400000 8 False, Blk 0x40001C 72 True, Blk 0x40007C 8 False] 0x40009C"
proof -
  obtain h where h: "heap_ok h ([Blk 0x400000 8 False, Blk 0x40001C 8 True] @ Blk 0x40003C 8 False
        # [Blk 0x40005C 8 True, Blk 0x40007C 8 False]) 0x40009C" using five_blocks by blast
  have "tails_fit [Blk 0x400000 8 False, Blk 0x40001C 8 True] (Blk 0x40003C 8 False) [Blk 0x40005C 8 True, Blk 0x40007C 8 False]"
    by (simp add: tails_fit_def gap_def bend_def)
  with kfree_correct [OF h] h show ?thesis by (auto simp: run_spec)
qed

lemma kfree_only_block_witness:
  "\<exists>h h'. kfree (ad 0x400014) h = Some h' \<and> heap_ok h [Blk 0x400000 200 False] 0x4000DC \<and> heap_ok h' [] 0x400000"
proof -
  obtain h1 where h1: "heap_ok h1 [Blk 0x400000 200 False] 0x4000DC"
    by (rule alloc_step [OF fresh_heap_ok [of "\<lambda>_. 0" "vga_initial (replicate 2000 0)"], of 200]) (auto simp: run_spec)
  from kfree_only_block [OF h1] h1 show ?thesis by auto
qed

lemma kmalloc_blocks_apart_witness:
  "\<exists>ps h'. alloc_all kmalloc [100, 24, 8] (fresh_heap (\<lambda>_. 0) (vga_initial (replicate 2000 0))) = Some (ps, h')
     \<and> separate (zip ps [100, 24, 8])"
  using kmalloc_blocks_apart [OF fresh_heap_ok [of "\<lambda>_. 0" "vga_initial (replicate 2000 0)"], of "[100, 24, 8]"] by auto

lemma kmalloc_kfree_roundtrip_witness:
  "\<exists>h p h' h''. heap_ok h [Blk 0x400000 200 True, Blk 0x4000DC 8 False] 0x4000FC
     \<and> kmalloc 40 h = Some (p, h') \<and> p \<noteq> 0 \<and> kfree p h' = Some h''
     \<and> heap_ok h'' [Blk 0x400000 200 True, Blk 0x4000DC 8 False] 0x4000FC"
proof -
  obtain h where h: "heap_ok h [Blk 0x400000 200 True, Blk 0x4000DC 8 False] 0x4000FC"
    using free_block by blast
  from kmalloc_kfree_roundtrip [OF h, of 40] h show ?thesis
    by (fastforce simp: refused_def fits_def round8_def)
qed

lemma kfree_double_free_witness:
  "\<exists>h. kfree (ad 0x400014) h = Some (heap_print ''Double free detected!\<newline>'' h)"
proof -
  obtain h where h: "heap_ok h [Blk 0x400000 200 True, Blk 0x4000DC 8 False] 0x4000FC"
    using free_block by blast
  from kfree_double_free [OF h, of "Blk 0x400000 200 True"] show ?thesis by auto
qed

lemma kfree_outside_witness:
  "kfree 8 (fresh_heap (\<lambda>_. 0) (vga_initial (replicate 2000 0))) = Some (heap_print ''Invalid free header!\<newline>'' (fresh_heap (\<lambda>_. 0) (vga_initial (replicate 2000 0))))"
  by (rule kfree_outside) (simp_all add: fresh_heap_def heap_init_def)

lemma heap_validate_ok_witness:
  "heap_validate (fresh_heap (\<lambda>_. 0) (vga_initial (replicate 2000 0))) = Some (heap_print ''Heap structure valid.\<newline>'' (fresh_heap (\<lambda>_. 0) (vga_initial (replicate 2000 0))))"
  using heap_validate_ok [OF fresh_heap_ok [of "\<lambda>_. 0" "vga_initial (replicate 2000 0)"]]
  by (simp add: heap_verdict_def)

end
