(* ===== verification/HeapClient.thy ===== *)
theory HeapClient imports HeapLaws begin

text \<open>
  What a client of the heap needs: words stored in the payload of a block in use leave the
  heap in order, blocks in use do not overlap, and a request that fits behind the last block
  is served.
\<close>

lemma seg_words:
  assumes "seg m p bs nx"
    and "\<And>c y. c \<in> set bs \<Longrightarrow> y \<in> {baddr c, baddr c + 4, baddr c + 8, baddr c + 12, baddr c + 16, bend c} \<Longrightarrow>
      rd m' y = rd m y"
  shows "seg m' p bs nx"
  using assms
proof (induction bs arbitrary: p)
  case Nil
  then show ?case by simp
next
  case (Cons b bs)
  have "rd m' y = rd m y" if "y \<in> {baddr b, baddr b + 4, baddr b + 8, baddr b + 12, baddr b + 16, bend b}" for y
    using Cons.prems(2) [of b y] that by simp
  then have "hdr m' b p (first_ad bs nx)" using Cons.prems(1) by (simp add: hdr_def)
  moreover have "seg m' (ad (baddr b)) bs nx"
    using Cons.prems by (intro Cons.IH) auto
  ultimately show ?case by simp
qed

lemma payload_store_seg:
  assumes sg: "seg m p bs nx" and la: "laid lo bs e" and e: "e < 0x800000"
    and b: "b \<in> set bs" and x: "baddr b + 20 \<le> x" "x + 4 \<le> bend b"
  shows "seg (store32 m (ad x) v) p bs nx"
  using sg
proof (rule seg_words)
  fix c y assume c: "c \<in> set bs" and y: "y \<in> {baddr c, baddr c + 4, baddr c + 8, baddr c + 12, baddr c + 16, bend c}"
  obtain xs ys where bs: "bs = xs @ b # ys" using b by (auto simp: in_set_conv_decomp)
  have be: "bend b \<le> e" "bend c \<le> e" using laid_mem [OF la] b c by auto
  consider "c \<in> set xs" | "c = b" | "c \<in> set ys" using c bs by auto
  then have "y + 4 \<le> x \<or> x + 4 \<le> y \<and> y \<le> e"
  proof cases
    case 1
    then have "bend c \<le> baddr b" using la bs by (auto simp: laid_append dest: laid_mem)
    then show ?thesis using y x by (auto simp: bend_def)
  next
    case 2
    then show ?thesis using y x be by (auto simp: bend_def)
  next
    case 3
    then have "bend b \<le> baddr c" using la bs by (auto simp: laid_append dest: laid_mem)
    then show ?thesis using y x be by (auto simp: bend_def)
  qed
  then show "rd (store32 m (ad x) v) y = rd m y"
    using x be e by (auto simp: rd_rules)
qed

lemma used_block:
  assumes "(a, k) \<in> used bs"
  obtains b where "b \<in> set bs" "\<not> bfree b" "a = baddr b + 20" "a + k = bend b"
  using assms by (auto simp: used_def bend_def)

text \<open>A word stored in a block in use.\<close>

lemma heap_ok_store:
  assumes ok: "heap_ok h bs e" and u: "(a, k) \<in> used bs" and x: "a \<le> x" "x + 4 \<le> a + k"
  shows "heap_ok (h\<lparr>hmem := store32 (hmem h) (ad x) v\<rparr>) bs e"
proof -
  from u obtain b where b: "b \<in> set bs" "a = baddr b + 20" "a + k = bend b" by (rule used_block)
  have "seg (store32 (hmem h) (ad x) v) 0 bs 0"
    by (rule payload_store_seg [of _ _ _ _ "0x1014" e b]) (use ok b x in \<open>auto simp: heap_ok_def\<close>)
  then show ?thesis using ok by (simp add: heap_ok_def)
qed

lemma used_range:
  assumes "heap_ok h bs e" and "(a, k) \<in> used bs"
  shows "0x1028 \<le> a" and "a + k < 0x800000" and "4 dvd a" and "0 < k"
    and "\<And>i. i < k \<Longrightarrow> a + i \<in> heap_area"
proof -
  from assms(2) obtain b where b: "b \<in> set bs" "a = baddr b + 20" "a + k = bend b" "k = bsize b"
    by (auto simp: used_def bend_def)
  have la: "laid 0x1014 bs e" "e < 0x800000" using assms(1) by (auto simp: heap_ok_def)
  show a: "0x1028 \<le> a" "a + k < 0x800000" "4 dvd a" "0 < k"
    using laid_mem [OF la(1) b(1)] la(2) b by (auto simp: bend_def)
  have "early_used b" using assms(1) b(1) by (simp add: heap_ok_def)
  then show "a + i \<in> heap_area" if "i < k" for i
    using that a b by (auto simp: early_used_def heap_area_def bend_def)
qed

lemma used_area: "heap_ok h bs e \<Longrightarrow> (a, k) \<in> used bs \<Longrightarrow> {a..<a + k} \<subseteq> heap_area"
  using used_range(5) by (fastforce simp: le_iff_add)

lemma used_separate:
  assumes "heap_ok h bs e" and "(a, k) \<in> used bs" and "(b, l) \<in> used bs" and "a \<noteq> b"
  shows "a + k \<le> b \<or> b + l \<le> a"
  using assms(1) used_apart [of "0x1014" bs e a k b l] assms by (auto simp: heap_ok_def)

text \<open>A block in use has one size.\<close>

lemma used_fun:
  assumes "heap_ok h bs e" and "(a, k) \<in> used bs" and "(a, l) \<in> used bs"
  shows "k = l"
  using used_apart [of "0x1014" bs e a k a l] used_range(4) [OF assms(1,2)] used_range(4) [OF assms(1,3)] assms
  by (auto simp: heap_ok_def)

text \<open>A request that fits behind the last block.\<close>

lemma alloc_spec_serves:
  assumes "0 < n" and "e + 24 + round8 n < 0x800000" and "4 dvd e"
  shows "\<exists>p bs' e'. alloc_spec n bs e = (p, bs', e') \<and> p \<noteq> 0 \<and> e' \<le> e + 24 + round8 n"
proof -
  have "\<not> refused (round8 n) e" using assms(2) by (simp add: refused_def)
  moreover have "p \<noteq> 0" if "take_fit (round8 n) bs = Some (p, bs')" for p bs'
    using take_fit_Some [OF that] by auto
  ultimately show ?thesis
    using assms by (auto simp: alloc_spec_def Let_def split: option.splits)
qed

lemma kmalloc_serves:
  assumes ok: "heap_ok h bs e" and n: "0 < unat n" "unat n \<le> 0x7FFFFFFF" and room: "e + 24 + round8 (unat n) < 0x800000"
  shows "\<exists>p k h' bs' e'. kmalloc n h = Some (ad p, h') \<and> heap_ok h' bs' e' \<and> e' \<le> e + 24 + round8 (unat n)
    \<and> unat n \<le> k \<and> (p, k) \<notin> used bs \<and> used bs' = insert (p, k) (used bs)
    \<and> keeps bs (hmem h) (hmem h') \<and> screen h' = screen h"
proof -
  have "4 dvd e" using ok by (simp add: heap_ok_def)
  from alloc_spec_serves [OF n(1) room this] obtain p bs' e' where
    s: "alloc_spec (unat n) bs e = (p, bs', e')" "p \<noteq> 0" "e' \<le> e + 24 + round8 (unat n)" by blast
  from kmalloc_refines [OF ok n(2) s(1)] obtain h' where h': "kmalloc n h = Some (ad p, h')" "heap_ok h' bs' e'"
    "keeps bs (hmem h) (hmem h')" "screen h' = screen h" by blast
  from alloc_spec_fresh [OF ok s(1)] s(2) obtain k where
    "unat n \<le> k" "(p, k) \<notin> used bs" "used bs' = insert (p, k) (used bs)" by auto
  with h' s(3) show ?thesis by blast
qed

text \<open>Words in a block in use are kept by an operation that keeps the blocks.\<close>

lemma keeps_rd:
  assumes kp: "keeps bs m m'" and ok: "heap_ok h bs e" and u: "(a, k) \<in> used bs" and x: "a \<le> x" "x + 4 \<le> a + k"
  shows "rd m' x = rd m x"
proof -
  from u obtain b where b: "b \<in> set bs" "\<not> bfree b" "a = baddr b + 20" "a + k = bend b" by (rule used_block)
  have lt: "a + k < 0x800000" using used_range(2) [OF ok u] .
  have "m' (ad (x + i)) = m (ad (x + i))" if "i < 4" for i
  proof -
    have "x + i \<in> payload b" using b x that by (auto simp: payload_def)
    moreover have "x + i < 4294967296" using x lt that by simp
    ultimately show ?thesis using kp b unfolding keeps_def by blast
  qed
  then show ?thesis unfolding rd_def by (intro load32_cong) (simp add: ad_def)
qed

end
