(* ===== verification/Pmm.thy ===== *)
theory Pmm imports Kstring Vga begin

text \<open>
  The page-frame allocator, \<^verbatim>\<open>mm/pmm.c\<close>, and the multiboot memory map it is built from
  (\<^verbatim>\<open>core/multiboot.h\<close>, \<^verbatim>\<open>core/multiboot.c\<close>).  The bitmap, a bit per frame of 4096
  bytes (1: in use), is in memory right behind the kernel; \<open>kernel_start\<close> and
  \<open>kernel_end\<close> are symbols of the linker script and so parameters here.
\<close>

abbreviation (input) FRAME_SIZE :: u32 where "FRAME_SIZE \<equiv> 4096"

section \<open>The multiboot structures\<close>

definition mbi_flags :: "mem \<Rightarrow> u32 \<Rightarrow> u32" where "mbi_flags m a = load32 m a"
definition mbi_mmap_length :: "mem \<Rightarrow> u32 \<Rightarrow> u32" where "mbi_mmap_length m a = load32 m (a + 44)"
definition mbi_mmap_addr :: "mem \<Rightarrow> u32 \<Rightarrow> u32" where "mbi_mmap_addr m a = load32 m (a + 48)"

definition mmap_size :: "mem \<Rightarrow> u32 \<Rightarrow> u32" where "mmap_size m p = load32 m p"
definition mmap_base :: "mem \<Rightarrow> u32 \<Rightarrow> u64" where "mmap_base m p = load64 m (p + 4)"
definition mmap_len :: "mem \<Rightarrow> u32 \<Rightarrow> u64" where "mmap_len m p = load64 m (p + 12)"
definition mmap_type :: "mem \<Rightarrow> u32 \<Rightarrow> u32" where "mmap_type m p = load32 m (p + 20)"

definition mmap_next :: "mem \<Rightarrow> u32 \<Rightarrow> u32" where "mmap_next m p = p + mmap_size m p + 4"

text \<open>\<^verbatim>\<open>multiboot_print_memory\<close>: the walk does not return on a map whose entries do not advance.\<close>

partial_function (option) print_regions :: "mem \<Rightarrow> u32 \<Rightarrow> u32 \<Rightarrow> vga \<Rightarrow> vga option" where
  "print_regions m mmap limit v =
     (if mmap < limit
      then (let v = vga_print (bytes_of ''Region: '') v;
                v = vga_print_hex (ucast (mmap_base m mmap)) v;
                v = vga_print (bytes_of '' - '') v;
                v = vga_print_hex (ucast (mmap_base m mmap + mmap_len m mmap)) v;
                v = vga_print (bytes_of ''\<newline>'') v
            in print_regions m (mmap_next m mmap) limit v)
      else Some v)"

definition multiboot_print_memory :: "mem \<Rightarrow> u32 \<Rightarrow> vga \<Rightarrow> vga option" where
  "multiboot_print_memory m a v =
     (if mbi_flags m a AND push_bit 6 1 = 0 then Some (vga_print (bytes_of ''No memory map found\<newline>'') v)
      else print_regions m (mbi_mmap_addr m a) (mbi_mmap_addr m a + mbi_mmap_length m a)
             (vga_print (bytes_of ''Memory map:\<newline>'') v))"

section \<open>The bitmap\<close>

record pmm =
  pmem :: mem
  bitmap :: u32
  total_frames :: u32

definition bitmap_word :: "pmm \<Rightarrow> u32 \<Rightarrow> u32" where
  "bitmap_word p i = load32 (pmem p) (bitmap p + 4 * i)"

definition set_bitmap_word :: "u32 \<Rightarrow> u32 \<Rightarrow> pmm \<Rightarrow> pmm" where
  "set_bitmap_word i w p = p\<lparr>pmem := store32 (pmem p) (bitmap p + 4 * i) w\<rparr>"

definition set_frame :: "u32 \<Rightarrow> pmm \<Rightarrow> pmm" where
  "set_frame frame p =
     set_bitmap_word (frame div 32) (bitmap_word p (frame div 32) OR push_bit (unat (frame mod 32)) 1) p"

definition clear_frame :: "u32 \<Rightarrow> pmm \<Rightarrow> pmm" where
  "clear_frame frame p =
     set_bitmap_word (frame div 32) (bitmap_word p (frame div 32) AND NOT (push_bit (unat (frame mod 32)) 1)) p"

text \<open>The two loops of \<open>first_free_frame\<close>; the code's -1 is \<open>None\<close>.\<close>

function first_free_loop :: "pmm \<Rightarrow> u32 \<Rightarrow> u32 option" where
  "first_free_loop p i =
     (if i < total_frames p div 32
      then (if bitmap_word p i \<noteq> 0xFFFFFFFF
            then (case find (\<lambda>j. bitmap_word p i AND push_bit j 1 = 0) [0..<32] of
                    Some j \<Rightarrow> Some (i * 32 + of_nat j)
                  | None \<Rightarrow> first_free_loop p (i + 1))
            else first_free_loop p (i + 1))
      else None)"
  by pat_completeness auto

lemma word_up_measure: "i < (n :: u32) \<Longrightarrow> unat n - unat (i + 1) < unat n - unat i"
proof -
  assume i: "i < n"
  then have "unat i < unat n" by (simp add: word_less_nat_alt)
  moreover from this have "Suc (unat i) < 4294967296" using unat32_less [of n] by linarith
  then have "unat (i + 1) = unat i + 1" by (simp add: unat_word_ariths)
  ultimately show ?thesis by linarith
qed

termination first_free_loop
  by (relation "measure (\<lambda>(p, i). unat (total_frames p div 32) - unat i)") (auto intro: word_up_measure)

definition first_free_frame :: "pmm \<Rightarrow> u32 option" where
  "first_free_frame p = first_free_loop p 0"

section \<open>Allocation\<close>

definition pmm_alloc_frame :: "pmm \<Rightarrow> u32 \<times> pmm" where
  "pmm_alloc_frame p =
     (case first_free_frame p of None \<Rightarrow> (0, p)
      | Some frame \<Rightarrow> (frame * FRAME_SIZE, set_frame frame p))"

definition pmm_free_frame :: "u32 \<Rightarrow> pmm \<Rightarrow> pmm" where
  "pmm_free_frame frame p = clear_frame (frame div FRAME_SIZE) p"

definition pmm_get_total_frames :: "pmm \<Rightarrow> u32" where
  "pmm_get_total_frames p = total_frames p"

function free_count_loop :: "pmm \<Rightarrow> u32 \<Rightarrow> u32 \<Rightarrow> u32" where
  "free_count_loop p i free =
     (if i < total_frames p
      then (let index = i div 32; b = i mod 32
            in free_count_loop p (i + 1)
                 (if bitmap_word p index AND push_bit (unat b) 1 = 0 then free + 1 else free))
      else free)"
  by pat_completeness auto

termination free_count_loop
  by (relation "measure (\<lambda>(p, i, free). unat (total_frames p) - unat i)") (auto intro: word_up_measure)

definition pmm_get_free_frames :: "pmm \<Rightarrow> u32" where
  "pmm_get_free_frames p = free_count_loop p 0 0"

section \<open>Initialisation\<close>

partial_function (option) mmap_highest :: "mem \<Rightarrow> u32 \<Rightarrow> u32 \<Rightarrow> u32 \<Rightarrow> u32 option" where
  "mmap_highest m mmap limit highest_addr =
     (if mmap < limit
      then (let region_end = ucast (mmap_base m mmap + mmap_len m mmap)
            in mmap_highest m (mmap_next m mmap) limit
                 (if region_end > highest_addr then region_end else highest_addr))
      else Some highest_addr)"

text \<open>\<open>for (f = start; f < end; f++) if (f < total_frames) clear_frame(f)\<close>\<close>

function free_region :: "u32 \<Rightarrow> u32 \<Rightarrow> pmm \<Rightarrow> pmm" where
  "free_region f end_frame p =
     (if f < end_frame
      then free_region (f + 1) end_frame (if f < total_frames p then clear_frame f p else p)
      else p)"
  by pat_completeness auto

termination free_region
  by (relation "measure (\<lambda>(f, e, p). unat e - unat f)") (auto intro: word_up_measure)

function reserve_frames :: "u32 \<Rightarrow> u32 \<Rightarrow> pmm \<Rightarrow> pmm" where
  "reserve_frames f end_frame p =
     (if f < end_frame then reserve_frames (f + 1) end_frame (set_frame f p) else p)"
  by pat_completeness auto

termination reserve_frames
  by (relation "measure (\<lambda>(f, e, p). unat e - unat f)") (auto intro: word_up_measure)

text \<open>The bounds of the map are read again on every turn, from the memory that the bitmap is in.\<close>

definition mmap_limit :: "mem \<Rightarrow> u32 \<Rightarrow> u32" where
  "mmap_limit m a = mbi_mmap_addr m a + mbi_mmap_length m a"

partial_function (option) free_regions :: "u32 \<Rightarrow> u32 \<Rightarrow> pmm \<Rightarrow> pmm option" where
  "free_regions mbi mmap p =
     (if mmap < mmap_limit (pmem p) mbi
      then (let m = pmem p;
                p = (if mmap_type m mmap = 1
                     then free_region (ucast (mmap_base m mmap div 4096))
                            (ucast ((mmap_base m mmap + mmap_len m mmap) div 4096)) p
                     else p)
            in free_regions mbi (mmap_next (pmem p) mmap) p)
      else Some p)"

datatype pmm_status = PMM_OK | MISSING_MEMORY_MAP

text \<open>The reservations that end the initialisation: the kernel's frames and the bitmap's.\<close>

definition reserve_kernel :: "u32 \<Rightarrow> u32 \<Rightarrow> u32 \<Rightarrow> pmm \<Rightarrow> pmm" where
  "reserve_kernel kernel_start kernel_end bitmap_end p =
     (let p = reserve_frames (kernel_start div FRAME_SIZE) ((kernel_end + FRAME_SIZE - 1) div FRAME_SIZE) p
      in reserve_frames (kernel_end div FRAME_SIZE) (bitmap_end div FRAME_SIZE) p)"

definition pmm_init :: "u32 \<Rightarrow> u32 \<Rightarrow> u32 \<Rightarrow> pmm \<Rightarrow> (pmm_status \<times> pmm) option" where
  "pmm_init kernel_start kernel_end mbi p =
     (let m = pmem p
      in if mbi_flags m mbi AND push_bit 6 1 = 0 then Some (MISSING_MEMORY_MAP, p)
      else Option.bind (mmap_highest m (mbi_mmap_addr m mbi) (mmap_limit m mbi) 0) (\<lambda>highest_addr.
        let p = p\<lparr>total_frames := highest_addr div FRAME_SIZE, bitmap := kernel_end\<rparr>;
            bitmap_entries = (total_frames p + 31) div 32;
            bitmap_size = bitmap_entries * 4;
            bitmap_end = (kernel_end + bitmap_size + FRAME_SIZE - 1) AND NOT (FRAME_SIZE - 1);
            p = p\<lparr>pmem := memset (pmem p) (bitmap p) 0xFF bitmap_size\<rparr>
        in map_option (\<lambda>p. (PMM_OK, reserve_kernel kernel_start kernel_end bitmap_end p))
             (free_regions mbi (mbi_mmap_addr (pmem p) mbi) p)))"

declare first_free_loop.simps [simp del] free_count_loop.simps [simp del]
  free_region.simps [simp del] reserve_frames.simps [simp del]

section \<open>The set of frames in use\<close>

definition bitmap_words :: "pmm \<Rightarrow> nat" where
  "bitmap_words p = (unat (total_frames p) + 31) div 32"

text \<open>The bitmap does not wrap around the end of memory; there are at most \<open>2\<^sup>2\<^sup>0\<close> frames.\<close>

definition pmm_wf :: "pmm \<Rightarrow> bool" where
  "pmm_wf p \<longleftrightarrow> unat (bitmap p) + 4 * bitmap_words p \<le> 4294967296 \<and> unat (total_frames p) \<le> 0x100000"

definition frame_used :: "pmm \<Rightarrow> nat \<Rightarrow> bool" where
  "frame_used p f \<longleftrightarrow> bit (rd (pmem p) (unat (bitmap p) + 4 * (f div 32))) (f mod 32)"

definition free_set :: "pmm \<Rightarrow> nat set" where
  "free_set p = {f. f < unat (total_frames p) \<and> \<not> frame_used p f}"

lemma ad_div: "n < 4294967296 \<Longrightarrow> k < 4294967296 \<Longrightarrow> ad n div ad k = ad (n div k)"
proof -
  assume "n < 4294967296" "k < 4294967296"
  moreover from this have "n div k < 4294967296" using div_le_dividend [of n k] by linarith
  ultimately show ?thesis by (simp add: word_unat_eq_iff unat_div unat_ad)
qed

lemma ad_mod: "n < 4294967296 \<Longrightarrow> k < 4294967296 \<Longrightarrow> ad n mod ad k = ad (n mod k)"
  by (simp add: word_unat_eq_iff unat_mod unat_ad order_le_less_trans [OF mod_less_eq_dividend])

lemma ad_div_32 [addr_simps]: "n < 4294967296 \<Longrightarrow> ad n div 32 = ad (n div 32)"
  using ad_div [of n 32] by (simp add: ad_def)

lemma ad_mod_32 [addr_simps]: "n < 4294967296 \<Longrightarrow> ad n mod 32 = ad (n mod 32)"
  using ad_mod [of n 32] by (simp add: ad_def)

lemma ad_div_4096 [addr_simps]: "n < 4294967296 \<Longrightarrow> ad n div 4096 = ad (n div 4096)"
  using ad_div [of n 4096] by (simp add: ad_def)

lemma bitmap_addr: "bitmap p + 4 * ad i = ad (unat (bitmap p) + 4 * i)"
  by (simp add: ad_def)

lemma bitmap_word_ad: "bitmap_word p (ad i) = rd (pmem p) (unat (bitmap p) + 4 * i)"
  by (simp add: bitmap_word_def bitmap_addr load32_ad)

lemma set_bitmap_word_ad:
  "set_bitmap_word (ad i) w p = p\<lparr>pmem := store32 (pmem p) (ad (unat (bitmap p) + 4 * i)) w\<rparr>"
  by (simp add: set_bitmap_word_def bitmap_addr)

lemma wf_word: "pmm_wf p \<Longrightarrow> f < 32 * bitmap_words p \<Longrightarrow> unat (bitmap p) + 4 * (f div 32) + 4 \<le> 4294967296"
proof -
  assume "pmm_wf p" "f < 32 * bitmap_words p"
  moreover from this have "f div 32 < bitmap_words p" by (simp add: less_mult_imp_div_less)
  ultimately show ?thesis unfolding pmm_wf_def by linarith
qed

lemma wf_frame: "pmm_wf p \<Longrightarrow> f < 32 * bitmap_words p \<Longrightarrow> f < 4294967296"
  unfolding pmm_wf_def bitmap_words_def by linarith

lemma frame_used_set_word:
  assumes wf: "pmm_wf p" and f: "f < 32 * bitmap_words p" and g: "g < 32 * bitmap_words p"
  shows "frame_used (set_bitmap_word (ad (f div 32)) w p) g =
    (if g div 32 = f div 32 then bit w (g mod 32) else frame_used p g)"
  using wf_word [OF wf f] wf_word [OF wf g]
  by (auto simp: frame_used_def set_bitmap_word_ad rd_store_same linorder_neq_iff rd_store_below rd_store_above
      dest!: Suc_leI)

lemma div_mod_32_eq: "f div 32 = g div 32 \<Longrightarrow> f mod 32 = g mod 32 \<longleftrightarrow> f = (g :: nat)"
  by (metis div_mult_mod_eq)

lemma bit_set_clear:
  assumes "i < 32" and "j < 32"
  shows "bit ((w :: u32) OR 2 ^ j) i \<longleftrightarrow> i = j \<or> bit w i"
    and "bit ((w :: u32) AND NOT (2 ^ j)) i \<longleftrightarrow> i \<noteq> j \<and> bit w i"
  using assms by (auto simp: bit_simps)

lemma set_frame_used:
  assumes wf: "pmm_wf p" and f: "f < 32 * bitmap_words p" and g: "g < 32 * bitmap_words p"
  shows "frame_used (set_frame (ad f) p) g \<longleftrightarrow> g = f \<or> frame_used p g"
proof -
  have "f mod 32 < 32" by simp
  then have u: "unat (ad (f mod 32)) = f mod 32" by (subst unat_ad) auto
  show ?thesis
    unfolding set_frame_def ad_div_32 [OF wf_frame [OF wf f]] ad_mod_32 [OF wf_frame [OF wf f]]
      frame_used_set_word [OF wf f g] bitmap_word_ad u
    using div_mod_32_eq [of f g] by (cases "g div 32 = f div 32") (auto simp: bit_set_clear frame_used_def)
qed

lemma clear_frame_used:
  assumes wf: "pmm_wf p" and f: "f < 32 * bitmap_words p" and g: "g < 32 * bitmap_words p"
  shows "frame_used (clear_frame (ad f) p) g \<longleftrightarrow> g \<noteq> f \<and> frame_used p g"
proof -
  have "f mod 32 < 32" by simp
  then have u: "unat (ad (f mod 32)) = f mod 32" by (subst unat_ad) auto
  show ?thesis
    unfolding clear_frame_def ad_div_32 [OF wf_frame [OF wf f]] ad_mod_32 [OF wf_frame [OF wf f]]
      frame_used_set_word [OF wf f g] bitmap_word_ad u
    using div_mod_32_eq [of f g] by (cases "g div 32 = f div 32") (auto simp: bit_set_clear frame_used_def)
qed

lemma frame_ops_fields [simp]:
  "total_frames (set_frame f p) = total_frames p" "bitmap (set_frame f p) = bitmap p"
  "total_frames (clear_frame f p) = total_frames p" "bitmap (clear_frame f p) = bitmap p"
  by (simp_all add: set_frame_def clear_frame_def set_bitmap_word_def)

lemma frame_ops_wf [simp]:
  "pmm_wf (set_frame f p) \<longleftrightarrow> pmm_wf p" "pmm_wf (clear_frame f p) \<longleftrightarrow> pmm_wf p"
  "bitmap_words (set_frame f p) = bitmap_words p" "bitmap_words (clear_frame f p) = bitmap_words p"
  by (simp_all add: pmm_wf_def bitmap_words_def)

lemma frame_bound: "f < unat (total_frames p) \<Longrightarrow> f < 32 * bitmap_words p"
  unfolding bitmap_words_def by linarith

lemma free_set_set_frame:
  assumes "pmm_wf p" and "f < 32 * bitmap_words p"
  shows "free_set (set_frame (ad f) p) = free_set p - {f}"
  using set_frame_used [OF assms] frame_bound by (auto simp: free_set_def)

lemma free_set_clear_frame:
  assumes "pmm_wf p" and "f < unat (total_frames p)"
  shows "free_set (clear_frame (ad f) p) = insert f (free_set p)"
  using clear_frame_used [OF assms(1) frame_bound [OF assms(2)]] frame_bound assms(2)
  by (auto simp: free_set_def)

section \<open>The search\<close>

lemma upt_32: "i < n \<Longrightarrow> [32 * i..<32 * n] = map (\<lambda>j. 32 * i + j) [0..<32] @ [32 * Suc i..<32 * (n::nat)]"
proof -
  assume "i < n"
  then have "[32 * i..<32 * n] = [32 * i..<32 * i + 32] @ [32 * i + 32..<32 * n]"
    using upt_add_eq_append [of "32 * i" "32 * i + 32" "32 * n - (32 * i + 32)"] by simp
  moreover have "[32 * i..<32 * i + 32] = map (\<lambda>j. 32 * i + j) [0..<32]"
    using map_add_upt [of "32 * i" 32] by (simp add: add.commute)
  ultimately show ?thesis by (simp add: algebra_simps)
qed

lemma word32_full: "(w :: u32) = 0xFFFFFFFF \<longleftrightarrow> (\<forall>j<32. bit w j)"
proof -
  have eq: "(0xFFFFFFFF :: u32) = - 1" by simp
  show ?thesis unfolding eq bit_eq_iff [of w] by simp
qed

lemma bit_test: "(w :: u32) AND 2 ^ j = 0 \<longleftrightarrow> \<not> (j < 32 \<and> bit w j)"
  unfolding bit_eq_iff [of "w AND 2 ^ j"] by (auto simp: bit_simps)

lemma first_free_loop_eq:
  assumes wf: "pmm_wf p" and i: "i \<le> unat (total_frames p) div 32"
  shows "first_free_loop p (ad i) =
    map_option ad (find (\<lambda>f. \<not> frame_used p f) [32 * i..<32 * (unat (total_frames p) div 32)])"
  using i
proof (induction "unat (total_frames p) div 32 - i" arbitrary: i)
  case 0
  then have "i = unat (total_frames p) div 32" by simp
  moreover have "ad (unat (total_frames p) div 32) = total_frames p div 32"
    using ad_div_32 [of "unat (total_frames p)"] by (simp add: ad_unat)
  ultimately show ?case by (subst first_free_loop.simps) simp
next
  case (Suc k)
  let ?n = "unat (total_frames p) div 32"
  let ?P = "\<lambda>f. \<not> frame_used p f"
  have n: "?n \<le> 32768" using wf unfolding pmm_wf_def by linarith
  have i: "i < ?n" using Suc.hyps(2) by simp
  have ai: "ad i < total_frames p div 32"
    using i n ad_div_32 [of "unat (total_frames p)"] ad_less_iff [of i ?n] by (simp add: ad_unat)
  have w: "bit (bitmap_word p (ad i)) j \<longleftrightarrow> frame_used p (32 * i + j)" if "j < 32" for j
    using that by (simp add: bitmap_word_ad frame_used_def)
  have fd: "find (\<lambda>j. bitmap_word p (ad i) AND push_bit j 1 = 0) [0..<32] = find (?P \<circ> (\<lambda>j. 32 * i + j)) [0..<32]"
    by (rule find_cong) (auto simp: bit_test w)
  have ih: "first_free_loop p (ad i + 1) = map_option ad (find ?P [32 * Suc i..<32 * ?n])"
    using Suc.hyps(1) [of "Suc i"] Suc.hyps(2) i by (simp add: ad_def add.commute)
  show ?case
  proof (cases "bitmap_word p (ad i) = 0xFFFFFFFF")
    case True
    then have "find (?P \<circ> (\<lambda>j. 32 * i + j)) [0..<32] = None"
      using word32_full [of "bitmap_word p (ad i)"] w by (auto simp: find_None_iff)
    with True ai ih i show ?thesis
      by (subst first_free_loop.simps) (simp add: upt_32 find_append find_map)
  next
    case False
    then obtain j where j: "find (?P \<circ> (\<lambda>j. 32 * i + j)) [0..<32] = Some j"
      using word32_full [of "bitmap_word p (ad i)"] w
      by (cases "find (?P \<circ> (\<lambda>j. 32 * i + j)) [0..<32]") (auto simp: find_None_iff)
    have "ad i * 32 + of_nat j = ad (32 * i + j)" by (simp add: ad_def)
    with False ai j fd i show ?thesis
      by (subst first_free_loop.simps) (simp add: upt_32 find_append find_map)
  qed
qed

end
