(* ===== verification/PmmLaws.thy ===== *)
theory PmmLaws imports Pmm begin

text \<open>
  The frame allocator of \<^verbatim>\<open>mm/pmm.c\<close> as a set of free frames: allocation takes the least,
  release puts it back, the count is the size of the set, and the initialisation makes it the
  usable memory without the kernel and the bitmap.
\<close>

lemma first_free_frame_eq:
  "pmm_wf p \<Longrightarrow> first_free_frame p =
    map_option ad (find (\<lambda>f. \<not> frame_used p f) [0..<32 * (unat (total_frames p) div 32)])"
  using first_free_loop_eq [of p 0] by (simp add: first_free_frame_def ad_0)

section \<open>Allocation and release\<close>

text \<open>
  C12. \<open>pmm_alloc_frame\<close> marks the lowest free frame as used and returns its address; it
  returns 0 and changes nothing when no frame is free below the last full word of the bitmap
  (the frames of a last, partial word are never given out).
\<close>

theorem pmm_alloc_frame_correct:
  assumes wf: "pmm_wf p"
  defines "full \<equiv> {f \<in> free_set p. f < 32 * (unat (total_frames p) div 32)}"
  shows "if full = {} then pmm_alloc_frame p = (0, p)
    else \<exists>p'. pmm_alloc_frame p = (ad (4096 * Min full), p') \<and> free_set p' = free_set p - {Min full} \<and> pmm_wf p'"
proof (cases "find (\<lambda>f. \<not> frame_used p f) [0..<32 * (unat (total_frames p) div 32)]")
  case None
  then have "full = {}" by (auto simp: full_def free_set_def find_None_iff)
  with None show ?thesis by (simp add: pmm_alloc_frame_def first_free_frame_eq [OF wf])
next
  case (Some f)
  then have f: "f < 32 * (unat (total_frames p) div 32)" "\<not> frame_used p f"
    "\<And>g. g < f \<Longrightarrow> frame_used p g" by (auto simp: find_upt_Some)
  from f(1) have lt: "f < unat (total_frames p)" by linarith
  have "Min full = f" "f \<in> full"
    using f lt by (auto simp: full_def free_set_def intro!: Min_eqI) (metis not_le)
  moreover have "ad f * FRAME_SIZE = ad (4096 * f)" by (simp add: ad_def)
  ultimately show ?thesis
    using Some wf free_set_set_frame [OF wf frame_bound [OF lt]]
    by (auto simp: pmm_alloc_frame_def first_free_frame_eq)
qed

text \<open>Releasing the frame that was just allocated gives back the state there was.\<close>

theorem pmm_alloc_free_roundtrip:
  assumes wf: "pmm_wf p" and a: "pmm_alloc_frame p = (a, p')" "a \<noteq> 0"
  shows "pmm_free_frame a p' = p"
proof -
  from a obtain f where f: "first_free_frame p = Some (ad f)" "\<not> frame_used p f"
      "f < 32 * (unat (total_frames p) div 32)"
    by (auto simp: pmm_alloc_frame_def first_free_frame_eq [OF wf] find_upt_Some split: option.splits)
  have lt: "f < unat (total_frames p)" using f(3) by linarith
  then have m20: "f < 0x100000" using wf by (simp add: pmm_wf_def)
  have a': "a = ad (f * 4096)" "p' = set_frame (ad f) p"
    using a f(1) by (auto simp: pmm_alloc_frame_def ad_def)
  have fn: "a div FRAME_SIZE = ad f" using m20 by (simp add: a' ad_div_4096)
  have fm: "f mod 32 < 32" by simp
  then have u: "unat (ad (f mod 32)) = f mod 32" by (subst unat_ad) auto
  define w where "w = bitmap_word p (ad (f div 32))"
  have nb: "\<not> bit w (f mod 32)"
    using f(2) by (simp add: w_def bitmap_word_ad frame_used_def)
  have "(w OR 2 ^ (f mod 32)) AND NOT (2 ^ (f mod 32)) = w"
    using nb by (intro bit_word_eqI) (auto simp: bit_set_clear)
  then have eq: "(w OR push_bit (f mod 32) 1) AND NOT (push_bit (f mod 32) 1) = w" by simp
  have fd: "ad f div 32 = ad (f div 32)" "ad f mod 32 = ad (f mod 32)"
    using m20 by (simp_all add: ad_div_32 ad_mod_32)
  have "set_bitmap_word (ad (f div 32)) w p = p"
    unfolding set_bitmap_word_ad w_def bitmap_word_ad by (simp add: store_idem)
  moreover have "bitmap_word (set_bitmap_word i v p) i = v" for i v
    by (simp add: bitmap_word_def set_bitmap_word_def load32_store32_same)
  moreover have "set_bitmap_word i v' (set_bitmap_word i v p) = set_bitmap_word i v' p" for i v v'
    by (simp add: set_bitmap_word_def store_store_same)
  ultimately have "clear_frame (ad f) (set_frame (ad f) p) = p"
    unfolding clear_frame_def set_frame_def fd u by (simp only: w_def [symmetric] eq)
  then show ?thesis by (simp add: pmm_free_frame_def fn a'(2))
qed

section \<open>Counting\<close>

lemma free_count_loop_eq:
  assumes wf: "pmm_wf p" and i: "i \<le> unat (total_frames p)"
  shows "free_count_loop p (ad i) c = c + of_nat (card {f. i \<le> f \<and> f < unat (total_frames p) \<and> \<not> frame_used p f})"
  using i
proof (induction "unat (total_frames p) - i" arbitrary: i c)
  case 0
  then have i: "i = unat (total_frames p)" by simp
  then have S: "{f. i \<le> f \<and> f < unat (total_frames p) \<and> \<not> frame_used p f} = {}" by auto
  have "\<not> ad i < total_frames p" using i by (simp add: ad_unat)
  then show ?case unfolding S by (subst free_count_loop.simps) simp
next
  case (Suc k)
  have i: "i < unat (total_frames p)" using Suc.hyps(2) by simp
  have i20: "i < 4294967296" using i less_trans [OF _ unat32_less] by blast
  have ai: "ad i < total_frames p" using i i20 by (simp add: word_less_nat_alt unat_ad)
  have fm: "i mod 32 < 32" by simp
  then have u: "unat (ad (i mod 32)) = i mod 32" by (subst unat_ad) auto
  have t: "bitmap_word p (ad i div 32) AND push_bit (unat (ad i mod 32)) 1 = 0 \<longleftrightarrow> \<not> frame_used p i"
    using i20 by (simp add: ad_div_32 ad_mod_32 u bitmap_word_ad bit_test frame_used_def)
  let ?S = "\<lambda>i. {f. i \<le> f \<and> f < unat (total_frames p) \<and> \<not> frame_used p f}"
  have ih: "free_count_loop p (ad i + 1) d = d + of_nat (card (?S (Suc i)))" for d
    using Suc.hyps(1) [of "Suc i" d] Suc.hyps(2) i by (simp add: ad_def add.commute)
  have "?S i = (if frame_used p i then ?S (Suc i) else insert i (?S (Suc i)))"
    using i by (auto simp: Suc_le_eq le_less)
  moreover have "finite (?S (Suc i))" by simp
  ultimately have "card (?S i) = (if frame_used p i then card (?S (Suc i)) else Suc (card (?S (Suc i))))"
    by simp
  with ai t ih show ?case
    by (subst free_count_loop.simps) (simp add: Let_def)
qed

lemma free_frames_card:
  assumes wf: "pmm_wf p"
  shows "unat (pmm_get_free_frames p) = card (free_set p)"
proof -
  have "card (free_set p) \<le> card {..<unat (total_frames p)}"
    by (rule card_mono) (auto simp: free_set_def)
  then have "card (free_set p) < 4294967296" using wf by (simp add: pmm_wf_def)
  moreover have "pmm_get_free_frames p = of_nat (card (free_set p))"
    using free_count_loop_eq [OF wf, of 0 0] by (simp add: pmm_get_free_frames_def ad_0 free_set_def)
  ultimately show ?thesis by (simp add: unat_of_nat32)
qed

text \<open>
  \<open>pmm_get_free_frames\<close> is the number of free frames below \<open>total_frames\<close>; releasing a frame
  in use adds one to it.
\<close>

theorem pmm_get_free_frames_correct:
  assumes wf: "pmm_wf p"
  shows "unat (pmm_get_free_frames p) = card (free_set p)
    \<and> (\<forall>f < unat (total_frames p). frame_used p f \<longrightarrow>
         unat (pmm_get_free_frames (pmm_free_frame (ad (4096 * f)) p)) = Suc (unat (pmm_get_free_frames p)))"
proof (intro conjI allI impI)
  show "unat (pmm_get_free_frames p) = card (free_set p)" by (rule free_frames_card [OF wf])
  fix f assume f: "f < unat (total_frames p)" "frame_used p f"
  then have "f < 0x100000" using wf by (simp add: pmm_wf_def)
  then have "ad (4096 * f) div FRAME_SIZE = ad f" by (simp add: ad_div_4096)
  then have "pmm_free_frame (ad (4096 * f)) p = clear_frame (ad f) p" by (simp add: pmm_free_frame_def)
  moreover have "free_set (clear_frame (ad f) p) = insert f (free_set p)" "f \<notin> free_set p" "finite (free_set p)"
    using free_set_clear_frame [OF wf f(1)] f(2) by (auto simp: free_set_def)
  ultimately show "unat (pmm_get_free_frames (pmm_free_frame (ad (4096 * f)) p)) = Suc (unat (pmm_get_free_frames p))"
    using free_frames_card [of "clear_frame (ad f) p"] free_frames_card [OF wf] wf by simp
qed

section \<open>Initialisation\<close>

text \<open>Memory that agrees outside the \<open>n\<close> bytes at \<open>b\<close>.\<close>

definition same_outside :: "u32 \<Rightarrow> nat \<Rightarrow> mem \<Rightarrow> mem \<Rightarrow> bool" where
  "same_outside b n m m' \<longleftrightarrow> (\<forall>a. n \<le> unat (a - b) \<longrightarrow> m' a = m a)"

lemma same_outside_refl [simp]: "same_outside b n m m"
  by (simp add: same_outside_def)

lemma same_outside_trans: "same_outside b n m m' \<Longrightarrow> same_outside b n m' m'' \<Longrightarrow> same_outside b n m m''"
  by (simp add: same_outside_def)

lemma same_outside_load32:
  assumes "same_outside b n m m'" and "apart n b 4 a" and "n \<le> 4294967296"
  shows "load32 m' a = load32 m a"
  by (rule load32_cong) (use assms(1) apart_outside [OF assms(2) _ assms(3)] in \<open>simp add: same_outside_def\<close>)

text \<open>The map in memory: entries from \<open>p\<close> up to \<open>limit\<close>, none of which touches the \<open>n\<close> bytes at \<open>b\<close>.\<close>

fun mmap_at :: "u32 \<Rightarrow> nat \<Rightarrow> mem \<Rightarrow> u32 \<Rightarrow> u32 \<Rightarrow> (u64 \<times> u64 \<times> u32) list \<Rightarrow> bool" where
  "mmap_at b n m limit p [] \<longleftrightarrow> \<not> p < limit"
| "mmap_at b n m limit p ((base, len, type) # es) \<longleftrightarrow> p < limit \<and> apart n b 24 p
     \<and> mmap_base m p = base \<and> mmap_len m p = len \<and> mmap_type m p = type
     \<and> mmap_at b n m limit (mmap_next m p) es"

lemma same_outside_entry:
  assumes "same_outside b n m m'" and ap: "apart n b 24 p" and n: "0 < n" "n \<le> 4294967296"
  shows "mmap_base m' p = mmap_base m p" and "mmap_len m' p = mmap_len m p"
    and "mmap_type m' p = mmap_type m p" and "mmap_next m' p = mmap_next m p"
proof -
  have "apart n b 4 (p + of_nat j)" if "j \<le> 20" for j
    using apart_part [OF ap, of 0 n j 4] that n by simp
  from this [of 0] this [of 4] this [of 8] this [of 12] this [of 16] this [of 20]
  have "apart n b 4 p" "apart n b 4 (p + 4)" "apart n b 4 (p + 8)" "apart n b 4 (p + 12)"
    "apart n b 4 (p + 16)" "apart n b 4 (p + 20)" by simp_all
  then have l: "load32 m' p = load32 m p" "load32 m' (p + 4) = load32 m (p + 4)" "load32 m' (p + 8) = load32 m (p + 8)"
    "load32 m' (p + 12) = load32 m (p + 12)" "load32 m' (p + 16) = load32 m (p + 16)" "load32 m' (p + 20) = load32 m (p + 20)"
    using assms by (auto intro: same_outside_load32)
  then show "mmap_base m' p = mmap_base m p" "mmap_len m' p = mmap_len m p"
    "mmap_type m' p = mmap_type m p" "mmap_next m' p = mmap_next m p"
    by (simp_all add: mmap_base_def mmap_len_def mmap_type_def mmap_next_def mmap_size_def load64_def add.commute [of p])
qed

lemma mmap_at_same:
  "mmap_at b n m limit p es \<Longrightarrow> same_outside b n m m' \<Longrightarrow> 0 < n \<Longrightarrow> n \<le> 4294967296 \<Longrightarrow> mmap_at b n m' limit p es"
  by (induction b n m limit p es rule: mmap_at.induct) (auto simp: same_outside_entry)

text \<open>The highest end of a region, truncated to 32 bits as the code computes it.\<close>

definition highest_end :: "(u64 \<times> u64 \<times> u32) list \<Rightarrow> u32 \<Rightarrow> u32" where
  "highest_end es h = fold (\<lambda>(base, len, type) h. max h (ucast (base + len))) es h"

lemma mmap_highest_at:
  "mmap_at b n m limit p es \<Longrightarrow> mmap_highest m p limit h = Some (highest_end es h)"
proof (induction b n m limit p es arbitrary: h rule: mmap_at.induct)
  case (1 b n m limit p)
  then show ?case by (subst mmap_highest.simps) (simp add: highest_end_def)
next
  case (2 b n m limit p base len type es)
  then show ?case
    by (subst mmap_highest.simps) (auto simp: highest_end_def Let_def max_def)
qed

text \<open>The frames of the usable regions.\<close>

definition region_frames :: "u64 \<times> u64 \<times> u32 \<Rightarrow> nat set" where
  "region_frames = (\<lambda>(base, len, type).
     if type = 1 then {unat (ucast (base div 4096) :: u32)..<unat (ucast ((base + len) div 4096) :: u32)} else {})"

lemma same_outside_store:
  assumes i: "i + 4 \<le> n" and n: "n \<le> 4294967296"
  shows "same_outside b n m (store32 m (b + of_nat i) w)"
  unfolding same_outside_def
proof (intro allI impI)
  fix a assume a: "n \<le> unat (a - b)"
  have "4 \<le> unat (a - (b + of_nat i))"
  proof (rule ccontr)
    assume "\<not> ?thesis"
    then obtain j where j: "a - (b + of_nat i) = of_nat j" "j < 4"
      by (metis not_le of_nat_unat32)
    then have "a - b = of_nat (i + j)" by (simp add: algebra_simps)
    then have "unat (a - b) = i + j" using i n j(2) by (simp add: unat_of_nat32 del: of_nat_add)
    with a i j(2) show False by linarith
  qed
  then show "store32 m (b + of_nat i) w a = m a" by (rule store32_other)
qed

lemma clear_frame_outside:
  assumes wf: "pmm_wf p" and f: "f < unat (total_frames p)"
  shows "same_outside (bitmap p) (4 * bitmap_words p) (pmem p) (pmem (clear_frame (ad f) p))"
proof -
  note fb = frame_bound [OF f]
  have "f div 32 < bitmap_words p" using fb by (simp add: less_mult_imp_div_less)
  moreover have "4 * bitmap_words p \<le> 4294967296" using wf by (simp add: pmm_wf_def)
  moreover have "ad (unat (bitmap p) + 4 * (f div 32)) = bitmap p + of_nat (4 * (f div 32))"
    by (simp add: ad_def)
  ultimately show ?thesis
    unfolding clear_frame_def ad_div_32 [OF wf_frame [OF wf fb]] set_bitmap_word_ad
    by (simp add: same_outside_store del: of_nat_mult)
qed

lemma free_region_frames:
  fixes f e :: u32
  assumes "pmm_wf p"
  defines "p' \<equiv> free_region f e p"
  shows "pmm_wf p' \<and> bitmap p' = bitmap p \<and> total_frames p' = total_frames p
    \<and> free_set p' = free_set p \<union> {g. unat f \<le> g \<and> g < unat e \<and> g < unat (total_frames p)}
    \<and> same_outside (bitmap p) (4 * bitmap_words p) (pmem p) (pmem p')"
  using assms(1) unfolding p'_def
proof (induction f e p rule: free_region.induct)
  case (1 f e p)
  show ?case
  proof (cases "f < e")
    case False
    then have "free_region f e p = p" by (subst free_region.simps) simp
    with False 1 show ?thesis by (auto simp: word_le_nat_alt word_less_nat_alt)
  next
    case True
    then have fe: "unat f < unat e" by (simp add: word_less_nat_alt)
    then have uf: "unat (f + 1) = unat f + 1"
    proof -
      have "Suc (unat f) < 4294967296" using fe unat32_less [of e] by linarith
      then show ?thesis by (simp add: unat_word_ariths)
    qed
    define q where "q = (if f < total_frames p then clear_frame f p else p)"
    have wq: "pmm_wf q" "bitmap q = bitmap p" "total_frames q = total_frames p" "bitmap_words q = bitmap_words p"
      using 1 by (simp_all add: q_def)
    have fq: "free_set q = free_set p \<union> {g. g = unat f \<and> g < unat (total_frames p)}"
      using free_set_clear_frame [OF 1(2), of "unat f"] by (auto simp: q_def word_less_nat_alt ad_unat)
    have oq: "same_outside (bitmap p) (4 * bitmap_words p) (pmem p) (pmem q)"
      using clear_frame_outside [OF 1(2), of "unat f"] by (auto simp: q_def word_less_nat_alt ad_unat)
    have ih: "pmm_wf (free_region (f + 1) e q) \<and> bitmap (free_region (f + 1) e q) = bitmap q
      \<and> total_frames (free_region (f + 1) e q) = total_frames q
      \<and> free_set (free_region (f + 1) e q) = free_set q \<union> {g. unat (f + 1) \<le> g \<and> g < unat e \<and> g < unat (total_frames q)}
      \<and> same_outside (bitmap q) (4 * bitmap_words q) (pmem q) (pmem (free_region (f + 1) e q))"
      using 1(1) [OF True] wq(1) by (simp add: q_def)
    have st: "free_region f e p = free_region (f + 1) e q"
      using True by (subst free_region.simps) (simp add: q_def)
    show ?thesis
      unfolding st using ih wq fq fe uf same_outside_trans [OF oq] by auto
  qed
qed

lemma free_regions_frames:
  assumes "mmap_at (bitmap p) (4 * bitmap_words p) (pmem p) (mmap_limit (pmem p) mbi) mmap es"
    and "pmm_wf p" and "0 < total_frames p"
    and "apart (4 * bitmap_words p) (bitmap p) 8 (mbi + 44)"
  shows "\<exists>p'. free_regions mbi mmap p = Some p' \<and> pmm_wf p' \<and> bitmap p' = bitmap p \<and> total_frames p' = total_frames p
    \<and> free_set p' = free_set p \<union> ((\<Union>r\<in>set es. region_frames r) \<inter> {..<unat (total_frames p)})"
  using assms
proof (induction es arbitrary: mmap p)
  case Nil
  then show ?case by (subst free_regions.simps) simp
next
  case (Cons r es)
  obtain base len type where r: "r = (base, len, type)" by (cases r)
  let ?n = "4 * bitmap_words p"
  have n: "0 < ?n" "?n \<le> 4294967296"
    using Cons.prems(2,3) by (auto simp: pmm_wf_def bitmap_words_def word_less_nat_alt)
  define q where "q = (if mmap_type (pmem p) mmap = 1
    then free_region (ucast (mmap_base (pmem p) mmap div 4096))
           (ucast ((mmap_base (pmem p) mmap + mmap_len (pmem p) mmap) div 4096)) p
    else p)"
  have q: "pmm_wf q" "bitmap q = bitmap p" "total_frames q = total_frames p"
    "free_set q = free_set p \<union> (region_frames r \<inter> {..<unat (total_frames p)})"
    "same_outside (bitmap p) ?n (pmem p) (pmem q)"
    using free_region_frames [OF Cons.prems(2)] Cons.prems(1,2)
    by (auto simp: q_def r region_frames_def)
  have w: "bitmap_words q = bitmap_words p" using q by (simp add: bitmap_words_def)
  have "apart ?n (bitmap p) 4 (mbi + 44)" "apart ?n (bitmap p) 4 (mbi + 48)"
    using apart_part [OF Cons.prems(4), of 0 ?n 0 4] apart_part [OF Cons.prems(4), of 0 ?n 4 4] n
    by (simp_all add: add.assoc)
  then have lim: "mmap_limit (pmem q) mbi = mmap_limit (pmem p) mbi"
    using q(5) n by (simp add: mmap_limit_def mbi_mmap_addr_def mbi_mmap_length_def same_outside_load32)
  have ma: "mmap_at (bitmap p) ?n (pmem p) (mmap_limit (pmem p) mbi) (mmap_next (pmem p) mmap) es"
    and lt: "mmap < mmap_limit (pmem p) mbi" and ap: "apart ?n (bitmap p) 24 mmap"
    using Cons.prems(1) by (simp_all add: r)
  have nx: "mmap_next (pmem q) mmap = mmap_next (pmem p) mmap"
    using q(5) ap n by (rule same_outside_entry)
  have "mmap_at (bitmap q) (4 * bitmap_words q) (pmem q) (mmap_limit (pmem q) mbi) (mmap_next (pmem q) mmap) es"
    unfolding lim nx q(2) w using ma q(5) n by (rule mmap_at_same)
  from Cons.IH [OF this q(1)] Cons.prems(3,4) q w obtain p' where p':
    "free_regions mbi (mmap_next (pmem q) mmap) q = Some p'" "pmm_wf p'" "bitmap p' = bitmap p"
    "total_frames p' = total_frames p"
    "free_set p' = free_set q \<union> ((\<Union>r\<in>set es. region_frames r) \<inter> {..<unat (total_frames p)})"
    by auto
  have "free_regions mbi mmap p = Some p'"
    using lt p'(1) by (subst free_regions.simps) (simp add: Let_def q_def)
  with p' q(4) show ?case by auto
qed

lemma reserve_frames_free:
  assumes "pmm_wf p" and "unat e \<le> unat (total_frames p)"
  shows "pmm_wf (reserve_frames f e p) \<and> bitmap (reserve_frames f e p) = bitmap p
    \<and> total_frames (reserve_frames f e p) = total_frames p
    \<and> free_set (reserve_frames f e p) = free_set p - {unat f..<unat e}"
  using assms
proof (induction f e p rule: reserve_frames.induct)
  case (1 f e p)
  show ?case
  proof (cases "f < e")
    case False
    then have "reserve_frames f e p = p" by (subst reserve_frames.simps) simp
    moreover have "{unat f..<unat e} = {}" using False by (simp add: word_less_nat_alt)
    ultimately show ?thesis using 1(2) by simp
  next
    case True
    then have fe: "unat f < unat e" by (simp add: word_less_nat_alt)
    have "Suc (unat f) < 4294967296" using fe unat32_less [of e] by linarith
    then have uf: "unat (f + 1) = unat f + 1" by (simp add: unat_word_ariths)
    have st: "reserve_frames f e p = reserve_frames (f + 1) e (set_frame f p)"
      using True by (subst reserve_frames.simps) simp
    have fb: "unat f < 32 * bitmap_words p"
      using fe 1(3) frame_bound [of "unat f" p] by linarith
    have sf: "free_set (set_frame f p) = free_set p - {unat f}"
      using free_set_set_frame [OF 1(2) fb] by (simp add: ad_unat)
    have rg: "insert (unat f) {unat (f + 1)..<unat e} = {unat f..<unat e}"
      using fe uf by auto
    have "pmm_wf (set_frame f p)" "unat e \<le> unat (total_frames (set_frame f p))"
      using 1(2,3) by simp_all
    from 1(1) [OF True this] have ih: "pmm_wf (reserve_frames f e p) \<and> bitmap (reserve_frames f e p) = bitmap p
      \<and> total_frames (reserve_frames f e p) = total_frames p
      \<and> free_set (reserve_frames f e p) = free_set (set_frame f p) - {unat (f + 1)..<unat e}"
      unfolding st by simp
    then show ?thesis
      unfolding sf Diff_insert2 [symmetric] rg .
  qed
qed

lemma memset_words:
  assumes "4 * i + 4 \<le> n" and "n \<le> 4294967296"
  shows "load32 (write_bytes m d (replicate n 255)) (d + of_nat (4 * i)) = 0xFFFFFFFF"
proof -
  have "write_bytes m d (replicate n 255) (d + of_nat (4 * i + j)) = 255" if "j < 4" for j
    using assms that by (subst write_bytes_inside) auto
  from this [of 0] this [of 1] this [of 2] this [of 3]
  have "write_bytes m d (replicate n 255) (d + of_nat (4 * i)) = 255"
    "write_bytes m d (replicate n 255) (d + of_nat (4 * i) + 1) = 255"
    "write_bytes m d (replicate n 255) (d + of_nat (4 * i) + 2) = 255"
    "write_bytes m d (replicate n 255) (d + of_nat (4 * i) + 3) = 255"
    by (simp_all only: of_nat_add add.assoc [symmetric]) simp_all
  then show ?thesis by (simp only: load32_def) simp
qed

lemma total_frames_bound: "unat ((w :: u32) div 4096) \<le> 0xFFFFF"
proof -
  have "unat (w div 4096) = unat w div 4096" by (simp add: unat_div)
  then show ?thesis using unat32_less [of w] by linarith
qed

text \<open>The state before the regions are freed: every frame is in use.\<close>

lemma all_used:
  assumes wf: "pmm_wf p" and m: "pmem p = memset m (bitmap p) 0xFF (of_nat (4 * bitmap_words p))"
  shows "free_set p = {}"
proof -
  have n: "4 * bitmap_words p < 4294967296" using wf by (auto simp: pmm_wf_def bitmap_words_def)
  have "frame_used p f" if f: "f < unat (total_frames p)" for f
  proof -
    have "f div 32 < bitmap_words p" using frame_bound [OF f] by (simp add: less_mult_imp_div_less)
    then have "rd (pmem p) (unat (bitmap p) + 4 * (f div 32)) = 0xFFFFFFFF"
      using memset_words [of "f div 32" "4 * bitmap_words p" m "bitmap p"] n
      by (simp add: m memset_correct unat_of_nat32 rd_def ad_def del: of_nat_mult)
    moreover have "f mod 32 < 32" by simp
    moreover have "\<forall>j<32. bit (0xFFFFFFFF :: u32) j" using word32_full by blast
    ultimately show ?thesis by (metis frame_used_def)
  qed
  then show ?thesis by (auto simp: free_set_def)
qed

lemma round_page:
  assumes "n + 4095 < 4294967296"
  shows "(ad n + FRAME_SIZE - 1) div FRAME_SIZE = ad ((n + 4095) div 4096)"
    and "((ad n + FRAME_SIZE - 1) AND NOT (FRAME_SIZE - 1)) div FRAME_SIZE = ad ((n + 4095) div 4096)"
proof -
  have a: "ad n + FRAME_SIZE - 1 = ad (n + 4095)" by (simp add: ad_def)
  show eq: "(ad n + FRAME_SIZE - 1) div FRAME_SIZE = ad ((n + 4095) div 4096)"
    unfolding a using assms by (simp add: ad_div_4096)
  have m: "(4096 - 1 :: u32) = mask 12" by (simp add: mask_eq_exp_minus_1)
  have "(w AND NOT (4096 - 1)) div FRAME_SIZE = w div FRAME_SIZE" for w :: u32
  proof -
    have "drop_bit 12 (w AND NOT (4096 - 1)) = drop_bit 12 w"
      unfolding m by (rule bit_word_eqI) (auto simp: bit_simps dest: bit_imp_le_length)
    then show ?thesis by (simp add: drop_bit_eq_div)
  qed
  from this [of "ad n + FRAME_SIZE - 1"] eq
  show "((ad n + FRAME_SIZE - 1) AND NOT (FRAME_SIZE - 1)) div FRAME_SIZE = ad ((n + 4095) div 4096)"
    by (simp only:)
qed

lemma reserve_kernel_free:
  fixes ks ke :: u32
  assumes wf: "pmm_wf p" and e: "unat ke + n + 4095 < 4294967296"
    and fits: "(unat ke + n + 4095) div 4096 \<le> unat (total_frames p)"
  defines "p' \<equiv> reserve_kernel ks ke ((ke + of_nat n + FRAME_SIZE - 1) AND NOT (FRAME_SIZE - 1)) p"
  shows "pmm_wf p' \<and> bitmap p' = bitmap p \<and> total_frames p' = total_frames p
    \<and> free_set p' = free_set p - {unat ks div 4096..<(unat ke + 4095) div 4096}
        - {unat ke div 4096..<(unat ke + n + 4095) div 4096}"
proof -
  have k: "(ke + FRAME_SIZE - 1) div FRAME_SIZE = ad ((unat ke + 4095) div 4096)"
    using round_page(1) [of "unat ke"] e by (simp add: ad_unat)
  have b: "((ke + of_nat n + FRAME_SIZE - 1) AND NOT (FRAME_SIZE - 1)) div FRAME_SIZE = ad ((unat ke + n + 4095) div 4096)"
    using round_page(2) [of "unat ke + n"] e by (simp add: ad_def)
  have u: "unat (ad ((unat ke + 4095) div 4096)) = (unat ke + 4095) div 4096"
    "unat (ad ((unat ke + n + 4095) div 4096)) = (unat ke + n + 4095) div 4096"
    using e by (subst unat_ad; linarith)+
  have le: "(unat ke + 4095) div 4096 \<le> unat (total_frames p)"
    using fits by (rule order_trans [rotated]) (simp add: div_le_mono)
  define q where "q = reserve_frames (ks div FRAME_SIZE) (ad ((unat ke + 4095) div 4096)) p"
  have q: "pmm_wf q \<and> bitmap q = bitmap p \<and> total_frames q = total_frames p
      \<and> free_set q = free_set p - {unat (ks div FRAME_SIZE)..<(unat ke + 4095) div 4096}"
    using reserve_frames_free [OF wf, of "ad ((unat ke + 4095) div 4096)" "ks div FRAME_SIZE"] u le
    by (simp add: q_def)
  have p': "p' = reserve_frames (ke div FRAME_SIZE) (ad ((unat ke + n + 4095) div 4096)) q"
    unfolding p'_def reserve_kernel_def Let_def k b q_def ..
  show ?thesis
    using reserve_frames_free [of q "ad ((unat ke + n + 4095) div 4096)" "ke div FRAME_SIZE"] q u fits
    by (simp add: p' unat_div)
qed

text \<open>
  C11. \<open>pmm_init\<close> on a multiboot memory map: it returns, \<open>total_frames\<close> is the highest region
  end over 4096, and the free frames are exactly those of the usable regions (below
  \<open>total_frames\<close>) that hold neither the kernel nor the bitmap.  The map and the information
  block must not lie in the memory that the bitmap takes, and the kernel and the bitmap must
  lie in the memory that the map describes.
\<close>

theorem pmm_init_correct:
  fixes ks ke mbi :: u32
  defines "words tf \<equiv> (unat (tf :: u32) + 31) div 32"
  assumes flags: "mbi_flags (pmem p) mbi AND push_bit 6 1 \<noteq> 0"
    and tf: "tf = highest_end es 0 div FRAME_SIZE" "0 < tf"
    and map: "mmap_at ke (4 * words tf) (pmem p) (mmap_limit (pmem p) mbi) (mbi_mmap_addr (pmem p) mbi) es"
    and info: "apart (4 * words tf) ke 8 (mbi + 44)"
    and room: "unat ke + 4 * words tf + 4095 < 4294967296"
      "(unat ke + 4 * words tf + 4095) div 4096 \<le> unat tf"
  shows "\<exists>p'. pmm_init ks ke mbi p = Some (PMM_OK, p') \<and> pmm_wf p' \<and> total_frames p' = tf
    \<and> free_set p' = ((\<Union>r\<in>set es. region_frames r) \<inter> {..<unat tf})
        - {unat ks div 4096..<(unat ke + 4095) div 4096}
        - {unat ke div 4096..<(unat ke + 4 * words tf + 4095) div 4096}"
proof -
  let ?n = "4 * words tf"
  have tb: "unat tf \<le> 0xFFFFF" unfolding tf(1) by (rule total_frames_bound)
  have n: "0 < ?n" "?n \<le> 4294967296"
    using tb tf(2) by (auto simp: words_def word_less_nat_alt)
  have sz: "(tf + 31) div 32 * 4 = of_nat ?n"
  proof -
    have "tf + 31 = ad (unat tf + 31)" by (simp add: ad_def)
    then have "(tf + 31) div 32 = ad (words tf)" using tb by (simp add: ad_div_32 words_def)
    then show ?thesis by (simp add: ad_def)
  qed
  define q where "q = p\<lparr>total_frames := tf, bitmap := ke, pmem := memset (pmem p) ke 0xFF (of_nat ?n)\<rparr>"
  have wq: "pmm_wf q" "bitmap_words q = words tf" "bitmap q = ke" "total_frames q = tf"
    using tb room by (simp_all add: q_def pmm_wf_def bitmap_words_def words_def)
  have fq: "free_set q = {}"
    by (rule all_used [OF wq(1), of "pmem p"]) (simp add: wq(2,3), simp add: q_def)
  have out: "same_outside ke ?n (pmem p) (pmem q)"
    using n(2) by (simp add: q_def same_outside_def memset_correct write_bytes_outside unat_of_nat
        take_bit_nat_less_eq_self order_trans [OF take_bit_nat_less_eq_self] del: of_nat_mult)
  have "apart ?n ke 4 (mbi + 44)" "apart ?n ke 4 (mbi + 48)"
    using apart_part [OF info, of 0 ?n 0 4] apart_part [OF info, of 0 ?n 4 4] n by (simp_all add: add.assoc)
  then have "mbi_mmap_addr (pmem q) mbi = mbi_mmap_addr (pmem p) mbi" "mmap_limit (pmem q) mbi = mmap_limit (pmem p) mbi"
    using out n by (simp_all add: mmap_limit_def mbi_mmap_addr_def mbi_mmap_length_def same_outside_load32)
  then have "mmap_at (bitmap q) (4 * bitmap_words q) (pmem q) (mmap_limit (pmem q) mbi) (mbi_mmap_addr (pmem q) mbi) es"
    unfolding wq using mmap_at_same [OF map out n] by simp
  from free_regions_frames [OF this wq(1)] info tf(2) wq obtain p1 where
    p1: "free_regions mbi (mbi_mmap_addr (pmem q) mbi) q = Some p1" "pmm_wf p1" "bitmap p1 = ke" "total_frames p1 = tf"
      "free_set p1 = (\<Union>r\<in>set es. region_frames r) \<inter> {..<unat tf}"
    using fq by auto
  define p' where "p' = reserve_kernel ks ke ((ke + of_nat ?n + FRAME_SIZE - 1) AND NOT (FRAME_SIZE - 1)) p1"
  have "pmm_init ks ke mbi p = Some (PMM_OK, p')"
    using flags p1(1) unfolding pmm_init_def Let_def mmap_highest_at [OF map]
    by (simp only: if_False option.simps Option.bind.simps tf(1) [symmetric] sz) (simp add: q_def p'_def sz)
  moreover have "pmm_wf p' \<and> bitmap p' = bitmap p1 \<and> total_frames p' = total_frames p1
    \<and> free_set p' = free_set p1 - {unat ks div 4096..<(unat ke + 4095) div 4096}
        - {unat ke div 4096..<(unat ke + ?n + 4095) div 4096}"
    unfolding p'_def using p1(2) room(1) by (rule reserve_kernel_free) (use p1(4) room(2) in simp)
  ultimately show ?thesis using p1 by auto
qed

section \<open>The theorems on a concrete map\<close>

text \<open>A machine with one usable region of 4 MB, and the kernel from 1 MB on.\<close>

definition map_4mb :: mem where
  "map_4mb = store32 (store32 (store32 (store32 (store32 (store32 (store32 (\<lambda>_. 0)
     0x9000 64) 0x902C 24) 0x9030 0x9100) 0x9100 20) 0x910C 0x400000) 0x9114 1) 0x9110 0"

definition pmm_4mb :: pmm where
  "pmm_4mb = \<lparr>pmem = map_4mb, bitmap = 0, total_frames = 0\<rparr>"

lemma map_4mb_loads:
  "load32 map_4mb 0x9000 = 64" "load32 map_4mb 0x902C = 24" "load32 map_4mb 0x9030 = 0x9100"
  "load32 map_4mb 0x9100 = 20" "load32 map_4mb 0x9104 = 0" "load32 map_4mb 0x9108 = 0"
  "load32 map_4mb 0x910C = 0x400000" "load32 map_4mb 0x9110 = 0" "load32 map_4mb 0x9114 = 1"
  unfolding map_4mb_def by (simp_all add: mem_simps apart_def) (simp_all add: load32_def)

lemma pmm_init_correct_witness:
  "\<exists>p'. pmm_init 0x100000 0x110000 0x9000 pmm_4mb = Some (PMM_OK, p')
     \<and> free_set p' = {0..<0x400} - {0x100..<0x110} - {0x110..<0x111}"
proof -
  have "mmap_at 0x110000 128 map_4mb 0x9118 0x9100 [(0, 0x400000, 1)]"
    by (simp add: mmap_base_def mmap_len_def mmap_type_def mmap_next_def mmap_size_def load64_def
        map_4mb_loads apart_def)
  then have "\<exists>p'. pmm_init 0x100000 0x110000 0x9000 pmm_4mb = Some (PMM_OK, p') \<and> pmm_wf p' \<and> total_frames p' = 1024
    \<and> free_set p' = ((\<Union>r\<in>set [(0, 0x400000, 1)]. region_frames r) \<inter> {..<unat (1024 :: u32)})
        - {unat (0x100000 :: u32) div 4096..<(unat (0x110000 :: u32) + 4095) div 4096}
        - {unat (0x110000 :: u32) div 4096..<(unat (0x110000 :: u32) + 4 * ((unat (1024 :: u32) + 31) div 32) + 4095) div 4096}"
    by (intro pmm_init_correct)
      (simp_all add: pmm_4mb_def mbi_flags_def mmap_limit_def mbi_mmap_addr_def mbi_mmap_length_def
        map_4mb_loads highest_end_def apart_def)
  moreover have "((\<Union>r\<in>set [(0, 0x400000, 1)]. region_frames r) \<inter> {..<unat (1024 :: u32)}) = {0..<0x400}"
    by (auto simp: region_frames_def)
  ultimately show ?thesis by auto
qed

text \<open>Forty frames, the first thirty-two in use.\<close>

definition pmm_40 :: pmm where
  "pmm_40 = \<lparr>pmem = store32 (\<lambda>_. 0) 0x2000 0xFFFFFFFF, bitmap = 0x2000, total_frames = 40\<rparr>"

definition pmm_64 :: pmm where
  "pmm_64 = \<lparr>pmem = store32 (store32 (\<lambda>_. 0) 0x2004 0xFFFFFFFD) 0x2000 0xFFFFFFFF, bitmap = 0x2000, total_frames = 64\<rparr>"

lemma pmm_64_wf: "pmm_wf pmm_64"
  by (simp add: pmm_wf_def pmm_64_def bitmap_words_def)

lemma pmm_64_words: "rd (pmem pmm_64) 0x2000 = 0xFFFFFFFF" "rd (pmem pmm_64) 0x2004 = 0xFFFFFFFD"
  unfolding pmm_64_def rd_def ad_def by (simp_all add: mem_simps apart_def)

lemma pmm_64_first: "first_free_frame pmm_64 = Some 33"
proof -
  have w: "bitmap_word pmm_64 0 = 0xFFFFFFFF" "bitmap_word pmm_64 1 = 0xFFFFFFFD"
    unfolding bitmap_word_def pmm_64_def by (simp_all add: mem_simps apart_def)
  have f: "find (\<lambda>j. bitmap_word pmm_64 1 AND push_bit j 1 = 0) [0..<32] = Some 1"
    unfolding w by (simp add: upt_rec)
  show ?thesis
    unfolding first_free_frame_def
    by (subst first_free_loop.simps, subst first_free_loop.simps) (use w f in \<open>simp add: pmm_64_def\<close>)
qed

lemma pmm_alloc_free_roundtrip_witness:
  "\<exists>p'. pmm_alloc_frame pmm_64 = (0x21000, p') \<and> pmm_free_frame 0x21000 p' = pmm_64"
proof -
  have a: "pmm_alloc_frame pmm_64 = (0x21000, set_frame 33 pmm_64)"
    by (simp add: pmm_alloc_frame_def pmm_64_first)
  from pmm_alloc_free_roundtrip [OF pmm_64_wf a] a show ?thesis by simp
qed

lemma pmm_get_free_frames_correct_witness:
  "unat (pmm_get_free_frames pmm_64) = card (free_set pmm_64)"
  using pmm_get_free_frames_correct [OF pmm_64_wf] by (rule conjunct1)

lemma pmm_alloc_frame_correct_witness:
  "if {f \<in> free_set pmm_64. f < 64} = {} then pmm_alloc_frame pmm_64 = (0, pmm_64)
    else \<exists>p'. pmm_alloc_frame pmm_64 = (ad (4096 * Min {f \<in> free_set pmm_64. f < 64}), p')
       \<and> free_set p' = free_set pmm_64 - {Min {f \<in> free_set pmm_64. f < 64}} \<and> pmm_wf p'"
proof -
  have "32 * (unat (total_frames pmm_64) div 32) = 64" by (simp add: pmm_64_def)
  with pmm_alloc_frame_correct [OF pmm_64_wf] show ?thesis by (simp only:)
qed

text \<open>
  The frames of a partial last word are counted as free but never given out: with forty
  frames of which the last eight are free, the count is 8 and the allocation returns 0.
\<close>

theorem pmm_partial_word_lost:
  "pmm_get_free_frames pmm_40 = 8 \<and> pmm_alloc_frame pmm_40 = (0, pmm_40)"
proof
  have w: "bitmap_word pmm_40 0 = 0xFFFFFFFF" "bitmap_word pmm_40 1 = 0"
    unfolding bitmap_word_def pmm_40_def by (simp_all add: mem_simps apart_def) (simp add: load32_def store32_def)
  have "first_free_frame pmm_40 = None"
    unfolding first_free_frame_def
    by (subst first_free_loop.simps, subst first_free_loop.simps) (use w in \<open>simp add: pmm_40_def\<close>)
  then show "pmm_alloc_frame pmm_40 = (0, pmm_40)" by (simp add: pmm_alloc_frame_def)
  have wf: "pmm_wf pmm_40" by (simp add: pmm_wf_def pmm_40_def bitmap_words_def)
  have "frame_used pmm_40 f \<longleftrightarrow> f < 32" if "f < 40" for f
  proof -
    have "f div 32 = (if f < 32 then 0 else 1)" using that by auto
    moreover have "rd (pmem pmm_40) (0x2000 + 4 * 0) = 0xFFFFFFFF" "rd (pmem pmm_40) (0x2000 + 4 * 1) = 0"
      using w bitmap_word_ad [of pmm_40 0] bitmap_word_ad [of pmm_40 1] by (simp_all add: ad_def pmm_40_def)
    moreover have "\<forall>j<32. bit (0xFFFFFFFF :: u32) j" using word32_full by blast
    moreover have "unat (bitmap pmm_40) = 0x2000" by (simp add: pmm_40_def)
    moreover have "f mod 32 < 32" by simp
    ultimately show ?thesis unfolding frame_used_def by (metis bit_0_eq bot_apply bot_bool_def)
  qed
  then have "free_set pmm_40 = {32..<40}" by (auto simp: free_set_def pmm_40_def)
  then have "unat (pmm_get_free_frames pmm_40) = 8" using free_frames_card [OF wf] by simp
  then show "pmm_get_free_frames pmm_40 = 8" by (simp add: word_unat_eq_iff)
qed

end
