(* ===== verification/Paging.thy ===== *)
theory Paging imports PmmLaws begin

text \<open>
  Page tables, \<^verbatim>\<open>mm/paging.c\<close>.  The directory and the array that tracks the tables are
  static arrays of 1024 words; the tables are frames of \<open>pmm_alloc_frame\<close> in the memory.  The
  control registers and the flush of a page are kept as state.
\<close>

abbreviation (input) PRESENT :: u32 where "PRESENT \<equiv> 1"
abbreviation (input) WRITABLE :: u32 where "WRITABLE \<equiv> 2"

record vm =
  frames :: pmm
  page_directory :: "u32 list"
  page_tables :: "u32 list"
  cr3_loaded :: bool
  cr0 :: u32
  flushed :: "u32 list"

section \<open>The operations\<close>

definition load_page_directory :: "vm \<Rightarrow> vm" where
  "load_page_directory v = v\<lparr>cr3_loaded := True\<rparr>"

definition enable_paging :: "vm \<Rightarrow> vm" where
  "enable_paging v = v\<lparr>cr0 := cr0 v OR 0x80000000\<rparr>"

text \<open>\<open>for (i = a; i < 1024; i++) table[i] = g(i)\<close>\<close>

definition fill_table :: "nat \<Rightarrow> (nat \<Rightarrow> u32) \<Rightarrow> u32 \<Rightarrow> mem \<Rightarrow> mem" where
  "fill_table a g t m = fold (\<lambda>i m. store32 m (t + 4 * of_nat i) (g i)) [a..<1024] m"

definition set_mem :: "(mem \<Rightarrow> mem) \<Rightarrow> vm \<Rightarrow> vm" where
  "set_mem f v = v\<lparr>frames := (frames v)\<lparr>pmem := f (pmem (frames v))\<rparr>\<rparr>"

definition paging_init :: "vm \<Rightarrow> vm" where
  "paging_init v =
     (let v = v\<lparr>page_directory := replicate 1024 0, page_tables := replicate 1024 0\<rparr>;
          (first_table, fr) = pmm_alloc_frame (frames v);
          v = v\<lparr>frames := fr\<rparr>;
          v = set_mem (fill_table 0 (\<lambda>i. 0) first_table) v;
          v = set_mem (fill_table 1 (\<lambda>i. (of_nat i * 4096) OR PRESENT OR WRITABLE) first_table) v;
          v = v\<lparr>page_directory := (page_directory v)[0 := first_table OR PRESENT OR WRITABLE],
                page_tables := (page_tables v)[0 := first_table]\<rparr>
      in enable_paging (load_page_directory v))"

definition map_page :: "u32 \<Rightarrow> u32 \<Rightarrow> vm \<Rightarrow> vm" where
  "map_page virtual_addr physical_addr v =
     (let dir_index = unat (drop_bit 22 virtual_addr);
          table_index = drop_bit 12 virtual_addr AND 0x3FF;
          table = page_tables v ! dir_index;
          (table, v) =
            (if table = 0
             then let (table, fr) = pmm_alloc_frame (frames v);
                      v = v\<lparr>frames := fr\<rparr>;
                      v = set_mem (fill_table 0 (\<lambda>i. 0) table) v
                  in (table, v\<lparr>page_directory := (page_directory v)[dir_index := table OR PRESENT OR WRITABLE],
                               page_tables := (page_tables v)[dir_index := table]\<rparr>)
             else (table, v));
          v = set_mem (\<lambda>m. store32 m (table + 4 * table_index)
                ((physical_addr AND 0xFFFFF000) OR PRESENT OR WRITABLE)) v
      in v\<lparr>flushed := virtual_addr # flushed v\<rparr>)"

section \<open>The address that the processor translates to\<close>

definition translate :: "vm \<Rightarrow> u32 \<Rightarrow> u32 option" where
  "translate v va =
     (let pde = page_directory v ! unat (drop_bit 22 va)
      in if pde AND 1 = 0 then None
         else let pte = load32 (pmem (frames v)) ((pde AND 0xFFFFF000) + 4 * (drop_bit 12 va AND 0x3FF))
              in if pte AND 1 = 0 then None else Some ((pte AND 0xFFFFF000) OR (va AND 0xFFF)))"

text \<open>
  The tables are distinct frames in use other than frame 0, the directory points to them, and
  the bitmap lies in no free frame.
\<close>

definition table_ok :: "vm \<Rightarrow> nat \<Rightarrow> bool" where
  "table_ok v d \<longleftrightarrow> (page_tables v ! d = 0 \<and> page_directory v ! d = 0) \<or>
     (\<exists>f. 0 < f \<and> f < unat (total_frames (frames v)) \<and> frame_used (frames v) f
        \<and> apart (4 * bitmap_words (frames v)) (bitmap (frames v)) 4096 (ad (4096 * f))
        \<and> page_tables v ! d = ad (4096 * f) \<and> page_directory v ! d = ad (4096 * f) OR PRESENT OR WRITABLE)"

definition bitmap_kept :: "pmm \<Rightarrow> bool" where
  "bitmap_kept p \<longleftrightarrow> (\<forall>f\<in>free_set p. apart (4 * bitmap_words p) (bitmap p) 4096 (ad (4096 * f)))"

definition vm_ok :: "vm \<Rightarrow> bool" where
  "vm_ok v \<longleftrightarrow> pmm_wf (frames v) \<and> bitmap_kept (frames v) \<and> 0 < total_frames (frames v)
     \<and> length (page_directory v) = 1024 \<and> length (page_tables v) = 1024
     \<and> (\<forall>d<1024. table_ok v d)
     \<and> (\<forall>d<1024. \<forall>d'<1024. d \<noteq> d' \<longrightarrow> page_tables v ! d \<noteq> 0 \<longrightarrow> page_tables v ! d \<noteq> page_tables v ! d')"

section \<open>A table in memory\<close>

lemma fill_table_eq:
  assumes T: "T + 4096 \<le> 4294967296" and b: "b \<le> 1024" and j: "j < 1024"
  shows "rd (fold (\<lambda>i m. store32 m (ad T + 4 * of_nat i) (g i)) [a..<b] m) (T + 4 * j) =
      (if a \<le> j \<and> j < b then g j else rd m (T + 4 * j))"
  using b
proof (induction b)
  case 0
  then show ?case by simp
next
  case (Suc b)
  have addr: "ad T + 4 * of_nat b = ad (T + 4 * b)" by (simp add: ad_def)
  have "T + 4 * b + 4 \<le> 4294967296" "T + 4 * j + 4 \<le> 4294967296" using Suc.prems j T by linarith+
  moreover have "j = b \<or> T + 4 * j + 4 \<le> T + 4 * b \<or> T + 4 * b + 4 \<le> T + 4 * j" by linarith
  ultimately show ?case
    using Suc by (cases "a \<le> b") (auto simp: addr rd_store_same rd_store_below rd_store_above)
qed

lemma fill_table_outside:
  assumes T: "T + 4096 \<le> 4294967296"
  shows "same_outside (ad T) 4096 m (fill_table a g (ad T) m)"
proof -
  have "same_outside (ad T) 4096 m (fold (\<lambda>i m. store32 m (ad T + 4 * of_nat i) (g i)) [a..<b] m)"
    if "b \<le> 1024" for b
    using that
  proof (induction b)
    case (Suc b)
    have eq: "4 * of_nat b = (of_nat (4 * b) :: u32)" by simp
    have "same_outside (ad T) 4096 m' (store32 m' (ad T + 4 * of_nat b) w)" for m' w
      unfolding eq using Suc.prems by (intro same_outside_store) auto
    then show ?case using Suc by (cases "a \<le> b") (auto intro: same_outside_trans)
  qed simp
  then show ?thesis by (simp add: fill_table_def)
qed

lemma same_outside_rd:
  assumes "same_outside b n m m'" and "apart n b 4096 (ad T)" and "j < 1024" and "n \<le> 4294967296"
  shows "rd m' (T + 4 * j) = rd m (T + 4 * j)"
proof (cases "n = 0")
  case True
  with assms(1) have "m' = m" by (auto simp: same_outside_def)
  then show ?thesis by simp
next
  case False
  have "apart n (b + of_nat 0) 4 (ad T + of_nat (4 * j))"
    by (rule apart_part [OF assms(2)]) (use assms False in auto)
  then have "apart n b 4 (ad (T + 4 * j))" by (simp add: ad_def)
  then show ?thesis using assms by (simp add: rd_def same_outside_load32)
qed

section \<open>Entries\<close>

lemma page_mask: "(0xFFFFF000 :: u32) = NOT (mask 12)" "(0xFFF :: u32) = mask 12" "(0x3FF :: u32) = mask 10"
  by (simp_all add: mask_eq_exp_minus_1)

lemma entry_addr: "(x AND 0xFFFFF000 OR PRESENT OR WRITABLE) AND 0xFFFFF000 = (x :: u32) AND 0xFFFFF000"
proof -
  have "((1 :: u32) OR 2) AND NOT (mask 12) = 0" by (simp add: mask_eq_exp_minus_1)
  then have "(y OR (1 OR 2)) AND NOT (mask 12) = y AND NOT (mask 12)" for y :: u32
    by (simp only: bit.conj_disj_distrib2) simp
  then show ?thesis unfolding page_mask by (simp only: or.assoc and.assoc and.idem)
qed

lemma entry_present: "(x OR PRESENT OR WRITABLE) AND 1 \<noteq> (0 :: u32)"
proof
  assume "(x OR PRESENT OR WRITABLE) AND 1 = (0 :: u32)"
  then have "bit ((x OR PRESENT OR WRITABLE) AND 1) 0 = bit (0 :: u32) 0" by (simp only:)
  then show False by (simp add: bit_simps)
qed

lemma frame_aligned: "ad (4096 * f) AND 0xFFFFF000 = ad (4096 * f)"
proof -
  have "ad (4096 * f) = push_bit 12 (of_nat f)" by (simp add: ad_def push_bit_eq_mult mult.commute)
  then show ?thesis unfolding page_mask by (simp only:) (rule bit_word_eqI, auto simp: bit_simps)
qed

lemma table_entry:
  "(ad (4096 * f) OR PRESENT OR WRITABLE) AND 0xFFFFF000 = ad (4096 * f)"
  using entry_addr [of "ad (4096 * f)"] by (simp only: frame_aligned)

lemma index_bounds: "unat (drop_bit 22 (va :: u32)) < 1024" "unat (drop_bit 12 (va :: u32) AND 0x3FF) < 1024"
proof -
  have "unat va div 2 ^ 22 < 1024" using unat32_less [of va] by (simp add: less_mult_imp_div_less)
  then show "unat (drop_bit 22 va) < 1024" by (simp only: unat_drop_bit32)
  have "drop_bit 12 va AND 0x3FF = take_bit 10 (drop_bit 12 va)"
    unfolding page_mask by (simp only: take_bit_eq_mask)
  then show "unat (drop_bit 12 va AND 0x3FF) < 1024"
    by (simp only: unsigned_take_bit_eq) (simp add: take_bit_eq_mod)
qed

text \<open>The two indices together are the page number.\<close>

lemma page_number_eq:
  "drop_bit 12 va = drop_bit 12 (vb :: u32) \<longleftrightarrow>
     drop_bit 22 va = drop_bit 22 vb \<and> drop_bit 12 va AND 0x3FF = drop_bit 12 vb AND 0x3FF"
proof
  assume e: "drop_bit 12 va = drop_bit 12 vb"
  then have "drop_bit 10 (drop_bit 12 va) = drop_bit 10 (drop_bit 12 vb)" by (simp only:)
  then have "drop_bit 22 va = drop_bit 22 vb" by simp
  with e show "drop_bit 22 va = drop_bit 22 vb \<and> drop_bit 12 va AND 0x3FF = drop_bit 12 vb AND 0x3FF" by (simp only: simp_thms)
next
  assume a: "drop_bit 22 va = drop_bit 22 vb \<and> drop_bit 12 va AND 0x3FF = drop_bit 12 vb AND 0x3FF"
  show "drop_bit 12 va = drop_bit 12 vb"
  proof (rule bit_word_eqI)
    fix n :: nat
    have "bit (drop_bit 22 va) (n - 10) = bit (drop_bit 22 vb) (n - 10)"
      and "bit (drop_bit 12 va AND 0x3FF) n = bit (drop_bit 12 vb AND 0x3FF) n" using a by (simp_all only:)
    then show "bit (drop_bit 12 va) n = bit (drop_bit 12 vb) n"
      unfolding page_mask by (cases "n < 10") (auto simp: bit_simps)
  qed
qed

lemma table_numbers:
  assumes ok: "vm_ok v" and d: "d < 1024" and t: "page_tables v ! d \<noteq> 0"
  obtains f where "0 < f" "f < unat (total_frames (frames v))" "4096 * f + 4096 \<le> 4294967296"
    "page_tables v ! d = ad (4096 * f)" "unat (page_tables v ! d) = 4096 * f"
    "page_directory v ! d = ad (4096 * f) OR PRESENT OR WRITABLE" "frame_used (frames v) f"
    "apart (4 * bitmap_words (frames v)) (bitmap (frames v)) 4096 (ad (4096 * f))"
proof -
  have "table_ok v d" using ok d by (simp add: vm_ok_def)
  with t obtain f where f: "0 < f" "f < unat (total_frames (frames v))" "frame_used (frames v) f"
    "apart (4 * bitmap_words (frames v)) (bitmap (frames v)) 4096 (ad (4096 * f))"
    "page_tables v ! d = ad (4096 * f)" "page_directory v ! d = ad (4096 * f) OR PRESENT OR WRITABLE"
    by (auto simp: table_ok_def)
  have lt: "f < 0x100000" using ok f(2) by (simp add: vm_ok_def pmm_wf_def)
  then have "unat (ad (4096 * f)) = 4096 * f" by (subst unat_ad) auto
  with f lt show ?thesis by (intro that [of f]) auto
qed

lemma translate_eq:
  assumes ok: "vm_ok v"
  shows "translate v va =
    (let t = page_tables v ! unat (drop_bit 22 va);
         pte = rd (pmem (frames v)) (unat t + 4 * unat (drop_bit 12 va AND 0x3FF))
     in if t = 0 \<or> pte AND 1 = 0 then None else Some ((pte AND 0xFFFFF000) OR (va AND 0xFFF)))"
proof (cases "page_tables v ! unat (drop_bit 22 va) = 0")
  case True
  have "table_ok v (unat (drop_bit 22 va))" using ok index_bounds(1) by (simp add: vm_ok_def)
  then have "page_directory v ! unat (drop_bit 22 va) = 0 \<or>
      (\<exists>f. 0 < f \<and> f < unat (total_frames (frames v)) \<and> ad (4096 * f) = 0)"
    using True by (auto simp: table_ok_def)
  moreover have "unat (total_frames (frames v)) \<le> 0x100000" using ok by (simp add: vm_ok_def pmm_wf_def)
  ultimately have "page_directory v ! unat (drop_bit 22 va) = 0" by (auto simp: ad_eq_0_iff)
  with True show ?thesis by (simp add: translate_def Let_def)
next
  case False
  from table_numbers [OF ok index_bounds(1) False] obtain f where
    f: "page_tables v ! unat (drop_bit 22 va) = ad (4096 * f)" "unat (page_tables v ! unat (drop_bit 22 va)) = 4096 * f"
      "page_directory v ! unat (drop_bit 22 va) = ad (4096 * f) OR PRESENT OR WRITABLE" by blast
  have "ad (4096 * f) + 4 * (drop_bit 12 va AND 0x3FF) = ad (4096 * f + 4 * unat (drop_bit 12 va AND 0x3FF))"
    by (simp only: ad_def of_nat_add of_nat_mult of_nat_unat32) simp
  with False f table_entry [of f] entry_present [of "ad (4096 * f)"] show ?thesis
    unfolding translate_def Let_def by (simp only: if_False load32_ad) simp
qed

section \<open>Storing an entry of a table\<close>

text \<open>The bitmap, and with it the state of the frames, is not touched by a store elsewhere.\<close>

lemma frame_used_outside:
  assumes wf: "pmm_wf p" and so: "same_outside (ad T) 4096 (pmem p) m'"
    and ap: "apart (4 * bitmap_words p) (bitmap p) 4096 (ad T)" and f: "f < 32 * bitmap_words p"
  shows "frame_used (p\<lparr>pmem := m'\<rparr>) f = frame_used p f"
proof -
  have i: "f div 32 < bitmap_words p" using f by (simp add: less_mult_imp_div_less)
  have "apart 4 (bitmap p + of_nat (4 * (f div 32))) 4096 (ad T + of_nat 0)"
    by (rule apart_part [OF ap]) (use i wf in \<open>auto simp: pmm_wf_def\<close>)
  then have "apart 4096 (ad T) 4 (bitmap p + of_nat (4 * (f div 32)))"
    using apart_commute by simp
  then have "load32 m' (bitmap p + of_nat (4 * (f div 32))) = load32 (pmem p) (bitmap p + of_nat (4 * (f div 32)))"
    by (intro same_outside_load32 [OF so]) simp_all
  then show ?thesis by (simp add: frame_used_def rd_def ad_def)
qed

lemma pmm_outside:
  assumes wf: "pmm_wf p" and so: "same_outside (ad T) 4096 (pmem p) m'"
    and ap: "apart (4 * bitmap_words p) (bitmap p) 4096 (ad T)"
  shows "pmm_wf (p\<lparr>pmem := m'\<rparr>)" and "free_set (p\<lparr>pmem := m'\<rparr>) = free_set p"
    and "bitmap_words (p\<lparr>pmem := m'\<rparr>) = bitmap_words p"
    and "\<And>f. f < unat (total_frames p) \<Longrightarrow> frame_used (p\<lparr>pmem := m'\<rparr>) f = frame_used p f"
proof -
  show fu: "\<And>f. f < unat (total_frames p) \<Longrightarrow> frame_used (p\<lparr>pmem := m'\<rparr>) f = frame_used p f"
    using frame_used_outside [OF wf so ap] frame_bound by blast
  show "bitmap_words (p\<lparr>pmem := m'\<rparr>) = bitmap_words p" by (simp add: bitmap_words_def)
  then show "pmm_wf (p\<lparr>pmem := m'\<rparr>)" using wf by (simp add: pmm_wf_def)
  show "free_set (p\<lparr>pmem := m'\<rparr>) = free_set p" using fu by (auto simp: free_set_def)
qed

lemma vm_ok_outside:
  assumes ok: "vm_ok v" and so: "same_outside (ad T) 4096 (pmem (frames v)) (f (pmem (frames v)))"
    and ap: "apart (4 * bitmap_words (frames v)) (bitmap (frames v)) 4096 (ad T)"
  shows "vm_ok (set_mem f v)"
proof -
  have wf: "pmm_wf (frames v)" using ok by (simp add: vm_ok_def)
  note p = pmm_outside [OF wf so ap]
  have "table_ok (set_mem f v) d" if "table_ok v d" for d
    using that p(3,4) by (auto simp: table_ok_def set_mem_def)
  then show ?thesis using ok p(1,2,3) by (auto simp: vm_ok_def set_mem_def bitmap_kept_def)
qed

lemma store_in_table:
  assumes "T + 4096 \<le> 4294967296" and "j < 1024"
  shows "same_outside (ad T) 4096 m (store32 m (ad (T + 4 * j)) w)"
proof -
  have "ad (T + 4 * j) = ad T + of_nat (4 * j)" by (simp add: ad_def)
  then show ?thesis using assms(2) by (simp add: same_outside_store del: of_nat_mult)
qed

lemma map_existing:
  assumes ok: "vm_ok v" and t: "page_tables v ! unat (drop_bit 22 va) \<noteq> 0"
  shows "vm_ok (map_page va pa v)"
    and "translate (map_page va pa v) vb =
      (if drop_bit 12 vb = drop_bit 12 va then Some ((pa AND 0xFFFFF000) OR (vb AND 0xFFF)) else translate v vb)"
proof -
  define d where "d = unat (drop_bit 22 va)"
  define j where "j = unat (drop_bit 12 va AND 0x3FF)"
  define e where "e = ((pa AND 0xFFFFF000) OR PRESENT OR WRITABLE)"
  have db: "d < 1024" "j < 1024" using index_bounds by (simp_all add: d_def j_def)
  obtain f where f: "0 < f" "4096 * f + 4096 \<le> 4294967296" "page_tables v ! d = ad (4096 * f)"
    "unat (page_tables v ! d) = 4096 * f"
    "apart (4 * bitmap_words (frames v)) (bitmap (frames v)) 4096 (ad (4096 * f))"
    using table_numbers [OF ok db(1)] t unfolding d_def by metis
  have ad: "page_tables v ! d + 4 * (drop_bit 12 va AND 0x3FF) = ad (4096 * f + 4 * j)"
    unfolding f(3) j_def by (simp only: ad_def of_nat_add of_nat_mult of_nat_unat32) simp
  define v1 where "v1 = set_mem (\<lambda>m. store32 m (ad (4096 * f + 4 * j)) e) v"
  have mp: "map_page va pa v = v1\<lparr>flushed := va # flushed v1\<rparr>"
    using t unfolding map_page_def Let_def d_def [symmetric] e_def [symmetric] v1_def
    by (simp add: ad)
  have ok1: "vm_ok v1"
    unfolding v1_def by (rule vm_ok_outside [OF ok _ f(5)], rule store_in_table) (use f(2) db in auto)
  then show "vm_ok (map_page va pa v)" by (simp add: mp vm_ok_def table_ok_def)
  have tr: "translate (map_page va pa v) vb = translate v1 vb" by (simp add: mp translate_def Let_def)
  define d2 where "d2 = unat (drop_bit 22 vb)"
  define j2 where "j2 = unat (drop_bit 12 vb AND 0x3FF)"
  have db2: "d2 < 1024" "j2 < 1024" using index_bounds by (simp_all add: d2_def j2_def)
  have pn: "drop_bit 12 vb = drop_bit 12 va \<longleftrightarrow> d2 = d \<and> j2 = j"
    unfolding page_number_eq d_def d2_def j_def j2_def by (auto simp: word_unat_eq_iff)
  have v1t: "page_tables v1 = page_tables v" by (simp add: v1_def set_mem_def)
  have v1m: "rd (pmem (frames v1)) y = (rd (store32 (pmem (frames v)) (ad (4096 * f + 4 * j)) e) y)" for y
    by (simp add: v1_def set_mem_def)
  have pte: "rd (pmem (frames v1)) (unat (page_tables v ! d2) + 4 * j2) =
      (if d2 = d \<and> j2 = j then e else rd (pmem (frames v)) (unat (page_tables v ! d2) + 4 * j2))"
    if t2: "page_tables v ! d2 \<noteq> 0"
  proof (cases "d2 = d")
    case True
    then have "j2 = j \<or> 4096 * f + 4 * j2 + 4 \<le> 4096 * f + 4 * j \<or> 4096 * f + 4 * j + 4 \<le> 4096 * f + 4 * j2" by linarith
    then show ?thesis unfolding v1m True f(4) using f(2) db db2
      by (auto simp: rd_store_same rd_store_below rd_store_above)
  next
    case False
    obtain f2 where f2: "4096 * f2 + 4096 \<le> 4294967296" "page_tables v ! d2 = ad (4096 * f2)"
      "unat (page_tables v ! d2) = 4096 * f2"
      using table_numbers [OF ok db2(1) t2] by metis
    have "page_tables v ! d2 \<noteq> page_tables v ! d" using ok db db2 False t2 by (simp add: vm_ok_def)
    then have "f2 \<noteq> f" using f2 f by auto
    then have "4096 * f2 + 4096 \<le> 4096 * f \<or> 4096 * f + 4096 \<le> 4096 * f2" by linarith
    then have "4096 * f2 + 4 * j2 + 4 \<le> 4096 * f + 4 * j \<or> 4096 * f + 4 * j + 4 \<le> 4096 * f2 + 4 * j2"
      using db db2 by linarith
    then show ?thesis unfolding v1m f2(3) using f(2) f2(1) db db2 False
      by (auto simp: rd_store_below rd_store_above)
  qed
  have t': "page_tables v ! d \<noteq> 0" using t by (simp add: d_def)
  show "translate (map_page va pa v) vb =
      (if drop_bit 12 vb = drop_bit 12 va then Some ((pa AND 0xFFFFF000) OR (vb AND 0xFFF)) else translate v vb)"
    unfolding tr translate_eq [OF ok1] translate_eq [OF ok] Let_def v1t d2_def [symmetric] j2_def [symmetric] pn
    using pte t' entry_present [of "pa AND 0xFFFFF000"] entry_addr [of pa]
    by (cases "page_tables v ! d2 = 0") (auto simp: e_def)
qed

section \<open>A new table\<close>

lemma alloc_frame_cases:
  assumes wf: "pmm_wf p"
  shows "pmm_alloc_frame p = (0, p) \<or>
    (\<exists>f. f \<in> free_set p \<and> pmm_alloc_frame p = (ad (4096 * f), set_frame (ad f) p))"
proof (cases "first_free_frame p")
  case None
  then show ?thesis by (simp add: pmm_alloc_frame_def)
next
  case (Some x)
  then obtain f where f: "x = ad f" "f < 32 * (unat (total_frames p) div 32)" "\<not> frame_used p f"
    by (auto simp: first_free_frame_eq [OF wf] find_upt_Some)
  then have "f < unat (total_frames p)" by linarith
  moreover have "ad f * 4096 = ad (4096 * f)" by (simp add: ad_def)
  ultimately show ?thesis using Some f by (auto simp: pmm_alloc_frame_def free_set_def)
qed

lemma set_frame_outside:
  assumes wf: "pmm_wf p" and f: "f < unat (total_frames p)"
  shows "same_outside (bitmap p) (4 * bitmap_words p) (pmem p) (pmem (set_frame (ad f) p))"
proof -
  note fb = frame_bound [OF f]
  have "f div 32 < bitmap_words p" using fb by (simp add: less_mult_imp_div_less)
  moreover have "4 * bitmap_words p \<le> 4294967296" using wf by (simp add: pmm_wf_def)
  moreover have "ad (unat (bitmap p) + 4 * (f div 32)) = bitmap p + of_nat (4 * (f div 32))"
    by (simp add: ad_def)
  ultimately show ?thesis
    unfolding set_frame_def ad_div_32 [OF wf_frame [OF wf fb]] set_bitmap_word_ad
    by (simp add: same_outside_store del: of_nat_mult)
qed

text \<open>The state after a new table for the index \<open>d\<close> was made of the frame \<open>f\<close>.\<close>

definition new_table :: "nat \<Rightarrow> nat \<Rightarrow> vm \<Rightarrow> vm" where
  "new_table d f v =
     (let v = set_mem (fill_table 0 (\<lambda>i. 0) (ad (4096 * f))) (v\<lparr>frames := set_frame (ad f) (frames v)\<rparr>)
      in v\<lparr>page_directory := (page_directory v)[d := ad (4096 * f) OR PRESENT OR WRITABLE],
           page_tables := (page_tables v)[d := ad (4096 * f)]\<rparr>)"

lemma taken_ok:
  assumes ok: "vm_ok v" and f: "f \<in> free_set (frames v)"
  shows "vm_ok (v\<lparr>frames := set_frame (ad f) (frames v)\<rparr>)"
proof -
  have wf: "pmm_wf (frames v)" using ok by (simp add: vm_ok_def)
  have ft: "f < unat (total_frames (frames v))" using f by (simp add: free_set_def)
  note su = set_frame_used [OF wf frame_bound [OF ft]]
  have fs: "free_set (set_frame (ad f) (frames v)) = free_set (frames v) - {f}"
    by (rule free_set_set_frame [OF wf frame_bound [OF ft]])
  have "table_ok (v\<lparr>frames := set_frame (ad f) (frames v)\<rparr>) d" if "table_ok v d" for d
    using that unfolding table_ok_def
  proof (elim disjE exE conjE, goal_cases)
    case 1
    then show ?case by simp
  next
    case (2 g)
    then show ?case using su [OF frame_bound, of g] by (intro disjI2 exI [of _ g]) simp
  qed
  with ok fs show ?thesis by (simp add: vm_ok_def bitmap_kept_def)
qed

lemma new_table_ok:
  assumes ok: "vm_ok v" and d: "d < 1024" "page_tables v ! d = 0" and f: "f \<in> free_set (frames v)" "0 < f"
  shows "vm_ok (new_table d f v)"
proof -
  define v1 where "v1 = v\<lparr>frames := set_frame (ad f) (frames v)\<rparr>"
  have ok1: "vm_ok v1" using taken_ok [OF ok f(1)] by (simp add: v1_def)
  have wf: "pmm_wf (frames v)" using ok by (simp add: vm_ok_def)
  have ft: "f < unat (total_frames (frames v))" and fu: "\<not> frame_used (frames v) f"
    using f(1) by (simp_all add: free_set_def)
  have fm: "f < 0x100000" using ft wf by (simp add: pmm_wf_def)
  have T: "4096 * f + 4096 \<le> 4294967296" using fm by simp
  have ap: "apart (4 * bitmap_words (frames v1)) (bitmap (frames v1)) 4096 (ad (4096 * f))"
    using ok f(1) by (simp add: v1_def vm_ok_def bitmap_kept_def)
  define v2 where "v2 = set_mem (fill_table 0 (\<lambda>i. 0) (ad (4096 * f))) v1"
  have ok2: "vm_ok v2"
    unfolding v2_def by (rule vm_ok_outside [OF ok1 _ ap]) (rule fill_table_outside [OF T])
  have f2: "total_frames (frames v2) = total_frames (frames v)" "bitmap (frames v2) = bitmap (frames v)"
    "bitmap_words (frames v2) = bitmap_words (frames v)" "page_tables v2 = page_tables v"
    "page_directory v2 = page_directory v"
    by (simp_all add: v2_def v1_def set_mem_def bitmap_words_def)
  have used: "frame_used (frames v2) f"
  proof -
    have "frame_used (frames v1) f" using set_frame_used [OF wf frame_bound [OF ft] frame_bound [OF ft]]
      by (simp add: v1_def)
    moreover have "frame_used (frames v2) f = frame_used (frames v1) f"
      unfolding v2_def set_mem_def using pmm_outside(4) [OF _ fill_table_outside [OF T] ap] ok1 ft
      by (simp add: vm_ok_def v1_def)
    ultimately show ?thesis by simp
  qed
  have nt: "new_table d f v = v2\<lparr>page_directory := (page_directory v)[d := ad (4096 * f) OR PRESENT OR WRITABLE],
      page_tables := (page_tables v)[d := ad (4096 * f)]\<rparr>"
    unfolding new_table_def Let_def v2_def v1_def by (simp add: set_mem_def)
  have len: "length (page_directory v) = 1024" "length (page_tables v) = 1024" using ok by (simp_all add: vm_ok_def)
  have f0: "ad (4096 * f) \<noteq> 0" using f(2) fm by (simp add: ad_eq_0_iff)
  have other: "page_tables v ! d' \<noteq> ad (4096 * f)" if "d' < 1024" for d'
  proof
    assume e: "page_tables v ! d' = ad (4096 * f)"
    with f0 table_numbers [OF ok that] obtain g where g: "unat (page_tables v ! d') = 4096 * g" "frame_used (frames v) g"
      by metis
    have "unat (ad (4096 * f)) = 4096 * f" using fm by (simp add: unat_ad)
    with e g have "g = f" by simp
    with g fu show False by simp
  qed
  have "table_ok (new_table d f v) d'" if d': "d' < 1024" for d'
  proof (cases "d' = d")
    case True
    have "apart (4 * bitmap_words (frames v)) (bitmap (frames v)) 4096 (ad (4096 * f))"
      using ap by (simp add: v1_def)
    with True d(1) len ft f(2) used f2 show ?thesis
      unfolding table_ok_def nt by (intro disjI2 exI [of _ f]) (simp add: bitmap_words_def)
  next
    case False
    have "table_ok v2 d'" using ok2 d' by (simp add: vm_ok_def)
    with False f2 show ?thesis unfolding table_ok_def nt by (simp add: bitmap_words_def)
  qed
  moreover have "page_tables (new_table d f v) ! i \<noteq> page_tables (new_table d f v) ! i'"
    if "i < 1024" "i' < 1024" "i \<noteq> i'" "page_tables (new_table d f v) ! i \<noteq> 0" for i i'
    using that len other ok unfolding nt vm_ok_def by (cases "i = d"; cases "i' = d") (simp_all, metis)
  ultimately show ?thesis using ok2 len unfolding vm_ok_def by (simp add: nt)
qed

lemma fill_table_rd:
  assumes "T + 4096 \<le> 4294967296" and "j < 1024"
  shows "rd (fill_table a g (ad T) m) (T + 4 * j) = (if a \<le> j then g j else rd m (T + 4 * j))"
  using fill_table_eq [OF assms(1) le_refl assms(2)] assms(2) by (simp add: fill_table_def)

lemma same_outside_rd_frame:
  assumes "same_outside (ad (4096 * f)) 4096 m m'" and "f2 \<noteq> f" and "j < 1024"
    and "4096 * f + 4096 \<le> 4294967296" and "4096 * f2 + 4096 \<le> 4294967296"
  shows "rd m' (4096 * f2 + 4 * j) = rd m (4096 * f2 + 4 * j)"
proof (rule same_outside_rd [OF assms(1) _ assms(3)])
  have "4096 * f2 + 4096 \<le> 4096 * f \<or> 4096 * f + 4096 \<le> 4096 * f2" using assms(2) by linarith
  then show "apart 4096 (ad (4096 * f)) 4096 (ad (4096 * f2))"
    unfolding ad_def using assms(4,5) by (intro apart_of_nat) auto
qed simp

lemma new_table_translate:
  assumes ok: "vm_ok v" and d: "d < 1024" "page_tables v ! d = 0" and f: "f \<in> free_set (frames v)" "0 < f"
  shows "translate (new_table d f v) vb = translate v vb"
proof -
  define d2 where "d2 = unat (drop_bit 22 vb)"
  define j2 where "j2 = unat (drop_bit 12 vb AND 0x3FF)"
  have db2: "d2 < 1024" "j2 < 1024" using index_bounds by (simp_all add: d2_def j2_def)
  have wf: "pmm_wf (frames v)" using ok by (simp add: vm_ok_def)
  have ft: "f < unat (total_frames (frames v))" and fu: "\<not> frame_used (frames v) f"
    using f(1) by (simp_all add: free_set_def)
  have fm: "f < 0x100000" using ft wf by (simp add: pmm_wf_def)
  then have T: "4096 * f + 4096 \<le> 4294967296" by simp
  define m1 where "m1 = pmem (set_frame (ad f) (frames v))"
  have m: "pmem (frames (new_table d f v)) = fill_table 0 (\<lambda>i. 0) (ad (4096 * f)) m1"
    and pt: "page_tables (new_table d f v) = (page_tables v)[d := ad (4096 * f)]"
    by (simp_all add: new_table_def Let_def set_mem_def m1_def)
  have len: "length (page_tables v) = 1024" using ok by (simp add: vm_ok_def)
  note te = translate_eq [OF new_table_ok [OF assms]] translate_eq [OF ok]
  show ?thesis
  proof (cases "d2 = d")
    case True
    have "unat (ad (4096 * f)) = 4096 * f" using fm by (simp add: unat_ad)
    then have "rd (pmem (frames (new_table d f v))) (unat (page_tables (new_table d f v) ! d2) + 4 * j2) = 0"
      using True d(1) len db2 fill_table_rd [OF T db2(2), of 0] by (simp add: m pt)
    with True d show ?thesis unfolding te Let_def d2_def [symmetric] j2_def [symmetric] by simp
  next
    case False
    then have pd2: "page_tables (new_table d f v) ! d2 = page_tables v ! d2" by (simp add: pt)
    show ?thesis
    proof (cases "page_tables v ! d2 = 0")
      case True
      with pd2 show ?thesis unfolding te Let_def d2_def [symmetric] by simp
    next
      case t2: False
      obtain g where g: "4096 * g + 4096 \<le> 4294967296" "unat (page_tables v ! d2) = 4096 * g"
        "frame_used (frames v) g" "apart (4 * bitmap_words (frames v)) (bitmap (frames v)) 4096 (ad (4096 * g))"
        using table_numbers [OF ok db2(1) t2] by metis
      have "g \<noteq> f" using g(3) fu by auto
      then have "rd (pmem (frames (new_table d f v))) (4096 * g + 4 * j2) = rd m1 (4096 * g + 4 * j2)"
        unfolding m using same_outside_rd_frame [OF fill_table_outside [OF T] _ db2(2) T g(1)] by blast
      also have "\<dots> = rd (pmem (frames v)) (4096 * g + 4 * j2)"
        unfolding m1_def using set_frame_outside [OF wf ft] g(4) db2(2) wf
        by (intro same_outside_rd) (auto simp: pmm_wf_def)
      finally show ?thesis
        unfolding te Let_def d2_def [symmetric] j2_def [symmetric] pd2 g(2) by simp
    qed
  qed
qed

lemma map_page_new:
  assumes ok: "vm_ok v" and t: "page_tables v ! unat (drop_bit 22 va) = 0"
    and a: "pmm_alloc_frame (frames v) = (ad (4096 * f), set_frame (ad f) (frames v))" and f: "ad (4096 * f) \<noteq> 0"
  shows "map_page va pa v = map_page va pa (new_table (unat (drop_bit 22 va)) f v)"
proof -
  have "length (page_tables v) = 1024" using ok by (simp add: vm_ok_def)
  then have "page_tables (new_table (unat (drop_bit 22 va)) f v) ! unat (drop_bit 22 va) = ad (4096 * f)"
    using index_bounds(1) by (simp add: new_table_def Let_def set_mem_def)
  then show ?thesis
    using t a f unfolding map_page_def Let_def
    by (simp add: new_table_def Let_def set_mem_def)
qed

lemma map_page_maps:
  assumes ok: "vm_ok v"
    and t: "page_tables v ! unat (drop_bit 22 va) \<noteq> 0 \<or> fst (pmm_alloc_frame (frames v)) \<noteq> 0"
  shows "vm_ok (map_page va pa v) \<and> (\<forall>vb. translate (map_page va pa v) vb =
      (if drop_bit 12 vb = drop_bit 12 va then Some ((pa AND 0xFFFFF000) OR (vb AND 0xFFF)) else translate v vb))"
proof (cases "page_tables v ! unat (drop_bit 22 va) = 0")
  case False
  then show ?thesis using map_existing [OF ok False] by simp
next
  case True
  let ?d = "unat (drop_bit 22 va)"
  have wf: "pmm_wf (frames v)" using ok by (simp add: vm_ok_def)
  from True t alloc_frame_cases [OF wf] obtain f where f: "f \<in> free_set (frames v)"
    "pmm_alloc_frame (frames v) = (ad (4096 * f), set_frame (ad f) (frames v))" "ad (4096 * f) \<noteq> 0" by auto
  then have f0: "0 < f" by (cases f) (auto simp: ad_0)
  have len: "length (page_tables v) = 1024" using ok by (simp add: vm_ok_def)
  have nt: "page_tables (new_table ?d f v) ! ?d \<noteq> 0"
    using len index_bounds(1) f(3) by (simp add: new_table_def Let_def set_mem_def)
  note n = new_table_ok [OF ok index_bounds(1) True f(1) f0] new_table_translate [OF ok index_bounds(1) True f(1) f0]
  show ?thesis
    unfolding map_page_new [OF ok True f(2,3)] using map_existing [OF n(1) nt] n(2) by simp
qed

text \<open>A frame marked as used changes no translation: no table lies in the bitmap.\<close>

lemma set_frame_translate:
  assumes ok: "vm_ok v" and f: "f \<in> free_set (frames v)"
  shows "translate (v\<lparr>frames := set_frame (ad f) (frames v)\<rparr>) vb = translate v vb"
proof -
  let ?w = "v\<lparr>frames := set_frame (ad f) (frames v)\<rparr>"
  define d where "d = unat (drop_bit 22 vb)"
  define j where "j = unat (drop_bit 12 vb AND 0x3FF)"
  have db: "d < 1024" "j < 1024" using index_bounds by (simp_all add: d_def j_def)
  have wf: "pmm_wf (frames v)" using ok by (simp add: vm_ok_def)
  have ft: "f < unat (total_frames (frames v))" using f by (simp add: free_set_def)
  note te = translate_eq [OF taken_ok [OF assms]] translate_eq [OF ok]
  show ?thesis
  proof (cases "page_tables v ! d = 0")
    case True
    then show ?thesis unfolding te Let_def d_def [symmetric] by simp
  next
    case False
    obtain g where g: "unat (page_tables v ! d) = 4096 * g"
      "apart (4 * bitmap_words (frames v)) (bitmap (frames v)) 4096 (ad (4096 * g))"
      using table_numbers [OF ok db(1) False] by metis
    have "rd (pmem (set_frame (ad f) (frames v))) (4096 * g + 4 * j) = rd (pmem (frames v)) (4096 * g + 4 * j)"
      using set_frame_outside [OF wf ft] g(2) db(2) wf by (intro same_outside_rd) (auto simp: pmm_wf_def)
    then show ?thesis unfolding te Let_def d_def [symmetric] j_def [symmetric] by (simp add: g(1))
  qed
qed

text \<open>
  C3. \<open>map_page va pa\<close>, when the table of \<open>va\<close> exists or a frame can be had for it: the page of
  \<open>va\<close> is translated to the frame of \<open>pa\<close>, every other page as before, and the tables stay
  in order (distinct frames in use, apart from the bitmap).
\<close>

theorem map_page_correct:
  assumes ok: "vm_ok v"
    and t: "page_tables v ! unat (drop_bit 22 va) \<noteq> 0 \<or> fst (pmm_alloc_frame (frames v)) \<noteq> 0"
  shows "vm_ok (map_page va pa v) \<and> (\<forall>vb. translate (map_page va pa v) vb =
      (if drop_bit 12 vb = drop_bit 12 va then Some ((pa AND 0xFFFFF000) OR (vb AND 0xFFF)) else translate v vb))"
  using assms by (rule map_page_maps)

section \<open>Initialisation\<close>

lemma empty_ok:
  assumes "pmm_wf p" and "bitmap_kept p" and "0 < total_frames p" and "frames v = p"
  shows "vm_ok (v\<lparr>page_directory := replicate 1024 0, page_tables := replicate 1024 0\<rparr>)"
  using assms by (simp add: vm_ok_def table_ok_def)

lemma page_parts: "push_bit 12 (drop_bit 12 va) OR (va AND 0xFFF) = (va :: u32)"
  unfolding page_mask by (rule bit_word_eqI) (auto simp: bit_simps)

lemma first_4mb: "drop_bit 22 va = 0 \<longleftrightarrow> va < (0x400000 :: u32)"
proof -
  have "drop_bit 22 va = 0 \<longleftrightarrow> unat va div 2 ^ 22 = 0"
    unfolding word_unat_eq_iff unat_drop_bit32 by simp
  then show ?thesis by (simp add: word_less_nat_alt div_eq_0_iff)
qed

lemma first_page: "drop_bit 12 va = 0 \<longleftrightarrow> va < (0x1000 :: u32)"
proof -
  have "drop_bit 12 va = 0 \<longleftrightarrow> unat va div 2 ^ 12 = 0"
    unfolding word_unat_eq_iff unat_drop_bit32 by simp
  then show ?thesis by (simp add: word_less_nat_alt div_eq_0_iff)
qed

lemma low_index:
  assumes "drop_bit 22 va = (0 :: u32)"
  shows "drop_bit 12 va AND 0x3FF = drop_bit 12 va"
  unfolding page_mask
proof (rule bit_word_eqI)
  fix n :: nat
  have "bit (drop_bit 22 va) (n - 10) = bit (0 :: u32) (n - 10)" using assms by (simp only:)
  then show "bit (drop_bit 12 va AND mask 10) n = bit (drop_bit 12 va) n"
    by (cases "n < 10") (auto simp: bit_simps)
qed

lemma identity_entry:
  assumes "drop_bit 22 va = 0"
  shows "((of_nat (unat (drop_bit 12 va AND 0x3FF)) * 4096 OR PRESENT OR WRITABLE) AND 0xFFFFF000) OR (va AND 0xFFF) = (va :: u32)"
proof -
  have "of_nat (unat (drop_bit 12 va AND 0x3FF)) * 4096 = push_bit 12 (drop_bit 12 va)"
    by (simp only: of_nat_unat32 low_index [OF assms]) (simp add: push_bit_eq_mult)
  moreover have "push_bit 12 (drop_bit 12 va) AND 0xFFFFF000 = push_bit 12 (drop_bit 12 va)"
    unfolding page_mask by (rule bit_word_eqI) (auto simp: bit_simps)
  ultimately show ?thesis
    using entry_addr [of "push_bit 12 (drop_bit 12 va)"] page_parts [of va] by (simp only:)
qed

text \<open>
  C13. \<open>paging_init\<close>, when a frame other than frame 0 can be had for the first table: the
  tables are in order, paging is on, and exactly the addresses from 4 KB up to 4 MB are
  mapped, each to itself; the page at 0 is left out, so that a null pointer faults.
\<close>

theorem paging_init_correct:
  assumes wf: "pmm_wf (frames v)" and bk: "bitmap_kept (frames v)" and tf: "0 < total_frames (frames v)"
    and a: "fst (pmm_alloc_frame (frames v)) \<noteq> 0"
  shows "vm_ok (paging_init v) \<and> cr3_loaded (paging_init v) \<and> bit (cr0 (paging_init v)) 31
    \<and> (\<forall>va. translate (paging_init v) va = (if 0x1000 \<le> va \<and> va < 0x400000 then Some va else None))"
proof -
  define v0 where "v0 = v\<lparr>page_directory := replicate 1024 0, page_tables := replicate 1024 0\<rparr>"
  have ok0: "vm_ok v0" unfolding v0_def by (rule empty_ok [OF wf bk tf refl])
  from alloc_frame_cases [OF wf] a obtain f where f: "f \<in> free_set (frames v)"
    "pmm_alloc_frame (frames v) = (ad (4096 * f), set_frame (ad f) (frames v))" "ad (4096 * f) \<noteq> 0" by auto
  then have f0: "0 < f" by (cases f) (auto simp: ad_0)
  have fm: "f < 0x100000" using f(1) wf by (simp add: free_set_def pmm_wf_def)
  then have T: "4096 * f + 4096 \<le> 4294967296" by simp
  have z: "page_tables v0 ! 0 = 0" by (simp add: v0_def)
  have ok1: "vm_ok (new_table 0 f v0)" using new_table_ok [OF ok0 _ z _ f0] f(1) by (simp add: v0_def)
  have pt1: "page_tables (new_table 0 f v0) = (replicate 1024 0)[0 := ad (4096 * f)]"
    by (simp add: new_table_def Let_def set_mem_def v0_def)
  then have "page_tables (new_table 0 f v0) ! 0 = ad (4096 * f)" by (simp del: list_update.simps)
  from table_numbers [OF ok1, of 0] this f(3) T have
    ap: "apart (4 * bitmap_words (frames (new_table 0 f v0))) (bitmap (frames (new_table 0 f v0))) 4096 (ad (4096 * f))"
    by (metis zero_less_numeral)
  define g where "g = (\<lambda>i. (of_nat i * 4096) OR PRESENT OR WRITABLE :: u32)"
  define v2 where "v2 = set_mem (fill_table 1 g (ad (4096 * f))) (new_table 0 f v0)"
  have ok2: "vm_ok v2"
    unfolding v2_def by (rule vm_ok_outside [OF ok1 _ ap]) (rule fill_table_outside [OF T])
  have pi: "paging_init v = v2\<lparr>cr3_loaded := True, cr0 := cr0 v2 OR 0x80000000\<rparr>"
    unfolding paging_init_def Let_def v2_def new_table_def v0_def g_def
    by (simp add: f(2) set_mem_def enable_paging_def load_page_directory_def)
  have ok: "vm_ok (paging_init v)" using ok2 by (simp add: pi vm_ok_def table_ok_def)
  have pt: "page_tables (paging_init v) = (replicate 1024 0)[0 := ad (4096 * f)]"
    by (simp add: pi v2_def set_mem_def pt1)
  have "unat (ad (4096 * f)) = 4096 * f" using fm by (simp add: unat_ad)
  then have pte: "rd (pmem (frames (paging_init v))) (unat (ad (4096 * f)) + 4 * j) = (if j = 0 then 0 else g j)"
    if "j < 1024" for j
    using that fill_table_rd [OF T that] fill_table_rd [OF T, of 0 0]
    by (simp add: pi v2_def set_mem_def new_table_def Let_def v0_def)
  have "translate (paging_init v) va = (if 0x1000 \<le> va \<and> va < 0x400000 then Some va else None)" for va
  proof (cases "drop_bit 22 va = 0")
    case False
    then have "unat (drop_bit 22 va) \<noteq> 0" by (simp add: unat_eq_0)
    then have "page_tables (paging_init v) ! unat (drop_bit 22 va) = 0"
      using index_bounds(1) [of va] by (simp add: pt nth_list_update del: list_update.simps)
    then have "translate (paging_init v) va = None"
      unfolding translate_eq [OF ok] Let_def by simp
    with False show ?thesis by (simp add: first_4mb)
  next
    case True
    define j where "j = unat (drop_bit 12 va AND 0x3FF)"
    have j: "j < 1024" using index_bounds(2) by (simp add: j_def)
    have j0: "j = 0 \<longleftrightarrow> va < 0x1000"
      by (simp only: j_def low_index [OF True] unat_eq_0 first_page)
    have "page_tables (paging_init v) ! unat (drop_bit 22 va) = ad (4096 * f)"
      using True by (simp add: pt del: list_update.simps)
    then have "translate (paging_init v) va = (if (if j = 0 then 0 else g j) AND 1 = 0 then None
        else Some (((if j = 0 then 0 else g j) AND 0xFFFFF000) OR (va AND 0xFFF)))"
      unfolding translate_eq [OF ok] Let_def j_def [symmetric] using f(3) pte [OF j] by simp
    also have "\<dots> = (if 0x1000 \<le> va then Some va else None)"
      using j0 identity_entry [OF True, folded j_def] entry_present [of "of_nat j * 4096"]
      by (auto simp: g_def not_less not_le)
    finally show ?thesis using True by (simp add: first_4mb)
  qed
  moreover have "bit (cr0 (paging_init v)) 31"
  proof -
    have "(0x80000000 :: u32) = push_bit 31 1" by (simp add: push_bit_eq_mult)
    then show ?thesis by (simp only: pi) (simp add: bit_simps)
  qed
  ultimately show ?thesis using ok by (simp add: pi)
qed

section \<open>The theorems on a concrete machine\<close>

definition vm_64 :: vm where
  "vm_64 = \<lparr>frames = pmm_64, page_directory = replicate 1024 0, page_tables = replicate 1024 0,
     cr3_loaded = False, cr0 = 1, flushed = []\<rparr>"

lemma pmm_64_free: "free_set pmm_64 = {33}"
proof -
  have w1: "bit (0xFFFFFFFD :: u32) j \<longleftrightarrow> j \<noteq> 1" if "j < 32" for j
  proof -
    have "(0xFFFFFFFD :: u32) = NOT (2 ^ 1)" by (simp add: not_eq_complement)
    then show ?thesis using that by (simp only:) (simp add: bit_simps)
  qed
  have "frame_used pmm_64 f \<longleftrightarrow> f \<noteq> 33" if "f < 64" for f
  proof (cases "f < 32")
    case True
    then have "f div 32 = 0" by simp
    moreover have "\<forall>j<32. bit (0xFFFFFFFF :: u32) j" using word32_full by blast
    moreover have "f mod 32 < 32" by simp
    ultimately have "bit (rd (pmem pmm_64) (0x2000 + 4 * (f div 32))) (f mod 32)"
      using pmm_64_words(1) by (metis add.right_neutral mult_zero_right)
    moreover have "unat (bitmap pmm_64) = 0x2000" by (simp add: pmm_64_def)
    ultimately show ?thesis using True by (simp add: frame_used_def)
  next
    case False
    with that have d: "f div 32 = 1" by simp
    then have dm: "f mod 32 = f - 32" using mult_div_mod_eq [of 32 f] by simp
    have "unat (bitmap pmm_64) = 0x2000" by (simp add: pmm_64_def)
    then have "frame_used pmm_64 f = bit (rd (pmem pmm_64) 0x2004) (f - 32)"
      unfolding frame_used_def d dm by simp
    also have "\<dots> = (f - 32 \<noteq> 1)" unfolding pmm_64_words(2) using that False by (intro w1) simp
    finally show ?thesis using False by auto
  qed
  then show ?thesis by (auto simp: free_set_def pmm_64_def)
qed

lemma vm_64_facts: "bitmap_kept (frames vm_64)" "vm_ok vm_64" "pmm_alloc_frame (frames vm_64) = (0x21000, set_frame 33 pmm_64)"
proof -
  show bk: "bitmap_kept (frames vm_64)"
    by (simp add: bitmap_kept_def vm_64_def pmm_64_free) (simp add: pmm_64_def bitmap_words_def ad_def apart_def)
  have "0 < total_frames (frames vm_64)" by (simp add: vm_64_def pmm_64_def)
  from empty_ok [OF _ bk this refl] show "vm_ok vm_64" by (simp add: vm_64_def pmm_64_wf)
  show "pmm_alloc_frame (frames vm_64) = (0x21000, set_frame 33 pmm_64)"
    by (simp add: vm_64_def pmm_alloc_frame_def pmm_64_first)
qed

lemma paging_init_correct_witness:
  "translate (paging_init vm_64) 0x5123 = Some 0x5123 \<and> translate (paging_init vm_64) 0 = None"
proof -
  have "0 < total_frames (frames vm_64)" "pmm_wf (frames vm_64)" "fst (pmm_alloc_frame (frames vm_64)) \<noteq> 0"
    using pmm_64_wf by (simp_all add: vm_64_facts(3)) (simp_all add: vm_64_def pmm_64_def)
  from paging_init_correct [OF this(2) vm_64_facts(1) this(1,3)] show ?thesis by simp
qed

lemma map_page_correct_witness:
  "translate (map_page 0x400000 0x300FFF vm_64) 0x400123 = Some 0x300123"
proof -
  have "fst (pmm_alloc_frame (frames vm_64)) \<noteq> 0" by (simp add: vm_64_facts(3))
  with map_page_correct [OF vm_64_facts(2), where va = "0x400000" and pa = "0x300FFF"] show ?thesis by simp
qed

end
