(* ===== verification/Ring.thy ===== *)
theory Ring imports Prelude begin

text \<open>
  A bounded queue as an interface, and the index arithmetic of the ring buffers that
  implement it: the keyboard's, the mouse's and the log's.
\<close>

section \<open>A bounded queue\<close>

text \<open>
  \<open>contents s\<close> are the elements from the oldest on; \<open>put\<close> is only promised to keep
  them while fewer than \<open>capacity\<close> are waiting.
\<close>

locale bounded_queue =
  fixes put :: "'e \<Rightarrow> 's \<Rightarrow> 's" and get :: "'s \<Rightarrow> 'e option \<times> 's"
    and contents :: "'s \<Rightarrow> 'e list" and capacity :: nat and ok :: "'s \<Rightarrow> bool"
  assumes put_ok: "ok s \<Longrightarrow> length (contents s) < capacity \<Longrightarrow> ok (put e s) \<and> contents (put e s) = contents s @ [e]"
    and get_ok: "ok s \<Longrightarrow> contents s = e # es \<Longrightarrow> \<exists>s'. get s = (Some e, s') \<and> ok s' \<and> contents s' = es"
    and get_empty: "ok s \<Longrightarrow> contents s = [] \<Longrightarrow> get s = (None, s)"

text \<open>A run of interrupts and reads, and what the reads return.\<close>

datatype 'e queue_op = Put 'e | Get

fun queue_run :: "('e \<Rightarrow> 's \<Rightarrow> 's) \<Rightarrow> ('s \<Rightarrow> 'e option \<times> 's) \<Rightarrow> 'e queue_op list \<Rightarrow> 's \<Rightarrow> 'e option list \<times> 's" where
  "queue_run put get [] s = ([], s)"
| "queue_run put get (Put e # ops) s = queue_run put get ops (put e s)"
| "queue_run put get (Get # ops) s =
     (let (x, s) = get s; (xs, s) = queue_run put get ops s in (x # xs, s))"

text \<open>The same run on a list: what the reads return, the elements left, and the most that ever waited.\<close>

fun list_run :: "'e queue_op list \<Rightarrow> 'e list \<Rightarrow> 'e option list \<times> 'e list" where
  "list_run [] q = ([], q)"
| "list_run (Put e # ops) q = list_run ops (q @ [e])"
| "list_run (Get # ops) [] = (let (xs, q) = list_run ops [] in (None # xs, q))"
| "list_run (Get # ops) (e # q) = (let (xs, q) = list_run ops q in (Some e # xs, q))"

fun most_waiting :: "'e queue_op list \<Rightarrow> nat \<Rightarrow> nat" where
  "most_waiting [] n = n"
| "most_waiting (Put e # ops) n = most_waiting ops (n + 1)"
| "most_waiting (Get # ops) n = max n (most_waiting ops (n - 1))"

lemma most_waiting_ge: "n \<le> most_waiting ops n"
  by (induction ops n rule: most_waiting.induct) auto

text \<open>A loop that handles every element that waits, as long as a read returns one.\<close>

partial_function (option) drain :: "('s \<Rightarrow> 'e option \<times> 's) \<Rightarrow> ('e \<Rightarrow> 'c \<Rightarrow> 'c) \<Rightarrow> 's \<Rightarrow> 'c \<Rightarrow> ('s \<times> 'c) option" where
  "drain get f s c = (case get s of (None, s) \<Rightarrow> Some (s, c) | (Some e, s) \<Rightarrow> drain get f s (f e c))"

context bounded_queue begin

lemma drain_handles_all:
  "ok s \<Longrightarrow> \<exists>s'. drain get f s c = Some (s', fold f (contents s) c) \<and> ok s' \<and> contents s' = []"
proof (induction "contents s" arbitrary: s c)
  case Nil
  then show ?case using get_empty [of s] by (subst drain.simps) simp
next
  case (Cons e es)
  from get_ok [OF Cons.prems Cons.hyps(2) [symmetric]] obtain s' where
    s': "get s = (Some e, s')" "ok s'" "contents s' = es" by blast
  from Cons.hyps(1) [OF s'(3) [symmetric] s'(2), of "f e c"] s' Cons.hyps(2) [symmetric] show ?case
    by (subst drain.simps) simp
qed

lemma queue_run_fifo:
  "ok s \<Longrightarrow> most_waiting ops (length (contents s)) \<le> capacity \<Longrightarrow>
   fst (queue_run put get ops s) = fst (list_run ops (contents s))
   \<and> contents (snd (queue_run put get ops s)) = snd (list_run ops (contents s))
   \<and> ok (snd (queue_run put get ops s))"
proof (induction ops arbitrary: s)
  case Nil
  then show ?case by simp
next
  case (Cons x ops)
  show ?case
  proof (cases x)
    case (Put e)
    have "length (contents s) < capacity"
      using Cons.prems(2) most_waiting_ge [of "length (contents s) + 1" ops] by (simp add: Put)
    with put_ok [OF Cons.prems(1) this, of e] Cons.IH [of "put e s"] Cons.prems(2) Put show ?thesis by simp
  next
    case Get
    show ?thesis
    proof (cases "contents s")
      case Nil
      with get_empty [OF Cons.prems(1)] Cons.IH [of s] Cons.prems Get show ?thesis
        by (auto simp: split_beta)
    next
      case (Cons e es)
      with get_ok [OF \<open>ok s\<close>] obtain s' where "get s = (Some e, s')" "ok s'" "contents s' = es" by blast
      with Cons.IH [of s'] Cons.prems(2) Cons Get show ?thesis by (auto simp: split_beta)
    qed
  qed
qed

end

section \<open>Ring indices\<close>

text \<open>The elements of a ring of \<open>n\<close> cells from index \<open>t\<close> up to, not including, index \<open>h\<close>.\<close>

definition ring_count :: "nat \<Rightarrow> nat \<Rightarrow> nat \<Rightarrow> nat" where
  "ring_count n h t = (h + n - t) mod n"

definition ring_contents :: "'e list \<Rightarrow> nat \<Rightarrow> nat \<Rightarrow> 'e list" where
  "ring_contents b h t = map (\<lambda>i. b ! ((t + i) mod length b)) [0..<ring_count (length b) h t]"

lemma length_ring_contents [simp]: "length (ring_contents b h t) = ring_count (length b) h t"
  by (simp add: ring_contents_def)

lemma ring_count_empty: "h < n \<Longrightarrow> t < n \<Longrightarrow> ring_count n h t = 0 \<longleftrightarrow> h = t"
  unfolding ring_count_def
  by (cases "t \<le> h") (auto simp: mod_if le_imp_diff_is_add)

lemma ring_head: "h < n \<Longrightarrow> t < n \<Longrightarrow> (t + ring_count n h t) mod n = h"
  unfolding ring_count_def by (cases "t \<le> h") (auto simp: mod_if)

lemma ring_count_Suc:
  assumes "h < n" and "t < n" and "ring_count n h t < n - 1"
  shows "ring_count n (Suc h mod n) t = Suc (ring_count n h t)"
  using assms unfolding ring_count_def by (cases "t \<le> h") (auto simp: mod_if)

lemma ring_count_pop:
  assumes "h < n" and "t < n" and "h \<noteq> t"
  shows "ring_count n h t = Suc (ring_count n h (Suc t mod n))"
  using assms unfolding ring_count_def by (cases "t < h") (auto simp: mod_if)

lemma ring_index_ne:
  assumes "h < n" and "t < n" and "i < ring_count n h t"
  shows "h \<noteq> (t + i) mod n"
proof
  let ?c = "ring_count n h t"
  assume "h = (t + i) mod n"
  then have "(t + ?c) mod n = (t + i) mod n" using ring_head [OF assms(1,2)] by simp
  moreover have "t + i \<le> t + ?c" using assms(3) by simp
  ultimately have "n dvd (t + ?c) - (t + i)" using mod_eq_dvd_iff_nat by blast
  then have "n dvd ?c - i" by simp
  moreover have "0 < ?c - i" "?c - i < n" using assms by (auto simp: ring_count_def less_imp_diff_less)
  ultimately show False using nat_dvd_not_less by blast
qed

lemma ring_put:
  assumes "h < length b" and "t < length b" and "ring_count (length b) h t < length b - 1"
  shows "ring_contents (b[h := e]) (Suc h mod length b) t = ring_contents b h t @ [e]"
proof -
  have "map (\<lambda>i. b[h := e] ! ((t + i) mod length b)) [0..<ring_count (length b) h t] = ring_contents b h t"
    using ring_index_ne [OF assms(1,2)] by (auto simp: ring_contents_def)
  then show ?thesis
    using assms ring_head [OF assms(1,2)] by (simp add: ring_contents_def ring_count_Suc)
qed

lemma ring_get:
  assumes "h < length b" and "t < length b" and "h \<noteq> t"
  shows "ring_contents b h t = b ! t # ring_contents b h (Suc t mod length b)"
proof -
  have "ring_contents b h t = map (\<lambda>i. b ! ((t + i) mod length b)) (0 # map Suc [0..<ring_count (length b) h (Suc t mod length b)])"
    using ring_count_pop [OF assms] by (simp add: ring_contents_def upt_conv_Cons map_Suc_upt del: upt_Suc)
  then show ?thesis using assms by (simp add: ring_contents_def mod_simps)
qed

lemma ring_contents_Nil: "h < length b \<Longrightarrow> t < length b \<Longrightarrow> ring_contents b h t = [] \<longleftrightarrow> h = t"
  using ring_count_empty [of h "length b" t] by (metis length_0_conv length_ring_contents)

end
