(* ===== verification/Input.thy ===== *)
theory Input imports Ring Vga begin

text \<open>
  The input devices: the keyboard (\<^verbatim>\<open>drivers/keyboard.c\<close>) and the mouse
  (\<^verbatim>\<open>drivers/mouse.c\<close>), whose interrupt handlers feed a ring buffer each, the switch
  \<^verbatim>\<open>core/mouse_mode.c\<close> and the line editor of \<^verbatim>\<open>core/console.c\<close>.  Both rings are
  interpreted as bounded queues.
\<close>

section \<open>The keyboard\<close>

record keyboard =
  keyboard_buffer :: "u8 list"
  buffer_head :: nat
  buffer_tail :: nat
  kbd_io :: io_trace

definition keymap :: "u8 list" where
  "keymap =
     (let keys = [0, 27] @ bytes_of ''1234567890-='' @ [8, 9] @ bytes_of ''qwertyuiop[]'' @ [10, 0]
        @ bytes_of ''asdfghjkl;'' @ [39] @ bytes_of ''`'' @ [0, 92] @ bytes_of ''zxcvbnm,./'' @ [0]
        @ bytes_of ''*'' @ [0, 32]
      in keys @ replicate (128 - length keys) 0)"

definition keyboard_read_scancode :: "device \<Rightarrow> keyboard \<Rightarrow> u8 \<times> keyboard" where
  "keyboard_read_scancode dev k = (let (x, tr) = inb dev 0x60 (kbd_io k) in (x, k\<lparr>kbd_io := tr\<rparr>))"

definition keyboard_scancode_to_ascii :: "u8 \<Rightarrow> u8" where
  "keyboard_scancode_to_ascii scancode = (if scancode < 128 then keymap ! unat scancode else 0)"

text \<open>The character goes into the ring whether or not there is room for it.\<close>

definition keyboard_put :: "u8 \<Rightarrow> keyboard \<Rightarrow> keyboard" where
  "keyboard_put c k = k\<lparr>keyboard_buffer := (keyboard_buffer k)[buffer_head k := c],
                        buffer_head := (buffer_head k + 1) mod 256\<rparr>"

definition keyboard_irq_handler :: "device \<Rightarrow> keyboard \<Rightarrow> keyboard" where
  "keyboard_irq_handler dev k =
     (let (scancode, k) = keyboard_read_scancode dev k
      in if scancode AND 0x80 \<noteq> 0 then k\<lparr>kbd_io := pic_send_eoi 1 (kbd_io k)\<rparr>
         else let c = keyboard_scancode_to_ascii scancode;
                  k = (if c \<noteq> 0 then keyboard_put c k else k)
              in k\<lparr>kbd_io := pic_send_eoi 1 (kbd_io k)\<rparr>)"

definition keyboard_has_input :: "keyboard \<Rightarrow> bool" where
  "keyboard_has_input k \<longleftrightarrow> buffer_head k \<noteq> buffer_tail k"

definition keyboard_getchar :: "keyboard \<Rightarrow> u8 \<times> keyboard" where
  "keyboard_getchar k =
     (if \<not> keyboard_has_input k then (0, k)
      else (keyboard_buffer k ! buffer_tail k, k\<lparr>buffer_tail := (buffer_tail k + 1) mod 256\<rparr>))"

section \<open>The mouse\<close>

record mouse_event =
  dx :: int
  dy :: int
  scroll :: int
  buttons :: u8

record mouse =
  mouse_buffer :: "mouse_event list"
  buf_head :: nat
  buf_tail :: nat
  packet :: "u8 list"
  packet_index :: nat
  has_wheel :: bool
  mouse_io :: io_trace

definition buffer_empty :: "mouse \<Rightarrow> bool" where
  "buffer_empty m \<longleftrightarrow> buf_head m = buf_tail m"

definition buffer_full :: "mouse \<Rightarrow> bool" where
  "buffer_full m \<longleftrightarrow> (buf_head m + 1) mod 32 = buf_tail m"

definition buffer_push :: "mouse_event \<Rightarrow> mouse \<Rightarrow> mouse" where
  "buffer_push ev m =
     (if buffer_full m then m
      else m\<lparr>mouse_buffer := (mouse_buffer m)[buf_head m := ev], buf_head := (buf_head m + 1) mod 32\<rparr>)"

definition mouse_has_event :: "mouse \<Rightarrow> bool" where
  "mouse_has_event m \<longleftrightarrow> \<not> buffer_empty m"

definition mouse_read_event :: "mouse \<Rightarrow> mouse_event option \<times> mouse" where
  "mouse_read_event m =
     (if buffer_empty m then (None, m)
      else (Some (mouse_buffer m ! buf_tail m), m\<lparr>buf_tail := (buf_tail m + 1) mod 32\<rparr>))"

text \<open>Waiting for the controller: at most 100000 reads of its status.\<close>

fun mouse_wait :: "(u8 \<Rightarrow> bool) \<Rightarrow> device \<Rightarrow> nat \<Rightarrow> io_trace \<Rightarrow> io_trace" where
  "mouse_wait ready dev 0 tr = tr"
| "mouse_wait ready dev (Suc n) tr =
     (let (x, tr) = inb dev 0x64 tr in if ready x then tr else mouse_wait ready dev n tr)"

definition mouse_wait_input :: "device \<Rightarrow> io_trace \<Rightarrow> io_trace" where
  "mouse_wait_input dev = mouse_wait (\<lambda>x. x AND 2 = 0) dev 100000"

definition mouse_wait_output :: "device \<Rightarrow> io_trace \<Rightarrow> io_trace" where
  "mouse_wait_output dev = mouse_wait (\<lambda>x. x AND 1 \<noteq> 0) dev 100000"

definition mouse_write :: "device \<Rightarrow> u8 \<Rightarrow> io_trace \<Rightarrow> io_trace" where
  "mouse_write dev val tr =
     (let tr = mouse_wait_input dev tr; tr = outb 0x64 0xD4 tr; tr = mouse_wait_input dev tr
      in outb 0x60 val tr)"

definition mouse_read :: "device \<Rightarrow> io_trace \<Rightarrow> u8 \<times> io_trace" where
  "mouse_read dev tr = inb dev 0x60 (mouse_wait_output dev tr)"

definition mouse_enable_wheel_probe :: "device \<Rightarrow> mouse \<Rightarrow> mouse" where
  "mouse_enable_wheel_probe dev m =
     (let tr = snd (mouse_read dev (mouse_write dev 200 (mouse_write dev 0xF3 (mouse_io m))));
          tr = snd (mouse_read dev (mouse_write dev 100 (mouse_write dev 0xF3 tr)));
          tr = snd (mouse_read dev (mouse_write dev 80 (mouse_write dev 0xF3 tr)));
          (id, tr) = mouse_read dev (mouse_write dev 0xF2 tr);
          m = m\<lparr>mouse_io := tr\<rparr>
      in if id = 3 then m\<lparr>has_wheel := True\<rparr> else m)"

definition mouse_set_defaults :: "device \<Rightarrow> mouse \<Rightarrow> mouse" where
  "mouse_set_defaults dev m =
     (let m = m\<lparr>mouse_io := snd (mouse_read dev (mouse_write dev 0xF6 (mouse_io m))), has_wheel := False\<rparr>;
          m = mouse_enable_wheel_probe dev m
      in m\<lparr>mouse_io := snd (mouse_read dev (mouse_write dev 0xF4 (mouse_io m)))\<rparr>)"

definition mouse_init :: "device \<Rightarrow> mouse \<Rightarrow> mouse" where
  "mouse_init dev m =
     (let tr = outb 0x64 0xA8 (mouse_wait_input dev (mouse_io m));
          tr = outb 0x64 0x20 (mouse_wait_input dev tr);
          (status, tr) = inb dev 0x60 (mouse_wait_output dev tr);
          status = (status OR 2) AND NOT 0x20;
          tr = outb 0x64 0x60 (mouse_wait_input dev tr);
          tr = outb 0x60 status (mouse_wait_input dev tr);
          m = m\<lparr>mouse_io := tr, buf_head := 0, buf_tail := 0, packet_index := 0\<rparr>;
          m = mouse_set_defaults dev m
      in m\<lparr>mouse_io := pic_send_eoi 12 (mouse_io m)\<rparr>)"

text \<open>A byte of a packet, and the event when it was the last one.\<close>

definition mouse_data :: "u8 \<Rightarrow> mouse \<Rightarrow> mouse" where
  "mouse_data data m =
     (let m = m\<lparr>packet := (packet m)[packet_index m := data], packet_index := packet_index m + 1\<rparr>;
          needed = (if has_wheel m then 4 else 3)
      in if packet_index m < needed then m
         else let m = m\<lparr>packet_index := 0\<rparr>;
                  ev = \<lparr>dx = sint (packet m ! 1), dy = - sint (packet m ! 2),
                        scroll = (if has_wheel m then sint (packet m ! 3) else 0),
                        buttons = packet m ! 0 AND 0x07\<rparr>
              in buffer_push ev m)"

definition mouse_irq_handler :: "device \<Rightarrow> mouse \<Rightarrow> mouse" where
  "mouse_irq_handler dev m =
     (let (status, tr) = inb dev 0x64 (mouse_io m); m = m\<lparr>mouse_io := tr\<rparr>
      in if status AND 0x20 = 0 then m\<lparr>mouse_io := pic_send_eoi 12 (mouse_io m)\<rparr>
         else let (data, tr) = inb dev 0x60 (mouse_io m);
                  m = mouse_data data (m\<lparr>mouse_io := tr\<rparr>)
              in m\<lparr>mouse_io := pic_send_eoi 12 (mouse_io m)\<rparr>)"

section \<open>The mouse switch\<close>

definition mouse_enable :: "int \<Rightarrow> int" where "mouse_enable enable = (if enable \<noteq> 0 then 1 else 0)"

definition mouse_is_enabled :: "int \<Rightarrow> int" where "mouse_is_enabled mouse_enabled = mouse_enabled"

section \<open>The line editor\<close>

record console =
  line_buffer :: "u8 list"
  line_length :: nat
  con_screen :: vga

definition console_clear_line :: "console \<Rightarrow> console" where
  "console_clear_line c = c\<lparr>line_buffer := fold (\<lambda>i b. b[i := 0]) [0..<256] (line_buffer c), line_length := 0\<rparr>"

definition console_init :: "console \<Rightarrow> console" where
  "console_init c = c\<lparr>line_length := 0, line_buffer := fold (\<lambda>i b. b[i := 0]) [0..<256] (line_buffer c)\<rparr>"

definition console_handle_char :: "u8 \<Rightarrow> console \<Rightarrow> console" where
  "console_handle_char ch c =
     (if ch = 8
      then (if line_length c > 0
            then c\<lparr>line_length := line_length c - 1, line_buffer := (line_buffer c)[line_length c - 1 := 0],
                   con_screen := vga_putchar 8 (con_screen c)\<rparr>
            else c)
      else if ch = 10 then c\<lparr>con_screen := vga_putchar 10 (con_screen c), line_length := 0\<rparr>
      else if line_length c < 256 - 1
        then c\<lparr>line_buffer := (line_buffer c)[line_length c := ch], line_length := line_length c + 1,
               con_screen := vga_putchar ch (con_screen c)\<rparr>
      else c)"

definition console_get_line :: "console \<Rightarrow> u8 list" where
  "console_get_line c = line_buffer c"

section \<open>The rings are bounded queues\<close>

definition keyboard_ok :: "keyboard \<Rightarrow> bool" where
  "keyboard_ok k \<longleftrightarrow> length (keyboard_buffer k) = 256 \<and> buffer_head k < 256 \<and> buffer_tail k < 256"

definition keyboard_contents :: "keyboard \<Rightarrow> u8 list" where
  "keyboard_contents k = ring_contents (keyboard_buffer k) (buffer_head k) (buffer_tail k)"

text \<open>The reader of the queue: \<open>keyboard_getchar\<close> where \<open>keyboard_has_input\<close>, as the shell calls them.\<close>

definition keyboard_get :: "keyboard \<Rightarrow> u8 option \<times> keyboard" where
  "keyboard_get k = (if keyboard_has_input k then (let (c, k) = keyboard_getchar k in (Some c, k)) else (None, k))"

interpretation kbd: bounded_queue keyboard_put keyboard_get keyboard_contents 255 keyboard_ok
proof
  fix k and c :: u8
  assume ok: "keyboard_ok k" and room: "length (keyboard_contents k) < 255"
  then show "keyboard_ok (keyboard_put c k) \<and> keyboard_contents (keyboard_put c k) = keyboard_contents k @ [c]"
    using ring_put [of "buffer_head k" "keyboard_buffer k" "buffer_tail k" c]
    by (simp add: keyboard_ok_def keyboard_put_def keyboard_contents_def)
next
  fix k and c :: u8 and cs
  assume ok: "keyboard_ok k" and c: "keyboard_contents k = c # cs"
  then have ne: "buffer_head k \<noteq> buffer_tail k"
    using ring_contents_Nil [of "buffer_head k" "keyboard_buffer k" "buffer_tail k"]
    by (auto simp: keyboard_ok_def keyboard_contents_def)
  with ok c ring_get [of "buffer_head k" "keyboard_buffer k" "buffer_tail k"]
  show "\<exists>k'. keyboard_get k = (Some c, k') \<and> keyboard_ok k' \<and> keyboard_contents k' = cs"
    by (simp add: keyboard_get_def keyboard_getchar_def keyboard_has_input_def keyboard_ok_def keyboard_contents_def)
next
  fix k
  assume ok: "keyboard_ok k" and "keyboard_contents k = []"
  then show "keyboard_get k = (None, k)"
    using ok ring_contents_Nil [of "buffer_head k" "keyboard_buffer k" "buffer_tail k"]
    by (simp add: keyboard_get_def keyboard_has_input_def keyboard_ok_def keyboard_contents_def)
qed

definition mouse_ok :: "mouse \<Rightarrow> bool" where
  "mouse_ok m \<longleftrightarrow> length (mouse_buffer m) = 32 \<and> buf_head m < 32 \<and> buf_tail m < 32
     \<and> length (packet m) = 4 \<and> packet_index m < (if has_wheel m then 4 else 3)"

definition mouse_contents :: "mouse \<Rightarrow> mouse_event list" where
  "mouse_contents m = ring_contents (mouse_buffer m) (buf_head m) (buf_tail m)"

lemma mouse_full_iff:
  "mouse_ok m \<Longrightarrow> buffer_full m \<longleftrightarrow> length (mouse_contents m) = 31"
  unfolding mouse_ok_def buffer_full_def mouse_contents_def
  by (auto simp: ring_count_def mod_if split: if_splits)

interpretation mq: bounded_queue buffer_push mouse_read_event mouse_contents 31 mouse_ok
proof
  fix m ev
  assume ok: "mouse_ok m" and room: "length (mouse_contents m) < 31"
  then have "\<not> buffer_full m" using mouse_full_iff by simp
  with ok room show "mouse_ok (buffer_push ev m) \<and> mouse_contents (buffer_push ev m) = mouse_contents m @ [ev]"
    using ring_put [of "buf_head m" "mouse_buffer m" "buf_tail m" ev]
    by (simp add: mouse_ok_def buffer_push_def mouse_contents_def)
next
  fix m ev es
  assume ok: "mouse_ok m" and c: "mouse_contents m = ev # es"
  then have ne: "buf_head m \<noteq> buf_tail m"
    using ring_contents_Nil [of "buf_head m" "mouse_buffer m" "buf_tail m"]
    by (auto simp: mouse_ok_def mouse_contents_def)
  with ok c ring_get [of "buf_head m" "mouse_buffer m" "buf_tail m"]
  show "\<exists>m'. mouse_read_event m = (Some ev, m') \<and> mouse_ok m' \<and> mouse_contents m' = es"
    by (simp add: mouse_read_event_def buffer_empty_def mouse_ok_def mouse_contents_def)
next
  fix m
  assume ok: "mouse_ok m" and "mouse_contents m = []"
  then show "mouse_read_event m = (None, m)"
    using ok ring_contents_Nil [of "buf_head m" "mouse_buffer m" "buf_tail m"]
    by (simp add: mouse_read_event_def buffer_empty_def mouse_ok_def mouse_contents_def)
qed

section \<open>The keyboard's queue\<close>

text \<open>
  C22. The keyboard ring is a first-in first-out queue: in any interleaving of key presses and
  reads in which at most 255 characters ever wait, the reads return what the same run on a
  list returns, and the ring holds what is left of the list.
\<close>

theorem keyboard_fifo:
  assumes "keyboard_ok k" and "most_waiting ops (length (keyboard_contents k)) \<le> 255"
  shows "fst (queue_run keyboard_put keyboard_get ops k) = fst (list_run ops (keyboard_contents k))
    \<and> keyboard_contents (snd (queue_run keyboard_put keyboard_get ops k)) = snd (list_run ops (keyboard_contents k))"
  using kbd.queue_run_fifo [OF assms] by simp

definition keyboard_start :: keyboard where
  "keyboard_start = \<lparr>keyboard_buffer = replicate 256 0, buffer_head = 0, buffer_tail = 0, kbd_io = []\<rparr>"

lemma keyboard_start_ok: "keyboard_ok keyboard_start" "keyboard_contents keyboard_start = []"
  by (simp_all add: keyboard_start_def keyboard_ok_def keyboard_contents_def ring_contents_def ring_count_def)

lemma keyboard_fifo_witness:
  "fst (queue_run keyboard_put keyboard_get [Put 97, Put 98, Get, Put 99, Get, Get, Get] keyboard_start)
     = [Some 97, Some 98, Some 99, None]"
  using keyboard_fifo [OF keyboard_start_ok(1), of "[Put 97, Put 98, Get, Put 99, Get, Get, Get]"]
  by (simp add: keyboard_start_ok)

text \<open>
  The handler does not test whether the ring is full: the key press after 255 that wait
  makes the ring look empty, and all of them are lost.
\<close>

theorem keyboard_overflow_loses_all:
  assumes ok: "keyboard_ok k" and full: "length (keyboard_contents k) = 255"
  shows "\<not> keyboard_has_input (keyboard_put c k) \<and> keyboard_getchar (keyboard_put c k) = (0, keyboard_put c k)"
proof -
  have "(buffer_head k + 1) mod 256 = buffer_tail k"
    using ok full by (auto simp: keyboard_ok_def keyboard_contents_def ring_count_def mod_if split: if_splits)
  then show ?thesis by (simp add: keyboard_has_input_def keyboard_put_def keyboard_getchar_def)
qed

lemma keyboard_overflow_loses_all_witness:
  "\<not> keyboard_has_input (keyboard_put 97 (keyboard_start\<lparr>buffer_tail := 1\<rparr>))"
  using keyboard_overflow_loses_all [of "keyboard_start\<lparr>buffer_tail := 1\<rparr>" 97]
  by (simp add: keyboard_ok_def keyboard_start_def keyboard_contents_def ring_count_def)

section \<open>Mouse packets\<close>

text \<open>
  C23. A packet of three bytes (four with a wheel) appends one event, with the signed
  movements, \<open>y\<close> turned to screen coordinates, and the three buttons; when 31 events wait it
  is dropped and they are kept.  The handler is then ready for the next packet.
\<close>

theorem mouse_packet_event:
  assumes ok: "mouse_ok m" and i: "packet_index m = 0"
  shows "let m' = (if has_wheel m then mouse_data b3 (mouse_data b2 (mouse_data b1 (mouse_data b0 m)))
                   else mouse_data b2 (mouse_data b1 (mouse_data b0 m)));
             ev = \<lparr>dx = sint b1, dy = - sint b2, scroll = (if has_wheel m then sint b3 else 0),
                   buttons = b0 AND 7\<rparr>
         in mouse_ok m' \<and> packet_index m' = 0
            \<and> mouse_contents m' = (if length (mouse_contents m) < 31 then mouse_contents m @ [ev]
                                   else mouse_contents m)"
proof -
  define p where "p = (if has_wheel m then (packet m)[0 := b0, 1 := b1, 2 := b2, 3 := b3] else (packet m)[0 := b0, 1 := b1, 2 := b2])"
  define m1 where "m1 = m\<lparr>packet := p, packet_index := 0\<rparr>"
  define ev where "ev = \<lparr>dx = sint b1, dy = - sint b2, scroll = (if has_wheel m then sint b3 else 0), buttons = b0 AND 7\<rparr>"
  define m' where "m' = (if has_wheel m then mouse_data b3 (mouse_data b2 (mouse_data b1 (mouse_data b0 m)))
                   else mouse_data b2 (mouse_data b1 (mouse_data b0 m)))"
  have len: "length (packet m) = 4" using ok by (simp add: mouse_ok_def)
  have m': "m' = buffer_push ev m1"
    using i len by (simp add: m'_def mouse_data_def Let_def m1_def p_def ev_def numeral_2_eq_2 numeral_3_eq_3)
  have ok1: "mouse_ok m1" and c1: "mouse_contents m1 = mouse_contents m"
    using ok by (simp_all add: mouse_ok_def m1_def mouse_contents_def p_def)
  have idx: "packet_index (buffer_push ev m1) = 0" by (simp add: buffer_push_def m1_def)
  show ?thesis
  proof (cases "length (mouse_contents m) < 31")
    case True
    then show ?thesis using mq.put_ok [OF ok1, of ev] c1 idx m' by (simp add: m'_def ev_def Let_def)
  next
    case False
    have "length (mouse_contents m1) < 32" using ok1 by (simp add: mouse_contents_def mouse_ok_def ring_count_def)
    then have "buffer_full m1" using False c1 mouse_full_iff [OF ok1] by simp
    then have "buffer_push ev m1 = m1" by (simp add: buffer_push_def)
    then show ?thesis using False ok1 c1 idx m' by (simp add: m'_def ev_def Let_def)
  qed
qed

definition mouse_start :: mouse where
  "mouse_start = \<lparr>mouse_buffer = replicate 32 \<lparr>dx = 0, dy = 0, scroll = 0, buttons = 0\<rparr>, buf_head = 0, buf_tail = 0,
     packet = [0, 0, 0, 0], packet_index = 0, has_wheel = False, mouse_io = []\<rparr>"

lemma mouse_packet_event_witness:
  "mouse_contents (mouse_data 0xFF (mouse_data 5 (mouse_data 9 mouse_start)))
     = [\<lparr>dx = 5, dy = 1, scroll = 0, buttons = 1\<rparr>]"
proof -
  have "mouse_ok mouse_start" "packet_index mouse_start = 0" "mouse_contents mouse_start = []"
    by (simp_all add: mouse_start_def mouse_ok_def mouse_contents_def ring_contents_def ring_count_def)
  with mouse_packet_event [of mouse_start 0 255 5 9] show ?thesis
    by (simp add: Let_def) (simp add: mouse_start_def)
qed

lemma mouse_irq_trace:
  assumes ok: "mouse_ok m"
  shows "mouse_ok (mouse_irq_handler dev m)
    \<and> (\<exists>v w. mouse_io (mouse_irq_handler dev m) =
         pic_send_eoi 12 ((if v AND 0x20 = 0 then [In8 0x64 v] else [In8 0x60 w, In8 0x64 v]) @ mouse_io m))"
proof -
  have push: "mouse_ok (buffer_push ev m) \<and> mouse_io (buffer_push ev m) = mouse_io m" if "mouse_ok m" for ev m
    using that by (simp add: buffer_push_def mouse_ok_def)
  have data: "mouse_ok (mouse_data d m) \<and> mouse_io (mouse_data d m) = mouse_io m" if m: "mouse_ok m" for d m
  proof (cases "packet_index m + 1 < (if has_wheel m then 4 else 3)")
    case True
    then show ?thesis using m by (auto simp: mouse_data_def Let_def mouse_ok_def)
  next
    case False
    have "mouse_ok (m\<lparr>packet := (packet m)[packet_index m := d], packet_index := 0\<rparr>)"
      using m by (simp add: mouse_ok_def)
    from push [OF this] False show ?thesis by (simp add: mouse_data_def Let_def)
  qed
  have io: "mouse_ok (m\<lparr>mouse_io := tr\<rparr>) \<longleftrightarrow> mouse_ok m" for m tr by (simp add: mouse_ok_def)
  show ?thesis
  proof (cases "fst (inb dev 0x64 (mouse_io m)) AND 0x20 = 0")
    case True
    then show ?thesis using ok io
      by (auto simp: mouse_irq_handler_def inb_def Let_def intro!: exI [of _ "dev (mouse_io m) 0x64"])
  next
    case False
    define tr1 where "tr1 = In8 0x64 (dev (mouse_io m) 0x64) # mouse_io m"
    define d where "d = dev tr1 0x60"
    have "mouse_irq_handler dev m = (let m = mouse_data d (m\<lparr>mouse_io := In8 0x60 d # tr1\<rparr>)
        in m\<lparr>mouse_io := pic_send_eoi 12 (mouse_io m)\<rparr>)"
      using False by (simp add: mouse_irq_handler_def inb_def Let_def tr1_def d_def)
    moreover have "mouse_ok (mouse_data d (m\<lparr>mouse_io := In8 0x60 d # tr1\<rparr>)) \<and> mouse_io (mouse_data d (m\<lparr>mouse_io := In8 0x60 d # tr1\<rparr>)) = In8 0x60 d # tr1"
      using data [of "m\<lparr>mouse_io := In8 0x60 d # tr1\<rparr>" d] ok io by simp
    moreover have "dev (mouse_io m) 0x64 AND 0x20 \<noteq> 0" using False by (simp add: inb_def Let_def)
    ultimately show ?thesis using io
      by (intro conjI, simp add: Let_def) (rule exI [of _ "dev (mouse_io m) 0x64"], rule exI [of _ d], simp add: Let_def tr1_def)
  qed
qed

text \<open>
  Whatever the controller answers, the mouse handler keeps its indices inside the packet
  and the ring, reads at most two bytes and acknowledges the interrupt last.
\<close>

theorem mouse_irq_keeps_ok:
  assumes ok: "mouse_ok m"
  shows "mouse_ok (mouse_irq_handler dev m)
    \<and> (\<exists>v w. mouse_io (mouse_irq_handler dev m) =
         pic_send_eoi 12 ((if v AND 0x20 = 0 then [In8 0x64 v] else [In8 0x60 w, In8 0x64 v]) @ mouse_io m))"
  using assms by (rule mouse_irq_trace)

lemma mouse_irq_keeps_ok_witness:
  "mouse_ok (mouse_irq_handler (\<lambda>tr p. 0x20) mouse_start)"
proof -
  have "mouse_ok mouse_start" by (simp add: mouse_start_def mouse_ok_def)
  from mouse_irq_keeps_ok [OF this, of "\<lambda>tr p. 0x20"] show ?thesis by blast
qed

section \<open>The line under edit\<close>

definition console_ok :: "console \<Rightarrow> bool" where
  "console_ok c \<longleftrightarrow> length (line_buffer c) = 256 \<and> line_length c < 256"

definition console_line :: "console \<Rightarrow> u8 list" where
  "console_line c = take (line_length c) (line_buffer c)"

text \<open>What the keys make of a line.\<close>

fun edit_line :: "u8 list \<Rightarrow> u8 list \<Rightarrow> u8 list" where
  "edit_line [] l = l"
| "edit_line (ch # cs) l =
     edit_line cs (if ch = 8 then butlast l else if ch = 10 then []
                   else if length l < 255 then l @ [ch] else l)"

text \<open>
  C24. The line editor: the characters of the line are what the keys make of it (a backspace
  removes the last, Enter starts a new line, at most 255 are kept), and no index leaves the
  buffer.
\<close>

theorem console_edits_line:
  assumes "console_ok c"
  shows "console_ok (fold console_handle_char keys c)
    \<and> console_line (fold console_handle_char keys c) = edit_line keys (console_line c)"
  using assms
proof (induction keys arbitrary: c)
  case Nil
  then show ?case by simp
next
  case (Cons ch cs)
  have len: "length (console_line c) = line_length c"
    using Cons.prems by (simp add: console_line_def console_ok_def)
  have "console_ok (console_handle_char ch c) \<and> console_line (console_handle_char ch c)
      = (if ch = 8 then butlast (console_line c) else if ch = 10 then []
         else if length (console_line c) < 255 then console_line c @ [ch] else console_line c)"
    using Cons.prems unfolding len
    by (auto simp: console_handle_char_def console_ok_def console_line_def butlast_take take_Suc_conv_app_nth)
  with Cons.IH [of "console_handle_char ch c"] show ?case by simp
qed

definition console_start :: console where
  "console_start = \<lparr>line_buffer = replicate 256 0, line_length = 0, con_screen = vga_initial (replicate 2000 0)\<rparr>"

lemma console_edits_line_witness:
  "console_line (fold console_handle_char (bytes_of ''lx'' @ [8] @ bytes_of ''s'') console_start) = bytes_of ''ls''"
  using console_edits_line [of console_start "bytes_of ''lx'' @ [8] @ bytes_of ''s''"]
  by (simp add: console_start_def console_ok_def console_line_def)

end
