(* ===== verification/Klog.thy ===== *)
theory Klog imports Ring Vga begin

text \<open>
  The kernel log, \<^verbatim>\<open>core/log.c\<close>: a ring of the last 8192 characters written.  A message is
  the list of its bytes up to the terminating zero.
\<close>

record klog =
  log_buffer :: "u8 list"
  log_head :: nat
  log_used :: nat

definition log_start_index :: "klog \<Rightarrow> nat" where
  "log_start_index l = (if log_used l < 8192 then 0 else log_head l)"

definition log_put :: "u8 \<Rightarrow> klog \<Rightarrow> klog" where
  "log_put c l =
     (let l = l\<lparr>log_buffer := (log_buffer l)[log_head l := c]\<rparr>;
          l = l\<lparr>log_head := (log_head l + 1) mod 8192\<rparr>
      in if log_used l < 8192 then l\<lparr>log_used := log_used l + 1\<rparr> else l)"

definition log_write :: "u8 list \<Rightarrow> klog \<Rightarrow> klog" where
  "log_write message l = fold log_put message l"

definition log_init :: "klog \<Rightarrow> klog" where
  "log_init l = log_write (bytes_of ''log: initialized\<newline>'') (l\<lparr>log_head := 0, log_used := 0\<rparr>)"

definition log_hex_buffer :: "u32 \<Rightarrow> u8 list" where
  "log_hex_buffer value = [48, 120] @ map (\<lambda>i.
     let nibble = ucast (drop_bit ((7 - i) * 4) value AND 0xF) :: u8
     in if nibble < 10 then 48 + nibble else 65 + (nibble - 10)) [0..<8]"

definition log_write_hex :: "u32 \<Rightarrow> klog \<Rightarrow> klog" where
  "log_write_hex value l = log_write (log_hex_buffer value) l"

text \<open>The local buffer of \<open>log_write_dec\<close>, filled by \<open>utoa\<close>, up to its terminating zero.\<close>

definition utoa_string :: "u32 \<Rightarrow> u32 \<Rightarrow> u8 list option" where
  "utoa_string value base =
     map_option (\<lambda>m. takeWhile (\<lambda>c. c \<noteq> 0) (read_bytes m 0x1000 33)) (utoa (\<lambda>_. 0) value 0x1000 base)"

definition log_write_dec :: "u32 \<Rightarrow> klog \<Rightarrow> klog option" where
  "log_write_dec value l = map_option (\<lambda>buf. log_write buf l) (utoa_string value 10)"

definition log_dump :: "klog \<Rightarrow> vga \<Rightarrow> vga" where
  "log_dump l v =
     (let start = log_start_index l;
          v = vga_print (bytes_of ''[dmesg]\<newline>'') v;
          v = fold (\<lambda>i. vga_putchar (log_buffer l ! ((start + i) mod 8192))) [0..<log_used l] v
      in vga_print (bytes_of ''\<newline>[end]\<newline>'') v)"

section \<open>The log as the end of all that was written\<close>

definition log_ok :: "klog \<Rightarrow> bool" where
  "log_ok l \<longleftrightarrow> length (log_buffer l) = 8192 \<and> log_head l < 8192 \<and> log_used l \<le> 8192
     \<and> (log_used l < 8192 \<longrightarrow> log_head l = log_used l)"

definition log_text :: "klog \<Rightarrow> u8 list" where
  "log_text l = map (\<lambda>i. log_buffer l ! ((log_start_index l + i) mod 8192)) [0..<log_used l]"

definition last_of :: "nat \<Rightarrow> 'a list \<Rightarrow> 'a list" where
  "last_of n xs = drop (length xs - n) xs"

lemma last_of_append: "last_of n (last_of n xs @ ys) = last_of n (xs @ ys)"
  unfolding last_of_def by (cases "length xs \<le> n") (auto simp: add.commute)

lemma log_text_partial: "log_ok l \<Longrightarrow> log_used l < 8192 \<Longrightarrow> log_text l = take (log_used l) (log_buffer l)"
  by (rule nth_equalityI) (auto simp: log_text_def log_start_index_def log_ok_def)

lemma log_text_full:
  "log_ok l \<Longrightarrow> log_used l = 8192 \<Longrightarrow> log_text l = drop (log_head l) (log_buffer l) @ take (log_head l) (log_buffer l)"
  by (rule nth_equalityI)
    (auto simp: log_text_def log_start_index_def log_ok_def nth_append mod_if add.commute)

lemma log_put_text:
  assumes ok: "log_ok l"
  shows "log_ok (log_put c l) \<and> log_text (log_put c l) = last_of 8192 (log_text l @ [c])"
proof (cases "log_used l < 8192")
  case True
  have ok': "log_ok (log_put c l)"
    using ok True by (auto simp: log_put_def log_ok_def mod_if Let_def)
  show ?thesis
  proof (cases "log_used l + 1 < 8192")
    case more: True
    have "log_text (log_put c l) = take (log_used l + 1) ((log_buffer l)[log_used l := c])"
      using ok ok' True more by (subst log_text_partial) (auto simp: log_put_def log_ok_def Let_def)
    then show ?thesis using ok ok' True more log_text_partial [OF ok True]
      by (simp add: log_ok_def take_Suc_conv_app_nth last_of_def)
  next
    case False
    then have u: "log_used l = 8191" "log_head l = 8191" using True ok by (auto simp: log_ok_def)
    have "log_text (log_put c l) = (log_buffer l)[8191 := c]"
      using ok ok' u by (subst log_text_full) (auto simp: log_put_def log_ok_def Let_def)
    moreover have "(log_buffer l)[8191 := c] = take 8191 (log_buffer l) @ [c]"
      using ok by (simp add: log_ok_def upd_conv_take_nth_drop)
    ultimately show ?thesis using ok' log_text_partial [OF ok True] u ok
      by (simp add: last_of_def log_ok_def)
  qed
next
  case False
  then have u: "log_used l = 8192" using ok by (simp add: log_ok_def)
  have ok': "log_ok (log_put c l)" using ok u by (auto simp: log_put_def log_ok_def Let_def)
  have h: "log_head l < 8192" "length (log_buffer l) = 8192" using ok by (auto simp: log_ok_def)
  let ?b = "(log_buffer l)[log_head l := c]"
  have "log_text (log_put c l) = drop ((log_head l + 1) mod 8192) ?b @ take ((log_head l + 1) mod 8192) ?b"
    using ok' u by (subst log_text_full) (auto simp: log_put_def Let_def)
  also have "\<dots> = drop (Suc (log_head l)) (log_buffer l) @ take (log_head l) (log_buffer l) @ [c]"
  proof (cases "log_head l = 8191")
    case True
    then show ?thesis using h by (simp add: upd_conv_take_nth_drop)
  next
    case False
    then have "(log_head l + 1) mod 8192 = Suc (log_head l)" using h by simp
    then show ?thesis using h by (simp add: take_Suc_conv_app_nth)
  qed
  also have "\<dots> = tl (log_text l) @ [c]"
    using log_text_full [OF ok u] h by (simp add: tl_append drop_Suc [symmetric] tl_drop split: list.splits) 
      (metis Cons_nth_drop_Suc list.sel(3) list.simps(3))
  also have "\<dots> = last_of 8192 (log_text l @ [c])"
  proof -
    have "length (log_text l) = 8192" by (simp add: log_text_def u)
    then show ?thesis by (cases "log_text l") (auto simp: last_of_def)
  qed
  finally show ?thesis using ok' by simp
qed

lemma log_write_text:
  "log_ok l \<Longrightarrow> log_ok (log_write msg l) \<and> log_text (log_write msg l) = last_of 8192 (log_text l @ msg)"
proof (induction msg arbitrary: l)
  case Nil
  then show ?case by (auto simp: log_write_def last_of_def log_ok_def log_text_def)
next
  case (Cons c cs)
  have "log_ok (log_put c l)" and t: "log_text (log_put c l) = last_of 8192 (log_text l @ [c])"
    using log_put_text [OF Cons.prems] by simp_all
  from Cons.IH [OF this(1)] have "log_ok (log_write cs (log_put c l))
      \<and> log_text (log_write cs (log_put c l)) = last_of 8192 (last_of 8192 (log_text l @ [c]) @ cs)"
    unfolding t .
  then show ?case by (simp add: log_write_def last_of_append)
qed

text \<open>
  C25. Whatever is written to the log, it holds the last 8192 characters of it, and
  \<open>log_dump\<close> prints them, oldest first, between its two marker lines.
\<close>

theorem log_keeps_last:
  assumes ok: "log_ok l"
  shows "log_text (fold log_write msgs l) = last_of 8192 (log_text l @ concat msgs)
    \<and> log_dump (fold log_write msgs l) v = vga_print (bytes_of ''\<newline>[end]\<newline>'')
        (fold vga_putchar (last_of 8192 (log_text l @ concat msgs)) (vga_print (bytes_of ''[dmesg]\<newline>'') v))"
proof -
  have "log_ok (fold log_write msgs l) \<and> log_text (fold log_write msgs l) = last_of 8192 (log_text l @ concat msgs)"
    using ok
  proof (induction msgs arbitrary: l)
    case Nil
    then show ?case by (auto simp: last_of_def log_ok_def log_text_def)
  next
    case (Cons m ms)
    note w = log_write_text [OF Cons.prems, of m]
    then have "log_ok (log_write m l)" and t: "log_text (log_write m l) = last_of 8192 (log_text l @ m)" by auto
    from Cons.IH [OF this(1)] have "log_ok (fold log_write ms (log_write m l))
        \<and> log_text (fold log_write ms (log_write m l)) = last_of 8192 (last_of 8192 (log_text l @ m) @ concat ms)"
      unfolding t .
    then show ?case by (simp add: last_of_append)
  qed
  moreover have "fold (\<lambda>i. vga_putchar (log_buffer k ! ((log_start_index k + i) mod 8192))) [0..<log_used k] w
      = fold vga_putchar (log_text k) w" for k w
    by (simp add: log_text_def fold_map comp_def)
  ultimately show ?thesis by (simp add: log_dump_def Let_def)
qed

definition log_start :: klog where
  "log_start = \<lparr>log_buffer = replicate 8192 0, log_head = 0, log_used = 0\<rparr>"

lemma log_start_ok: "log_ok log_start" "log_text log_start = []"
  by (simp_all add: log_start_def log_ok_def log_text_def)

lemma log_keeps_last_witness:
  "log_text (fold log_write [bytes_of ''boot: '', bytes_of ''ok''] log_start) = bytes_of ''boot: ok''"
  using log_keeps_last [OF log_start_ok(1), of "[bytes_of ''boot: '', bytes_of ''ok'']"]
  by (simp add: log_start_ok last_of_def)

section \<open>Numbers in the log\<close>

lemma takeWhile_cstr: "cstr m p s \<Longrightarrow> length s < n \<Longrightarrow> takeWhile (\<lambda>c. c \<noteq> 0) (read_bytes m p n) = s"
proof (induction s arbitrary: p n)
  case Nil
  then show ?case by (cases n) auto
next
  case (Cons c s)
  then show ?case by (cases n) auto
qed

lemma utoa_string_eq:
  assumes "base = 10 \<or> base = 16"
  shows "utoa_string v base = Some (utoa_text (unat base) (unat v))"
proof -
  have b: "2 \<le> base" and room: "unat (0x1000 :: u32) + 33 \<le> 4294967296" using assms by auto
  from utoa_cstr [OF room assms] obtain m' where m': "utoa (\<lambda>_. 0) v 0x1000 base = Some m'"
    "cstr m' 0x1000 (utoa_text (unat base) (unat v))" by blast
  have "length (utoa_text (unat base) (unat v)) < 33"
    using utoa_correct [OF b room, of undefined v] by simp
  with m' show ?thesis by (simp add: utoa_string_def takeWhile_cstr)
qed

lemma log_hex_nibble:
  assumes "n < (16 :: u32)"
  shows "(let nibble = ucast n :: u8 in if nibble < 10 then 48 + nibble else 65 + (nibble - 10)) = hex_digit n"
proof -
  have "unat n < 16" using assms by (simp add: word_less_nat_alt)
  then have "unat n \<in> {0,1,2,3,4,5,6,7,8,9,10,11,12,13,14,15}" by (rule small_digit_cases)
  then have "n \<in> {0,1,2,3,4,5,6,7,8,9,10,11,12,13,14,15}"
    by (simp add: word_unat_eq_iff)
  then show ?thesis by (elim insertE emptyE; simp add: hex_digit_def)
qed

text \<open>
  The log's two number writers return and append the same text that the console prints
  for the number: the digits of the decimal printer, and \<open>0x\<close> with eight digits.
\<close>

theorem log_numbers_as_console:
  "log_hex_buffer v = hex_buffer v
    \<and> log_write_dec v l = Some (log_write (if v = 0 then [48] else rev (dec_buffer v)) l)"
proof
  have "(7 - i) * 4 = 28 - i * 4" for i :: nat by simp
  then show "log_hex_buffer v = hex_buffer v"
    using log_hex_nibble [OF nibble_less] by (simp add: log_hex_buffer_def hex_buffer_def del: upt_Suc)
  show "log_write_dec v l = Some (log_write (if v = 0 then [48] else rev (dec_buffer v)) l)"
    by (simp add: log_write_dec_def utoa_string_eq dec_buffer_digits utoa_text_def rev_map unat_0_iff utoa_digit_def)
qed

end
