(* ===== verification/Sched.thy ===== *)
theory Sched imports HeapClient HeapRuns Klog begin

text \<open>
  The scheduler, \<^verbatim>\<open>sched/sched.c\<close> with the tasks of \<^verbatim>\<open>sched/test_task.c\<close>, the stack
  pointer of \<^verbatim>\<open>arch/x86/tss.c\<close> that it sets and the switch of \<^verbatim>\<open>boot/task_switch.s\<close>.
  A \<open>task_t\<close> is 24 bytes of the heap, its fields words of the memory, so the circular queue
  is a chain of pointers in memory as in the code.  A switch leaves the C code for good: the
  assembly loads a stack pointer and jumps, and nothing behind the call is executed.
\<close>

abbreviation (input) KERNEL_STACK_SIZE :: u32 where "KERNEL_STACK_SIZE \<equiv> 4096"
abbreviation (input) TASK_READY :: u32 where "TASK_READY \<equiv> 0"
abbreviation (input) TASK_RUNNING :: u32 where "TASK_RUNNING \<equiv> 1"
abbreviation (input) sizeof_task :: u32 where "sizeof_task \<equiv> 24"

definition t_pid :: "mem \<Rightarrow> u32 \<Rightarrow> u32" where "t_pid m t = load32 m t"
definition t_state :: "mem \<Rightarrow> u32 \<Rightarrow> u32" where "t_state m t = load32 m (t + 4)"
definition t_kernel_stack :: "mem \<Rightarrow> u32 \<Rightarrow> u32" where "t_kernel_stack m t = load32 m (t + 8)"
definition t_esp :: "mem \<Rightarrow> u32 \<Rightarrow> u32" where "t_esp m t = load32 m (t + 12)"
definition t_eip :: "mem \<Rightarrow> u32 \<Rightarrow> u32" where "t_eip m t = load32 m (t + 16)"
definition t_next :: "mem \<Rightarrow> u32 \<Rightarrow> u32" where "t_next m t = load32 m (t + 20)"

record sched =
  sheap :: heap
  current_task :: u32
  ready_queue :: u32
  next_pid :: u32
  tss_esp0 :: u32
  slog :: klog
  jumps :: "(u32 \<times> u32) list"

definition smem :: "sched \<Rightarrow> mem" where "smem s = hmem (sheap s)"

text \<open>A field of a task is written: the word at \<open>t + o\<close>.\<close>

definition set_word :: "u32 \<Rightarrow> u32 \<Rightarrow> sched \<Rightarrow> sched" where
  "set_word a v s = s\<lparr>sheap := (sheap s)\<lparr>hmem := store32 (smem s) a v\<rparr>\<rparr>"

section \<open>The queue\<close>

partial_function (option) queue_tail :: "mem \<Rightarrow> u32 \<Rightarrow> u32 \<Rightarrow> u32 option" where
  "queue_tail m head tail = (if t_next m tail \<noteq> head then queue_tail m head (t_next m tail) else Some tail)"

definition scheduler_add_task :: "u32 \<Rightarrow> sched \<Rightarrow> sched option" where
  "scheduler_add_task task s =
     (if ready_queue s = 0 then Some (set_word (task + 20) task (s\<lparr>ready_queue := task\<rparr>))
      else map_option (\<lambda>tail. set_word (task + 20) (ready_queue s) (set_word (tail + 20) task s))
             (queue_tail (smem s) (ready_queue s) (ready_queue s)))"

partial_function (option) pick_loop :: "mem \<Rightarrow> u32 \<Rightarrow> u32 \<Rightarrow> u32 option" where
  "pick_loop m head next =
     (if next \<noteq> 0 \<and> t_state m next \<noteq> TASK_READY
      then (let next = t_next m next in if next = head then Some next else pick_loop m head next)
      else Some next)"

definition scheduler_pick_next :: "sched \<Rightarrow> (u32 \<times> sched) option" where
  "scheduler_pick_next s =
     (if ready_queue s = 0 then Some (0, s)
      else map_option (\<lambda>next.
             if next \<noteq> 0 \<and> t_state (smem s) next = TASK_READY
             then (next, s\<lparr>ready_queue := t_next (smem s) next\<rparr>) else (0, s))
             (pick_loop (smem s) (ready_queue s) (ready_queue s)))"

section \<open>Switching\<close>

definition tss_set_kernel_stack :: "u32 \<Rightarrow> sched \<Rightarrow> sched" where
  "tss_set_kernel_stack esp0 s = s\<lparr>tss_esp0 := esp0\<rparr>"

text \<open>
  How a call that may switch ends: it comes back to its caller, or the processor goes on at an address
  with a stack pointer, in the state that the call has made by then.
\<close>

datatype turn = Stays sched | Leaves u32 u32 sched

text \<open>
  The assembly reads the words at offsets 8 and 12 of the new task; the history of the switches is
  kept in \<open>jumps\<close>.
\<close>

definition task_switch_asm :: "u32 \<Rightarrow> sched \<Rightarrow> turn" where
  "task_switch_asm new s =
     (let esp = load32 (smem s) (new + 8); eip = load32 (smem s) (new + 12)
      in Leaves esp eip (s\<lparr>jumps := (esp, eip) # jumps s\<rparr>))"

definition scheduler_switch_to :: "u32 \<Rightarrow> sched \<Rightarrow> turn" where
  "scheduler_switch_to new_task s =
     (if new_task = 0 then Stays s
      else let s = tss_set_kernel_stack (t_kernel_stack (smem s) new_task + KERNEL_STACK_SIZE) s;
               s = s\<lparr>current_task := new_task\<rparr>;
               s = set_word (new_task + 4) TASK_RUNNING s
           in task_switch_asm new_task s)"

definition scheduler_yield :: "sched \<Rightarrow> turn option" where
  "scheduler_yield s =
     (if current_task s \<noteq> 0
      then let s = set_word (current_task s + 4) TASK_READY s
           in map_option (\<lambda>(next, s). if next \<noteq> 0 \<and> next \<noteq> current_task s then scheduler_switch_to next s else Stays s)
                (scheduler_pick_next s)
      else Some (Stays s))"

definition scheduler_tick :: "sched \<Rightarrow> turn option" where
  "scheduler_tick s = scheduler_yield s"

section \<open>Creating tasks\<close>

definition task_create_kernel :: "u32 \<Rightarrow> sched \<Rightarrow> (u32 \<times> sched) option" where
  "task_create_kernel entry s =
     Option.bind (kmalloc KERNEL_STACK_SIZE (sheap s)) (\<lambda>(stack, h).
       let s = s\<lparr>sheap := h\<rparr>
       in if stack = 0 then Some (0, s)
          else Option.bind (kmalloc sizeof_task (sheap s)) (\<lambda>(task, h).
            let s = s\<lparr>sheap := h\<rparr>
            in if task = 0 then map_option (\<lambda>h. (0, s\<lparr>sheap := h\<rparr>)) (kfree stack (sheap s))
               else let s = set_word task (next_pid s) (s\<lparr>next_pid := next_pid s + 1\<rparr>);
                        s = set_word (task + 4) TASK_READY s;
                        s = set_word (task + 8) stack s;
                        s = set_word (task + 12) (stack + KERNEL_STACK_SIZE) s;
                        s = set_word (task + 16) entry s;
                        s = set_word (task + 20) 0 s;
                        sp = t_esp (smem s) task - 4;
                        s = set_word sp entry s;
                        s = set_word (task + 12) sp s
                    in map_option (\<lambda>s. (task, s)) (scheduler_add_task task s)))"

definition scheduler_create_test_tasks :: "u32 \<Rightarrow> u32 \<Rightarrow> sched \<Rightarrow> sched option" where
  "scheduler_create_test_tasks test_task_a test_task_b s =
     Option.bind (task_create_kernel test_task_a s) (\<lambda>(_, s).
       map_option snd (task_create_kernel test_task_b s))"

definition scheduler_init :: "u32 \<Rightarrow> u32 \<Rightarrow> sched \<Rightarrow> sched option" where
  "scheduler_init test_task_a test_task_b s =
     scheduler_create_test_tasks test_task_a test_task_b (s\<lparr>slog := log_write (bytes_of ''sched: init\<newline>'') (slog s)\<rparr>)"

text \<open>One turn of the endless loop of a test task: the line it prints.\<close>

definition test_task_turn :: "string \<Rightarrow> u32 \<Rightarrow> u32 \<Rightarrow> vga \<Rightarrow> u32 \<times> vga" where
  "test_task_turn name counter ticks v =
     (let v = vga_print (bytes_of (''Task '' @ name @ '': '')) v;
          v = vga_print_dec counter v;
          v = vga_print (bytes_of '' ticks='') v;
          v = vga_print_dec ticks v
      in (counter + 1, vga_print (bytes_of ''\<newline>'') v))"

definition test_task_a :: "u32 \<Rightarrow> u32 \<Rightarrow> vga \<Rightarrow> u32 \<times> vga" where
  "test_task_a = test_task_turn ''A''"

definition test_task_b :: "u32 \<Rightarrow> u32 \<Rightarrow> vga \<Rightarrow> u32 \<times> vga" where
  "test_task_b = test_task_turn ''B''"

section \<open>The queue as a list of tasks\<close>

lemma task_ad [mem_simps]:
  "t_pid m (ad t) = rd m t" "t_state m (ad t) = rd m (t + 4)" "t_kernel_stack m (ad t) = rd m (t + 8)"
  "t_esp m (ad t) = rd m (t + 12)" "t_eip m (ad t) = rd m (t + 16)" "t_next m (ad t) = rd m (t + 20)"
  by (simp_all add: t_pid_def t_state_def t_kernel_stack_def t_esp_def t_eip_def t_next_def
      load32_ad ad_add_numeral)

lemma smem_simps [simp]:
  "smem (set_word a v s) = store32 (smem s) a v" "smem (s\<lparr>ready_queue := q\<rparr>) = smem s"
  "smem (s\<lparr>current_task := q\<rparr>) = smem s" "smem (s\<lparr>sheap := h\<rparr>) = hmem h" "smem (s\<lparr>next_pid := n\<rparr>) = smem s"
  "smem (s\<lparr>tss_esp0 := q\<rparr>) = smem s" "smem (s\<lparr>jumps := j\<rparr>) = smem s" "smem (s\<lparr>slog := l\<rparr>) = smem s"
  by (simp_all add: smem_def set_word_def)

text \<open>Where the tasks lie: 24 bytes each, apart from each other.\<close>

definition tasks_at :: "nat list \<Rightarrow> bool" where
  "tasks_at ts \<longleftrightarrow> (\<forall>t\<in>set ts. 0 < t \<and> t + 24 \<le> 4294967296)
     \<and> sorted_wrt (\<lambda>t u. t + 24 \<le> u \<or> u + 24 \<le> t) ts"

definition task_ring :: "mem \<Rightarrow> nat list \<Rightarrow> bool" where
  "task_ring m ts \<longleftrightarrow> (\<forall>i < length ts. rd m (ts ! i + 20) = ad (ts ! (Suc i mod length ts)))"

definition queue_ok :: "sched \<Rightarrow> nat list \<Rightarrow> bool" where
  "queue_ok s ts \<longleftrightarrow> tasks_at ts \<and> task_ring (smem s) ts \<and> ready_queue s = (if ts = [] then 0 else ad (hd ts))"

definition ready :: "sched \<Rightarrow> nat \<Rightarrow> bool" where
  "ready s t \<longleftrightarrow> rd (smem s) (t + 4) = TASK_READY"

lemma tasks_at_apart:
  assumes "tasks_at ts" and "i < length ts" and "j < length ts" and "i \<noteq> j"
  shows "ts ! i + 24 \<le> ts ! j \<or> ts ! j + 24 \<le> ts ! i"
  using assms by (cases "i < j") (auto simp: tasks_at_def sorted_wrt_iff_nth_less linorder_neq_iff)

lemma tasks_at_range: "tasks_at ts \<Longrightarrow> i < length ts \<Longrightarrow> 0 < ts ! i \<and> ts ! i + 24 \<le> 4294967296"
  by (simp add: tasks_at_def)

lemma tasks_at_ne:
  assumes "tasks_at ts" and "i < length ts" and "j < length ts"
  shows "ad (ts ! i) = ad (ts ! j) \<longleftrightarrow> i = j"
proof (cases "i = j")
  case False
  from tasks_at_apart [OF assms False] tasks_at_range [OF assms(1,2)] tasks_at_range [OF assms(1,3)] False
  show ?thesis by (auto simp: ad_eq_iff)
qed simp

lemma tasks_at_nonzero: "tasks_at ts \<Longrightarrow> i < length ts \<Longrightarrow> ad (ts ! i) \<noteq> 0"
  using tasks_at_range [of ts i] by (simp add: ad_eq_0_iff)

lemma tail_walk:
  assumes tk: "tasks_at ts" and rg: "task_ring m ts" and i: "i < length ts"
  shows "queue_tail m (ad (ts ! 0)) (ad (ts ! i)) = Some (ad (last ts))"
  using i
proof (induction "length ts - i" arbitrary: i)
  case 0
  then show ?case by simp
next
  case (Suc k)
  have nx: "t_next m (ad (ts ! i)) = ad (ts ! (Suc i mod length ts))"
    using rg Suc.prems by (simp add: task_ring_def task_ad)
  show ?case
  proof (cases "Suc i = length ts")
    case True
    then have "last ts = ts ! i" using Suc.prems by (metis diff_Suc_1 last_conv_nth length_0_conv less_zeroE)
    with True nx show ?thesis by (subst queue_tail.simps) simp
  next
    case False
    then have l: "Suc i < length ts" using Suc.prems by simp
    from l have "0 < length ts" by linarith
    then have "ad (ts ! Suc i) \<noteq> ad (ts ! 0)" using tasks_at_ne [OF tk l] by simp
    with nx l Suc.hyps(1) [of "Suc i"] Suc.hyps(2) show ?thesis by (subst queue_tail.simps) simp
  qed
qed

lemma pick_walk:
  assumes tk: "tasks_at ts" and rg: "task_ring m ts" and i: "i < length ts"
  shows "pick_loop m (ad (ts ! 0)) (ad (ts ! i)) =
    Some (ad (case find (\<lambda>j. rd m (ts ! j + 4) = TASK_READY) [i..<length ts] of Some j \<Rightarrow> ts ! j | None \<Rightarrow> ts ! 0))"
  using i
proof (induction "length ts - i" arbitrary: i)
  case 0
  then show ?case by simp
next
  case (Suc k)
  have nx: "t_next m (ad (ts ! i)) = ad (ts ! (Suc i mod length ts))"
    using rg Suc.prems by (simp add: task_ring_def task_ad)
  have nz: "ad (ts ! i) \<noteq> 0" using tk Suc.prems by (rule tasks_at_nonzero)
  have up: "[i..<length ts] = i # [Suc i..<length ts]" using Suc.prems by (simp add: upt_conv_Cons)
  show ?case
  proof (cases "rd m (ts ! i + 4) = TASK_READY")
    case True
    then show ?thesis by (subst pick_loop.simps) (simp add: task_ad up)
  next
    case nr: False
    show ?thesis
    proof (cases "Suc i = length ts")
      case True
      with nr nz nx show ?thesis by (subst pick_loop.simps) (simp add: task_ad up)
    next
      case False
      then have l: "Suc i < length ts" using Suc.prems by simp
      from l have "0 < length ts" by linarith
      then have "ad (ts ! Suc i) \<noteq> ad (ts ! 0)" using tasks_at_ne [OF tk l] by simp
      with nr nz nx l Suc.hyps(1) [of "Suc i"] Suc.hyps(2) show ?thesis
        by (subst pick_loop.simps) (simp add: task_ad up)
    qed
  qed
qed

section \<open>Picking the next task\<close>

lemma ring_rotate:
  assumes rg: "task_ring m ts"
  shows "task_ring m (rotate k ts)"
  unfolding task_ring_def
proof (intro allI impI)
  fix i assume i: "i < length (rotate k ts)"
  then have n: "0 < length ts" by (cases ts) auto
  have "rotate k ts ! i = ts ! ((k + i) mod length ts)"
    using i by (simp add: nth_rotate)
  moreover have "rotate k ts ! (Suc i mod length ts) = ts ! (Suc ((k + i) mod length ts) mod length ts)"
    using n by (simp add: nth_rotate mod_simps)
  ultimately show "rd m (rotate k ts ! i + 20) = ad (rotate k ts ! (Suc i mod length (rotate k ts)))"
    using rg n by (simp add: task_ring_def)
qed

lemma tasks_at_rotate:
  assumes tk: "tasks_at ts"
  shows "tasks_at (rotate k ts)"
proof -
  have "rotate k ts ! i + 24 \<le> rotate k ts ! j \<or> rotate k ts ! j + 24 \<le> rotate k ts ! i"
    if "i < j" "j < length ts" for i j
  proof -
    have n: "0 < length ts" using that by linarith
    have "(k + i) mod length ts \<noteq> (k + j) mod length ts"
    proof
      assume "(k + i) mod length ts = (k + j) mod length ts"
      then have "length ts dvd (k + j) - (k + i)"
        using mod_eq_dvd_iff_nat [of "k + i" "k + j" "length ts"] that by simp
      then have "length ts dvd j - i" by simp
      then show False using that nat_dvd_not_less [of "j - i" "length ts"] by simp
    qed
    with tasks_at_apart [OF tk, of "(k + i) mod length ts" "(k + j) mod length ts"] n that
    show ?thesis by (simp add: nth_rotate)
  qed
  then show ?thesis using tk by (simp add: tasks_at_def sorted_wrt_iff_nth_less)
qed

lemma hd_rotate: "ts \<noteq> [] \<Longrightarrow> hd (rotate k ts) = ts ! (k mod length ts)"
  by (metis hd_rotate_conv_nth)

text \<open>The outcome of the choice: the first ready task from the head of the queue on.\<close>

definition first_ready :: "sched \<Rightarrow> nat list \<Rightarrow> nat option" where
  "first_ready s ts = find (\<lambda>j. ready s (ts ! j)) [0..<length ts]"

lemma first_ready_Some:
  "first_ready s ts = Some j \<longleftrightarrow> j < length ts \<and> ready s (ts ! j) \<and> (\<forall>i<j. \<not> ready s (ts ! i))"
  by (auto simp: first_ready_def find_upt_Some)

lemma pick_next_eq:
  assumes ok: "queue_ok s ts"
  shows "scheduler_pick_next s = Some (case first_ready s ts of
     Some j \<Rightarrow> (ad (ts ! j), s\<lparr>ready_queue := ad (ts ! (Suc j mod length ts))\<rparr>) | None \<Rightarrow> (0, s))"
proof (cases "ts = []")
  case True
  then show ?thesis using ok by (simp add: scheduler_pick_next_def queue_ok_def first_ready_def)
next
  case False
  then have n: "0 < length ts" by simp
  have tk: "tasks_at ts" and rg: "task_ring (smem s) ts" and rq: "ready_queue s = ad (ts ! 0)"
    using ok False by (auto simp: queue_ok_def hd_conv_nth)
  have nz: "ad (ts ! 0) \<noteq> 0" using tasks_at_nonzero [OF tk n] .
  note w = pick_walk [OF tk rg n]
  show ?thesis
  proof (cases "first_ready s ts")
    case None
    then have "\<not> ready s (ts ! 0)" using n by (auto simp: first_ready_def find_None_iff)
    moreover have "find (\<lambda>j. rd (smem s) (ts ! j + 4) = TASK_READY) [0..<length ts] = None"
      using None by (simp add: first_ready_def ready_def)
    ultimately show ?thesis using None w nz by (simp add: scheduler_pick_next_def rq task_ad ready_def)
  next
    case (Some j)
    then have j: "j < length ts" "ready s (ts ! j)" by (auto simp: first_ready_def find_Some_iff)
    have "t_next (smem s) (ad (ts ! j)) = ad (ts ! (Suc j mod length ts))"
      using rg j(1) by (simp add: task_ring_def task_ad)
    moreover have "find (\<lambda>j. rd (smem s) (ts ! j + 4) = TASK_READY) [0..<length ts] = Some j"
      using Some by (simp add: first_ready_def ready_def)
    ultimately show ?thesis
      using Some w nz j tasks_at_nonzero [OF tk j(1)]
      by (simp add: scheduler_pick_next_def rq task_ad ready_def)
  qed
qed

lemma queue_ok_rotate:
  assumes "queue_ok s ts" and "j < length ts"
  shows "queue_ok (s\<lparr>ready_queue := ad (ts ! (Suc j mod length ts))\<rparr>) (rotate (Suc j) ts)"
  using assms ring_rotate [of "smem s" ts "Suc j"] tasks_at_rotate [of ts "Suc j"] hd_rotate [of ts "Suc j"]
  by (auto simp: queue_ok_def simp del: rotate_Suc)

text \<open>
  \<open>scheduler_pick_next\<close> returns: the first ready task from the head of the queue on, and
  the queue is turned so that the task behind it is the new head; it returns null and changes
  nothing exactly when no task is ready.
\<close>

theorem pick_next_first_ready:
  assumes "queue_ok s ts"
  shows "\<exists>t s'. scheduler_pick_next s = Some (t, s') \<and> smem s' = smem s \<and>
    (if \<exists>u\<in>set ts. ready s u
     then \<exists>xs u ys. ts = xs @ u # ys \<and> (\<forall>x\<in>set xs. \<not> ready s x) \<and> ready s u \<and> t = ad u \<and> queue_ok s' (ys @ xs @ [u])
     else t = 0 \<and> s' = s)"
proof (cases "first_ready s ts")
  case None
  then have "\<not> (\<exists>u\<in>set ts. ready s u)" by (auto simp: first_ready_def find_None_iff in_set_conv_nth)
  with None pick_next_eq [OF assms] show ?thesis by simp
next
  case (Some j)
  then have j: "j < length ts" "ready s (ts ! j)" "\<And>i. i < j \<Longrightarrow> \<not> ready s (ts ! i)"
    by (auto simp: first_ready_Some)
  have split: "ts = take j ts @ ts ! j # drop (Suc j) ts" using j(1) by (simp add: id_take_nth_drop)
  have "rotate (Suc j) ts = drop (Suc j) ts @ take j ts @ [ts ! j]"
  proof (cases "Suc j = length ts")
    case True
    then have "drop (Suc j) ts = []" by simp
    with split True show ?thesis by (simp add: rotate_drop_take del: rotate_Suc)
  next
    case False
    then show ?thesis using j(1) by (simp add: rotate_drop_take take_Suc_conv_app_nth del: rotate_Suc)
  qed
  with queue_ok_rotate [OF assms j(1)]
  have q: "queue_ok (s\<lparr>ready_queue := ad (ts ! (Suc j mod length ts))\<rparr>) (drop (Suc j) ts @ take j ts @ [ts ! j])" by simp
  have "\<forall>x\<in>set (take j ts). \<not> ready s x" using j by (auto simp: in_set_conv_nth)
  then have "\<exists>xs u ys. ts = xs @ u # ys \<and> (\<forall>x\<in>set xs. \<not> ready s x) \<and> ready s u \<and> ad (ts ! j) = ad u
      \<and> queue_ok (s\<lparr>ready_queue := ad (ts ! (Suc j mod length ts))\<rparr>) (ys @ xs @ [u])"
    using split j(2) q by blast
  moreover have "\<exists>u\<in>set ts. ready s u" using j by auto
  ultimately show ?thesis using pick_next_eq [OF assms] Some by simp
qed

section \<open>Turns\<close>

text \<open>The tasks that \<open>n\<close> picks in a row return.\<close>

fun picks :: "nat \<Rightarrow> sched \<Rightarrow> (u32 list \<times> sched) option" where
  "picks 0 s = Some ([], s)"
| "picks (Suc n) s = Option.bind (scheduler_pick_next s) (\<lambda>(t, s). map_option (\<lambda>(ts, s). (t # ts, s)) (picks n s))"

lemma picks_prefix:
  "queue_ok s (xs @ ys) \<Longrightarrow> \<forall>t\<in>set (xs @ ys). ready s t \<Longrightarrow>
   \<exists>s'. picks (length xs) s = Some (map ad xs, s') \<and> queue_ok s' (ys @ xs) \<and> smem s' = smem s"
proof (induction xs arbitrary: s ys)
  case Nil
  then show ?case by simp
next
  case (Cons x xs)
  have "first_ready s (x # xs @ ys) = Some 0"
    using Cons.prems(2) by (simp add: first_ready_Some)
  with pick_next_eq [OF Cons.prems(1)] obtain s1 where
    s1: "scheduler_pick_next s = Some (ad x, s1)" "s1 = s\<lparr>ready_queue := ad ((x # xs @ ys) ! (Suc 0 mod length (x # xs @ ys)))\<rparr>"
    by simp
  have "queue_ok s1 (rotate (Suc 0) (x # xs @ ys))"
    unfolding s1(2) using queue_ok_rotate [of s "x # xs @ ys" 0] Cons.prems(1) by simp
  then have q1: "queue_ok s1 (xs @ (ys @ [x]))" by simp
  have m1: "smem s1 = smem s" by (simp add: s1)
  then have "\<forall>t\<in>set (xs @ (ys @ [x])). ready s1 t" using Cons.prems(2) by (auto simp: ready_def)
  from Cons.IH [OF q1 this] m1 s1(1) show ?case by auto
qed

text \<open>
  Round robin: while all tasks stay ready, as many picks as there are tasks return every
  task once, in the order of the queue, and leave the queue as it was.
\<close>

theorem round_robin:
  assumes "queue_ok s ts" and "\<forall>t\<in>set ts. ready s t"
  shows "\<exists>s'. picks (length ts) s = Some (map ad ts, s') \<and> queue_ok s' ts"
  using picks_prefix [of s ts "[]"] assms by auto

section \<open>Adding a task\<close>

lemma tasks_at_snoc:
  "tasks_at (ts @ [t]) \<longleftrightarrow> tasks_at ts \<and> 0 < t \<and> t + 24 \<le> 4294967296 \<and> (\<forall>u\<in>set ts. u + 24 \<le> t \<or> t + 24 \<le> u)"
  by (auto simp: tasks_at_def sorted_wrt_append)

lemma add_task_ok:
  assumes ok: "queue_ok s ts" and new: "tasks_at (ts @ [t])"
  shows "\<exists>s'. scheduler_add_task (ad t) s = Some s' \<and> queue_ok s' (ts @ [t])
    \<and> (\<forall>y. y + 4 \<le> 4294967296 \<longrightarrow> (y + 4 \<le> t + 20 \<or> t + 24 \<le> y) \<longrightarrow>
         (ts \<noteq> [] \<longrightarrow> y + 4 \<le> last ts + 20 \<or> last ts + 24 \<le> y) \<longrightarrow> rd (smem s') y = rd (smem s) y)
    \<and> s' = set_word (ad (t + 20)) (ad (hd (ts @ [t])))
        (if ts = [] then s\<lparr>ready_queue := ad t\<rparr> else set_word (ad (last ts + 20)) (ad t) s)"
proof (cases "ts = []")
  case True
  have t: "0 < t" "t + 24 \<le> 4294967296" using new True by (auto simp: tasks_at_def)
  have "ad t + 20 = ad (t + 20)" by (simp add: ad_add_numeral)
  then have "scheduler_add_task (ad t) s = Some (set_word (ad (t + 20)) (ad t) (s\<lparr>ready_queue := ad t\<rparr>))"
    using ok True by (simp add: scheduler_add_task_def queue_ok_def)
  moreover have "queue_ok (set_word (ad (t + 20)) (ad t) (s\<lparr>ready_queue := ad t\<rparr>)) (ts @ [t])"
    using True new t by (simp add: queue_ok_def task_ring_def rd_store_same) (simp add: set_word_def)
  ultimately show ?thesis using t True by (auto simp: rd_rules set_word_def smem_def)
next
  case False
  then have n: "0 < length ts" by simp
  have tk: "tasks_at ts" and rg: "task_ring (smem s) ts" and rq: "ready_queue s = ad (ts ! 0)"
    using ok False by (auto simp: queue_ok_def hd_conv_nth)
  have t: "0 < t" "t + 24 \<le> 4294967296" "\<And>u. u \<in> set ts \<Longrightarrow> u + 24 \<le> t \<or> t + 24 \<le> u"
    using new by (auto simp: tasks_at_snoc)
  have lt: "last ts \<in> set ts" "last ts + 24 \<le> 4294967296" using False tk by (auto simp: tasks_at_def)
  define m where "m = store32 (store32 (smem s) (ad (last ts + 20)) (ad t)) (ad (t + 20)) (ad (ts ! 0))"
  define s' where "s' = set_word (ad (t + 20)) (ad (ts ! 0)) (set_word (ad (last ts + 20)) (ad t) s)"
  have m: "smem s' = m" by (simp add: s'_def m_def)
  have "scheduler_add_task (ad t) s = Some s'"
    using tail_walk [OF tk rg n] tasks_at_nonzero [OF tk n]
    by (simp add: scheduler_add_task_def rq ad_add_numeral s'_def)
  moreover have "queue_ok s' (ts @ [t])"
  proof -
    have "rd m ((ts @ [t]) ! i + 20) = ad ((ts @ [t]) ! (Suc i mod length (ts @ [t])))" if i: "i < length (ts @ [t])" for i
    proof -
      consider "i = length ts" | "Suc i = length ts" | "Suc i < length ts" using i by fastforce
      then show ?thesis
      proof cases
        case 1
        then show ?thesis using n t by (simp add: m_def rd_store_same nth_append)
      next
        case 2
        then have "(ts @ [t]) ! i = last ts" using n by (metis diff_Suc_1 last_conv_nth length_greater_0_conv lessI nth_append)
        moreover have "(ts @ [t]) ! (Suc i mod length (ts @ [t])) = t" using 2 by (simp add: nth_append)
        ultimately show ?thesis using t(3) [OF lt(1)] t(2) lt(2) by (auto simp: m_def rd_rules)
      next
        case 3
        then have ti: "ts ! i \<in> set ts" by simp
        have ne: "ts ! i \<noteq> last ts" "ts ! i + 24 \<le> last ts \<or> last ts + 24 \<le> ts ! i"
        proof -
          have "i < length ts" "length ts - 1 < length ts" "i \<noteq> length ts - 1" using 3 by linarith+
          from tasks_at_apart [OF tk this] False
          show "ts ! i + 24 \<le> last ts \<or> last ts + 24 \<le> ts ! i" by (simp add: last_conv_nth)
          then show "ts ! i \<noteq> last ts" by auto
        qed
        have "rd m (ts ! i + 20) = rd (smem s) (ts ! i + 20)"
          using ne(2) t(3) [OF ti] t(2) lt(2) tasks_at_range [OF tk, of i] 3
          unfolding m_def by (auto simp: rd_rules)
        then show ?thesis using rg 3 by (simp add: task_ring_def nth_append)
      qed
    qed
    moreover have "ready_queue s' = ad (hd (ts @ [t]))"
      using rq False by (cases ts) (auto simp: s'_def set_word_def)
    ultimately show ?thesis using new by (simp add: queue_ok_def task_ring_def m)
  qed
  moreover have "rd (smem s') y = rd (smem s) y"
    if "y + 4 \<le> 4294967296" "y + 4 \<le> t + 20 \<or> t + 24 \<le> y" "y + 4 \<le> last ts + 20 \<or> last ts + 24 \<le> y" for y
    using that t(2) lt(2) unfolding m m_def by (auto simp: rd_rules)
  moreover have "s' = set_word (ad (t + 20)) (ad (hd (ts @ [t]))) (set_word (ad (last ts + 20)) (ad t) s)"
    using False by (cases ts) (auto simp: s'_def)
  ultimately show ?thesis using False by auto
qed

section \<open>The tasks in the heap\<close>

text \<open>Every task of the queue lies in a block in use of the heap.\<close>

definition sched_inv :: "sched \<Rightarrow> blk list \<Rightarrow> nat \<Rightarrow> nat list \<Rightarrow> bool" where
  "sched_inv s bs e ts \<longleftrightarrow> heap_ok (sheap s) bs e \<and> queue_ok s ts
     \<and> (\<forall>t\<in>set ts. \<exists>k. 24 \<le> k \<and> (t, k) \<in> used bs)"

lemma heap_set_word:
  assumes "heap_ok (sheap s) bs e" and "(a, k) \<in> used bs" and "a \<le> x" and "x + 4 \<le> a + k"
  shows "heap_ok (sheap (set_word (ad x) v s)) bs e"
  using heap_ok_store [OF assms] by (simp add: set_word_def smem_def)

text \<open>What \<open>task_create_kernel\<close> writes into the new block before it queues the task.\<close>

definition fill_task :: "nat \<Rightarrow> nat \<Rightarrow> u32 \<Rightarrow> sched \<Rightarrow> sched" where
  "fill_task p t entry s =
     set_word (ad (t + 12)) (ad (p + 4092)) (set_word (ad (p + 4092)) entry
       (set_word (ad (t + 20)) 0 (set_word (ad (t + 16)) entry (set_word (ad (t + 12)) (ad (p + 4096))
         (set_word (ad (t + 8)) (ad p) (set_word (ad (t + 4)) TASK_READY
           (set_word (ad t) (next_pid s) (s\<lparr>next_pid := next_pid s + 1\<rparr>))))))))"

lemma set_word_simps [simp]:
  "next_pid (set_word a v s) = next_pid s" "current_task (set_word a v s) = current_task s"
  "ready_queue (set_word a v s) = ready_queue s" "slog (set_word a v s) = slog s"
  "jumps (set_word a v s) = jumps s" "tss_esp0 (set_word a v s) = tss_esp0 s"
  by (simp_all add: set_word_def)

lemma task_create_kernel_eq:
  assumes "kmalloc 4096 (sheap s) = Some (ad p, h1)" and "ad p \<noteq> 0"
    and "kmalloc 24 h1 = Some (ad t, h2)" and "ad t \<noteq> 0" and "t + 24 \<le> p \<or> p + 4096 \<le> t"
    and "p + 4096 \<le> 4294967296" and "t + 24 \<le> 4294967296"
  shows "task_create_kernel entry s =
    map_option (\<lambda>s. (ad t, s)) (scheduler_add_task (ad t) (fill_task p t entry (s\<lparr>sheap := h2\<rparr>)))"
proof -
  have "ad (p + 4096) - 4 = ad (p + 4092)" by (simp add: ad_def)
  then show ?thesis
    using assms by (simp add: task_create_kernel_def fill_task_def Let_def ad_add_numeral task_ad rd_rules)
qed

lemma fill_task_ok:
  assumes ok: "heap_ok (sheap s) bs e" and p: "(p, k) \<in> used bs" "4096 \<le> k" and t: "(t, l) \<in> used bs" "24 \<le> l"
    and ne: "p \<noteq> t"
  shows "heap_ok (sheap (fill_task p t entry s)) bs e"
    and "rd (smem (fill_task p t entry s)) t = next_pid s"
    and "rd (smem (fill_task p t entry s)) (t + 4) = TASK_READY"
    and "rd (smem (fill_task p t entry s)) (t + 8) = ad p"
    and "rd (smem (fill_task p t entry s)) (t + 12) = ad (p + 4092)"
    and "rd (smem (fill_task p t entry s)) (t + 16) = entry"
    and "rd (smem (fill_task p t entry s)) (p + 4092) = entry"
    and "y + 4 \<le> 4294967296 \<Longrightarrow> y + 4 \<le> t \<or> t + 24 \<le> y \<Longrightarrow> y + 4 \<le> p \<or> p + 4096 \<le> y \<Longrightarrow>
      rd (smem (fill_task p t entry s)) y = rd (smem s) y"
    and "ready_queue (fill_task p t entry s) = ready_queue s" and "next_pid (fill_task p t entry s) = next_pid s + 1"
    and "current_task (fill_task p t entry s) = current_task s" and "jumps (fill_task p t entry s) = jumps s"
proof -
  have sep: "p + k \<le> t \<or> t + l \<le> p" using used_separate [OF ok p(1) t(1) ne] .
  have lt: "p + k < 0x800000" "t + l < 0x800000" using used_range(2) [OF ok p(1)] used_range(2) [OF ok t(1)] by simp_all
  have 1: "heap_ok (sheap (set_word (ad (t + i)) v s')) bs e" if "heap_ok (sheap s') bs e" "i \<le> 20" for i v s'
    by (rule heap_set_word [OF that(1) t(1)]) (use that(2) t(2) in auto)
  have 2: "heap_ok (sheap (set_word (ad (p + 4092)) v s')) bs e" if "heap_ok (sheap s') bs e" for v s'
    by (rule heap_set_word [OF that p(1)]) (use p(2) in auto)
  have "heap_ok (sheap (s\<lparr>next_pid := next_pid s + 1\<rparr>)) bs e" using ok by simp
  from 1 [OF this, of 0] show "heap_ok (sheap (fill_task p t entry s)) bs e"
    unfolding fill_task_def by (intro 1 2) simp_all
qed (use used_range(2) [OF ok p(1)] used_range(2) [OF ok t(1)] used_separate [OF ok p(1) t(1) ne] p(2) t(2)
  in \<open>auto simp: fill_task_def rd_rules\<close>)

text \<open>The new block is no task yet, and lies apart from all of them.\<close>

lemma new_task_apart:
  assumes ok: "heap_ok h bs e" and ts: "tasks_at ts" "\<forall>u\<in>set ts. \<exists>k. 24 \<le> k \<and> (u, k) \<in> used bs"
    and t: "(t, l) \<in> used bs" "24 \<le> l" "t \<notin> set ts"
  shows "tasks_at (ts @ [t])"
proof -
  have "u + 24 \<le> t \<or> t + 24 \<le> u" if u: "u \<in> set ts" for u
  proof -
    obtain k where k: "24 \<le> k" "(u, k) \<in> used bs" using ts(2) u by blast
    have "u \<noteq> t" using u t(3) by blast
    from used_separate [OF ok k(2) t(1) this] k(1) t(2) show ?thesis by linarith
  qed
  then show ?thesis using ts(1) used_range(1,2) [OF ok t(1)] t(2) by (auto simp: tasks_at_snoc)
qed

lemma create_task_ok:
  assumes inv: "sched_inv s bs e ts" and room: "e + 4168 < 0x800000"
  shows "\<exists>t p s' bs' e'. task_create_kernel entry s = Some (ad t, s') \<and> ad t \<noteq> 0 \<and> t \<notin> set ts
    \<and> sched_inv s' bs' e' (ts @ [t]) \<and> e' \<le> e + 4168
    \<and> t_pid (smem s') (ad t) = next_pid s \<and> t_state (smem s') (ad t) = TASK_READY
    \<and> t_eip (smem s') (ad t) = entry \<and> t_kernel_stack (smem s') (ad t) = ad p
    \<and> t_esp (smem s') (ad t) = ad (p + 4092) \<and> load32 (smem s') (ad (p + 4092)) = entry
    \<and> (\<forall>u\<in>set ts. t_pid (smem s') (ad u) = t_pid (smem s) (ad u) \<and> t_state (smem s') (ad u) = t_state (smem s) (ad u))
    \<and> next_pid s' = next_pid s + 1 \<and> current_task s' = current_task s \<and> jumps s' = jumps s"
proof -
  have ok: "heap_ok (sheap s) bs e" and q: "queue_ok s ts"
    and us: "\<And>u. u \<in> set ts \<Longrightarrow> \<exists>k. 24 \<le> k \<and> (u, k) \<in> used bs"
    using inv by (auto simp: sched_inv_def)
  have r: "round8 4096 = 4096" "round8 24 = 24" by (simp_all add: round8_def)
  obtain p k h1 bs1 e1 where p: "kmalloc 4096 (sheap s) = Some (ad p, h1)" "heap_ok h1 bs1 e1" "e1 \<le> e + 4120"
      "4096 \<le> k" "(p, k) \<notin> used bs" "used bs1 = insert (p, k) (used bs)" "keeps bs (smem s) (hmem h1)"
    using kmalloc_serves [OF ok, of 4096] room r by (auto simp: smem_def)
  obtain t l h2 bs2 e2 where t: "kmalloc 24 h1 = Some (ad t, h2)" "heap_ok h2 bs2 e2" "e2 \<le> e1 + 48"
      "24 \<le> l" "(t, l) \<notin> used bs1" "used bs2 = insert (t, l) (used bs1)" "keeps bs1 (hmem h1) (hmem h2)"
    using kmalloc_serves [OF p(2), of 24] room r p(3) by auto
  have up: "(p, k) \<in> used bs2" and ut: "(t, l) \<in> used bs2" and ub: "used bs \<subseteq> used bs2" using t(6) p(6) by auto
  have new: "(x, m) \<in> used bs2 \<Longrightarrow> x = y \<Longrightarrow> (y, n) \<in> used bs2 \<Longrightarrow> m = n" for x y m n
    using used_fun [OF t(2)] by blast
  have pt: "p \<noteq> t" using new [OF up _ ut] t(5,6) p(6) by auto
  have tp: "u \<noteq> t \<and> u \<noteq> p" if "u \<in> set ts" for u
    using us [OF that] new [OF _ _ ut] new [OF _ _ up] ub p(5,6) t(5) by blast
  note sep = used_separate [OF t(2) up ut pt]
  note rng = used_range [OF t(2) up] used_range [OF t(2) ut]
  define s1 where "s1 = fill_task p t entry (s\<lparr>sheap := h2\<rparr>)"
  have "heap_ok (sheap (s\<lparr>sheap := h2\<rparr>)) bs2 e2" using t(2) by simp
  note f = fill_task_ok [OF this up p(4) ut t(4) pt, where entry = entry, folded s1_def]
  have run: "task_create_kernel entry s = map_option (\<lambda>s. (ad t, s)) (scheduler_add_task (ad t) s1)"
    unfolding s1_def by (rule task_create_kernel_eq [OF p(1) _ t(1)])
      (use sep rng p(4) t(4) in \<open>auto simp: ad_eq_0_iff\<close>)
  have tk: "tasks_at ts" using q by (simp add: queue_ok_def)
  have ua: "u + 24 \<le> t \<or> t + 24 \<le> u" "u + 24 \<le> p \<or> p + 4096 \<le> u" "u + 24 \<le> 4294967296" if u: "u \<in> set ts" for u
  proof -
    obtain m where m: "24 \<le> m" "(u, m) \<in> used bs2" using us [OF u] ub by blast
    from used_separate [OF t(2) m(2) ut] used_separate [OF t(2) m(2) up] tp [OF u] m(1) p(4) t(4)
    show "u + 24 \<le> t \<or> t + 24 \<le> u" "u + 24 \<le> p \<or> p + 4096 \<le> u" by auto
    show "u + 24 \<le> 4294967296" using used_range(2) [OF t(2) m(2)] m(1) by simp
  qed
  have kept: "rd (smem s1) (u + i) = rd (smem s) (u + i)" if u: "u \<in> set ts" and i: "i \<le> 20" for u i
  proof -
    obtain m where m: "24 \<le> m" "(u, m) \<in> used bs" using us [OF u] by blast
    have "rd (smem s1) (u + i) = rd (hmem h2) (u + i)"
      using f(8) [of "u + i"] ua [OF u] i by auto
    also have "\<dots> = rd (hmem h1) (u + i)"
      by (rule keeps_rd [OF t(7) p(2), of u m]) (use m i p(6) in auto)
    also have "\<dots> = rd (smem s) (u + i)"
      by (rule keeps_rd [OF p(7) ok m(2)]) (use m i in auto)
    finally show ?thesis .
  qed
  have tsn: "tasks_at (ts @ [t])"
    by (rule new_task_apart [OF t(2) tk _ ut t(4)]) (use us ub tp in blast)+
  have "queue_ok s1 ts"
  proof -
    have "task_ring (smem s1) ts"
      using q kept [where i = 20] by (auto simp: queue_ok_def task_ring_def)
    then show ?thesis using q f(9) by (simp add: queue_ok_def)
  qed
  from add_task_ok [OF this tsn] obtain s' where s': "scheduler_add_task (ad t) s1 = Some s'" "queue_ok s' (ts @ [t])"
      "\<And>y. y + 4 \<le> 4294967296 \<Longrightarrow> y + 4 \<le> t + 20 \<or> t + 24 \<le> y \<Longrightarrow>
         (ts \<noteq> [] \<longrightarrow> y + 4 \<le> last ts + 20 \<or> last ts + 24 \<le> y) \<Longrightarrow> rd (smem s') y = rd (smem s1) y"
      "s' = set_word (ad (t + 20)) (ad (hd (ts @ [t])))
        (if ts = [] then s1\<lparr>ready_queue := ad t\<rparr> else set_word (ad (last ts + 20)) (ad t) s1)" by blast
  have lu: "ts \<noteq> [] \<Longrightarrow> last ts \<in> set ts" by simp
  have ts': "rd (smem s') (t + i) = rd (smem s1) (t + i)" if "i \<le> 16" for i
    by (rule s'(3)) (use that rng t(4) ua(1) [OF lu] in auto)
  have p': "rd (smem s') (p + 4092) = rd (smem s1) (p + 4092)"
    by (rule s'(3)) (use rng p(4) sep t(4) ua(2) [OF lu] in auto)
  have u': "rd (smem s') (u + i) = rd (smem s) (u + i)" if u: "u \<in> set ts" and i: "i \<le> 16" for u i
  proof -
    have ne: "ts \<noteq> []" using u by auto
    have "u = last ts \<or> u + 24 \<le> last ts \<or> last ts + 24 \<le> u"
    proof (cases "u = last ts")
      case False
      obtain j m where "(u, j) \<in> used bs" "(last ts, m) \<in> used bs" "24 \<le> j" "24 \<le> m"
        using us [OF u] us [OF lu [OF ne]] by blast
      with used_separate [OF ok _ _ False] show ?thesis by fastforce
    qed simp
    then have "rd (smem s') (u + i) = rd (smem s1) (u + i)"
      using i ua [OF u] by (intro s'(3)) auto
    also have "\<dots> = rd (smem s) (u + i)" using kept [OF u] i by simp
    finally show ?thesis .
  qed
  have hp: "heap_ok (sheap s') bs2 e2"
  proof -
    have "heap_ok (sheap (if ts = [] then s1\<lparr>ready_queue := ad t\<rparr> else set_word (ad (last ts + 20)) (ad t) s1)) bs2 e2"
    proof (cases "ts = []")
      case False
      obtain m where m: "(last ts, m) \<in> used bs2" "24 \<le> m" using us [OF lu [OF False]] ub by blast
      show ?thesis using heap_set_word [OF f(1) m(1), of "last ts + 20"] m(2) False by simp
    qed (use f(1) in simp)
    from heap_set_word [OF this ut, of "t + 20"] t(4) show ?thesis by (simp add: s'(4))
  qed
  have "sched_inv s' bs2 e2 (ts @ [t])"
    using hp s'(2) us ub ut t(4) by (auto simp: sched_inv_def)
  moreover have "next_pid s' = next_pid s + 1 \<and> current_task s' = current_task s \<and> jumps s' = jumps s"
    using f(10-12) by (simp add: s'(4))
  moreover have "e2 \<le> e + 4168" using p(3) t(3) by simp
  moreover have "ad t \<noteq> 0" "t \<notin> set ts" using rng tp by (auto simp: ad_eq_0_iff)
  moreover have "rd (smem s') t = next_pid s" using ts' [of 0] f(2) by simp
  ultimately show ?thesis
    using run s'(1) ts' [of 4] ts' [of 8] ts' [of 12] ts' [of 16] p' u' [where i = 0] u' [where i = 4] f(2-7)
    by (intro exI [of _ t] exI [of _ p] exI [of _ s'] exI [of _ bs2] exI [of _ e2])
      (simp add: task_ad load32_ad)
qed


section \<open>Ticks\<close>

text \<open>A state field of a queued task is written: the heap and the queue stay in order.\<close>

lemma inv_set_state:
  assumes inv: "sched_inv s bs e ts" and t: "t \<in> set ts"
  shows "sched_inv (set_word (ad (t + 4)) v s) bs e ts"
    and "u \<in> set ts \<Longrightarrow> rd (smem (set_word (ad (t + 4)) v s)) (u + 4) = (if u = t then v else rd (smem s) (u + 4))"
    and "u \<in> set ts \<Longrightarrow> i \<in> {8, 12} \<Longrightarrow> rd (smem (set_word (ad (t + 4)) v s)) (u + i) = rd (smem s) (u + i)"
proof -
  have ok: "heap_ok (sheap s) bs e" and q: "queue_ok s ts" and tk: "tasks_at ts"
    using inv by (auto simp: sched_inv_def queue_ok_def)
  obtain k where k: "24 \<le> k" "(t, k) \<in> used bs" using inv t by (auto simp: sched_inv_def)
  have ap: "u = t \<or> u + 24 \<le> t \<or> t + 24 \<le> u" and rng: "u + 24 \<le> 4294967296" if u: "u \<in> set ts" for u
  proof -
    obtain i j where "i < length ts" "j < length ts" "ts ! i = u" "ts ! j = t"
      using u t by (auto simp: in_set_conv_nth)
    then show "u = t \<or> u + 24 \<le> t \<or> t + 24 \<le> u" using tasks_at_apart [OF tk, of i j] by (cases "i = j") auto
    show "u + 24 \<le> 4294967296" using tk u by (auto simp: tasks_at_def)
  qed
  have same: "rd (smem (set_word (ad (t + 4)) v s)) (u + i) = rd (smem s) (u + i)"
    if "u \<in> set ts" "8 \<le> i" "i \<le> 20" for u i
    using ap [OF that(1)] rng [OF that(1)] rng [OF t] that(2,3) by (elim disjE) (auto simp: rd_rules)
  show "sched_inv (set_word (ad (t + 4)) v s) bs e ts"
    using heap_set_word [OF ok k(2), of "t + 4" v] k(1) q same [where i = 20] inv
    by (simp add: sched_inv_def queue_ok_def task_ring_def del: smem_simps)
  show "rd (smem (set_word (ad (t + 4)) v s)) (u + 4) = (if u = t then v else rd (smem s) (u + 4))" if u: "u \<in> set ts"
    using ap [OF u] rng [OF u] rng [OF t] by (auto simp: rd_rules)
  show "rd (smem (set_word (ad (t + 4)) v s)) (u + i) = rd (smem s) (u + i)" if "u \<in> set ts" "i \<in> {8, 12}"
    using same that by auto
qed

section \<open>What the code never does\<close>

text \<open>
  What the kernel does to the scheduler's state: interrupts tick, which may switch to a task that then
  goes on, tasks are created, and the rest of the kernel allocates, releases and writes memory and the log.
\<close>

inductive kernel_step :: "sched \<Rightarrow> sched \<Rightarrow> bool" where
  tick: "scheduler_tick s = Some (Stays s') \<Longrightarrow> kernel_step s s'"
| switch: "scheduler_tick s = Some (Leaves esp eip s') \<Longrightarrow> kernel_step s s'"
| create: "task_create_kernel entry s = Some (t, s') \<Longrightarrow> kernel_step s s'"
| heap_use: "kernel_step s (s\<lparr>sheap := h\<rparr>)"
| log_use: "kernel_step s (s\<lparr>slog := l\<rparr>)"

inductive_cases kernel_stepE: "kernel_step s s'"

inductive kernel_reach :: "sched \<Rightarrow> sched \<Rightarrow> bool" where
  start: "kernel_reach s s"
| step: "kernel_reach s s' \<Longrightarrow> kernel_step s' s'' \<Longrightarrow> kernel_reach s s''"

lemma add_task_frame:
  "scheduler_add_task t s = Some s' \<Longrightarrow> current_task s' = current_task s \<and> jumps s' = jumps s"
  by (auto simp: scheduler_add_task_def split: if_splits)

lemma task_create_frame:
  "task_create_kernel entry s = Some (t, s') \<Longrightarrow> current_task s' = current_task s \<and> jumps s' = jumps s"
  by (auto simp: task_create_kernel_def Let_def bind_eq_Some_conv split: if_splits dest!: add_task_frame)

lemma kernel_step_idle:
  assumes "kernel_step s s'" and "current_task s = 0"
  shows "current_task s' = 0 \<and> jumps s' = jumps s"
  using assms by (elim kernel_stepE) (auto simp: scheduler_tick_def scheduler_yield_def dest: task_create_frame)

lemma never_current: "kernel_reach s s' \<Longrightarrow> current_task s = 0 \<Longrightarrow> current_task s' = 0 \<and> jumps s' = jumps s"
  by (induction rule: kernel_reach.induct) (auto dest: kernel_step_idle)

text \<open>
  C21. No task ever runs: \<open>current_task\<close> is null at the start and only a switch sets it, but
  \<open>scheduler_yield\<close> switches only when it is set, so in every reachable state it is null, no switch
  has been made, however many tasks were created and ticks came, and the next tick comes back to its
  caller with nothing changed.
\<close>

theorem scheduler_never_starts:
  assumes "kernel_reach s s'" and "current_task s = 0"
  shows "current_task s' = 0 \<and> jumps s' = jumps s \<and> scheduler_tick s' = Some (Stays s')"
  using never_current [OF assms] by (simp add: scheduler_tick_def scheduler_yield_def)

text \<open>
  The switch reads the wrong fields: for a task just created, whose saved stack pointer is
  its stack's last word and whose entry point is \<open>entry\<close>, the assembly loads the stack pointer
  with the lowest address of the stack and jumps to the stack's last word.
\<close>

theorem switch_jumps_into_stack:
  assumes "sched_inv s bs e ts" and "e + 4168 < 0x800000"
  shows "\<exists>t p s'. task_create_kernel entry s = Some (ad t, s') \<and> t_esp (smem s') (ad t) = ad (p + 4092)
    \<and> t_eip (smem s') (ad t) = entry \<and> (\<exists>s''. scheduler_switch_to (ad t) s' = Leaves (ad p) (ad (p + 4092)) s'')"
proof -
  obtain t p s' bs' e' where r: "task_create_kernel entry s = Some (ad t, s')" "ad t \<noteq> 0"
      "sched_inv s' bs' e' (ts @ [t])" "t_eip (smem s') (ad t) = entry" "t_kernel_stack (smem s') (ad t) = ad p"
      "t_esp (smem s') (ad t) = ad (p + 4092)" "jumps s' = jumps s"
    using create_task_ok [OF assms, of entry] by blast
  let ?s = "(tss_set_kernel_stack (ad p + 4096) s')\<lparr>current_task := ad t\<rparr>"
  have "sched_inv ?s bs' e' (ts @ [t])" using r(3) by (simp add: sched_inv_def queue_ok_def tss_set_kernel_stack_def)
  from inv_set_state(3) [OF this, of t t _ TASK_RUNNING] have "rd (smem (set_word (ad (t + 4)) TASK_RUNNING ?s)) (t + i) = rd (smem s') (t + i)"
    if "i \<in> {8, 12}" for i using that by (simp add: tss_set_kernel_stack_def)
  from this [of 8] this [of 12] have "\<exists>s''. scheduler_switch_to (ad t) s' = Leaves (ad p) (ad (p + 4092)) s''"
    using r by (simp add: scheduler_switch_to_def task_switch_asm_def Let_def task_ad load32_ad ad_add_numeral)
  with r show ?thesis by blast
qed

section \<open>A concrete queue\<close>

definition sched_start :: sched where
  "sched_start = \<lparr>sheap = fresh_heap (\<lambda>_. 0) (vga_initial (replicate 2000 0)), current_task = 0, ready_queue = 0,
     next_pid = 1, tss_esp0 = 0, slog = log_start, jumps = []\<rparr>"

lemma sched_start_inv: "sched_inv sched_start [] 0x400000 []"
  using fresh_heap_ok by (simp add: sched_inv_def sched_start_def queue_ok_def tasks_at_def task_ring_def)

lemma two_tasks:
  obtains s bs e t u where "sched_inv s bs e [t, u]" and "ready s t" and "ready s u" and "e + 4168 < 0x800000"
proof -
  obtain t s1 bs1 e1 where 1: "sched_inv s1 bs1 e1 [t]" "e1 \<le> 0x400000 + 4168" "t_state (smem s1) (ad t) = TASK_READY"
    using create_task_ok [OF sched_start_inv, of 0] by auto
  obtain u s2 bs2 e2 where 2: "sched_inv s2 bs2 e2 ([t] @ [u])" "e2 \<le> e1 + 4168" "t_state (smem s2) (ad u) = TASK_READY"
      "\<forall>x\<in>set [t]. t_pid (smem s2) (ad x) = t_pid (smem s1) (ad x) \<and> t_state (smem s2) (ad x) = t_state (smem s1) (ad x)"
    using create_task_ok [OF 1(1), of 0] 1(2) by auto
  show ?thesis
    by (rule that [of s2 bs2 e2 t u]) (use 1 2 in \<open>auto simp: ready_def task_ad\<close>)
qed


lemma switch_jumps_into_stack_witness:
  "\<exists>t p s'. task_create_kernel 0x101000 sched_start = Some (ad t, s')
     \<and> t_eip (smem s') (ad t) = 0x101000 \<and> (\<exists>s''. scheduler_switch_to (ad t) s' = Leaves (ad p) (ad (p + 4092)) s'')"
  using switch_jumps_into_stack [OF sched_start_inv, of "0x101000"] by (fastforce simp: sched_start_def)

lemma pick_next_first_ready_witness:
  "\<exists>s t u s'. queue_ok s [t, u] \<and> scheduler_pick_next s = Some (ad t, s') \<and> queue_ok s' [u, t]"
proof -
  obtain s bs e t u where s: "sched_inv s bs e [t, u]" "ready s t" "ready s u" by (rule two_tasks)
  then have "queue_ok s [t, u]" by (simp add: sched_inv_def)
  from pick_next_first_ready [OF this] this s show ?thesis
    by (fastforce simp: Cons_eq_append_conv)
qed

lemma round_robin_witness:
  "\<exists>s t u s'. queue_ok s [t, u] \<and> picks 2 s = Some ([ad t, ad u], s') \<and> queue_ok s' [t, u]"
proof -
  obtain s bs e t u where s: "sched_inv s bs e [t, u]" "ready s t" "ready s u" by (rule two_tasks)
  then have "queue_ok s [t, u]" by (simp add: sched_inv_def)
  from round_robin [OF this] this s show ?thesis by (auto simp: numeral_2_eq_2)
qed

lemma scheduler_never_starts_witness:
  "\<exists>s'. kernel_reach sched_start s' \<and> ready_queue s' \<noteq> 0 \<and> current_task s' = 0 \<and> jumps s' = []"
proof -
  obtain t s1 bs1 e1 where 1: "task_create_kernel 0 sched_start = Some (ad t, s1)" "ad t \<noteq> 0" "sched_inv s1 bs1 e1 [t]"
    using create_task_ok [OF sched_start_inv, of 0] by auto
  have "kernel_reach sched_start s1" by (rule kernel_reach.step [OF kernel_reach.start create [OF 1(1)]])
  from scheduler_never_starts [OF this] this 1 show ?thesis
    by (auto simp: sched_start_def sched_inv_def queue_ok_def)
qed

end
