(* ===== verification/Vfs.thy ===== *)
theory Vfs imports HeapClient begin

text \<open>
  The file systems: \<^verbatim>\<open>fs/vfs/vfs.c\<close> (mounts and lookup), \<^verbatim>\<open>fs/vfs/path.c\<close> (path resolution),
  \<^verbatim>\<open>fs/ramfs/ramfs.c\<close> (the file system in the heap) and \<^verbatim>\<open>fs/fd/fd.c\<close> (file descriptors).

  A node is 228 bytes of the heap with the fields of \<open>ramfs_node_t\<close> at their offsets (the
  \<open>vfs_node_t\<close> is its first 84 bytes), so a node is known by its address as in the code.
  The statics of the four files are one record.  The table \<open>ramfs_ops\<close> holds function pointers
  that are null until they are set; the only functions ever stored are those of ramfs, so the
  model keeps which entries are set.  \<open>ramfs_ops_at\<close> is the address of that table and
  \<open>part_at\<close> that of the local array \<open>part\<close> of \<open>path_resolve\<close>.
\<close>

section \<open>Operations that may not return\<close>

definition bind_run :: "'a outcome option \<Rightarrow> ('a \<Rightarrow> 'b outcome option) \<Rightarrow> 'b outcome option" where
  "bind_run x f = Option.bind x (\<lambda>r. case r of Ret y \<Rightarrow> f y | Panic e \<Rightarrow> Some (Panic e) | Fault e \<Rightarrow> Some (Fault e))"

lemma bind_run_simps [simp]:
  "bind_run (Some (Ret y)) f = f y" "bind_run (Some (Panic e)) f = Some (Panic e)"
  "bind_run (Some (Fault e)) f = Some (Fault e)" "bind_run None f = None"
  by (simp_all add: bind_run_def)

lemma bind_run_mono [partial_function_mono]:
  assumes "mono_option B" and "\<And>y. mono_option (\<lambda>f. C y f)"
  shows "mono_option (\<lambda>f. bind_run (B f) (\<lambda>y. C y f))"
  unfolding bind_run_def
  by (rule bind_mono [OF assms(1)]) (rename_tac y, case_tac y, simp_all add: assms(2) option.const_mono)

section \<open>State\<close>

abbreviation (input) VFS_FILE :: u32 where "VFS_FILE \<equiv> 1"
abbreviation (input) VFS_DIR :: u32 where "VFS_DIR \<equiv> 2"
abbreviation (input) MAX_MOUNTS :: nat where "MAX_MOUNTS \<equiv> 8"
abbreviation (input) MAX_FDS :: nat where "MAX_FDS \<equiv> 32"
abbreviation (input) sizeof_ramfs_node :: u32 where "sizeof_ramfs_node \<equiv> 228"

record vfs_ops =
  lookup_set :: bool
  create_set :: bool
  read_set :: bool
  write_set :: bool
  list_set :: bool

record file_desc =
  fd_used :: bool
  fd_node :: u32
  fd_offset :: u32

record fs =
  fheap :: heap
  vfs_root :: u32
  mounts :: "(u32 \<times> u32) list"
  mount_count :: nat
  ramfs_initialized :: bool
  ramfs_ops :: vfs_ops
  fd_table :: "file_desc list"
  ramfs_ops_at :: u32
  part_at :: u32

definition fmem :: "fs \<Rightarrow> mem" where "fmem s = hmem (fheap s)"

definition set_fmem :: "mem \<Rightarrow> fs \<Rightarrow> fs" where "set_fmem m s = s\<lparr>fheap := (fheap s)\<lparr>hmem := m\<rparr>\<rparr>"

text \<open>The fields of a node.\<close>

definition n_flags :: "mem \<Rightarrow> u32 \<Rightarrow> u32" where "n_flags m p = load32 m (p + 64)"
definition n_parent :: "mem \<Rightarrow> u32 \<Rightarrow> u32" where "n_parent m p = load32 m (p + 72)"
definition n_fs_private :: "mem \<Rightarrow> u32 \<Rightarrow> u32" where "n_fs_private m p = load32 m (p + 76)"
definition n_ops :: "mem \<Rightarrow> u32 \<Rightarrow> u32" where "n_ops m p = load32 m (p + 80)"
definition r_data :: "mem \<Rightarrow> u32 \<Rightarrow> u32" where "r_data m r = load32 m (r + 84)"
definition r_size :: "mem \<Rightarrow> u32 \<Rightarrow> u32" where "r_size m r = load32 m (r + 88)"
definition r_capacity :: "mem \<Rightarrow> u32 \<Rightarrow> u32" where "r_capacity m r = load32 m (r + 92)"
definition r_child :: "mem \<Rightarrow> u32 \<Rightarrow> u32 \<Rightarrow> u32" where "r_child m r i = load32 m (r + 96 + 4 * i)"
definition r_child_count :: "mem \<Rightarrow> u32 \<Rightarrow> u32" where "r_child_count m r = load32 m (r + 224)"

text \<open>The operations of a node: the table that \<open>ops\<close> points to.\<close>

definition ops_of :: "u32 \<Rightarrow> fs \<Rightarrow> vfs_ops option" where
  "ops_of node s = (if n_ops (fmem s) node = ramfs_ops_at s then Some (ramfs_ops s) else None)"

section \<open>ramfs\<close>

definition ramfs_init_ops :: "fs \<Rightarrow> fs" where
  "ramfs_init_ops s =
     (if ramfs_initialized s then s
      else s\<lparr>ramfs_ops := \<lparr>lookup_set = True, create_set = True, read_set = True, write_set = True, list_set = True\<rparr>,
             ramfs_initialized := True\<rparr>)"

partial_function (option) child_named :: "mem \<Rightarrow> u32 \<Rightarrow> u32 \<Rightarrow> u32 \<Rightarrow> u32 option" where
  "child_named m rnode name i =
     (if i < r_child_count m rnode
      then Option.bind (strcmp m (r_child m rnode i) name) (\<lambda>c.
             if c = 0 then Some (r_child m rnode i) else child_named m rnode name (i + 1))
      else Some 0)"

definition ramfs_lookup :: "u32 \<Rightarrow> u32 \<Rightarrow> fs \<Rightarrow> u32 outcome option" where
  "ramfs_lookup node name s =
     (if node = 0 \<or> n_fs_private (fmem s) node = 0 then Some (Panic ''Lookup: NULL node'')
      else map_option Ret (child_named (fmem s) (n_fs_private (fmem s) node) name 0))"

text \<open>
  The two functions that make a root directory; what follows the allocation is the same but
  for the tables they set.  A null pointer from \<open>kmalloc\<close> is not tested: the node is then
  written at address 0.
\<close>

definition new_root :: "u32 \<Rightarrow> mem \<Rightarrow> mem" where
  "new_root root m =
     (let m = memset m root 0 sizeof_ramfs_node;
          m = write_bytes m root (bytes_of ''/'' @ [0]);
          m = store32 m (root + 64) VFS_DIR
      in store32 m (root + 76) root)"

definition ramfs_init :: "fs \<Rightarrow> fs option" where
  "ramfs_init s = map_option (\<lambda>(root, h).
     let s = set_fmem (new_root root (hmem h)) (s\<lparr>fheap := h\<rparr>);
         s = s\<lparr>ramfs_ops := (ramfs_ops s)\<lparr>lookup_set := True\<rparr>\<rparr>;
         s = set_fmem (store32 (fmem s) (root + 80) (ramfs_ops_at s)) s;
         s = s\<lparr>ramfs_ops := (ramfs_ops s)\<lparr>create_set := True, write_set := True, read_set := True\<rparr>\<rparr>
     in s\<lparr>vfs_root := root\<rparr>) (kmalloc sizeof_ramfs_node (fheap s))"

definition ramfs_create_instance :: "fs \<Rightarrow> (u32 \<times> fs) option" where
  "ramfs_create_instance s =
     (let s = ramfs_init_ops s
      in map_option (\<lambda>(root, h).
           let s = set_fmem (new_root root (hmem h)) (s\<lparr>fheap := h\<rparr>)
           in (root, set_fmem (store32 (fmem s) (root + 80) (ramfs_ops_at s)) s))
         (kmalloc sizeof_ramfs_node (fheap s)))"

definition ramfs_create :: "u32 \<Rightarrow> u32 \<Rightarrow> u32 \<Rightarrow> fs \<Rightarrow> (int \<times> fs) outcome option" where
  "ramfs_create parent name flags s =
     (if parent = 0 \<or> n_fs_private (fmem s) parent = 0 then Some (Panic ''Create: NULL parent'')
      else let pnode = n_fs_private (fmem s) parent
           in if r_child_count (fmem s) pnode \<ge> 32 then Some (Ret (-1, s))
              else Option.bind (kmalloc sizeof_ramfs_node (fheap s)) (\<lambda>(child, h).
                let m = memset (hmem h) child 0 sizeof_ramfs_node
                in map_option (\<lambda>m.
                     let m = store32 m (child + 64) flags;
                         m = store32 m (child + 72) parent;
                         m = store32 m (child + 76) child;
                         m = store32 m (child + 80) (n_ops m parent);
                         i = r_child_count m pnode;
                         m = store32 m (pnode + 224) (i + 1);
                         m = store32 m (pnode + 96 + 4 * i) child
                     in Ret (0, set_fmem m (s\<lparr>fheap := h\<rparr>)))
                   (strcpy m child name)))"

text \<open>The file grows: a new array, into which the contents are copied.  The old one is not released.\<close>

definition ramfs_grow :: "u32 \<Rightarrow> u32 \<Rightarrow> fs \<Rightarrow> fs option" where
  "ramfs_grow rnode new_capacity s = map_option (\<lambda>(new_data, h).
     let m = hmem h;
         m = (if r_data m rnode \<noteq> 0 then memcpy m new_data (r_data m rnode) (r_size m rnode) else m);
         m = store32 m (rnode + 84) new_data;
         m = store32 m (rnode + 92) new_capacity
     in set_fmem m (s\<lparr>fheap := h\<rparr>)) (kmalloc new_capacity (fheap s))"

definition ramfs_write :: "u32 \<Rightarrow> u32 \<Rightarrow> u32 \<Rightarrow> u32 \<Rightarrow> fs \<Rightarrow> (int \<times> fs) outcome option" where
  "ramfs_write node offset sz buffer s =
     (if node = 0 \<or> n_fs_private (fmem s) node = 0 then Some (Panic ''Write: fs_private NULL'')
      else let rnode = n_fs_private (fmem s) node
           in if n_flags (fmem s) node AND VFS_DIR \<noteq> 0 then Some (Ret (-1, s))
              else map_option (\<lambda>s.
                let m = memcpy (fmem s) (r_data (fmem s) rnode + offset) buffer sz;
                    m = (if offset + sz > r_size m rnode then store32 m (rnode + 88) (offset + sz) else m)
                in Ret (sint sz, set_fmem m s))
                (if offset + sz > r_capacity (fmem s) rnode then ramfs_grow rnode (offset + sz) s else Some s))"

definition ramfs_read :: "u32 \<Rightarrow> u32 \<Rightarrow> u32 \<Rightarrow> u32 \<Rightarrow> fs \<Rightarrow> int \<times> fs" where
  "ramfs_read node offset sz buffer s =
     (let rnode = n_fs_private (fmem s) node
      in if offset \<ge> r_size (fmem s) rnode then (0, s)
         else let sz = (if offset + sz > r_size (fmem s) rnode then r_size (fmem s) rnode - offset else sz)
              in (sint sz, set_fmem (memcpy (fmem s) buffer (r_data (fmem s) rnode + offset) sz) s))"

text \<open>A string of the memory is printed as \<open>vga_print\<close> does, up to its terminating zero.\<close>

partial_function (option) print_string :: "mem \<Rightarrow> u32 \<Rightarrow> vga \<Rightarrow> vga option" where
  "print_string m p v = (if m p = 0 then Some v else print_string m (p + 1) (vga_putchar (m p) v))"

partial_function (option) list_children :: "mem \<Rightarrow> u32 \<Rightarrow> u32 \<Rightarrow> vga \<Rightarrow> vga option" where
  "list_children m rnode i v =
     (if i < r_child_count m rnode
      then Option.bind (print_string m (r_child m rnode i) v) (\<lambda>v.
             list_children m rnode (i + 1) (vga_print (bytes_of ''\<newline>'') v))
      else Some v)"

definition ramfs_list :: "u32 \<Rightarrow> fs \<Rightarrow> (int \<times> fs) option" where
  "ramfs_list node s = map_option (\<lambda>v. (0, s\<lparr>fheap := (fheap s)\<lparr>screen := v\<rparr>\<rparr>))
     (list_children (fmem s) (n_fs_private (fmem s) node) 0 (screen (fheap s)))"

section \<open>Mounts and paths\<close>

definition vfs_init :: "fs \<Rightarrow> fs" where "vfs_init s = s"

definition vfs_check_mount :: "u32 \<Rightarrow> fs \<Rightarrow> u32" where
  "vfs_check_mount node s =
     (case find (\<lambda>(mp, root). node = mp) (take (mount_count s) (mounts s)) of Some (mp, root) \<Rightarrow> root | None \<Rightarrow> node)"

partial_function (option) skip_slashes :: "mem \<Rightarrow> u32 \<Rightarrow> u32 option" where
  "skip_slashes m path = (if m path = of_char CHR ''/'' then skip_slashes m (path + 1) else Some path)"

partial_function (option) copy_part :: "u32 \<Rightarrow> mem \<Rightarrow> u32 \<Rightarrow> u32 \<Rightarrow> (mem \<times> u32 \<times> u32) option" where
  "copy_part part m path j =
     (if m path \<noteq> 0 \<and> m path \<noteq> of_char CHR ''/''
      then copy_part part (m(part + j := m path)) (path + 1) (j + 1) else Some (m, path, j))"

partial_function (option) resolve_loop :: "fs \<Rightarrow> u32 \<Rightarrow> u32 \<Rightarrow> (u32 \<times> fs) outcome option" where
  "resolve_loop s current path =
     (if fmem s path = 0 then Some (Ret (current, s))
      else Option.bind (skip_slashes (fmem s) path) (\<lambda>path.
        if fmem s path = 0 then Some (Ret (current, s))
        else Option.bind (copy_part (part_at s) (fmem s) path 0) (\<lambda>(m, path, j).
          let s = set_fmem (m(part_at s + j := 0)) s
          in (case ops_of current s of None \<Rightarrow> Some (Fault ''ops'')
              | Some ops \<Rightarrow>
                if \<not> lookup_set ops then Some (Ret (0, s))
                else bind_run (ramfs_lookup current (part_at s) s) (\<lambda>next.
                  if next = 0 then Some (Ret (0, s)) else resolve_loop s (vfs_check_mount next s) path)))))"

definition path_resolve :: "u32 \<Rightarrow> u32 \<Rightarrow> fs \<Rightarrow> (u32 \<times> fs) outcome option" where
  "path_resolve root path s = resolve_loop s root path"

definition vfs_lookup :: "u32 \<Rightarrow> fs \<Rightarrow> (u32 \<times> fs) outcome option" where
  "vfs_lookup path s = (if vfs_root s = 0 then Some (Ret (0, s)) else path_resolve (vfs_root s) path s)"

text \<open>The array of mounts has eight entries; a ninth is written behind it.\<close>

definition vfs_mount :: "u32 \<Rightarrow> u32 \<Rightarrow> fs \<Rightarrow> fs outcome option" where
  "vfs_mount path fs_root s =
     bind_run (vfs_lookup path s) (\<lambda>(mp, s).
       if mp = 0 then Some (Panic ''Mount path not found'')
       else if mount_count s < MAX_MOUNTS
       then Some (Ret (s\<lparr>mounts := (mounts s)[mount_count s := (mp, fs_root)], mount_count := mount_count s + 1\<rparr>))
       else Some (Fault ''mounts''))"

section \<open>File descriptors\<close>

definition fd_init :: "fs \<Rightarrow> fs" where
  "fd_init s = s\<lparr>fd_table := map (\<lambda>d. d\<lparr>fd_used := False\<rparr>) (fd_table s)\<rparr>"

definition set_fd :: "nat \<Rightarrow> (file_desc \<Rightarrow> file_desc) \<Rightarrow> fs \<Rightarrow> fs" where
  "set_fd i f s = s\<lparr>fd_table := (fd_table s)[i := f (fd_table s ! i)]\<rparr>"

definition fd_alloc :: "fs \<Rightarrow> int \<times> fs" where
  "fd_alloc s = (case find (\<lambda>i. \<not> fd_used (fd_table s ! i)) [0..<MAX_FDS] of
       Some i \<Rightarrow> (int i, set_fd i (\<lambda>d. d\<lparr>fd_used := True, fd_offset := 0\<rparr>) s)
     | None \<Rightarrow> (-1, s))"

definition sys_open :: "u32 \<Rightarrow> fs \<Rightarrow> (int \<times> fs) outcome option" where
  "sys_open path s =
     bind_run (vfs_lookup path s) (\<lambda>(node, s).
       if node = 0 then Some (Ret (-1, s))
       else let (fd, s) = fd_alloc s
            in if fd < 0 then Some (Ret (-1, s))
               else Some (Ret (fd, set_fd (nat fd) (\<lambda>d. d\<lparr>fd_node := node\<rparr>) s)))"

definition fd_valid :: "int \<Rightarrow> fs \<Rightarrow> bool" where
  "fd_valid fd s \<longleftrightarrow> 0 \<le> fd \<and> fd < int MAX_FDS \<and> fd_used (fd_table s ! nat fd)"

definition advance :: "int \<Rightarrow> int \<Rightarrow> fs \<Rightarrow> int \<times> fs" where
  "advance fd n s = (n, if n > 0 then set_fd (nat fd) (\<lambda>d. d\<lparr>fd_offset := fd_offset d + of_int n\<rparr>) s else s)"

definition sys_write :: "int \<Rightarrow> u32 \<Rightarrow> u32 \<Rightarrow> fs \<Rightarrow> (int \<times> fs) outcome option" where
  "sys_write fd buffer sz s =
     (if \<not> fd_valid fd s then Some (Ret (-1, s))
      else let d = fd_table s ! nat fd
           in (case ops_of (fd_node d) s of None \<Rightarrow> Some (Fault ''ops'')
               | Some ops \<Rightarrow>
                 if \<not> write_set ops then Some (Fault ''write'')
                 else bind_run (ramfs_write (fd_node d) (fd_offset d) sz buffer s) (\<lambda>(written, s).
                   Some (Ret (advance fd written s)))))"

definition sys_read :: "int \<Rightarrow> u32 \<Rightarrow> u32 \<Rightarrow> fs \<Rightarrow> (int \<times> fs) outcome option" where
  "sys_read fd buffer sz s =
     (if \<not> fd_valid fd s then Some (Ret (-1, s))
      else let d = fd_table s ! nat fd
           in (case ops_of (fd_node d) s of None \<Rightarrow> Some (Fault ''ops'')
               | Some ops \<Rightarrow>
                 if \<not> read_set ops then Some (Fault ''read'')
                 else let (n, s) = ramfs_read (fd_node d) (fd_offset d) sz buffer s
                      in Some (Ret (advance fd n s))))"

definition sys_close :: "int \<Rightarrow> fs \<Rightarrow> fs" where
  "sys_close fd s = (if 0 \<le> fd \<and> fd < int MAX_FDS then set_fd (nat fd) (\<lambda>d. d\<lparr>fd_used := False\<rparr>) s else s)"

definition sys_seek :: "int \<Rightarrow> u32 \<Rightarrow> fs \<Rightarrow> int \<times> fs" where
  "sys_seek fd offset s =
     (if \<not> fd_valid fd s then (-1, s) else (0, set_fd (nat fd) (\<lambda>d. d\<lparr>fd_offset := offset\<rparr>) s))"

end
