(* ===== verification/FsInv.thy ===== *)
theory FsInv imports Vfs begin

text \<open>
  What a sound file system is: a map \<open>N\<close> from addresses to abstract nodes, each of which lies
  in a block in use of the heap with its fields as the map says, with its contents in another
  block, no block serving twice.  The lemmas carry this invariant over writes to memory.
\<close>

section \<open>Strings that an operation leaves alone\<close>

lemma touches_cstr:
  assumes "touches m m' S" and "{x..x + length s} \<inter> S = {}" and "x + length s < 4294967296" and "cstr m (ad x) s"
  shows "cstr m' (ad x) s"
  using touches_read [OF assms(1), of x "length s + 1"] assms(2-4)
  by (auto simp: cstr_read_bytes atLeastLessThanSuc_atLeastAtMost simp del: read_bytes.simps)

section \<open>The heap under writes to its blocks\<close>

definition owned :: "blk list \<Rightarrow> nat set" where
  "owned bs = (\<Union>(a, k)\<in>used bs. {a..<a + k})"

definition heap_space :: "blk list \<Rightarrow> nat set" where
  "heap_space bs = heap_area - owned bs"

lemma owned_block: "(a, k) \<in> used bs \<Longrightarrow> {a..<a + k} \<subseteq> owned bs"
  by (auto simp: owned_def)

lemma owned_area: "heap_ok h bs e \<Longrightarrow> owned bs \<subseteq> heap_area"
  using used_area by (fastforce simp: owned_def)

lemma owned_payload: "y \<in> owned bs \<longleftrightarrow> (\<exists>b\<in>set bs. \<not> bfree b \<and> y \<in> payload b)"
  by (fastforce simp: owned_def used_def payload_def bend_def)

lemma keeps_touches: "keeps bs m m' \<Longrightarrow> touches m m' (heap_space bs)"
  unfolding keeps_def touches_def heap_space_def owned_payload
  by (metis DiffI owned_payload)

lemma words_not_owned:
  assumes la: "laid lo bs e" and c: "c \<in> set bs"
    and y: "y \<in> {baddr c, baddr c + 4, baddr c + 8, baddr c + 12, baddr c + 16}" and z: "y \<le> z" "z < y + 4"
  shows "z \<notin> owned bs"
proof
  assume "z \<in> owned bs"
  then obtain b where b: "b \<in> set bs" "z \<in> payload b" by (auto simp: owned_payload)
  obtain xs ys where bs: "bs = xs @ b # ys" using b by (auto simp: in_set_conv_decomp)
  consider "c \<in> set xs" | "c = b" | "c \<in> set ys" using c bs by auto
  then show False
  proof cases
    case 1
    then have "bend c \<le> baddr b" "0 < bsize c" using la bs by (auto simp: laid_append dest: laid_mem)
    then show ?thesis using y z b(2) by (auto simp: bend_def payload_def)
  next
    case 2
    then show ?thesis using y z b(2) by (auto simp: payload_def)
  next
    case 3
    then have "bend b \<le> baddr c" using la bs by (auto simp: laid_append dest: laid_mem)
    then show ?thesis using y z b(2) by (auto simp: payload_def)
  qed
qed

lemma tail_not_owned:
  assumes la: "laid lo bs e" and c: "c \<in> set bs" and z: "bend c \<le> z" "z < bend c + 4"
  shows "z \<notin> owned bs"
proof
  assume "z \<in> owned bs"
  then obtain b where b: "b \<in> set bs" "z \<in> payload b" by (auto simp: owned_payload)
  obtain xs ys where bs: "bs = xs @ b # ys" using b by (auto simp: in_set_conv_decomp)
  consider "c \<in> set xs" | "c = b" | "c \<in> set ys" using c bs by auto
  then show False
  proof cases
    case 1
    then have "bend c \<le> baddr b" using la bs by (auto simp: laid_append dest: laid_mem)
    then show ?thesis using z b(2) by (auto simp: payload_def)
  next
    case 2
    then show ?thesis using z b(2) by (auto simp: payload_def)
  next
    case 3
    then have "bend b \<le> baddr c" using la bs by (auto simp: laid_append dest: laid_mem)
    then show ?thesis using z b(2) by (auto simp: payload_def bend_def)
  qed
qed

text \<open>Writes that stay inside the blocks in use, or outside the heap, keep its list.\<close>

lemma heap_touches:
  assumes ok: "heap_ok h bs e" and t: "touches (hmem h) m' S" and S: "S \<inter> heap_space bs = {}"
  shows "heap_ok (h\<lparr>hmem := m'\<rparr>) bs e"
proof -
  have la: "laid 0x1014 bs e" and sg: "seg (hmem h) 0 bs 0" using ok by (auto simp: heap_ok_def)
  have e: "e + 4 \<le> 0x800000" using ok by (auto simp: heap_ok_def elim!: dvdE)
  have "seg m' 0 bs 0"
    using sg
  proof (rule seg_words)
    fix c y assume c: "c \<in> set bs" and y: "y \<in> {baddr c, baddr c + 4, baddr c + 8, baddr c + 12, baddr c + 16, bend c}"
    have "z \<notin> S" if z: "y \<le> z" "z < y + 4" for z
    proof -
      have "z \<notin> owned bs" using words_not_owned [OF la c _ z] tail_not_owned [OF la c] y z by auto
      moreover have "early_used c" using ok c by (simp add: heap_ok_def)
      then have "z \<in> heap_area"
        using laid_mem [OF la c] y z e by (auto simp: bend_def early_used_def heap_area_def)
      ultimately show ?thesis using S by (auto simp: heap_space_def)
    qed
    moreover have "y + 4 \<le> 0x800000" using laid_mem [OF la c] y e by (auto simp: bend_def)
    ultimately show "rd m' y = rd (hmem h) y" by (intro touches_rd [OF t]) auto
  qed
  then show ?thesis using ok by (simp add: heap_ok_def)
qed

section \<open>Nodes\<close>

record anode =
  a_name :: "u8 list"
  a_flags :: u32
  a_kids :: "nat list"
  a_buf :: nat
  a_cap :: nat
  a_bytes :: "u8 list"

text \<open>The fields of the node at \<open>p\<close>; \<open>a_buf\<close> is 0 while the file has no array.\<close>

definition node_at :: "u32 \<Rightarrow> mem \<Rightarrow> nat \<Rightarrow> anode \<Rightarrow> bool" where
  "node_at ops m p a \<longleftrightarrow> cstr m (ad p) (a_name a) \<and> rd m (p + 64) = a_flags a
     \<and> rd m (p + 76) = ad p \<and> rd m (p + 80) = ops \<and> rd m (p + 84) = ad (a_buf a)
     \<and> rd m (p + 88) = ad (length (a_bytes a)) \<and> rd m (p + 92) = ad (a_cap a)
     \<and> rd m (p + 224) = ad (length (a_kids a)) \<and> (\<forall>i < length (a_kids a). rd m (p + 96 + 4 * i) = ad (a_kids a ! i))
     \<and> read_bytes m (ad (a_buf a)) (length (a_bytes a)) = a_bytes a"

definition foot :: "nat \<Rightarrow> anode \<Rightarrow> nat set" where
  "foot p a = {p..<p + 228} \<union> {a_buf a..<a_buf a + length (a_bytes a)}"

text \<open>The blocks a node needs, and the sizes of its parts.\<close>

definition node_fits :: "blk list \<Rightarrow> nat \<Rightarrow> anode \<Rightarrow> bool" where
  "node_fits bs p a \<longleftrightarrow> (\<exists>k\<ge>228. (p, k) \<in> used bs) \<and> length (a_name a) < 64 \<and> length (a_kids a) \<le> 32
     \<and> length (a_bytes a) \<le> a_cap a
     \<and> (if a_buf a = 0 then a_cap a = 0 else a_buf a \<noteq> p \<and> (\<exists>k\<ge>a_cap a. (a_buf a, k) \<in> used bs))"

definition blocks :: "nat \<Rightarrow> anode \<Rightarrow> nat set" where
  "blocks p a = (if a_buf a = 0 then {p} else {p, a_buf a})"

lemma node_fits_range:
  assumes "heap_ok h bs e" and "node_fits bs p a"
  shows "0x1028 \<le> p" and "p + 228 < 0x800000" and "a_buf a + a_cap a < 0x800000"
    and "a_buf a + length (a_bytes a) < 0x800000"
proof -
  obtain k where k: "228 \<le> k" "(p, k) \<in> used bs" using assms(2) by (auto simp: node_fits_def)
  from used_range [OF assms(1) k(2)] k(1) show "0x1028 \<le> p" "p + 228 < 0x800000" by auto
  show b: "a_buf a + a_cap a < 0x800000"
  proof (cases "a_buf a = 0")
    case False
    then obtain l where "a_cap a \<le> l" "(a_buf a, l) \<in> used bs" using assms(2) by (auto simp: node_fits_def)
    with used_range(2) [OF assms(1) this(2)] show ?thesis by linarith
  qed (use assms(2) in \<open>simp add: node_fits_def\<close>)
  then show "a_buf a + length (a_bytes a) < 0x800000" using assms(2) by (auto simp: node_fits_def)
qed

lemma foot_owned:
  assumes "node_fits bs p a"
  shows "foot p a \<subseteq> owned bs"
proof -
  have "{p..<p + 228} \<subseteq> owned bs"
  proof -
    obtain k where k: "228 \<le> k" "(p, k) \<in> used bs" using assms by (auto simp: node_fits_def)
    have "{p..<p + 228} \<subseteq> {p..<p + k}" using k(1) by auto
    with owned_block [OF k(2)] show ?thesis by blast
  qed
  moreover have "{a_buf a..<a_buf a + length (a_bytes a)} \<subseteq> owned bs"
  proof (cases "a_buf a = 0")
    case True
    then have "length (a_bytes a) = 0" using assms by (auto simp: node_fits_def)
    then show ?thesis by simp
  next
    case False
    then obtain k where k: "a_cap a \<le> k" "(a_buf a, k) \<in> used bs" using assms by (auto simp: node_fits_def)
    have "{a_buf a..<a_buf a + length (a_bytes a)} \<subseteq> {a_buf a..<a_buf a + k}"
      using k(1) assms by (auto simp: node_fits_def)
    with owned_block [OF k(2)] show ?thesis by blast
  qed
  ultimately show ?thesis by (simp add: foot_def)
qed

lemma foot_area: "heap_ok h bs e \<Longrightarrow> node_fits bs p a \<Longrightarrow> foot p a \<subseteq> heap_area"
  using foot_owned owned_area by blast

lemma node_touches:
  assumes t: "touches m m' S" and d: "foot p a \<inter> S = {}" and p: "p + 228 \<le> 4294967296"
    and b: "a_buf a + length (a_bytes a) \<le> 4294967296" and sz: "length (a_name a) < 64" "length (a_kids a) \<le> 32"
    and n: "node_at ops m p a"
  shows "node_at ops m' p a"
proof -
  have w: "rd m' (p + i) = rd m (p + i)" if "i \<le> 224" for i
    by (rule touches_rd [OF t]) (use d p that in \<open>auto simp: foot_def disjoint_iff\<close>)
  have "rd m' (p + 96 + 4 * i) = ad (a_kids a ! i)" if "i < length (a_kids a)" for i
    using w [of "96 + 4 * i"] that sz(2) n by (simp add: node_at_def add.assoc)
  moreover have "cstr m' (ad p) (a_name a)"
    by (rule touches_cstr [OF t]) (use d p sz(1) n in \<open>auto simp: foot_def node_at_def disjoint_iff\<close>)
  moreover have "read_bytes m' (ad (a_buf a)) (length (a_bytes a)) = a_bytes a"
    using touches_read [OF t, of "a_buf a" "length (a_bytes a)"] d b n
    by (auto simp: foot_def node_at_def)
  ultimately show ?thesis using n by (simp add: node_at_def w)
qed

section \<open>The file system in memory\<close>

definition all_ops :: vfs_ops where
  "all_ops = \<lparr>lookup_set = True, create_set = True, read_set = True, write_set = True, list_set = True\<rparr>"

text \<open>The mounts and descriptors in use point to nodes.\<close>

definition fs_refs :: "fs \<Rightarrow> nat set \<Rightarrow> bool" where
  "fs_refs s D \<longleftrightarrow> length (mounts s) = MAX_MOUNTS \<and> mount_count s \<le> MAX_MOUNTS
     \<and> (\<forall>i < mount_count s. \<exists>a r. mounts s ! i = (ad a, ad r) \<and> a \<in> D \<and> r \<in> D)
     \<and> length (fd_table s) = MAX_FDS
     \<and> (\<forall>d\<in>set (fd_table s). fd_used d \<longrightarrow> (\<exists>p\<in>D. fd_node d = ad p))"

lemma fs_refs_mono: "fs_refs s D \<Longrightarrow> D \<subseteq> D' \<Longrightarrow> fs_refs s D'"
  unfolding fs_refs_def by (meson subset_iff)

definition fs_ok :: "fs \<Rightarrow> blk list \<Rightarrow> nat \<Rightarrow> (nat \<rightharpoonup> anode) \<Rightarrow> bool" where
  "fs_ok s bs e N \<longleftrightarrow> heap_ok (fheap s) bs e \<and> ramfs_ops s = all_ops
     \<and> (\<forall>p a. N p = Some a \<longrightarrow> node_at (ramfs_ops_at s) (fmem s) p a \<and> node_fits bs p a \<and> set (a_kids a) \<subseteq> dom N)
     \<and> (\<forall>p a q b. N p = Some a \<longrightarrow> N q = Some b \<longrightarrow> p \<noteq> q \<longrightarrow> blocks p a \<inter> blocks q b = {})
     \<and> fs_refs s (dom N)"

lemma fs_okD:
  assumes "fs_ok s bs e N" and "N p = Some a"
  shows "node_at (ramfs_ops_at s) (fmem s) p a" and "node_fits bs p a" and "set (a_kids a) \<subseteq> dom N"
  using assms by (auto simp: fs_ok_def)

text \<open>A block in use serves the bytes from its start on; two starts have no byte in common.\<close>

lemma used_disjoint:
  assumes "heap_ok h bs e" and "(a, k) \<in> used bs" and "(b, l) \<in> used bs" and "a \<noteq> b" and "k' \<le> k" and "l' \<le> l"
  shows "{a..<a + k'} \<inter> {b..<b + l'} = {}"
  using used_separate [OF assms(1-4)] assms(5,6) by auto

text \<open>What a block that no node claims holds is apart from every node.\<close>

lemma foot_apart:
  assumes ok: "heap_ok h bs e" and n: "node_fits bs p a" and b: "(b, l) \<in> used bs" "b \<notin> blocks p a" "l' \<le> l"
  shows "foot p a \<inter> {b..<b + l'} = {}"
proof -
  obtain k where k: "228 \<le> k" "(p, k) \<in> used bs" using n by (auto simp: node_fits_def)
  have "p \<noteq> b" using b(2) by (auto simp: blocks_def split: if_splits)
  from used_disjoint [OF ok k(2) b(1) this k(1) b(3)] have 1: "{p..<p + 228} \<inter> {b..<b + l'} = {}" .
  have 2: "{a_buf a..<a_buf a + length (a_bytes a)} \<inter> {b..<b + l'} = {}"
  proof (cases "a_buf a = 0")
    case True
    then show ?thesis using n by (simp add: node_fits_def)
  next
    case False
    then obtain j where j: "a_cap a \<le> j" "(a_buf a, j) \<in> used bs" using n by (auto simp: node_fits_def)
    have "a_buf a \<noteq> b" using b(2) False by (auto simp: blocks_def)
    from used_disjoint [OF ok j(2) b(1) this _ b(3), of "length (a_bytes a)"] j(1) n
    show ?thesis by (simp add: node_fits_def)
  qed
  from 1 2 show ?thesis by (auto simp: foot_def)
qed

lemma foot_below_heap_space: "node_fits bs p a \<Longrightarrow> foot p a \<inter> heap_space bs = {}"
  using foot_owned [of bs p a] by (auto simp: heap_space_def)

section \<open>Keeping the invariant\<close>

lemma set_fmem_simps [simp]:
  "fmem (set_fmem m s) = m" "fheap (set_fmem m s) = (fheap s)\<lparr>hmem := m\<rparr>" "ramfs_ops (set_fmem m s) = ramfs_ops s"
  "mounts (set_fmem m s) = mounts s" "mount_count (set_fmem m s) = mount_count s" "fd_table (set_fmem m s) = fd_table s"
  "ramfs_ops_at (set_fmem m s) = ramfs_ops_at s" "part_at (set_fmem m s) = part_at s" "vfs_root (set_fmem m s) = vfs_root s"
  "ramfs_initialized (set_fmem m s) = ramfs_initialized s" "set_fmem m' (set_fmem m s) = set_fmem m' s"
  by (simp_all add: set_fmem_def fmem_def)

lemma set_fmem_same [simp]: "set_fmem (fmem s) s = s"
  by (simp add: set_fmem_def fmem_def)

lemma fs_refs_simps [simp]:
  "fs_refs (set_fmem m s) D = fs_refs s D" "fs_refs (s\<lparr>fheap := h\<rparr>) D = fs_refs s D"
  by (simp_all add: fs_refs_def)

lemma fmem_simps [simp]: "fmem (s\<lparr>fheap := h\<rparr>) = hmem h" "fmem (s\<lparr>fd_table := t\<rparr>) = fmem s"
  "fmem (s\<lparr>mounts := ms\<rparr>) = fmem s" "fmem (s\<lparr>mount_count := n\<rparr>) = fmem s" "fmem (s\<lparr>ramfs_ops := ops\<rparr>) = fmem s"
  "fmem (s\<lparr>ramfs_initialized := i\<rparr>) = fmem s" "fmem (s\<lparr>vfs_root := r\<rparr>) = fmem s"
  by (simp_all add: fmem_def)

text \<open>A write that touches no node and no header of the heap.\<close>

lemma fs_touch:
  assumes ok: "fs_ok s bs e N" and t: "touches (fmem s) m S" and hs: "S \<inter> heap_space bs = {}"
    and ft: "\<And>p a. N p = Some a \<Longrightarrow> foot p a \<inter> S = {}"
  shows "fs_ok (set_fmem m s) bs e N"
proof -
  have hp: "heap_ok (fheap s) bs e" using ok by (simp add: fs_ok_def)
  have "node_at (ramfs_ops_at s) m p a" if p: "N p = Some a" for p a
  proof (rule node_touches [OF t ft [OF p]])
    note n = fs_okD [OF ok p]
    from node_fits_range [OF hp n(2)] show "p + 228 \<le> 4294967296" "a_buf a + length (a_bytes a) \<le> 4294967296" by simp_all
    show "length (a_name a) < 64" "length (a_kids a) \<le> 32" using n(2) by (simp_all add: node_fits_def)
  qed (rule fs_okD(1) [OF ok p])
  moreover have "heap_ok ((fheap s)\<lparr>hmem := m\<rparr>) bs e"
    using heap_touches [OF hp _ hs] t by (simp add: fmem_def)
  ultimately show ?thesis using ok by (simp add: fs_ok_def)
qed

lemma fs_touch_outside:
  assumes ok: "fs_ok s bs e N" and t: "touches (fmem s) m S" and out: "S \<inter> heap_area = {}"
  shows "fs_ok (set_fmem m s) bs e N"
proof (rule fs_touch [OF ok t])
  show "S \<inter> heap_space bs = {}" using out by (auto simp: heap_space_def)
  fix p a assume p: "N p = Some a"
  have hp: "heap_ok (fheap s) bs e" using ok by (simp add: fs_ok_def)
  note n = fs_okD(2) [OF ok p]
  have "foot p a \<subseteq> heap_area" using hp n by (rule foot_area)
  then show "foot p a \<inter> S = {}" using out by blast
qed

text \<open>A block is allocated: the nodes stay, and the new block is none of theirs.\<close>

lemma node_fits_mono: "node_fits bs p a \<Longrightarrow> used bs \<subseteq> used bs' \<Longrightarrow> node_fits bs' p a"
  by (auto simp: node_fits_def) blast+

lemma block_used: "node_fits bs p a \<Longrightarrow> x \<in> blocks p a \<Longrightarrow> \<exists>k. (x, k) \<in> used bs"
  by (auto simp: node_fits_def blocks_def split: if_splits)

lemma fs_kmalloc:
  assumes ok: "fs_ok s bs e N" and n: "0 < unat n" "unat n \<le> 0x7FFFFFFF" and room: "e + 24 + round8 (unat n) < 0x800000"
  shows "\<exists>p k h bs' e'. kmalloc n (fheap s) = Some (ad p, h) \<and> fs_ok (s\<lparr>fheap := h\<rparr>) bs' e' N
    \<and> e' \<le> e + 24 + round8 (unat n) \<and> unat n \<le> k \<and> (p, k) \<in> used bs' \<and> used bs \<subseteq> used bs'
    \<and> touches (fmem s) (hmem h) (heap_space bs) \<and> screen h = screen (fheap s)
    \<and> (\<forall>q b. N q = Some b \<longrightarrow> p \<notin> blocks q b)"
proof -
  have hp: "heap_ok (fheap s) bs e" using ok by (simp add: fs_ok_def)
  from kmalloc_serves [OF hp n room] obtain p k h bs' e' where
    r: "kmalloc n (fheap s) = Some (ad p, h)" "heap_ok h bs' e'" "e' \<le> e + 24 + round8 (unat n)"
      "unat n \<le> k" "(p, k) \<notin> used bs" "used bs' = insert (p, k) (used bs)" "keeps bs (fmem s) (hmem h)"
      "screen h = screen (fheap s)" by (auto simp: fmem_def)
  have t: "touches (fmem s) (hmem h) (heap_space bs)" using r(7) by (rule keeps_touches)
  have nd: "node_at (ramfs_ops_at s) (hmem h) q b" if q: "N q = Some b" for q b
  proof (rule node_touches [OF t])
    note n = fs_okD(2) [OF ok q]
    from n show "foot q b \<inter> heap_space bs = {}" by (rule foot_below_heap_space)
    from node_fits_range [OF hp n] show "q + 228 \<le> 4294967296" "a_buf b + length (a_bytes b) \<le> 4294967296" by simp_all
    show "length (a_name b) < 64" "length (a_kids b) \<le> 32" using n by (simp_all add: node_fits_def)
  qed (rule fs_okD(1) [OF ok q])
  have "p \<notin> blocks q b" if q: "N q = Some b" for q b
  proof
    assume "p \<in> blocks q b"
    from block_used [OF fs_okD(2) [OF ok q] this] obtain l where l: "(p, l) \<in> used bs" ..
    with r(6) have "(p, l) \<in> used bs'" "(p, k) \<in> used bs'" by auto
    from used_fun [OF r(2) this] l r(5) show False by simp
  qed
  moreover have "fs_ok (s\<lparr>fheap := h\<rparr>) bs' e' N"
    using ok nd r(2,6) node_fits_mono [of bs _ _ bs'] by (auto simp: fs_ok_def) blast+
  ultimately show ?thesis using r t by blast
qed

text \<open>The node at \<open>p\<close> becomes \<open>a\<close>, new or not; the other nodes are not touched.\<close>

lemma fs_upd:
  assumes ok: "fs_ok s bs e N" and t: "touches (fmem s) m S" and hs: "S \<inter> heap_space bs = {}"
    and ft: "\<And>q b. N q = Some b \<Longrightarrow> q \<noteq> p \<Longrightarrow> foot q b \<inter> S = {}"
    and a: "node_at (ramfs_ops_at s) m p a" "node_fits bs p a" "set (a_kids a) \<subseteq> insert p (dom N)"
    and bl: "\<And>q b. N q = Some b \<Longrightarrow> q \<noteq> p \<Longrightarrow> blocks p a \<inter> blocks q b = {}"
  shows "fs_ok (set_fmem m s) bs e (N(p \<mapsto> a))"
proof -
  have hp: "heap_ok (fheap s) bs e" using ok by (simp add: fs_ok_def)
  have nd: "node_at (ramfs_ops_at s) m q b" if q: "N q = Some b" "q \<noteq> p" for q b
  proof (rule node_touches [OF t ft [OF q]])
    note n = fs_okD [OF ok q(1)]
    from node_fits_range [OF hp n(2)] show "q + 228 \<le> 4294967296" "a_buf b + length (a_bytes b) \<le> 4294967296" by simp_all
    show "length (a_name b) < 64" "length (a_kids b) \<le> 32" using n(2) by (simp_all add: node_fits_def)
  qed (rule fs_okD(1) [OF ok q(1)])
  have "heap_ok ((fheap s)\<lparr>hmem := m\<rparr>) bs e"
    using heap_touches [OF hp _ hs] t by (simp add: fmem_def)
  moreover have "\<forall>q b. (N(p \<mapsto> a)) q = Some b \<longrightarrow>
      node_at (ramfs_ops_at s) m q b \<and> node_fits bs q b \<and> set (a_kids b) \<subseteq> dom (N(p \<mapsto> a))"
    using nd a fs_okD [OF ok] by (auto split: if_splits) blast+
  moreover have "\<forall>q b r c. (N(p \<mapsto> a)) q = Some b \<longrightarrow> (N(p \<mapsto> a)) r = Some c \<longrightarrow> q \<noteq> r \<longrightarrow> blocks q b \<inter> blocks r c = {}"
  proof (intro allI impI)
    fix q b r c assume q: "(N(p \<mapsto> a)) q = Some b" and r: "(N(p \<mapsto> a)) r = Some c" and ne: "q \<noteq> r"
    show "blocks q b \<inter> blocks r c = {}"
    proof (cases "q = p \<or> r = p")
      case True
      then show ?thesis using q r ne bl [of q b] bl [of r c] by (auto split: if_splits)
    next
      case False
      then show ?thesis using q r ne ok unfolding fs_ok_def by (metis fun_upd_other)
    qed
  qed
  moreover have "fs_refs s (dom (N(p \<mapsto> a)))"
    using ok fs_refs_mono [of s "dom N" "dom (N(p \<mapsto> a))"] by (auto simp: fs_ok_def)
  ultimately show ?thesis using ok by (simp add: fs_ok_def)
qed

end
