(* ===== verification/FsOps.thy ===== *)
theory FsOps imports FsInv begin

text \<open>
  The operations of ramfs on a sound file system: looking a name up, making a node, writing and
  reading a file, each against the map of abstract nodes.
\<close>

section \<open>Looking a name up\<close>

text \<open>The children of a node that bear a name, in the order of the table.\<close>

definition named :: "(nat \<rightharpoonup> anode) \<Rightarrow> u8 list \<Rightarrow> nat \<Rightarrow> bool" where
  "named N t q \<longleftrightarrow> (\<exists>b. N q = Some b \<and> a_name b = t)"

definition found :: "nat option \<Rightarrow> u32" where
  "found q = (case q of None \<Rightarrow> 0 | Some q \<Rightarrow> ad q)"

lemma node_simps:
  "n_flags m (ad p) = rd m (p + 64)" "n_fs_private m (ad p) = rd m (p + 76)" "n_ops m (ad p) = rd m (p + 80)"
  "r_data m (ad p) = rd m (p + 84)" "r_size m (ad p) = rd m (p + 88)" "r_capacity m (ad p) = rd m (p + 92)"
  "r_child_count m (ad p) = rd m (p + 224)" "r_child m (ad p) (ad i) = rd m (p + 96 + 4 * i)"
  by (simp_all add: n_flags_def n_fs_private_def n_ops_def r_data_def r_size_def r_capacity_def r_child_count_def
      r_child_def load32_ad ad_add_numeral) (simp add: ad_def rd_def)

lemma child_named_find:
  assumes ok: "fs_ok s bs e N" and p: "N p = Some a" and nm: "cstr (fmem s) nm t" and i: "i \<le> length (a_kids a)"
  shows "child_named (fmem s) (ad p) nm (ad i) = Some (found (find (named N t) (drop i (a_kids a))))"
  using i
proof (induction "length (a_kids a) - i" arbitrary: i)
  case 0
  have "length (a_kids a) \<le> 32" using fs_okD(2) [OF ok p] by (simp add: node_fits_def)
  with 0 fs_okD(1) [OF ok p] show ?case
    by (subst child_named.simps) (simp add: node_simps node_at_def found_def)
next
  case (Suc k)
  then have i: "i < length (a_kids a)" by simp
  let ?q = "a_kids a ! i"
  have len: "length (a_kids a) \<le> 32" using fs_okD(2) [OF ok p] by (simp add: node_fits_def)
  have "?q \<in> dom N" using fs_okD(3) [OF ok p] i by (meson nth_mem subsetD)
  then obtain b where b: "N ?q = Some b" by auto
  have "cstr (fmem s) (ad ?q) (a_name b)" using fs_okD(1) [OF ok b] by (simp add: node_at_def)
  from strcmp_eq_iff [OF this nm] obtain r where
    r: "strcmp (fmem s) (ad ?q) nm = Some r" "r = 0 \<longleftrightarrow> a_name b = t" by blast
  have c: "r_child (fmem s) (ad p) (ad i) = ad ?q"
    using fs_okD(1) [OF ok p] i by (simp add: node_simps node_at_def)
  have dr: "drop i (a_kids a) = ?q # drop (Suc i) (a_kids a)" using i by (simp add: Cons_nth_drop_Suc)
  have nx: "ad i + 1 = ad (Suc i)" by (simp add: ad_def)
  have lt: "ad i < r_child_count (fmem s) (ad p)"
    using fs_okD(1) [OF ok p] i len by (simp add: node_simps node_at_def ad_less_iff)
  show ?case
  proof (cases "a_name b = t")
    case True
    then show ?thesis using r c dr lt b by (subst child_named.simps) (simp add: found_def named_def)
  next
    case False
    then show ?thesis using r c dr lt b nx Suc.hyps(1) [of "Suc i"] Suc.hyps(2) i
      by (subst child_named.simps) (simp add: named_def)
  qed
qed

lemma ad_nonzero: "0x1028 \<le> p \<Longrightarrow> p + 228 < 0x800000 \<Longrightarrow> ad p \<noteq> 0"
  by (simp add: ad_eq_0_iff)

lemma fs_node_nonzero:
  assumes "fs_ok s bs e N" and "N p = Some a"
  shows "ad p \<noteq> 0" and "n_fs_private (fmem s) (ad p) = ad p"
proof -
  have "heap_ok (fheap s) bs e" using assms(1) by (simp add: fs_ok_def)
  from node_fits_range [OF this fs_okD(2) [OF assms]] show "ad p \<noteq> 0" by (simp add: ad_eq_0_iff)
  show "n_fs_private (fmem s) (ad p) = ad p" using fs_okD(1) [OF assms] by (simp add: node_simps node_at_def)
qed

lemma ramfs_lookup_finds:
  assumes "fs_ok s bs e N" and "N p = Some a" and "cstr (fmem s) nm t"
  shows "ramfs_lookup (ad p) nm s = Some (Ret (found (find (named N t) (a_kids a))))"
  using child_named_find [OF assms, of 0] fs_node_nonzero [OF assms(1,2)]
  by (simp add: ramfs_lookup_def ad_0)

section \<open>Making a node\<close>

lemma rd_zeros:
  assumes "x \<le> y" "y + 4 \<le> x + n" "x + n \<le> 4294967296"
  shows "rd (write_bytes m (ad x) (replicate n 0)) y = 0"
proof -
  have "write_bytes m (ad x) (replicate n 0) (ad y + of_nat i) = 0" if "i < 4" for i
  proof -
    have "ad y + of_nat i = ad x + of_nat (y - x + i)" using assms(1) by (simp add: ad_def)
    moreover have "y - x + i < n" using assms that by simp
    ultimately show ?thesis using write_bytes_inside [of "y - x + i" "replicate n 0" m "ad x"] assms(3) by (simp add: add.assoc)
  qed
  from this [of 0] this [of 1] this [of 2] this [of 3] show ?thesis
    by (simp add: rd_def load32_def)
qed

lemma rd_write_above:
  assumes "x + length bs \<le> y" "y + 4 \<le> 4294967296"
  shows "rd (write_bytes m (ad x) bs) y = rd m y"
proof (cases "bs = []")
  case False
  then show ?thesis using assms unfolding rd_def ad_def
    by (intro load32_write_bytes_apart apart_of_nat) auto
qed simp

text \<open>The memory of a node just made, with everything but the name, the flags and the pointers zero.\<close>

definition new_node :: "nat \<Rightarrow> u8 list \<Rightarrow> u32 \<Rightarrow> u32 \<Rightarrow> u32 \<Rightarrow> mem \<Rightarrow> mem" where
  "new_node c t fl parent ops m = store32 (store32 (store32 (store32
     (write_bytes (write_bytes m (ad c) (replicate 228 0)) (ad c) (t @ [0]))
     (ad (c + 64)) fl) (ad (c + 72)) parent) (ad (c + 76)) (ad c)) (ad (c + 80)) ops"

definition empty_node :: "u8 list \<Rightarrow> u32 \<Rightarrow> anode" where
  "empty_node t fl = \<lparr>a_name = t, a_flags = fl, a_kids = [], a_buf = 0, a_cap = 0, a_bytes = []\<rparr>"

lemma new_node_touches:
  assumes "length t < 64" and "c + 228 \<le> 4294967296"
  shows "touches m (new_node c t fl parent ops m) {c..<c + 228}"
  unfolding new_node_def using assms by (intro touches_store touches_write touches_refl) auto

lemma store_touches: "x + 4 \<le> 4294967296 \<Longrightarrow> touches m (store32 m (ad x) v) {x..<x + 4}"
  by (rule touches_store) auto

lemma new_node_at:
  assumes t: "length t < 64" "0 \<notin> set t" and c: "c + 228 \<le> 4294967296"
  shows "node_at ops (new_node c t fl parent ops m) c (empty_node t fl)"
proof -
  let ?m = "write_bytes (write_bytes m (ad c) (replicate 228 0)) (ad c) (t @ [0])"
  have z: "rd ?m (c + i) = 0" if "64 \<le> i" "i \<le> 224" for i
    using rd_write_above [of c "t @ [0]" "c + i"] rd_zeros [of c "c + i" 228] that t c by simp
  have "cstr ?m (ad c) t" using t by (intro cstr_write_bytes) auto
  then have "cstr (new_node c t fl parent ops m) (ad c) t" unfolding new_node_def
    using t c by (intro touches_cstr [OF store_touches]) (auto simp: disjoint_iff)
  then show ?thesis using c
    by (auto simp: node_at_def empty_node_def new_node_def rd_rules z ad_0)
qed

lemma memset_zeros: "memset m (ad c) 0 228 = write_bytes m (ad c) (replicate 228 0)"
  by (simp add: memset_correct)

lemma ramfs_create_eq:
  assumes p: "ad p \<noteq> 0" "n_fs_private (fmem s) (ad p) = ad p" "r_child_count (fmem s) (ad p) < 32"
    and k: "kmalloc 228 (fheap s) = Some (ad c, h)"
    and c: "strcpy (write_bytes (hmem h) (ad c) (replicate 228 0)) (ad c) nm =
      Some (write_bytes (write_bytes (hmem h) (ad c) (replicate 228 0)) (ad c) (t @ [0]))"
    and n: "\<And>m. m = store32 (store32 (store32
     (write_bytes (write_bytes (hmem h) (ad c) (replicate 228 0)) (ad c) (t @ [0]))
     (ad (c + 64)) fl) (ad (c + 72)) (ad p)) (ad (c + 76)) (ad c) \<Longrightarrow> n_ops m (ad p) = ops"
    and i: "r_child_count (new_node c t fl (ad p) ops (hmem h)) (ad p) = ad i"
  shows "ramfs_create (ad p) nm fl s = Some (Ret (0, set_fmem
     (store32 (store32 (new_node c t fl (ad p) ops (hmem h)) (ad (p + 224)) (ad (Suc i))) (ad (p + 96 + 4 * i)) (ad c))
     (s\<lparr>fheap := h\<rparr>)))"
proof -
  have "ad i + 1 = ad (Suc i)" "ad (p + 96) + 4 * ad i = ad (p + 96 + 4 * i)" by (simp_all add: ad_def)
  then show ?thesis using p k c i
    by (simp add: ramfs_create_def Let_def memset_zeros ad_add_numeral n [OF refl] new_node_def not_le)
qed

lemma count_and_child:
  assumes n: "node_at ops m p a" and len: "length (a_kids a) < 32" and p: "p + 228 \<le> 4294967296"
    and b: "a_buf a + length (a_bytes a) \<le> p \<or> p + 228 \<le> a_buf a"
    and bb: "a_buf a + length (a_bytes a) \<le> 4294967296" and nm: "length (a_name a) < 64"
  shows "node_at ops (store32 (store32 m (ad (p + 224)) (ad (Suc (length (a_kids a))))) (ad (p + 96 + 4 * length (a_kids a))) (ad c))
    p (a\<lparr>a_kids := a_kids a @ [c]\<rparr>)"
proof -
  let ?i = "length (a_kids a)"
  let ?m = "store32 (store32 m (ad (p + 224)) (ad (Suc ?i))) (ad (p + 96 + 4 * ?i)) (ad c)"
  have t: "touches m ?m {p + 96..<p + 228}"
    using len p by (intro touches_store touches_refl) auto
  have w: "rd ?m (p + i) = rd m (p + i)" if "i \<le> 92" for i
    using touches_rd [OF t, of "p + i"] that p by auto
  have "rd ?m (p + 96 + 4 * j) = ad ((a_kids a @ [c]) ! j)" if "j < Suc ?i" for j
  proof (cases "j = ?i")
    case False
    then have "j < ?i" using that by simp
    then show ?thesis using n len p by (simp add: rd_rules node_at_def nth_append)
  qed (simp add: rd_store_same)
  moreover have "rd ?m (p + 224) = ad (Suc ?i)" using len p by (simp add: rd_rules)
  moreover have "cstr ?m (ad p) (a_name a)"
    by (rule touches_cstr [OF t]) (use nm p n in \<open>auto simp: node_at_def disjoint_iff\<close>)
  moreover have "read_bytes ?m (ad (a_buf a)) (length (a_bytes a)) = a_bytes a"
    using touches_read [OF t, of "a_buf a" "length (a_bytes a)"] b bb n by (fastforce simp: node_at_def disjoint_iff)
  ultimately show ?thesis using n by (simp add: node_at_def w)
qed

text \<open>The table of children holds 32: after that \<open>ramfs_create\<close> refuses and changes nothing.\<close>

lemma ramfs_create_full:
  assumes "fs_ok s bs e N" and "N p = Some a" and "length (a_kids a) = 32"
  shows "ramfs_create (ad p) nm fl s = Some (Ret (-1, s))"
proof -
  have "r_child_count (fmem s) (ad p) = 32"
    using fs_okD(1) [OF assms(1,2)] assms(3) by (simp add: node_simps node_at_def ad_numeral)
  then show ?thesis using fs_node_nonzero [OF assms(1,2)] by (simp add: ramfs_create_def)
qed

lemma node_own_parts:
  assumes hp: "heap_ok h bs e" and n: "node_fits bs p a"
  shows "a_buf a + length (a_bytes a) \<le> p \<or> p + 228 \<le> a_buf a"
proof (cases "a_buf a = 0")
  case True
  then show ?thesis using n by (auto simp: node_fits_def)
next
  case False
  then obtain k l where "a_cap a \<le> k" "(a_buf a, k) \<in> used bs" "228 \<le> l" "(p, l) \<in> used bs" "a_buf a \<noteq> p"
    using n by (auto simp: node_fits_def)
  with used_separate [OF hp this(2,4,5)] n show ?thesis by (auto simp: node_fits_def)
qed

lemma ramfs_create_adds:
  assumes ok: "fs_ok s bs e N" and p: "N p = Some a" and len: "length (a_kids a) < 32"
    and nm: "cstr (fmem s) (ad x) t" "length t < 64" and out: "off_heap x 64" "x + 64 \<le> 4294967296"
    and room: "e + 256 < 0x800000"
  shows "\<exists>c s' bs' e'. ramfs_create (ad p) (ad x) fl s = Some (Ret (0, s')) \<and> c \<notin> dom N \<and> e' \<le> e + 256
    \<and> fs_ok s' bs' e' (N(c \<mapsto> empty_node t fl, p \<mapsto> a\<lparr>a_kids := a_kids a @ [c]\<rparr>))
    \<and> (\<exists>h. s' = s\<lparr>fheap := h\<rparr>) \<and> touches (fmem s) (fmem s') heap_area"
proof -
  have r: "round8 228 = 232" by (simp add: round8_def)
  obtain c k h bs' e' where k: "kmalloc 228 (fheap s) = Some (ad c, h)" "fs_ok (s\<lparr>fheap := h\<rparr>) bs' e' N"
      "e' \<le> e + 256" "228 \<le> k" "(c, k) \<in> used bs'" "touches (fmem s) (hmem h) (heap_space bs)"
      "\<And>q b. N q = Some b \<Longrightarrow> c \<notin> blocks q b"
    using fs_kmalloc [OF ok, of 228] room r by auto
  have hp: "heap_ok h bs' e'" using k(2) by (simp add: fs_ok_def)
  note crange = used_range(1,2) [OF hp k(5)]
  have carea: "{c..<c + 228} \<subseteq> heap_area" using used_area [OF hp k(5)] k(4) by auto
  have t0: "0 \<notin> set t" using nm(1) by (simp add: cstr_read_bytes)
  let ?s = "s\<lparr>fheap := h\<rparr>" and ?ops = "ramfs_ops_at s"
  define m where "m = new_node c t fl (ad p) ?ops (hmem h)"
  have mt: "touches (hmem h) m {c..<c + 228}" unfolding m_def
    using nm(2) crange k(4) by (intro new_node_touches) auto
  have nc: "node_at ?ops m c (empty_node t fl)" unfolding m_def
    using nm(2) t0 crange k(4) by (intro new_node_at) auto
  have cp: "c \<notin> blocks p a" using k(7) [OF p] .
  have cd: "c \<notin> dom N" using k(7) by (fastforce simp: blocks_def split: if_splits)
  have hs: "{c..<c + 228} \<inter> heap_space bs' = {}"
  proof -
    have "{c..<c + 228} \<subseteq> {c..<c + k}" using k(4) by auto
    from order_trans [OF this owned_block [OF k(5)]] show ?thesis unfolding heap_space_def by blast
  qed
  have ok1: "fs_ok (set_fmem m ?s) bs' e' (N(c \<mapsto> empty_node t fl))"
  proof (rule fs_upd [OF k(2) _ hs])
    show "touches (fmem ?s) m {c..<c + 228}" using mt by simp
    show "foot q b \<inter> {c..<c + 228} = {}" if "N q = Some b" for q b
      by (rule foot_apart [OF hp fs_okD(2) [OF k(2) that] k(5) k(7) [OF that] k(4)])
    show "node_at (ramfs_ops_at ?s) m c (empty_node t fl)" using nc by simp
    show "node_fits bs' c (empty_node t fl)" using k(4,5) nm(2) by (auto simp: node_fits_def empty_node_def)
    show "blocks c (empty_node t fl) \<inter> blocks q b = {}" if "N q = Some b" for q b
      using k(7) [OF that] by (simp add: blocks_def empty_node_def)
  qed (simp add: empty_node_def)
  have p1: "(N(c \<mapsto> empty_node t fl)) p = Some a" using p cd by auto
  have na: "node_at ?ops m p a" and nf: "node_fits bs' p a"
    using fs_okD(1,2) [OF ok1 p1] by simp_all
  have hp1: "heap_ok (fheap (set_fmem m ?s)) bs' e'" using ok1 by (simp add: fs_ok_def)
  note pr = node_fits_range [OF hp1 nf]
  define m' where "m' = store32 (store32 m (ad (p + 224)) (ad (Suc (length (a_kids a))))) (ad (p + 96 + 4 * length (a_kids a))) (ad c)"
  have mt': "touches m m' {p + 96..<p + 228}" unfolding m'_def
    using len pr by (intro touches_store touches_refl) auto
  have sp: "{p + 96..<p + 228} \<subseteq> foot p a" by (auto simp: foot_def)
  have "fs_ok (set_fmem m' (set_fmem m ?s)) bs' e' (N(c \<mapsto> empty_node t fl, p \<mapsto> a\<lparr>a_kids := a_kids a @ [c]\<rparr>))"
  proof (rule fs_upd [OF ok1, where S = "{p + 96..<p + 228}"])
    show "touches (fmem (set_fmem m ?s)) m' {p + 96..<p + 228}" using mt' by simp
    show "{p + 96..<p + 228} \<inter> heap_space bs' = {}" using sp foot_below_heap_space [OF nf] by blast
    show "foot q b \<inter> {p + 96..<p + 228} = {}" if q: "(N(c \<mapsto> empty_node t fl)) q = Some b" "q \<noteq> p" for q b
    proof -
      obtain j where j: "228 \<le> j" "(p, j) \<in> used bs'" using nf by (auto simp: node_fits_def)
      have "blocks q b \<inter> blocks p a = {}" using ok1 q p1 unfolding fs_ok_def by blast
      then have "p \<notin> blocks q b" by (auto simp: blocks_def split: if_splits)
      from foot_apart [OF hp1 fs_okD(2) [OF ok1 q(1)] j(2) this j(1)] show ?thesis by auto
    qed
    show "node_at (ramfs_ops_at (set_fmem m ?s)) m' p (a\<lparr>a_kids := a_kids a @ [c]\<rparr>)" unfolding m'_def
      using count_and_child [OF na len _ node_own_parts [OF hp1 nf]] pr nf by (simp add: node_fits_def)
    show "node_fits bs' p (a\<lparr>a_kids := a_kids a @ [c]\<rparr>)" using nf len by (simp add: node_fits_def)
    show "set (a_kids (a\<lparr>a_kids := a_kids a @ [c]\<rparr>)) \<subseteq> insert p (dom (N(c \<mapsto> empty_node t fl)))"
      using fs_okD(3) [OF ok p] by auto
    show "blocks p (a\<lparr>a_kids := a_kids a @ [c]\<rparr>) \<inter> blocks q b = {}"
      if q: "(N(c \<mapsto> empty_node t fl)) q = Some b" "q \<noteq> p" for q b
    proof -
      have "blocks p a \<inter> blocks q b = {}" using ok1 q p1 unfolding fs_ok_def by blast
      moreover have "blocks p (a\<lparr>a_kids := a_kids a @ [c]\<rparr>) = blocks p a" by (simp add: blocks_def)
      ultimately show ?thesis by simp
    qed
  qed
  moreover have "ramfs_create (ad p) (ad x) fl s = Some (Ret (0, set_fmem m' ?s))"
    unfolding m'_def m_def
  proof (rule ramfs_create_eq)
    show "ad p \<noteq> 0" "n_fs_private (fmem s) (ad p) = ad p" using fs_node_nonzero [OF ok p] by simp_all
    show "r_child_count (fmem s) (ad p) < 32" using fs_okD(1) [OF ok p] len
      by (simp add: node_simps node_at_def) (simp add: ad_def of_nat32_less_iff [of _ 32, simplified])
    show "kmalloc 228 (fheap s) = Some (ad c, h)" by (rule k(1))
    have "touches (fmem s) (write_bytes (hmem h) (ad c) (replicate 228 0)) heap_area"
      using touches_mono [OF k(6)] crange k(4) carea
      by (intro touches_write touches_mono [OF k(6)]) (auto simp: heap_space_def)
    then have "cstr (write_bytes (hmem h) (ad c) (replicate 228 0)) (ad x) t"
      using touches_cstr [OF _ _ _ nm(1)] off_heap_disjoint [OF off_heap_mono [OF out(1), of "length t + 1"]] out(2) nm(2)
      by (auto simp: atLeastLessThanSuc_atLeastAtMost)
    then show "strcpy (write_bytes (hmem h) (ad c) (replicate 228 0)) (ad c) (ad x) =
        Some (write_bytes (write_bytes (hmem h) (ad c) (replicate 228 0)) (ad c) (t @ [0]))"
    proof (rule strcpy_correct)
      have "{c..<c + (length t + 1)} \<subseteq> heap_area" using carea nm(2) by auto
      from ivl_apart [OF _ this off_heap_disjoint [OF off_heap_mono [OF out(1)]]] nm(2)
      have "c + (length t + 1) \<le> x \<or> x + (length t + 1) \<le> c" by auto
      then show "apart (length t + 1) (ad c) (length t + 1) (ad x)"
        using out nm(2) crange k(4) unfolding ad_def by (intro apart_of_nat) auto
    qed
    have pc: "p + 228 \<le> c \<or> c + 228 \<le> p"
    proof -
      obtain j where j: "228 \<le> j" "(p, j) \<in> used bs'" using nf by (auto simp: node_fits_def)
      have "p \<noteq> c" using p cd by auto
      from used_separate [OF hp j(2) k(5) this] j(1) k(4) show ?thesis by linarith
    qed
    have op: "rd (hmem h) (p + 80) = ?ops" using fs_okD(1) [OF k(2) p] by (simp add: node_at_def)
    show "n_ops m1 (ad p) = ?ops" if "m1 = store32 (store32 (store32
       (write_bytes (write_bytes (hmem h) (ad c) (replicate 228 0)) (ad c) (t @ [0]))
       (ad (c + 64)) fl) (ad (c + 72)) (ad p)) (ad (c + 76)) (ad c)" for m1
    proof -
      have "touches (hmem h) m1 {c..<c + 228}" unfolding that
        using nm(2) crange k(4) by (intro touches_store touches_write touches_refl) auto
      from touches_rd [OF this, of "p + 80"] pc pr op show ?thesis by (auto simp: node_simps)
    qed
    show "r_child_count (new_node c t fl (ad p) ?ops (hmem h)) (ad p) = ad (length (a_kids a))"
      using na by (simp add: m_def node_simps node_at_def)
  qed
  moreover have parea: "{p + 96..<p + 228} \<subseteq> heap_area" using foot_area [OF hp nf] by (auto simp: foot_def)
  have "touches (fmem s) m' heap_area"
    using touches_mono [OF k(6), of "heap_area"] touches_mono [OF mt, of "heap_area"]
      touches_mono [OF mt', of "heap_area"] crange k(4) carea parea
    by (auto simp: heap_space_def intro: touches_trans)
  ultimately show ?thesis using cd k(3)
    by (intro exI [of _ c] exI [of _ "set_fmem m' ?s"] exI [of _ bs'] exI [of _ e'])
      (auto simp: set_fmem_def)
qed

lemma node_own_cap:
  assumes hp: "heap_ok h bs e" and n: "node_fits bs p a"
  shows "{p..<p + 228} \<inter> {a_buf a..<a_buf a + a_cap a} = {}"
proof (cases "a_buf a = 0")
  case True
  then show ?thesis using n by (simp add: node_fits_def)
next
  case False
  then obtain k l where "a_cap a \<le> k" "(a_buf a, k) \<in> used bs" "228 \<le> l" "(p, l) \<in> used bs" "a_buf a \<noteq> p"
    using n by (auto simp: node_fits_def)
  with used_disjoint [OF hp this(4,2) not_sym [OF this(5)] this(3,1)] show ?thesis by simp
qed

section \<open>Writing a file\<close>

text \<open>
  \<open>r\<close> is \<open>old\<close> with \<open>new\<close> written at \<open>off\<close>.  Where the write starts behind the end, the bytes
  between are not determined: the code leaves what the heap held there.
\<close>

definition spliced :: "u8 list \<Rightarrow> nat \<Rightarrow> u8 list \<Rightarrow> u8 list \<Rightarrow> bool" where
  "spliced old off new r \<longleftrightarrow> length r = max (length old) (off + length new)
     \<and> take (length new) (drop off r) = new
     \<and> (\<forall>i < length old. i < off \<or> off + length new \<le> i \<longrightarrow> r ! i = old ! i)"

lemma spliced_inside:
  assumes s: "spliced old off new r" and off: "off \<le> length old"
  shows "r = take off old @ new @ drop (off + length new) old"
proof (rule nth_equalityI)
  have l: "length r = max (length old) (off + length new)" and n: "take (length new) (drop off r) = new"
    and o: "\<And>i. i < length old \<Longrightarrow> i < off \<or> off + length new \<le> i \<Longrightarrow> r ! i = old ! i"
    using s by (auto simp: spliced_def)
  show "length r = length (take off old @ new @ drop (off + length new) old)" using l off by simp
  fix i assume i: "i < length r"
  consider "i < off" | "off \<le> i" "i < off + length new" | "off + length new \<le> i" by linarith
  then show "r ! i = (take off old @ new @ drop (off + length new) old) ! i"
  proof cases
    case 1
    then show ?thesis using o [of i] off by (simp add: nth_append)
  next
    case 2
    then have l': "i - off < length new" by linarith
    then have "r ! i = take (length new) (drop off r) ! (i - off)" using l 2 by simp
    then show ?thesis using 2 off l' unfolding n by (simp add: nth_append)
  next
    case 3
    then have "\<not> i - off < length new" "i < length old" using l i off by linarith+
    then show ?thesis using 3 o [of i] off by (simp add: nth_append)
  qed
qed

lemma read_after_write:
  assumes "off + length new \<le> n" and "d + n \<le> 4294967296" and "i < n"
  shows "read_bytes (write_bytes m (ad (d + off)) new) (ad d) n ! i =
    (if off \<le> i \<and> i < off + length new then new ! (i - off) else read_bytes m (ad d) n ! i)"
proof (cases "off \<le> i \<and> i < off + length new")
  case True
  then have e: "ad d + of_nat i = ad (d + off) + of_nat (i - off)" by (simp add: ad_def)
  have l: "i - off < length new" using True by linarith
  have "read_bytes (write_bytes m (ad (d + off)) new) (ad d) n ! i =
      write_bytes m (ad (d + off)) new (ad (d + off) + of_nat (i - off))"
    using assms(3) by (simp only: read_bytes_nth e)
  also have "\<dots> = new ! (i - off)" by (rule write_bytes_inside [OF l]) (use assms in simp)
  finally show ?thesis using True by simp
next
  case False
  then have "write_bytes m (ad (d + off)) new (ad (d + i)) = m (ad (d + i))"
    using assms by (intro write_byte_outside) auto
  then show ?thesis using False assms by (auto simp: read_bytes_nth ad_def)
qed

lemma spliced_write:
  assumes "read_bytes m (ad d) (length old) = old" and "d + max (length old) (off + length new) \<le> 4294967296"
  shows "spliced old off new (read_bytes (write_bytes m (ad (d + off)) new) (ad d) (max (length old) (off + length new)))"
proof -
  let ?n = "max (length old) (off + length new)"
  let ?r = "read_bytes (write_bytes m (ad (d + off)) new) (ad d) ?n"
  have r: "?r ! i = (if off \<le> i \<and> i < off + length new then new ! (i - off) else read_bytes m (ad d) ?n ! i)"
    if "i < ?n" for i by (rule read_after_write [OF _ assms(2) that]) simp
  have "take (length new) (drop off ?r) = new"
    by (rule nth_equalityI) (auto simp: r)
  moreover have "?r ! i = old ! i" if "i < length old" "i < off \<or> off + length new \<le> i" for i
  proof -
    have "read_bytes m (ad d) ?n ! i = read_bytes m (ad d) (length old) ! i" using that by (simp add: read_bytes_nth)
    then show ?thesis using r [of i] that assms(1) by auto
  qed
  ultimately show ?thesis by (simp add: spliced_def)
qed

text \<open>Only the data pointer, the size, the capacity and the array of a node change.\<close>

lemma node_data:
  assumes n: "node_at ops m p a" and t: "touches m m' S"
    and S: "S \<inter> {p..<p + 84} = {}" "S \<inter> {p + 96..<p + 228} = {}" and p: "p + 228 \<le> 4294967296"
    and sz: "length (a_name a) < 64" "length (a_kids a) \<le> 32"
    and w: "rd m' (p + 84) = ad d" "rd m' (p + 88) = ad (length r)" "rd m' (p + 92) = ad c"
      "read_bytes m' (ad d) (length r) = r"
  shows "node_at ops m' p (a\<lparr>a_buf := d, a_cap := c, a_bytes := r\<rparr>)"
proof -
  have k: "rd m' (p + i) = rd m (p + i)" if "i + 4 \<le> 84 \<or> 96 \<le> i \<and> i \<le> 224" for i
    by (rule touches_rd [OF t]) (use S p that in \<open>auto simp: disjoint_iff\<close>)
  have "cstr m' (ad p) (a_name a)"
    by (rule touches_cstr [OF t]) (use S p sz n in \<open>auto simp: node_at_def disjoint_iff\<close>)
  moreover have "rd m' (p + 96 + 4 * i) = ad (a_kids a ! i)" if "i < length (a_kids a)" for i
    using k [of "96 + 4 * i"] that sz n by (simp add: node_at_def add.assoc)
  ultimately show ?thesis using n w by (simp add: node_at_def k)
qed

lemma round8_le: "round8 n \<le> n + 7"
  by (simp add: round8_def)

lemma blocks_disjoint:
  "fs_ok s bs e N \<Longrightarrow> N p = Some a \<Longrightarrow> N q = Some b \<Longrightarrow> p \<noteq> q \<Longrightarrow> blocks p a \<inter> blocks q b = {}"
  unfolding fs_ok_def by blast

lemma grow_ok:
  assumes ok: "fs_ok s bs e N" and p: "N p = Some a" and c: "a_cap a < unat c" "unat c \<le> 0x7FFFFFFF"
    and room: "e + 31 + unat c < 0x800000"
  shows "\<exists>s' bs' e' d. ramfs_grow (ad p) c s = Some s' \<and> fs_ok s' bs' e' (N(p \<mapsto> a\<lparr>a_buf := d, a_cap := unat c\<rparr>))
    \<and> d \<noteq> 0 \<and> e' \<le> e + 31 + unat c \<and> touches (fmem s) (fmem s') heap_area \<and> (\<exists>h. s' = s\<lparr>fheap := h\<rparr>)"
proof -
  have rm: "e + 24 + round8 (unat c) < 0x800000" using room round8_le [of "unat c"] by linarith
  have c0: "0 < unat c" using c(1) by linarith
  obtain d k h bs' e' where k: "kmalloc c (fheap s) = Some (ad d, h)" "fs_ok (s\<lparr>fheap := h\<rparr>) bs' e' N"
      "e' \<le> e + 31 + unat c" "unat c \<le> k" "(d, k) \<in> used bs'" "touches (fmem s) (hmem h) (heap_space bs)"
      "\<And>q b. N q = Some b \<Longrightarrow> d \<notin> blocks q b"
  proof -
    obtain d k h bs' e' where 1: "kmalloc c (fheap s) = Some (ad d, h)" "fs_ok (s\<lparr>fheap := h\<rparr>) bs' e' N"
      "e' \<le> e + 24 + round8 (unat c)" "unat c \<le> k" "(d, k) \<in> used bs'" "touches (fmem s) (hmem h) (heap_space bs)"
      "\<forall>q b. N q = Some b \<longrightarrow> d \<notin> blocks q b" using fs_kmalloc [OF ok c0 c(2) rm] by blast
    have "e' \<le> e + 31 + unat c" using 1(3) round8_le [of "unat c"] by linarith
    with 1 that show thesis by blast
  qed
  have hp: "heap_ok h bs' e'" using k(2) by (simp add: fs_ok_def)
  note dr = used_range(1,2) [OF hp k(5)]
  let ?s = "s\<lparr>fheap := h\<rparr>" and ?n = "length (a_bytes a)"
  have na: "node_at (ramfs_ops_at s) (hmem h) p a" and nf: "node_fits bs' p a" and kd: "set (a_kids a) \<subseteq> dom N"
    using fs_okD [OF k(2) p] by simp_all
  note pr = node_fits_range [OF hp nf]
  have nn: "?n \<le> a_cap a" "?n < unat c" using nf c(1) by (auto simp: node_fits_def)
  obtain j where j: "228 \<le> j" "(p, j) \<in> used bs'" using nf by (auto simp: node_fits_def)
  have dp: "d \<notin> blocks p a" using k(7) [OF p] .
  then have "p \<noteq> d" by (auto simp: blocks_def split: if_splits)
  from used_separate [OF hp j(2) k(5) this] have pd: "p + 228 \<le> d \<or> d + unat c \<le> p" using j(1) k(4) by linarith
  define m1 where "m1 = write_bytes (hmem h) (ad d) (a_bytes a)"
  define m' where "m' = store32 (store32 m1 (ad (p + 84)) (ad d)) (ad (p + 92)) c"
  have "(if r_data (hmem h) (ad p) \<noteq> 0 then memcpy (hmem h) (ad d) (r_data (hmem h) (ad p)) (r_size (hmem h) (ad p)) else hmem h) = m1"
  proof (cases "a_buf a = 0")
    case True
    then have "a_bytes a = []" using nf by (auto simp: node_fits_def)
    then show ?thesis using True na by (simp add: m1_def node_simps node_at_def ad_0)
  next
    case False
    have r: "r_data (hmem h) (ad p) = ad (a_buf a)" "r_size (hmem h) (ad p) = ad ?n" "unat (ad ?n) = ?n"
      using na nn c(2) by (simp_all add: node_simps node_at_def unat_ad)
    obtain i where i: "a_cap a \<le> i" "(a_buf a, i) \<in> used bs'" using nf False by (auto simp: node_fits_def)
    have "a_buf a \<noteq> d" using dp False by (auto simp: blocks_def)
    from used_separate [OF hp i(2) k(5) this] have "a_buf a + ?n \<le> d \<or> d + ?n \<le> a_buf a" using i(1) k(4) nn by linarith
    then have "?n = 0 \<or> apart ?n (ad d) ?n (ad (a_buf a))"
      using dr pr nn k(4) unfolding ad_def by (cases "?n = 0") (auto intro!: apart_of_nat)
    moreover have "ad ?n = 0 \<longleftrightarrow> ?n = 0" using nn c(2) by (intro ad_eq_0_iff) linarith
    ultimately have "memcpy (hmem h) (ad d) (ad (a_buf a)) (ad ?n) = write_bytes (hmem h) (ad d) (read_bytes (hmem h) (ad (a_buf a)) ?n)"
      using memcpy_correct [of "ad ?n" "ad d" "ad (a_buf a)" "hmem h"] r(3) by simp
    then show ?thesis using r False pr na by (simp add: m1_def node_at_def ad_eq_0_iff)
  qed
  then have run: "ramfs_grow (ad p) c s = Some (set_fmem m' ?s)"
    by (simp add: ramfs_grow_def k(1) Let_def m'_def ad_add_numeral)
  let ?S = "{p + 84..<p + 96} \<union> {d..<d + unat c}"
  have t1: "touches (hmem h) m1 ?S" unfolding m1_def
    by (intro touches_write touches_refl) (use dr k(4) nn in auto)
  then have mt: "touches (hmem h) m' ?S" unfolding m'_def
    by (intro touches_store) (use pr in auto)
  have own: "{p..<p + 228} \<subseteq> owned bs'" "{d..<d + unat c} \<subseteq> owned bs'"
    using owned_block [OF j(2)] owned_block [OF k(5)] j(1) k(4) by (meson atLeastLessThan_subset_iff le_add1 nat_add_left_cancel_le order_trans subset_trans ivl_subset order_refl)+
  have hs: "?S \<inter> heap_space bs' = {}"
  proof -
    have "{p + 84..<p + 96} \<subseteq> {p..<p + 228}" by auto
    with own show ?thesis unfolding heap_space_def by blast
  qed
  have "fs_ok (set_fmem m' ?s) bs' e' (N(p \<mapsto> a\<lparr>a_buf := d, a_cap := unat c, a_bytes := a_bytes a\<rparr>))"
  proof (rule fs_upd [OF k(2) _ hs])
    show "touches (fmem ?s) m' ?S" using mt by simp
    show "foot q b \<inter> ?S = {}" if q: "N q = Some b" "q \<noteq> p" for q b
    proof -
      have "p \<notin> blocks q b" using blocks_disjoint [OF ok p q(1)] q(2) by (auto simp: blocks_def split: if_splits)
      from foot_apart [OF hp fs_okD(2) [OF k(2) q(1)] j(2) this j(1)]
        foot_apart [OF hp fs_okD(2) [OF k(2) q(1)] k(5) k(7) [OF q(1)] k(4)] show ?thesis by auto
    qed
    show "node_at (ramfs_ops_at ?s) m' p (a\<lparr>a_buf := d, a_cap := unat c, a_bytes := a_bytes a\<rparr>)"
    proof (rule node_data [where m = "hmem h" and S = ?S])
      show "node_at (ramfs_ops_at ?s) (hmem h) p a" using na by simp
      show "?S \<inter> {p..<p + 84} = {}" "?S \<inter> {p + 96..<p + 228} = {}" using pd by auto
      show "length (a_name a) < 64" "length (a_kids a) \<le> 32" using nf by (auto simp: node_fits_def)
      show "rd m' (p + 84) = ad d" "rd m' (p + 92) = ad (unat c)" using pr by (auto simp: m'_def rd_rules ad_unat)
      have "rd m' (p + 88) = rd m1 (p + 88)" using pr by (simp add: m'_def rd_rules)
      also have "\<dots> = rd (hmem h) (p + 88)"
        using touches_rd [OF touches_write [OF touches_refl, of d "a_bytes a" "{d..<d + unat c}" "hmem h"], of "p + 88"] pd pr nn dr k(4)
        by (auto simp: m1_def)
      finally show "rd m' (p + 88) = ad ?n" using na by (simp add: node_at_def)
      have "touches m1 m' {p + 84..<p + 96}" unfolding m'_def by (intro touches_store touches_refl) (use pr in auto)
      from touches_read [OF this, of d ?n] pd dr k(4) nn have "read_bytes m' (ad d) ?n = read_bytes m1 (ad d) ?n" by (auto simp: disjoint_iff)
      then show "read_bytes m' (ad d) ?n = a_bytes a"
        using nn c(2) by (simp add: m1_def read_write_bytes)
    qed (use mt pr in auto)
    show "node_fits bs' p (a\<lparr>a_buf := d, a_cap := unat c, a_bytes := a_bytes a\<rparr>)"
      using nf nn k(4,5) dr \<open>p \<noteq> d\<close> by (auto simp: node_fits_def)
    show "blocks p (a\<lparr>a_buf := d, a_cap := unat c, a_bytes := a_bytes a\<rparr>) \<inter> blocks q b = {}"
      if q: "N q = Some b" "q \<noteq> p" for q b
      using blocks_disjoint [OF ok p q(1)] q(2) k(7) [OF q(1)] by (auto simp: blocks_def split: if_splits)
  qed (use kd in auto)
  moreover have "touches (fmem s) m' heap_area"
    by (rule touches_trans [OF touches_mono [OF k(6)] touches_mono [OF mt]])
      (use k(4) used_area [OF hp k(5)] foot_area [OF hp nf] in \<open>auto simp: heap_space_def foot_def\<close>)
  ultimately show ?thesis using run k(3) dr
    by (intro exI [of _ "set_fmem m' ?s"] exI [of _ bs'] exI [of _ e'] exI [of _ d]) (auto simp: set_fmem_def)
qed

text \<open>The copy into an array that is large enough, and the new size.\<close>

definition write_data :: "nat \<Rightarrow> nat \<Rightarrow> u8 list \<Rightarrow> anode \<Rightarrow> mem \<Rightarrow> mem" where
  "write_data p off src a m =
     (let m = write_bytes m (ad (a_buf a + off)) src
      in if length (a_bytes a) < off + length src then store32 m (ad (p + 88)) (ad (off + length src)) else m)"

lemma write_data_ok:
  assumes ok: "fs_ok s bs e N" and p: "N p = Some a" and c: "off + length src \<le> a_cap a"
  shows "\<exists>r. spliced (a_bytes a) off src r \<and> fs_ok (set_fmem (write_data p off src a (fmem s)) s) bs e (N(p \<mapsto> a\<lparr>a_bytes := r\<rparr>))
    \<and> touches (fmem s) (write_data p off src a (fmem s)) heap_area"
proof -
  have hp: "heap_ok (fheap s) bs e" using ok by (simp add: fs_ok_def)
  note na = fs_okD [OF ok p]
  note pr = node_fits_range [OF hp na(2)]
  let ?d = "a_buf a" and ?n = "length (a_bytes a)" and ?m = "write_data p off src a (fmem s)"
  let ?l = "max ?n (off + length src)"
  define r where "r = read_bytes (write_bytes (fmem s) (ad (?d + off)) src) (ad ?d) ?l"
  have lc: "?l \<le> a_cap a" using c na(2) by (auto simp: node_fits_def)
  have bd: "?d + ?l < 0x800000" using pr(3) lc by linarith
  have sp: "spliced (a_bytes a) off src r" unfolding r_def
    by (rule spliced_write) (use na(1) bd in \<open>auto simp: node_at_def\<close>)
  then have lr: "length r = ?l" by (simp add: spliced_def)
  obtain j where j: "228 \<le> j" "(p, j) \<in> used bs" using na(2) by (auto simp: node_fits_def)
  let ?S = "{p + 88..<p + 92} \<union> {?d..<?d + ?l}"
  have pd: "?d + ?l \<le> p \<or> p + 228 \<le> ?d" and own: "{?d..<?d + ?l} \<subseteq> owned bs"
  proof -
    have "(?d + ?l \<le> p \<or> p + 228 \<le> ?d) \<and> {?d..<?d + ?l} \<subseteq> owned bs"
    proof (cases "?d = 0")
      case True
      then have "?l = 0" using lc na(2) by (simp add: node_fits_def)
      with True show ?thesis by simp
    next
      case False
      then obtain k where k: "a_cap a \<le> k" "(?d, k) \<in> used bs" "?d \<noteq> p" using na(2) by (auto simp: node_fits_def)
      have "{?d..<?d + ?l} \<subseteq> {?d..<?d + k}" using lc k(1) by auto
      with owned_block [OF k(2)] used_separate [OF hp k(2) j(2) k(3)] lc k(1) j(1)
      show ?thesis by (auto simp del: max.bounded_iff)
    qed
    then show "?d + ?l \<le> p \<or> p + 228 \<le> ?d" "{?d..<?d + ?l} \<subseteq> owned bs" by simp_all
  qed
  have lo: "{?d..<?d + ?l} \<subseteq> heap_area" using own owned_area [OF hp] by blast
  have t1: "touches (fmem s) (write_bytes (fmem s) (ad (?d + off)) src) {?d..<?d + ?l}"
    by (intro touches_write touches_refl) (use bd in auto)
  have mt: "touches (fmem s) ?m ?S"
  proof (cases "?n < off + length src")
    case True
    then show ?thesis
      by (simp only: write_data_def Let_def if_True) (rule touches_store [OF touches_mono [OF t1]], use pr in auto)
  next
    case False
    then show ?thesis unfolding write_data_def Let_def using touches_mono [OF t1, of ?S] by auto
  qed
  have hs: "?S \<inter> heap_space bs = {}"
  proof -
    have "{p + 88..<p + 92} \<subseteq> {p..<p + j}" using j(1) by auto
    with own owned_block [OF j(2)] show ?thesis unfolding heap_space_def by blast
  qed
  have "fs_ok (set_fmem ?m s) bs e (N(p \<mapsto> a\<lparr>a_buf := ?d, a_cap := a_cap a, a_bytes := r\<rparr>))"
  proof (rule fs_upd [OF ok mt hs])
    show "foot q b \<inter> ?S = {}" if q: "N q = Some b" "q \<noteq> p" for q b
    proof -
      have bl: "blocks p a \<inter> blocks q b = {}" using blocks_disjoint [OF ok p q(1)] q(2) by simp
      then have "p \<notin> blocks q b" by (auto simp: blocks_def split: if_splits)
      from foot_apart [OF hp fs_okD(2) [OF ok q(1)] j(2) this j(1)] have 1: "foot q b \<inter> {p..<p + 228} = {}" .
      have 2: "foot q b \<inter> {?d..<?d + ?l} = {}"
      proof (cases "?d = 0")
        case True
        then have "?l = 0" using lc na(2) by (simp add: node_fits_def)
        then show ?thesis by simp
      next
        case False
        then obtain k where k: "a_cap a \<le> k" "(?d, k) \<in> used bs" using na(2) by (auto simp: node_fits_def)
        have "?d \<notin> blocks q b" using bl False by (auto simp: blocks_def split: if_splits)
        from foot_apart [OF hp fs_okD(2) [OF ok q(1)] k(2) this, of ?l] lc k(1) show ?thesis by simp
      qed
      from 1 2 show ?thesis by auto
    qed
    show "node_at (ramfs_ops_at s) ?m p (a\<lparr>a_buf := ?d, a_cap := a_cap a, a_bytes := r\<rparr>)"
    proof (rule node_data [OF na(1) mt])
      show "?S \<inter> {p..<p + 84} = {}" "?S \<inter> {p + 96..<p + 228} = {}" using pd by auto
      show "length (a_name a) < 64" "length (a_kids a) \<le> 32" using na(2) by (auto simp: node_fits_def)
      have w: "rd ?m (p + i) = rd (fmem s) (p + i)" if "i \<in> {84, 92}" for i
        by (rule touches_rd [OF mt]) (use that pd pr in \<open>auto simp: disjoint_iff\<close>)
      from w [of 84] w [of 92] na(1) show "rd ?m (p + 84) = ad ?d" "rd ?m (p + 92) = ad (a_cap a)" by (simp_all add: node_at_def)
      show "rd ?m (p + 88) = ad (length r)"
      proof (cases "?n < off + length src")
        case True
        then show ?thesis using lr by (simp add: write_data_def rd_store_same)
      next
        case False
        have "rd (write_bytes (fmem s) (ad (?d + off)) src) (p + 88) = rd (fmem s) (p + 88)"
          by (rule touches_rd [OF t1]) (use pd pr in \<open>auto simp: disjoint_iff\<close>)
        then show ?thesis using False lr na(1) by (simp add: write_data_def node_at_def)
      qed
      have "touches (write_bytes (fmem s) (ad (?d + off)) src) ?m {p + 88..<p + 92}"
      proof (cases "?n < off + length src")
        case True
        then show ?thesis by (simp only: write_data_def Let_def if_True) (rule touches_store [OF touches_refl], use pr in auto)
      qed (simp add: write_data_def)
      from touches_read [OF this, of ?d ?l] pd bd show "read_bytes ?m (ad ?d) (length r) = r"
        unfolding lr by (auto simp: r_def disjoint_iff)
    qed (use pr in auto)
    show "node_fits bs p (a\<lparr>a_buf := ?d, a_cap := a_cap a, a_bytes := r\<rparr>)"
      using na(2) lr lc by (auto simp: node_fits_def)
    show "blocks p (a\<lparr>a_buf := ?d, a_cap := a_cap a, a_bytes := r\<rparr>) \<inter> blocks q b = {}" if q: "N q = Some b" "q \<noteq> p" for q b
      using blocks_disjoint [OF ok p q(1)] q(2) by (auto simp: blocks_def split: if_splits)
  qed (use na(3) in auto)
  moreover have "touches (fmem s) ?m heap_area"
    using foot_area [OF hp na(2)] lo by (intro touches_mono [OF mt]) (auto simp: foot_def)
  ultimately show ?thesis using sp by auto
qed

lemma sint_small: "unat (w :: u32) < 0x80000000 \<Longrightarrow> sint w = int (unat w)"
proof -
  assume "unat w < 0x80000000"
  then have "int (unat w) < 2147483648" by linarith
  then have "uint w < 2147483648" by simp
  moreover have "0 \<le> uint w" "(2 :: int) ^ 31 = 2147483648" by simp_all
  ultimately have "signed_take_bit 31 (uint w) = uint w" by (intro signed_take_bit_int_eq_self) linarith+
  then show ?thesis by (simp add: sint_uint)
qed

lemma ramfs_write_splices:
  assumes ok: "fs_ok s bs e N" and p: "N p = Some a" and f: "a_flags a AND VFS_DIR = 0"
    and src: "read_bytes (fmem s) (ad b) (unat n) = src"
    and out: "off_heap b (unat n)" "b + unat n \<le> 4294967296"
    and sz: "unat off + unat n \<le> 0x7FFFFFFF" and room: "e + 31 + unat off + unat n < 0x800000"
  shows "\<exists>s' bs' e' d c r. ramfs_write (ad p) off n (ad b) s = Some (Ret (int (unat n), s'))
    \<and> spliced (a_bytes a) (unat off) src r \<and> fs_ok s' bs' e' (N(p \<mapsto> a\<lparr>a_buf := d, a_cap := c, a_bytes := r\<rparr>))
    \<and> e' \<le> e + 31 + unat off + unat n \<and> touches (fmem s) (fmem s') heap_area \<and> (\<exists>h. s' = s\<lparr>fheap := h\<rparr>)"
proof -
  have hp: "heap_ok (fheap s) bs e" using ok by (simp add: fs_ok_def)
  have priv: "ad p \<noteq> 0" "n_fs_private (fmem s) (ad p) = ad p" using fs_node_nonzero [OF ok p] by simp_all
  have fl: "n_flags (fmem s) (ad p) = a_flags a" using fs_okD(1) [OF ok p] by (simp add: node_simps node_at_def)
  have un: "unat (off + n) = unat off + unat n" using sz by (simp add: unat_add_lem [THEN iffD1])
  have ls: "length src = unat n" using src by auto
  let ?k = "unat off + unat n"
  have cap: "off + n > r_capacity (fmem s) (ad p) \<longleftrightarrow> a_cap a < ?k"
  proof -
    have "r_capacity (fmem s) (ad p) = ad (a_cap a)" using fs_okD(1) [OF ok p] by (simp add: node_simps node_at_def)
    moreover have "off + n = ad ?k" using un by (metis ad_unat)
    ultimately show ?thesis using node_fits_range(3) [OF hp fs_okD(2) [OF ok p]] sz by (simp add: ad_less_iff)
  qed
  text \<open>The state in which the array is large enough.\<close>
  obtain s1 bs1 e1 a1 where g: "(if off + n > r_capacity (fmem s) (ad p) then ramfs_grow (ad p) (off + n) s else Some s) = Some s1"
      "fs_ok s1 bs1 e1 (N(p \<mapsto> a1))" "a_bytes a1 = a_bytes a" "?k \<le> a_cap a1" "e1 \<le> e + 31 + ?k"
      "touches (fmem s) (fmem s1) heap_area" "\<exists>h. s1 = s\<lparr>fheap := h\<rparr>"
      "\<exists>d c. a1 = a\<lparr>a_buf := d, a_cap := c\<rparr>"
  proof (cases "a_cap a < ?k")
    case True
    have "unat (off + n) \<le> 0x7FFFFFFF" "e + 31 + unat (off + n) < 0x800000" "a_cap a < unat (off + n)"
      using True sz room un by simp_all
    from grow_ok [OF ok p this(3,1,2)] cap True that show thesis unfolding un by fastforce
  next
    case False
    have "N(p \<mapsto> a) = N" using p by auto
    moreover have "\<exists>h. s = s\<lparr>fheap := h\<rparr>" by (rule exI [of _ "fheap s"]) simp
    moreover have "\<exists>d c. a = a\<lparr>a_buf := d, a_cap := c\<rparr>" by (rule exI [of _ "a_buf a"], rule exI [of _ "a_cap a"]) simp
    ultimately show thesis using cap False ok by (intro that [of s bs e a]) simp_all
  qed
  have p1: "(N(p \<mapsto> a1)) p = Some a1" by simp
  have src1: "read_bytes (fmem s1) (ad b) (unat n) = src"
    using touches_read [OF g(6) off_heap_disjoint [OF out(1)] out(2)] src by simp
  note n1 = fs_okD [OF g(2) p1]
  have hp1: "heap_ok (fheap s1) bs1 e1" using g(2) by (simp add: fs_ok_def)
  note pr = node_fits_range [OF hp1 n1(2)]
  have cpy: "memcpy (fmem s1) (r_data (fmem s1) (ad p) + off) (ad b) n = write_bytes (fmem s1) (ad (a_buf a1 + unat off)) src"
  proof -
    have ra: "r_data (fmem s1) (ad p) + off = ad (a_buf a1 + unat off)"
      using n1(1) by (simp add: node_simps node_at_def) (simp add: ad_def)
    have "n = 0 \<or> apart (unat n) (ad (a_buf a1 + unat off)) (unat n) (ad b)"
    proof (cases "n = 0")
      case False
      then have n0: "0 < unat n" by (simp add: unat_gt_0)
      then have "a_buf a1 \<noteq> 0" using n1(2) g(4) by (auto simp: node_fits_def split: if_splits)
      then obtain k where k: "a_cap a1 \<le> k" "(a_buf a1, k) \<in> used bs1" using n1(2) by (auto simp: node_fits_def)
      note kr = used_range(1,2) [OF hp1 k(2)]
      have "a_buf a1 + unat off + unat n \<le> b \<or> b + unat n \<le> a_buf a1 + unat off"
      proof -
        have "{a_buf a1 + unat off..<a_buf a1 + unat off + unat n} \<subseteq> heap_area"
          using used_area [OF hp1 k(2)] k(1) g(4) by auto
        from ivl_apart [OF n0 this off_heap_disjoint [OF out(1)]] show ?thesis by auto
      qed
      then show ?thesis
        unfolding ad_def by (rule disjI2 [OF apart_of_nat]) (use kr k(1) g(4) out n0 in auto)
    qed simp
    from memcpy_correct [OF this] show ?thesis by (simp only: ra src1)
  qed
  have sz1: "off + n > r_size m (ad p) \<longleftrightarrow> length (a_bytes a1) < unat off + length src"
    if "m = write_bytes (fmem s1) (ad (a_buf a1 + unat off)) src" for m
  proof -
    have "rd m (p + 88) = rd (fmem s1) (p + 88)"
    proof (cases "src = []")
      case False
      have "touches (fmem s1) m {a_buf a1..<a_buf a1 + a_cap a1}" unfolding that
        by (intro touches_write touches_refl) (use pr g(4) ls in auto)
      then show ?thesis using node_own_cap [OF hp1 n1(2)] pr g(4) False ls by (intro touches_rd) auto
    qed (simp add: that)
    then have "r_size m (ad p) = ad (length (a_bytes a1))" using n1(1) by (simp add: node_simps node_at_def)
    moreover have "off + n = ad ?k" using un by (metis ad_unat)
    ultimately show ?thesis using pr sz ls by (simp add: ad_less_iff)
  qed
  define s' where "s' = set_fmem (write_data p (unat off) src a1 (fmem s1)) s1"
  have kc: "unat off + length src \<le> a_cap a1" using g(4) ls by simp
  obtain r where r: "spliced (a_bytes a1) (unat off) src r" "fs_ok s' bs1 e1 (N(p \<mapsto> a1\<lparr>a_bytes := r\<rparr>))"
      "touches (fmem s1) (fmem s') heap_area"
    using write_data_ok [OF g(2) p1 kc, unfolded fun_upd_upd] unfolding s'_def set_fmem_simps by blast
  have on: "off + n = ad (unat off + length src)" using un ls by (metis ad_unat)
  have "ramfs_write (ad p) off n (ad b) s = Some (Ret (int (unat n), s'))"
    unfolding ramfs_write_def Let_def priv(2) g(1)
    using sz sz1 [OF refl] cpy priv(1)
    by (simp add: fl f s'_def write_data_def sint_small ad_add_numeral on)
  moreover obtain d c where "a1 = a\<lparr>a_buf := d, a_cap := c\<rparr>" using g(8) by blast
  moreover have "touches (fmem s) (fmem s') heap_area" using g(6) r(3) by (rule touches_trans)
  moreover have "\<exists>h. s' = s\<lparr>fheap := h\<rparr>" using g(7) by (auto simp: s'_def set_fmem_def)
  ultimately show ?thesis using r(1,2) g(3,5)
    by (intro exI [of _ s'] exI [of _ bs1] exI [of _ e1] exI [of _ d] exI [of _ c] exI [of _ r]) simp
qed

section \<open>Reading a file\<close>

lemma ad_le_word: "k < 4294967296 \<Longrightarrow> ad k \<le> w \<longleftrightarrow> k \<le> unat w"
  by (simp add: word_le_nat_alt unat_ad)

lemma ramfs_read_copies:
  assumes ok: "fs_ok s bs e N" and p: "N p = Some a"
    and sz: "unat off + unat n \<le> 0x7FFFFFFF"
    and out: "off_heap b (unat n)" "b + unat n \<le> 4294967296"
    and d: "d = take (unat n) (drop (unat off) (a_bytes a))"
  shows "\<exists>s'. ramfs_read (ad p) off n (ad b) s = (int (length d), s') \<and> read_bytes (fmem s') (ad b) (length d) = d
    \<and> fs_ok s' bs e N \<and> touches (fmem s) (fmem s') {b..<b + length d} \<and> s' = set_fmem (fmem s') s"
proof -
  have hp: "heap_ok (fheap s) bs e" using ok by (simp add: fs_ok_def)
  note na = fs_okD [OF ok p]
  note pr = node_fits_range [OF hp na(2)]
  let ?n = "length (a_bytes a)"
  have rn: "r_size (fmem s) (ad p) = ad ?n" and rd: "r_data (fmem s) (ad p) + off = ad (a_buf a + unat off)"
    using na(1) by (simp_all add: node_simps node_at_def) (simp add: ad_def)
  have un: "off + n = ad (unat off + unat n)" "off = ad (unat off)" by (simp_all add: ad_def)
  have priv: "n_fs_private (fmem s) (ad p) = ad p" using fs_node_nonzero [OF ok p] by simp
  show ?thesis
  proof (cases "unat off < ?n")
    case False
    then have "ramfs_read (ad p) off n (ad b) s = (0, s)"
      using pr rn priv by (simp add: ramfs_read_def ad_le_word)
    moreover have "d = []" using False d by simp
    ultimately show ?thesis using ok by (intro exI [of _ s]) simp
  next
    case True
    have off: "\<not> r_size (fmem s) (ad p) \<le> off"
      using True pr rn by (simp add: ad_le_word)
    define k where "k = (if off + n > r_size (fmem s) (ad p) then r_size (fmem s) (ad p) - off else n)"
    have k: "unat k = length d"
    proof (cases "?n < unat off + unat n")
      case True
      then have "off + n > r_size (fmem s) (ad p)" unfolding rn un(1) using pr sz by (simp add: ad_less_iff)
      moreover have "unat (r_size (fmem s) (ad p) - off) = ?n - unat off"
        unfolding rn by (subst un(2)) (use \<open>unat off < ?n\<close> pr in \<open>simp add: ad_diff unat_ad\<close>)
      ultimately show ?thesis using True d by (simp add: k_def)
    next
      case False
      then have "\<not> off + n > r_size (fmem s) (ad p)" unfolding rn un(1) using pr sz by (simp add: ad_less_iff)
      then show ?thesis using False d by (simp add: k_def)
    qed
    have kl: "length d \<le> unat n" "unat off + length d \<le> ?n" using d True by auto
    have src: "read_bytes (fmem s) (ad (a_buf a + unat off)) (length d) = d"
    proof (rule nth_equalityI)
      fix i assume i: "i < length (read_bytes (fmem s) (ad (a_buf a + unat off)) (length d))"
      have "ad (a_buf a + unat off) + of_nat i = ad (a_buf a) + of_nat (unat off + i)" by (simp add: ad_def)
      then have "read_bytes (fmem s) (ad (a_buf a + unat off)) (length d) ! i = read_bytes (fmem s) (ad (a_buf a)) ?n ! (unat off + i)"
        using i kl by (simp add: read_bytes_nth add.assoc)
      also have "\<dots> = d ! i" using na(1) i kl d by (simp add: node_at_def)
      finally show "read_bytes (fmem s) (ad (a_buf a + unat off)) (length d) ! i = d ! i" .
    qed simp
    have "memcpy (fmem s) (ad b) (ad (a_buf a + unat off)) k = write_bytes (fmem s) (ad b) d"
    proof -
      have "k = 0 \<or> apart (unat k) (ad b) (unat k) (ad (a_buf a + unat off))"
      proof (cases "k = 0")
        case False
        then have d0: "0 < length d" using k by (simp add: unat_gt_0 flip: k)
        then have "a_buf a \<noteq> 0" using kl(2) na(2) by (auto simp: node_fits_def split: if_splits)
        then obtain l where l: "(a_buf a, l) \<in> used bs" using na(2) by (auto simp: node_fits_def)
        have "b + length d \<le> a_buf a + unat off \<or> a_buf a + unat off + length d \<le> b"
          by (rule ivl_apart [OF d0 _ off_heap_disjoint [OF off_heap_mono [OF out(1)]]])
            (use kl(1,2) foot_area [OF hp na(2)] in \<open>auto simp: foot_def\<close>)
        then show ?thesis unfolding ad_def k by (rule disjI2 [OF apart_of_nat]) (use d0 kl out pr in auto)
      qed simp
      from memcpy_correct [OF this] show ?thesis by (simp add: k src)
    qed
    then have run: "ramfs_read (ad p) off n (ad b) s = (int (length d), set_fmem (write_bytes (fmem s) (ad b) d) s)"
      using off kl sz by (simp add: ramfs_read_def Let_def priv rd flip: k_def) (simp add: sint_small k)
    have t: "touches (fmem s) (write_bytes (fmem s) (ad b) d) {b..<b + length d}"
      by (intro touches_write touches_refl) (use kl out in auto)
    have "fs_ok (set_fmem (write_bytes (fmem s) (ad b) d) s) bs e N"
      by (rule fs_touch_outside [OF ok t off_heap_disjoint [OF off_heap_mono [OF out(1)]]]) (use kl in simp)
    moreover have "length d \<le> 4294967296" using kl(1) unat32_less [of n] by linarith
    ultimately show ?thesis using run t
      by (intro exI [of _ "set_fmem (write_bytes (fmem s) (ad b) d) s"]) (simp add: read_write_bytes)
  qed
qed

end
