(* ===== verification/FsPath.thy ===== *)
theory FsPath imports FsOps begin

text \<open>
  Path resolution: the loops of \<open>path_resolve\<close> split the path at the slashes, and the walk along
  the components is a walk in the map of abstract nodes, through the mounts.
\<close>

section \<open>The components of a path\<close>

abbreviation (input) slash :: u8 where "slash \<equiv> 47"

text \<open>The parts of a string between separators, the empty ones left out.\<close>

function parts :: "u8 \<Rightarrow> u8 list \<Rightarrow> u8 list list" where
  "parts sep t =
     (let t = dropWhile (\<lambda>c. c = sep) t
      in if t = [] then [] else takeWhile (\<lambda>c. c \<noteq> sep) t # parts sep (dropWhile (\<lambda>c. c \<noteq> sep) t))"
  by pat_completeness auto

lemma dropWhile_shorter: "t \<noteq> [] \<Longrightarrow> P (hd t) \<Longrightarrow> length (dropWhile P t) < length t"
  by (cases t) (auto simp: length_dropWhile_le less_Suc_eq_le)

lemma hd_dropWhile_not: "dropWhile P t \<noteq> [] \<Longrightarrow> \<not> P (hd (dropWhile P t))"
  by (induction t) auto

lemma part_shorter:
  assumes "dropWhile (\<lambda>c. c = sep) t \<noteq> []"
  shows "length (dropWhile (\<lambda>c. c \<noteq> sep) (dropWhile (\<lambda>c. c = sep) t)) < length t"
proof -
  have "hd (dropWhile (\<lambda>c. c = sep) t) \<noteq> sep" using hd_dropWhile_not [OF assms] .
  from dropWhile_shorter [OF assms, of "\<lambda>c. c \<noteq> sep"] this
  show ?thesis using length_dropWhile_le [of "\<lambda>c. c = sep" t] by linarith
qed

termination parts by (relation "measure (\<lambda>(sep, t). length t)") (auto simp: part_shorter)

declare parts.simps [simp del]

abbreviation path_parts :: "u8 list \<Rightarrow> u8 list list" where "path_parts \<equiv> parts slash"

section \<open>The loops\<close>

lemma cstr_drop: "cstr m p t \<Longrightarrow> n \<le> length t \<Longrightarrow> cstr m (p + of_nat n) (drop n t)"
proof (induction n arbitrary: p t)
  case (Suc n)
  then obtain c u where "t = c # u" by (cases t) auto
  with Suc show ?case by (simp add: add.assoc [symmetric])
qed simp

lemma dropWhile_drop: "dropWhile P t = drop (length (takeWhile P t)) t"
  by (simp add: dropWhile_eq_drop)

lemma skip_slashes_cstr:
  "cstr m p t \<Longrightarrow> skip_slashes m p = Some (p + of_nat (length (takeWhile (\<lambda>c. c = slash) t)))"
proof (induction t arbitrary: p)
  case Nil
  then show ?case by (subst skip_slashes.simps) simp
next
  case (Cons c t)
  then show ?case by (subst skip_slashes.simps) (auto simp: add.assoc)
qed

text \<open>The string at \<open>p\<close> lies outside the \<open>K\<close> bytes from the local array on.\<close>

definition clear_of_part :: "nat \<Rightarrow> u32 \<Rightarrow> u32 \<Rightarrow> u8 list \<Rightarrow> bool" where
  "clear_of_part K part p t \<longleftrightarrow> (\<forall>i\<le>length t. K \<le> unat (p + of_nat i - part))"

lemma clear_of_part_apart:
  assumes "apart K part (length t + 1) p" and "length t < 4294967296" and "K \<le> 4294967296"
  shows "clear_of_part K part p t"
  using apart_outside [OF assms(1)] assms(2,3) by (auto simp: clear_of_part_def)

lemma clear_of_part_drop: "clear_of_part K part p t \<Longrightarrow> n \<le> length t \<Longrightarrow> clear_of_part K part (p + of_nat n) (drop n t)"
  unfolding clear_of_part_def
proof (intro allI impI)
  fix i assume c: "\<forall>i\<le>length t. K \<le> unat (p + of_nat i - part)" and n: "n \<le> length t" and i: "i \<le> length (drop n t)"
  from c [rule_format, of "n + i"] i n show "K \<le> unat (p + of_nat n + of_nat i - part)"
    by (simp add: add.assoc)
qed

lemma cstr_clear:
  assumes "cstr m p t" and "clear_of_part K part p t" and "\<And>x. K \<le> unat (x - part) \<Longrightarrow> m' x = m x"
  shows "cstr m' p t"
  by (rule cstr_cong [OF assms(1)]) (use assms(2,3) in \<open>auto simp: clear_of_part_def\<close>)

lemma unat_offset: "k < 4294967296 \<Longrightarrow> unat (part + of_nat k - part :: u32) = k"
  by (simp add: unat_of_nat32)

lemma copy_part_cstr:
  assumes "cstr m p t" and "clear_of_part K part p t" and "j + length (takeWhile (\<lambda>c. c \<noteq> slash) t) < K" and "K \<le> 4294967296"
  shows "copy_part part m p (of_nat j) = Some (write_bytes m (part + of_nat j) (takeWhile (\<lambda>c. c \<noteq> slash) t),
     p + of_nat (length (takeWhile (\<lambda>c. c \<noteq> slash) t)), of_nat (j + length (takeWhile (\<lambda>c. c \<noteq> slash) t)))"
  using assms
proof (induction t arbitrary: m p j)
  case Nil
  then show ?case by (subst copy_part.simps) simp
next
  case (Cons c t)
  have c: "m p = c" "c \<noteq> 0" "cstr m (p + 1) t" using Cons.prems(1) by auto
  show ?case
  proof (cases "c = slash")
    case True
    then show ?thesis using c by (subst copy_part.simps) simp
  next
    case False
    have j: "Suc j + length (takeWhile (\<lambda>c. c \<noteq> slash) t) < K" using Cons.prems(3) False by simp
    have cl: "clear_of_part K part (p + 1) t" using clear_of_part_drop [OF Cons.prems(2), of 1] by simp
    have "cstr (m(part + of_nat j := c)) (p + 1) t"
    proof (rule cstr_clear [OF c(3) cl])
      fix x assume "K \<le> unat (x - part)"
      then have "x \<noteq> part + of_nat j" using unat_offset [of j part] j Cons.prems(4) by auto
      then show "(m(part + of_nat j := c)) x = m x" by simp
    qed
    from Cons.IH [OF this cl j Cons.prems(4)] c False show ?thesis
      by (subst copy_part.simps) (simp add: algebra_simps del: fun_upd_apply)
  qed
qed

section \<open>The walk\<close>

definition mount_target :: "fs \<Rightarrow> nat \<Rightarrow> nat" where
  "mount_target s q = (case find (\<lambda>(mp, root). ad q = mp) (take (mount_count s) (mounts s)) of
     Some (mp, root) \<Rightarrow> unat root | None \<Rightarrow> q)"

lemma check_mount_ad: "vfs_check_mount (ad q) s = ad (mount_target s q)"
  by (simp add: vfs_check_mount_def mount_target_def ad_unat split: option.split)

lemma mount_target_dom:
  assumes ok: "fs_ok s bs e N" and q: "q \<in> dom N"
  shows "mount_target s q \<in> dom N"
proof (cases "find (\<lambda>(mp, root). ad q = mp) (take (mount_count s) (mounts s))")
  case None
  then show ?thesis using q by (simp add: mount_target_def)
next
  case (Some x)
  then obtain i where i: "i < mount_count s" "i < length (mounts s)" "x = mounts s ! i"
    by (auto simp: find_Some_iff)
  have "\<forall>i < mount_count s. \<exists>a r. mounts s ! i = (ad a, ad r) \<and> a \<in> dom N \<and> r \<in> dom N"
    using ok by (simp add: fs_ok_def fs_refs_def)
  then obtain a r where r: "mounts s ! i = (ad a, ad r)" "r \<in> dom N" using i(1) by blast
  then obtain b where b: "N r = Some b" by auto
  have "heap_ok (fheap s) bs e" using ok by (simp add: fs_ok_def)
  from node_fits_range [OF this fs_okD(2) [OF ok b]] have "unat (ad r) = r" by (simp add: unat_ad)
  with Some i r show ?thesis by (simp add: mount_target_def)
qed

fun walk :: "(nat \<rightharpoonup> anode) \<Rightarrow> (nat \<Rightarrow> nat) \<Rightarrow> nat \<Rightarrow> u8 list list \<Rightarrow> nat option" where
  "walk N mt p [] = Some p"
| "walk N mt p (t # ts) =
     (case N p of None \<Rightarrow> None
      | Some a \<Rightarrow> (case find (named N t) (a_kids a) of None \<Rightarrow> None | Some q \<Rightarrow> walk N mt (mt q) ts))"

lemma mount_target_simps [simp]: "mount_target (set_fmem m s) = mount_target s"
  by (simp add: mount_target_def fun_eq_iff)

lemma part_writes:
  assumes "length c < 64" and "pt + 64 \<le> 4294967296"
  shows "touches m (write_bytes m (ad pt) (c @ [0])) {pt..<pt + 64}"
  by (intro touches_write touches_refl) (use assms in auto)

lemma resolve_walk:
  assumes "fs_ok s bs e N" and "N p = Some a" and "cstr (fmem s) path t" and "\<forall>c\<in>set (path_parts t). length c < 64"
    and "part_at s = ad pt" and "off_heap pt 64" and "pt + 64 \<le> 4294967296"
    and "clear_of_part 64 (ad pt) path t"
  shows "\<exists>m. resolve_loop s (ad p) path = Some (Ret (found (walk N (mount_target s) p (path_parts t)), set_fmem m s))
    \<and> touches (fmem s) m {pt..<pt + 64}"
  using assms
proof (induction "length t" arbitrary: s p a path t rule: less_induct)
  case less
  let ?u = "dropWhile (\<lambda>c. c = slash) t" and ?k = "length (takeWhile (\<lambda>c. c = slash) t)"
  have k: "?k \<le> length t" by (rule length_takeWhile_le)
  have u: "cstr (fmem s) (path + of_nat ?k) ?u" and cu: "clear_of_part 64 (ad pt) (path + of_nat ?k) ?u"
    unfolding dropWhile_drop using cstr_drop [OF less.prems(3) k] clear_of_part_drop [OF less.prems(8) k] by simp_all
  have sk: "skip_slashes (fmem s) path = Some (path + of_nat ?k)" by (rule skip_slashes_cstr [OF less.prems(3)])
  show ?case
  proof (cases "?u = []")
    case True
    have pp: "path_parts t = []" using True by (subst parts.simps) simp
    have "resolve_loop s (ad p) path = Some (Ret (ad p, s))"
      using sk u True by (subst resolve_loop.simps) simp
    then show ?thesis using pp by (intro exI [of _ "fmem s"]) (simp add: found_def)
  next
    case False
    let ?c = "takeWhile (\<lambda>c. c \<noteq> slash) ?u" and ?v = "dropWhile (\<lambda>c. c \<noteq> slash) ?u"
    have pp: "path_parts t = ?c # path_parts ?v" using False by (subst parts.simps) (simp add: Let_def)
    have lc: "length ?c < 64" using less.prems(4) pp by simp
    have t0: "fmem s path \<noteq> 0" and u0: "fmem s (path + of_nat ?k) \<noteq> 0"
      using less.prems(3) u False by (cases t; cases ?u; auto)+
    have cp: "copy_part (ad pt) (fmem s) (path + of_nat ?k) 0 =
        Some (write_bytes (fmem s) (ad pt) ?c, path + of_nat ?k + of_nat (length ?c), of_nat (length ?c))"
      using copy_part_cstr [OF u cu, of 0] lc by simp
    define m where "m = write_bytes (fmem s) (ad pt) (?c @ [0])"
    have m: "(write_bytes (fmem s) (ad pt) ?c)(ad pt + of_nat (length ?c) := 0) = m"
      by (simp add: m_def write_bytes_at_end)
    have mt: "touches (fmem s) m {pt..<pt + 64}" unfolding m_def by (rule part_writes [OF lc less.prems(7)])
    let ?s = "set_fmem m s"
    have ok: "fs_ok ?s bs e N"
      by (rule fs_touch_outside [OF less.prems(1) mt]) (rule off_heap_disjoint [OF less.prems(6)])
    have c0: "0 \<notin> set ?c" using u by (auto simp: cstr_read_bytes dest!: set_takeWhileD)
    have nm: "cstr (fmem ?s) (ad pt) ?c" using lc c0 by (simp add: m_def cstr_write_bytes del: write_bytes.simps)
    have ops: "ops_of (ad p) ?s = Some all_ops"
      using fs_okD(1) [OF ok less.prems(2)] ok by (simp add: ops_of_def node_simps node_at_def fs_ok_def)
    note lk = ramfs_lookup_finds [OF ok less.prems(2) nm]
    have step: "resolve_loop s (ad p) path = bind_run (ramfs_lookup (ad p) (ad pt) ?s) (\<lambda>next.
        if next = 0 then Some (Ret (0, ?s)) else resolve_loop ?s (vfs_check_mount next ?s) (path + of_nat ?k + of_nat (length ?c)))"
      using t0 u0 sk cp m ops less.prems(5)
      by (subst resolve_loop.simps) (simp add: Let_def all_ops_def cong: if_cong)
    show ?thesis
    proof (cases "find (named N ?c) (a_kids a)")
      case None
      then show ?thesis using step lk pp less.prems(2) mt by (intro exI [of _ m]) (simp add: found_def)
    next
      case (Some q)
      then have q: "q \<in> dom N" by (auto simp: find_Some_iff named_def)
      then obtain b where b: "N q = Some b" by auto
      have q0: "ad q \<noteq> 0" using fs_node_nonzero [OF ok b] by simp
      obtain b' where b': "N (mount_target s q) = Some b'"
        using mount_target_dom [OF less.prems(1) q] by auto
      have lv: "length ?v < length t" using part_shorter [OF False] .
      have le: "length ?c \<le> length ?u" by (rule length_takeWhile_le)
      have v: "cstr (fmem s) (path + of_nat ?k + of_nat (length ?c)) ?v"
          "clear_of_part 64 (ad pt) (path + of_nat ?k + of_nat (length ?c)) ?v"
        unfolding dropWhile_drop [of "\<lambda>c. c \<noteq> slash"] using cstr_drop [OF u le] clear_of_part_drop [OF cu le] by simp_all
      have "cstr (fmem ?s) (path + of_nat ?k + of_nat (length ?c)) ?v"
      proof (rule cstr_clear [OF v])
        fix x assume "64 \<le> unat (x - ad pt)"
        then show "fmem ?s x = fmem s x" using lc by (simp add: m_def write_bytes_outside del: write_bytes.simps)
      qed
      from less.hyps [OF lv ok b' this _ _ less.prems(6,7) v(2)] less.prems(4,5) pp
      obtain m' where m': "resolve_loop ?s (ad (mount_target s q)) (path + of_nat ?k + of_nat (length ?c)) =
          Some (Ret (found (walk N (mount_target s) (mount_target s q) (path_parts ?v)), set_fmem m' s))"
        "touches m m' {pt..<pt + 64}" by auto
      have "resolve_loop s (ad p) path = Some (Ret (found (walk N (mount_target s) p (path_parts t)), set_fmem m' s))"
        using step lk Some q0 m'(1) pp less.prems(2) by (simp add: found_def check_mount_ad)
      then show ?thesis using touches_trans [OF mt m'(2)] by blast
    qed
  qed
qed

end
