(* ===== verification/FsLaws.thy ===== *)
theory FsLaws imports FsPath HeapRuns begin

text \<open>
  What the file systems promise: creation, writing, reading and path resolution against the map
  of nodes, the descriptors on top of them, and the mount of \<open>/tmp\<close> that the boot makes.
\<close>

section \<open>Nodes and paths\<close>

text \<open>
  C5. \<open>path_resolve\<close> returns what the walk along the components of the path finds, through the
  mounts (null where a component is missing): empty components are skipped, the first child with
  the name is taken.  The only memory it changes is its local array, as long as no component has
  64 characters or more; the file system stays as it is.
\<close>

theorem path_resolve_walks:
  assumes ok: "fs_ok s bs e N" and p: "p \<in> dom N" and t: "cstr (fmem s) path t"
    and short: "\<forall>c\<in>set (path_parts t). length c < 64"
    and pt: "part_at s = ad pt" "off_heap pt 64" "pt + 64 \<le> 4294967296"
    and ap: "apart 64 (part_at s) (length t + 1) path"
  shows "\<exists>s'. path_resolve (ad p) path s = Some (Ret (found (walk N (mount_target s) p (path_parts t)), s'))
    \<and> fs_ok s' bs e N \<and> s' = set_fmem (fmem s') s \<and> touches (fmem s) (fmem s') {pt..<pt + 64}"
proof -
  obtain a where a: "N p = Some a" using p by auto
  have "clear_of_part 64 (ad pt) path t" using clear_of_part_apart [OF ap cstr_length [OF t]] pt(1) by simp
  from resolve_walk [OF ok a t short pt this] obtain m where
    m: "resolve_loop s (ad p) path = Some (Ret (found (walk N (mount_target s) p (path_parts t)), set_fmem m s))"
      "touches (fmem s) m {pt..<pt + 64}" by blast
  have "fs_ok (set_fmem m s) bs e N" by (rule fs_touch_outside [OF ok m(2) off_heap_disjoint [OF pt(2)]])
  with m show ?thesis by (intro exI [of _ "set_fmem m s"]) (simp add: path_resolve_def)
qed

text \<open>
  C15. \<open>ramfs_create\<close> on a node of the file system, when a node fits behind the heap.  With fewer than
  32 children it returns 0, the map has a new empty node with the name and the flags, which is the
  last child of the directory, and nothing else of the file system changes.  With 32 children it
  refuses: it returns -1 and changes nothing.
\<close>

theorem ramfs_create_correct:
  assumes "fs_ok s bs e N" and "N p = Some a"
    and "cstr (fmem s) (ad x) t" and "length t < 64" and "off_heap x 64" "x + 64 \<le> 4294967296"
    and "e + 256 < 0x800000"
  shows "if length (a_kids a) < 32
    then \<exists>c s' bs' e'. ramfs_create (ad p) (ad x) fl s = Some (Ret (0, s')) \<and> c \<notin> dom N
      \<and> fs_ok s' bs' e' (N(c \<mapsto> empty_node t fl, p \<mapsto> a\<lparr>a_kids := a_kids a @ [c]\<rparr>))
    else length (a_kids a) = 32 \<and> ramfs_create (ad p) (ad x) fl s = Some (Ret (-1, s))"
proof (cases "length (a_kids a) < 32")
  case True
  from ramfs_create_adds [OF assms(1,2) this assms(3-7)] True show ?thesis by simp blast
next
  case False
  then have "length (a_kids a) = 32" using fs_okD(2) [OF assms(1,2)] by (simp add: node_fits_def)
  with ramfs_create_full [OF assms(1,2)] show ?thesis by simp
qed

text \<open>
  C4. \<open>ramfs_write\<close> on a file: it returns the number of bytes, and the contents are the old ones
  with the buffer written at the offset (the bytes between the old end and the offset are not
  determined); the array grows when it must, and no other node changes.
\<close>

theorem ramfs_write_correct:
  assumes "fs_ok s bs e N" and "N p = Some a" and "a_flags a AND VFS_DIR = 0"
    and "read_bytes (fmem s) (ad b) (unat n) = src"
    and "off_heap b (unat n)" "b + unat n \<le> 4294967296"
    and "unat off + unat n \<le> 0x7FFFFFFF" and "e + 31 + unat off + unat n < 0x800000"
  shows "\<exists>s' bs' e' d c r. ramfs_write (ad p) off n (ad b) s = Some (Ret (int (unat n), s'))
    \<and> spliced (a_bytes a) (unat off) src r \<and> fs_ok s' bs' e' (N(p \<mapsto> a\<lparr>a_buf := d, a_cap := c, a_bytes := r\<rparr>))"
  using ramfs_write_splices [OF assms] by blast

text \<open>
  \<open>ramfs_read\<close> on a file: it copies the bytes of the file from the offset on, at most as many
  as asked for and none behind the end, returns their number, and changes nothing but the buffer.
\<close>

theorem ramfs_read_correct:
  assumes "fs_ok s bs e N" and "N p = Some a" and "unat off + unat n \<le> 0x7FFFFFFF"
    and "off_heap b (unat n)" "b + unat n \<le> 4294967296"
  shows "\<exists>s' d. ramfs_read (ad p) off n (ad b) s = (int (length d), s') \<and> d = take (unat n) (drop (unat off) (a_bytes a))
    \<and> read_bytes (fmem s') (ad b) (length d) = d \<and> fs_ok s' bs e N \<and> touches (fmem s) (fmem s') {b..<b + length d}"
  using ramfs_read_copies [OF assms refl] by blast

text \<open>
  The test for the end of the file wraps: where offset and size add up to more than 32 bits
  and the wrapped sum is not behind the end, the whole size is copied, far behind the end.
\<close>

theorem ramfs_read_wraps:
  assumes ok: "fs_ok s bs e N" and p: "N p = Some a" and off: "unat off < length (a_bytes a)"
    and wrap: "4294967296 \<le> unat off + unat n" "unat off + unat n - 4294967296 \<le> length (a_bytes a)"
  shows "ramfs_read (ad p) off n b s = (sint n, set_fmem (memcpy (fmem s) b (ad (a_buf a + unat off)) n) s)
    \<and> length (a_bytes a) - unat off < unat n"
proof -
  have hp: "heap_ok (fheap s) bs e" using ok by (simp add: fs_ok_def)
  note na = fs_okD [OF ok p]
  note pr = node_fits_range [OF hp na(2)]
  have sm: "unat (off + n) = unat off + unat n - 4294967296"
    using wrap(1) unat32_less [of off] unat32_less [of n] by (simp add: unat_plus_if')
  have "\<not> r_size (fmem s) (ad p) \<le> off" "\<not> r_size (fmem s) (ad p) < off + n"
    using na(1) off pr wrap(2) sm by (auto simp: node_simps node_at_def ad_le_word not_less word_le_nat_alt unat_ad)
  moreover have "r_data (fmem s) (ad p) + off = ad (a_buf a + unat off)"
    using na(1) by (simp add: node_simps node_at_def) (simp add: ad_def)
  moreover have "length (a_bytes a) - unat off < unat n" using pr wrap(1) unat32_less [of off] by linarith
  ultimately show ?thesis using fs_node_nonzero [OF ok p] by (simp add: ramfs_read_def)
qed

section \<open>Descriptors\<close>

lemma set_fd_simps [simp]:
  "fmem (set_fd i f s) = fmem s" "fheap (set_fd i f s) = fheap s" "ramfs_ops (set_fd i f s) = ramfs_ops s"
  "ramfs_ops_at (set_fd i f s) = ramfs_ops_at s" "mounts (set_fd i f s) = mounts s" "mount_count (set_fd i f s) = mount_count s"
  "fd_table (set_fd i f s) = (fd_table s)[i := f (fd_table s ! i)]" "part_at (set_fd i f s) = part_at s"
  "vfs_root (set_fd i f s) = vfs_root s"
  by (simp_all add: set_fd_def fmem_def)

lemma fs_set_fd:
  assumes ok: "fs_ok s bs e N" and i: "i < MAX_FDS"
    and f: "fd_used (f (fd_table s ! i)) \<Longrightarrow> \<exists>p\<in>dom N. fd_node (f (fd_table s ! i)) = ad p"
  shows "fs_ok (set_fd i f s) bs e N"
proof -
  have "fs_refs (set_fd i f s) (dom N)"
    using ok f i by (auto simp: fs_ok_def fs_refs_def dest!: set_update_subset_insert [THEN subsetD])
  then show ?thesis using ok by (simp add: fs_ok_def)
qed

lemma fd_valid_set [simp]: "fd_valid fd (set_fmem m s) = fd_valid fd s"
  by (simp add: fd_valid_def)

lemma ops_of_node: "fs_ok s bs e N \<Longrightarrow> N p = Some a \<Longrightarrow> ops_of (ad p) s = Some all_ops"
  using fs_okD(1) [of s bs e N p a] by (simp add: ops_of_def node_simps node_at_def fs_ok_def)

lemma all_ops_set [simp]: "lookup_set all_ops" "create_set all_ops" "read_set all_ops" "write_set all_ops" "list_set all_ops"
  by (simp_all add: all_ops_def)

text \<open>
  A bad descriptor (negative, 32 or more, or not open) is refused: reading, writing and seeking
  return -1 and change nothing, and closing it changes nothing but its own entry.
\<close>

theorem bad_descriptor_refused:
  assumes "\<not> fd_valid fd s"
  shows "sys_write fd b n s = Some (Ret (-1, s)) \<and> sys_read fd b n s = Some (Ret (-1, s)) \<and> sys_seek fd off s = (-1, s)
    \<and> (fd < 0 \<or> 32 \<le> fd \<longrightarrow> sys_close fd s = s)"
  using assms by (auto simp: sys_write_def sys_read_def sys_seek_def sys_close_def)

lemma sys_write_runs:
  assumes ok: "fs_ok s bs e N" and fd: "fd_valid fd s" and d: "fd_table s ! nat fd = d" "fd_node d = ad p"
    and p: "N p = Some a" "a_flags a AND VFS_DIR = 0" and src: "read_bytes (fmem s) (ad b) (unat n) = src"
    and out: "off_heap b (unat n)" "b + unat n \<le> 4294967296"
    and sz: "unat (fd_offset d) + unat n \<le> 0x7FFFFFFF" and room: "e + 31 + unat (fd_offset d) + unat n < 0x800000"
  shows "\<exists>s' bs' e' dt c r. sys_write fd (ad b) n s = Some (Ret (int (unat n), s'))
    \<and> spliced (a_bytes a) (unat (fd_offset d)) src r \<and> fs_ok s' bs' e' (N(p \<mapsto> a\<lparr>a_buf := dt, a_cap := c, a_bytes := r\<rparr>))
    \<and> fd_table s' = (fd_table s)[nat fd := d\<lparr>fd_offset := fd_offset d + n\<rparr>] \<and> e' \<le> e + 31 + unat (fd_offset d) + unat n
    \<and> touches (fmem s) (fmem s') heap_area \<and> part_at s' = part_at s \<and> vfs_root s' = vfs_root s
    \<and> mounts s' = mounts s \<and> mount_count s' = mount_count s"
proof -
  from ramfs_write_splices [OF ok p src out sz room] obtain s1 bs' e' dt c r where
    w: "ramfs_write (ad p) (fd_offset d) n (ad b) s = Some (Ret (int (unat n), s1))" "spliced (a_bytes a) (unat (fd_offset d)) src r"
      "fs_ok s1 bs' e' (N(p \<mapsto> a\<lparr>a_buf := dt, a_cap := c, a_bytes := r\<rparr>))" "e' \<le> e + 31 + unat (fd_offset d) + unat n"
      "touches (fmem s) (fmem s1) heap_area" "\<exists>h. s1 = s\<lparr>fheap := h\<rparr>" by blast
  from w(6) have s1: "fd_table s1 = fd_table s" "part_at s1 = part_at s" "vfs_root s1 = vfs_root s" "mounts s1 = mounts s" "mount_count s1 = mount_count s" by auto
  have i: "nat fd < 32" "nat fd < length (fd_table s)" using fd ok by (auto simp: fd_valid_def fs_ok_def fs_refs_def)
  define s' where "s' = (if n = 0 then s1 else set_fd (nat fd) (\<lambda>d. d\<lparr>fd_offset := fd_offset d + n\<rparr>) s1)"
  have pos: "0 < uint n \<longleftrightarrow> n \<noteq> 0" by (simp add: order_less_le) (metis uint_0_iff)
  have "fd_table s' = (fd_table s)[nat fd := d\<lparr>fd_offset := fd_offset d + n\<rparr>]"
    using i d by (auto simp: s'_def s1)
  moreover have "fs_ok s' bs' e' (N(p \<mapsto> a\<lparr>a_buf := dt, a_cap := c, a_bytes := r\<rparr>))"
  proof (cases "n = 0")
    case False
    have "\<exists>q\<in>dom (N(p \<mapsto> a\<lparr>a_buf := dt, a_cap := c, a_bytes := r\<rparr>)). fd_node d = ad q" using d by auto
    from fs_set_fd [OF w(3) i(1), where f = "\<lambda>d. d\<lparr>fd_offset := fd_offset d + n\<rparr>"] this False show ?thesis
      by (simp add: s'_def s1 d)
  qed (use w(3) in \<open>simp add: s'_def\<close>)
  moreover have "sys_write fd (ad b) n s = Some (Ret (int (unat n), s'))"
    using fd d w(1) ops_of_node [OF ok p(1)] by (simp add: sys_write_def advance_def s'_def pos)
  moreover have "fmem s' = fmem s1" "part_at s' = part_at s" "vfs_root s' = vfs_root s" "mounts s' = mounts s" "mount_count s' = mount_count s" by (auto simp: s'_def s1)
  ultimately show ?thesis using w(2,4,5) by (intro exI [of _ s'] exI [of _ bs'] exI [of _ e'] exI [of _ dt] exI [of _ c] exI [of _ r]) simp
qed

lemma sys_read_runs:
  assumes ok: "fs_ok s bs e N" and fd: "fd_valid fd s" and d: "fd_table s ! nat fd = d" "fd_node d = ad p"
    and p: "N p = Some a" and sz: "unat (fd_offset d) + unat n \<le> 0x7FFFFFFF"
    and out: "off_heap b (unat n)" "b + unat n \<le> 4294967296"
    and k: "k = take (unat n) (drop (unat (fd_offset d)) (a_bytes a))"
  shows "\<exists>s'. sys_read fd (ad b) n s = Some (Ret (int (length k), s')) \<and> read_bytes (fmem s') (ad b) (length k) = k
    \<and> fs_ok s' bs e N \<and> fd_table s' = (fd_table s)[nat fd := d\<lparr>fd_offset := fd_offset d + of_nat (length k)\<rparr>]
    \<and> touches (fmem s) (fmem s') {b..<b + length k} \<and> part_at s' = part_at s \<and> vfs_root s' = vfs_root s
    \<and> mounts s' = mounts s \<and> mount_count s' = mount_count s"
proof -
  from ramfs_read_copies [OF ok p sz out k] obtain s1 where
    r: "ramfs_read (ad p) (fd_offset d) n (ad b) s = (int (length k), s1)" "read_bytes (fmem s1) (ad b) (length k) = k"
      "fs_ok s1 bs e N" "s1 = set_fmem (fmem s1) s" "touches (fmem s) (fmem s1) {b..<b + length k}" by blast
  have t1: "fd_table s1 = fd_table s" by (subst r(4)) simp
  have i: "nat fd < 32" "nat fd < length (fd_table s)" using fd ok by (auto simp: fd_valid_def fs_ok_def fs_refs_def)
  define s' where "s' = (if k \<noteq> [] then set_fd (nat fd) (\<lambda>d. d\<lparr>fd_offset := fd_offset d + of_nat (length k)\<rparr>) s1 else s1)"
  have "sys_read fd (ad b) n s = Some (Ret (int (length k), s'))"
    using fd d r(1) ops_of_node [OF ok p] by (simp add: sys_read_def advance_def s'_def)
  moreover have "fs_ok s' bs e N"
  proof (cases "k = []")
    case False
    have "\<exists>q\<in>dom N. fd_node d = ad q" using d p by auto
    from fs_set_fd [OF r(3) i(1), where f = "\<lambda>d. d\<lparr>fd_offset := fd_offset d + of_nat (length k)\<rparr>"] this False show ?thesis
      by (simp add: s'_def t1 d)
  qed (use r(3) in \<open>simp add: s'_def\<close>)
  moreover have "fd_table s' = (fd_table s)[nat fd := d\<lparr>fd_offset := fd_offset d + of_nat (length k)\<rparr>]"
    using i d by (auto simp: s'_def t1)
  moreover have "fmem s' = fmem s1" by (simp add: s'_def)
  moreover have "part_at s' = part_at s" "vfs_root s' = vfs_root s" "mounts s' = mounts s" "mount_count s' = mount_count s"
    unfolding s'_def by (subst (1 2) r(4), simp)+
  ultimately show ?thesis using r(2,5) by (intro exI [of _ s']) simp
qed

text \<open>
  C16. What is written through a descriptor at its offset can be read back: after a write and a
  seek to where it began, reading as many bytes returns them, and the rest of the file system is
  as it was.
\<close>

theorem file_roundtrip:
  assumes ok: "fs_ok s bs e N" and fd: "fd_valid fd s" and d: "fd_table s ! nat fd = d" "fd_node d = ad p"
    and p: "N p = Some a" "a_flags a AND VFS_DIR = 0" and src: "read_bytes (fmem s) (ad b) (unat n) = src"
    and outb: "off_heap b (unat n)" "b + unat n \<le> 4294967296"
    and outc: "off_heap c (unat n)" "c + unat n \<le> 4294967296"
    and sz: "unat (fd_offset d) + unat n \<le> 0x7FFFFFFF" and room: "e + 31 + unat (fd_offset d) + unat n < 0x800000"
  shows "\<exists>s1 s2 s3 bs' e' a'. sys_write fd (ad b) n s = Some (Ret (int (unat n), s1))
    \<and> sys_seek fd (fd_offset d) s1 = (0, s2) \<and> sys_read fd (ad c) n s2 = Some (Ret (int (unat n), s3))
    \<and> read_bytes (fmem s3) (ad c) (unat n) = src \<and> fs_ok s3 bs' e' (N(p \<mapsto> a'))"
proof -
  have i: "nat fd < 32" "nat fd < length (fd_table s)" using fd ok by (auto simp: fd_valid_def fs_ok_def fs_refs_def)
  from sys_write_runs [OF ok fd d p src outb sz room] obtain s1 bs' e' dt cp r where
    w: "sys_write fd (ad b) n s = Some (Ret (int (unat n), s1))" "spliced (a_bytes a) (unat (fd_offset d)) src r"
      "fs_ok s1 bs' e' (N(p \<mapsto> a\<lparr>a_buf := dt, a_cap := cp, a_bytes := r\<rparr>))"
      "fd_table s1 = (fd_table s)[nat fd := d\<lparr>fd_offset := fd_offset d + n\<rparr>]" by blast
  let ?a = "a\<lparr>a_buf := dt, a_cap := cp, a_bytes := r\<rparr>"
  have du: "fd_used d" using fd d by (simp add: fd_valid_def)
  have v1: "fd_valid fd s1" using fd w(4) i du by (simp add: fd_valid_def)
  define s2 where "s2 = set_fd (nat fd) (\<lambda>x. x\<lparr>fd_offset := fd_offset d\<rparr>) s1"
  have sk: "sys_seek fd (fd_offset d) s1 = (0, s2)" using v1 by (simp add: sys_seek_def s2_def)
  have t2: "fd_table s2 ! nat fd = d" using i w(4) by (simp add: s2_def)
  have v2: "fd_valid fd s2" using v1 t2 du by (simp add: fd_valid_def)
  have ok2: "fs_ok s2 bs' e' (N(p \<mapsto> ?a))" unfolding s2_def
    by (rule fs_set_fd [OF w(3) i(1)]) (use w(4) i d in auto)
  have ls: "length src = unat n" using src by auto
  have lr: "length r = max (length (a_bytes a)) (unat (fd_offset d) + length src)"
    and tk: "src = take (unat n) (drop (unat (fd_offset d)) (a_bytes ?a))"
    using w(2) ls by (auto simp: spliced_def)
  from sys_read_runs [OF ok2 v2 t2 d(2) _ sz outc tk] obtain s3 where
    "sys_read fd (ad c) n s2 = Some (Ret (int (length src), s3))" "read_bytes (fmem s3) (ad c) (length src) = src"
    "fs_ok s3 bs' e' (N(p \<mapsto> ?a))" by auto
  with w(1) sk ls show ?thesis by auto
qed

end
