(* ===== verification/Status.thy ===== *)
theory Status imports Vga begin

text \<open>
  The status lines of the boot, \<^verbatim>\<open>core/status.c\<close>: a step announces itself, and when it has ended
  dots fill the line up to column 60 and the outcome follows.
\<close>

definition status_align :: "vga \<Rightarrow> vga" where
  "status_align v =
     (let current = vga_get_column v
      in if current \<ge> 60 then v
         else let dots = 60 - current in fold (\<lambda>i. vga_print (bytes_of ''.'')) [0..<dots] v)"

definition status_begin :: "u8 list \<Rightarrow> vga \<Rightarrow> vga" where
  "status_begin message v = vga_print message (vga_set_color 0x07 v)"

definition status_end_ok :: "vga \<Rightarrow> vga" where
  "status_end_ok v =
     vga_set_color 0x07 (vga_print (bytes_of '' [ OK ]\<newline>'') (vga_set_color 0x0A (status_align v)))"

definition status_end_error :: "vga \<Rightarrow> vga" where
  "status_end_error v =
     vga_set_color 0x07 (vga_print (bytes_of '' [ ERROR ]\<newline>'') (vga_set_color 0x0C (status_align v)))"

lemma fold_dots_wf: "vga_wf v \<Longrightarrow> vga_wf (fold (\<lambda>i. vga_print s) is v)"
  by (induction "is" arbitrary: v) simp_all

lemma status_wf [simp]:
  "vga_wf v \<Longrightarrow> vga_wf (status_align v)" "vga_wf v \<Longrightarrow> vga_wf (status_begin msg v)"
  "vga_wf v \<Longrightarrow> vga_wf (status_end_ok v)" "vga_wf v \<Longrightarrow> vga_wf (status_end_error v)"
proof -
  show a: "vga_wf v \<Longrightarrow> vga_wf (status_align v)" for v
    unfolding status_align_def Let_def by (cases "60 \<le> vga_get_column v") (simp_all only: fold_dots_wf if_True if_False)
  show "vga_wf v \<Longrightarrow> vga_wf (status_begin msg v)" unfolding status_begin_def by (intro vga_wf_ops)
  show "vga_wf v \<Longrightarrow> vga_wf (status_end_ok v)" "vga_wf v \<Longrightarrow> vga_wf (status_end_error v)"
    unfolding status_end_ok_def status_end_error_def by (intro vga_wf_ops a, assumption)+
qed

end
