(* ===== verification/FsBoot.thy ===== *)
theory FsBoot imports FsLaws Status begin

text \<open>
  Mounts and the file systems the boot makes, from \<^verbatim>\<open>kernel_boot\<close> in \<^verbatim>\<open>core/boot.c\<close>: a root
  directory, the directory \<open>tmp\<close> in it, and a second file system mounted there.
\<close>

section \<open>Mounting\<close>

lemma vfs_mount_maps:
  assumes ok: "fs_ok s bs e N" and r: "vfs_root s = ad r" "r \<in> dom N" and t: "cstr (fmem s) path t"
    and short: "\<forall>c\<in>set (path_parts t). length c < 64"
    and pt: "part_at s = ad pt" "off_heap pt 64" "pt + 64 \<le> 4294967296"
    and ap: "apart 64 (part_at s) (length t + 1) path"
    and w: "walk N (mount_target s) r (path_parts t) = Some q" "q \<in> dom N" and new: "t' \<in> dom N"
    and room: "mount_count s < 8" and fresh: "\<forall>x\<in>set (take (mount_count s) (mounts s)). fst x \<noteq> ad q"
  shows "\<exists>s'. vfs_mount path (ad t') s = Some (Ret s') \<and> fs_ok s' bs e N \<and> vfs_root s' = vfs_root s
    \<and> (\<forall>x\<in>dom N. mount_target s' x = (if x = q then t' else mount_target s x))"
proof -
  obtain a where a: "N r = Some a" using r(2) by auto
  obtain b where b: "N q = Some b" using w(2) by auto
  have hp: "heap_ok (fheap s) bs e" using ok by (simp add: fs_ok_def)
  have "clear_of_part 64 (ad pt) path t" using clear_of_part_apart [OF ap cstr_length [OF t]] pt(1) by simp
  from resolve_walk [OF ok a t short pt this] w obtain m where
    m: "resolve_loop s (ad r) path = Some (Ret (ad q, set_fmem m s))" "touches (fmem s) m {pt..<pt + 64}"
    by (auto simp: found_def)
  have ok1: "fs_ok (set_fmem m s) bs e N" by (rule fs_touch_outside [OF ok m(2) off_heap_disjoint [OF pt(2)]])
  have nz: "ad r \<noteq> 0" "ad q \<noteq> 0" using fs_node_nonzero [OF ok a] fs_node_nonzero [OF ok b] by simp_all
  let ?n = "mount_count s"
  define s' where "s' = set_fmem m s\<lparr>mounts := (mounts s)[?n := (ad q, ad t')], mount_count := ?n + 1\<rparr>"
  have ln: "length (mounts s) = 8" using ok by (simp add: fs_ok_def fs_refs_def)
  have run: "vfs_mount path (ad t') s = Some (Ret s')"
    using m(1) nz r(1) room by (simp add: vfs_mount_def vfs_lookup_def path_resolve_def s'_def)
  have "fs_refs s' (dom N)"
  proof -
    have rf: "fs_refs s (dom N)" using ok by (simp add: fs_ok_def)
    have "\<exists>a r. (mounts s)[?n := (ad q, ad t')] ! i = (ad a, ad r) \<and> a \<in> dom N \<and> r \<in> dom N" if "i < Suc ?n" for i
    proof (cases "i = ?n")
      case True
      then show ?thesis using w(2) new ln room by auto
    next
      case False
      then have "i < ?n" using that by simp
      then show ?thesis using rf False unfolding fs_refs_def by (metis nth_list_update_neq)
    qed
    then show ?thesis using rf room by (simp add: fs_refs_def s'_def)
  qed
  moreover have "fmem s' = m" "fheap s' = fheap (set_fmem m s)" "ramfs_ops s' = ramfs_ops s" "ramfs_ops_at s' = ramfs_ops_at s"
    by (simp_all add: s'_def)
  ultimately have ok': "fs_ok s' bs e N" using ok1 by (simp add: fs_ok_def)
  have tk: "take (Suc ?n) ((mounts s)[?n := (ad q, ad t')]) = take ?n (mounts s) @ [(ad q, ad t')]"
    using ln room by (simp add: take_Suc_conv_app_nth)
  have t4: "unat (ad t') = t'" if "N t' = Some c" for c
    using node_fits_range [OF hp fs_okD(2) [OF ok that]] by (simp add: unat_ad)
  have "mount_target s' x = (if x = q then t' else mount_target s x)" if x: "x \<in> dom N" for x
  proof (cases "x = q")
    case True
    have "find (\<lambda>(mp, root). ad q = mp) (take ?n (mounts s)) = None"
      using fresh by (fastforce simp: find_None_iff)
    then show ?thesis using True tk new t4 by (auto simp: mount_target_def s'_def find_append)
  next
    case False
    obtain c where "N x = Some c" using x by auto
    from node_fits_range [OF hp fs_okD(2) [OF ok this]] node_fits_range [OF hp fs_okD(2) [OF ok b]] False
    have "ad x \<noteq> ad q" by (simp add: ad_eq_iff)
    then show ?thesis using False tk by (simp add: mount_target_def s'_def find_append split: option.split)
  qed
  then show ?thesis using run ok' by (intro exI [of _ s']) (simp add: s'_def)
qed

text \<open>
  \<open>vfs_mount\<close> of \<open>t\<close> on a path that resolves to \<open>q\<close>, not mounted on so far, with fewer than
  eight mounts: it returns, and from then on the walk goes from \<open>q\<close> to \<open>t\<close> and elsewhere as
  before.
\<close>

theorem vfs_mount_redirects:
  assumes ok: "fs_ok s bs e N" and r: "vfs_root s = ad r" "r \<in> dom N" and t: "cstr (fmem s) path t"
    and short: "\<forall>c\<in>set (path_parts t). length c < 64"
    and pt: "part_at s = ad pt" "off_heap pt 64" "pt + 64 \<le> 4294967296"
    and ap: "apart 64 (part_at s) (length t + 1) path"
    and w: "walk N (mount_target s) r (path_parts t) = Some q" "q \<in> dom N" and new: "t' \<in> dom N"
    and room: "mount_count s < 8" and fresh: "\<forall>x\<in>set (take (mount_count s) (mounts s)). fst x \<noteq> ad q"
  shows "\<exists>s'. vfs_mount path (ad t') s = Some (Ret s') \<and> fs_ok s' bs e N \<and> vfs_root s' = vfs_root s
    \<and> (\<forall>x\<in>dom N. mount_target s' x = (if x = q then t' else mount_target s x))"
  using assms by (rule vfs_mount_maps)

section \<open>A new root directory\<close>

lemma new_root_touches:
  assumes "c + 228 \<le> 4294967296"
  shows "touches m (store32 (new_root (ad c) m) (ad (c + 80)) ops) {c..<c + 228}"
  unfolding new_root_def Let_def memset_zeros ad_add_numeral
  by (intro touches_store touches_write touches_refl) (use assms in auto)

lemma new_root_at:
  assumes c: "c + 228 \<le> 4294967296"
  shows "node_at ops (store32 (new_root (ad c) m) (ad (c + 80)) ops) c (empty_node [47] VFS_DIR)"
proof -
  let ?m = "write_bytes (write_bytes m (ad c) (replicate 228 0)) (ad c) ([47] @ [0])"
  have z: "rd ?m (c + i) = 0" if "64 \<le> i" "i \<le> 224" for i
    using rd_write_above [of c "[47] @ [0]" "c + i"] rd_zeros [of c "c + i" 228] that c by simp
  have "cstr ?m (ad c) [47]" by (intro cstr_write_bytes) auto
  then have "cstr (store32 (store32 (store32 ?m (ad (c + 64)) VFS_DIR) (ad (c + 76)) (ad c)) (ad (c + 80)) ops) (ad c) [47]"
    using c by (intro touches_cstr [OF store_touches]) (auto simp: disjoint_iff)
  then show ?thesis using c
    by (auto simp: node_at_def empty_node_def new_root_def Let_def memset_zeros ad_add_numeral rd_rules z [simplified] ad_0)
qed

lemma create_instance_adds:
  assumes ok: "fs_ok (ramfs_init_ops s) bs e N" and room: "e + 256 < 0x800000"
  shows "\<exists>c s' bs' e'. ramfs_create_instance s = Some (ad c, s') \<and> c \<notin> dom N \<and> e' \<le> e + 256
    \<and> fs_ok s' bs' e' (N(c \<mapsto> empty_node [47] VFS_DIR)) \<and> (\<exists>h. s' = (ramfs_init_ops s)\<lparr>fheap := h\<rparr>)
    \<and> touches (fmem s) (fmem s') heap_area"
proof -
  have r: "round8 228 = 232" by (simp add: round8_def)
  let ?s0 = "ramfs_init_ops s"
  have f0: "fheap ?s0 = fheap s" "fmem ?s0 = fmem s" by (simp_all add: ramfs_init_ops_def fmem_def)
  obtain c k h bs' e' where k: "kmalloc 228 (fheap s) = Some (ad c, h)" "fs_ok (?s0\<lparr>fheap := h\<rparr>) bs' e' N"
      "e' \<le> e + 256" "228 \<le> k" "(c, k) \<in> used bs'" "touches (fmem s) (hmem h) (heap_space bs)"
      "\<And>q b. N q = Some b \<Longrightarrow> c \<notin> blocks q b"
    using fs_kmalloc [OF ok, of 228] room r f0 by auto
  have hp: "heap_ok h bs' e'" using k(2) by (simp add: fs_ok_def)
  note crange = used_range(1,2) [OF hp k(5)]
  let ?s = "?s0\<lparr>fheap := h\<rparr>" and ?ops = "ramfs_ops_at s"
  define m where "m = store32 (new_root (ad c) (hmem h)) (ad (c + 80)) ?ops"
  have mt: "touches (hmem h) m {c..<c + 228}" unfolding m_def
    using crange k(4) by (intro new_root_touches) auto
  have cd: "c \<notin> dom N" using k(7) by (fastforce simp: blocks_def split: if_splits)
  have hs: "{c..<c + 228} \<inter> heap_space bs' = {}"
  proof -
    have "{c..<c + 228} \<subseteq> {c..<c + k}" using k(4) by auto
    from order_trans [OF this owned_block [OF k(5)]] show ?thesis unfolding heap_space_def by blast
  qed
  have at: "ramfs_ops_at ?s = ?ops" by (simp add: ramfs_init_ops_def)
  have "fs_ok (set_fmem m ?s) bs' e' (N(c \<mapsto> empty_node [47] VFS_DIR))"
  proof (rule fs_upd [OF k(2) _ hs])
    show "touches (fmem ?s) m {c..<c + 228}" using mt by simp
    show "foot q b \<inter> {c..<c + 228} = {}" if "N q = Some b" for q b
      by (rule foot_apart [OF hp fs_okD(2) [OF k(2) that] k(5) k(7) [OF that] k(4)])
    show "node_at (ramfs_ops_at ?s) m c (empty_node [47] VFS_DIR)" unfolding at m_def
      using crange k(4) by (intro new_root_at) auto
    show "node_fits bs' c (empty_node [47] VFS_DIR)" using k(4,5) by (auto simp: node_fits_def empty_node_def)
    show "blocks c (empty_node [47] VFS_DIR) \<inter> blocks q b = {}" if "N q = Some b" for q b
      using k(7) [OF that] by (simp add: blocks_def empty_node_def)
  qed (simp add: empty_node_def)
  moreover have "ramfs_create_instance s = Some (ad c, set_fmem m ?s)"
    using k(1) f0 at by (simp add: ramfs_create_instance_def Let_def m_def ad_add_numeral)
  moreover have "touches (fmem s) m heap_area"
    by (rule touches_trans [OF touches_mono [OF k(6)] touches_mono [OF mt]])
      (use used_area [OF hp k(5)] k(4) in \<open>auto simp: heap_space_def\<close>)
  ultimately show ?thesis using cd k(3)
    by (intro exI [of _ c] exI [of _ "set_fmem m ?s"] exI [of _ bs'] exI [of _ e']) (auto simp: set_fmem_def)
qed

section \<open>The file systems of the boot\<close>

text \<open>\<open>tmp_name\<close> and \<open>tmp_path\<close> are the addresses of the literals \<open>"tmp"\<close> and \<open>"/tmp"\<close>.\<close>

definition fs_screen :: "(vga \<Rightarrow> vga) \<Rightarrow> fs \<Rightarrow> fs" where
  "fs_screen f s = s\<lparr>fheap := (fheap s)\<lparr>screen := f (screen (fheap s))\<rparr>\<rparr>"

definition begin_step :: "string \<Rightarrow> fs \<Rightarrow> fs" where "begin_step msg = fs_screen (status_begin (bytes_of msg))"
definition end_step :: "fs \<Rightarrow> fs" where "end_step = fs_screen status_end_ok"

definition boot_filesystem :: "u32 \<Rightarrow> u32 \<Rightarrow> fs \<Rightarrow> fs outcome option" where
  "boot_filesystem tmp_name tmp_path s =
     (let s = end_step (vfs_init (begin_step ''Initializing VFS'' s));
          s = end_step (fd_init (begin_step ''Initializing FD'' s));
          s = begin_step ''Initializing Root Filesystem'' s
      in Option.bind (ramfs_create_instance s) (\<lambda>(main_root, s).
           let s = end_step (s\<lparr>vfs_root := main_root\<rparr>);
               s = begin_step ''Mounting /tmp as RAMFS'' s
           in (case ops_of (vfs_root s) s of None \<Rightarrow> Some (Fault ''ops'')
               | Some ops \<Rightarrow>
                 if \<not> create_set ops then Some (Fault ''create'')
                 else bind_run (ramfs_create (vfs_root s) tmp_name VFS_DIR s) (\<lambda>(_, s).
                   Option.bind (ramfs_create_instance s) (\<lambda>(tmp_ramfs, s).
                     bind_run (vfs_mount tmp_path tmp_ramfs s) (\<lambda>s. Some (Ret (end_step s))))))))"

text \<open>What the status lines leave alone: everything but the screen.\<close>

lemma fs_screen_simps [simp]:
  "fmem (fs_screen f s) = fmem s" "part_at (fs_screen f s) = part_at s" "mount_count (fs_screen f s) = mount_count s"
  "vfs_root (fs_screen f s) = vfs_root s" "fd_table (fs_screen f s) = fd_table s" "ops_of r (fs_screen f s) = ops_of r s"
  "ramfs_init_ops (fs_screen f s) = fs_screen f (ramfs_init_ops s)" "mount_target (fs_screen f s) p = mount_target s p"
  "ramfs_initialized (fs_screen f s) = ramfs_initialized s" "fd_init (fs_screen f s) = fs_screen f (fd_init s)" "fs_refs (fs_screen f s) D = fs_refs s D"
  by (simp_all add: fs_screen_def fmem_def ops_of_def ramfs_init_ops_def mount_target_def fs_refs_def fd_init_def)

lemma heap_ok_screen [simp]: "heap_ok (h\<lparr>screen := v\<rparr>) bs e \<longleftrightarrow> heap_ok h bs e"
  by (simp add: heap_ok_def)

lemma fs_ok_screen [simp]: "fs_ok (fs_screen f s) bs e N \<longleftrightarrow> fs_ok s bs e N"
  by (simp add: fs_ok_def fs_screen_def fmem_def fs_refs_def)

lemma fs_ok_root [simp]: "fs_ok (s\<lparr>vfs_root := r\<rparr>) bs e N \<longleftrightarrow> fs_ok s bs e N"
  by (simp add: fs_ok_def fs_refs_def)

lemma fs_screen_heap [simp]: "(fs_screen f s)\<lparr>fheap := h\<rparr> = s\<lparr>fheap := h\<rparr>"
  by (simp add: fs_screen_def)

lemma fs_ok_inits [simp]:
  "fs_ok (ramfs_init_ops (vfs_init s)) bs e N \<longleftrightarrow> fs_ok (ramfs_init_ops s) bs e N"
  "fs_ok s bs e N \<Longrightarrow> fs_ok (fd_init s) bs e N" "ramfs_init_ops (fd_init s) = fd_init (ramfs_init_ops s)"
  by (auto simp: vfs_init_def fd_init_def fs_ok_def fs_refs_def ramfs_init_ops_def)

text \<open>The state before: a heap in order, no mounts, nothing set up.\<close>

definition fs_reset :: "blk list \<Rightarrow> nat \<Rightarrow> fs \<Rightarrow> bool" where
  "fs_reset bs e s \<longleftrightarrow> heap_ok (fheap s) bs e \<and> \<not> ramfs_initialized s \<and> mount_count s = 0
     \<and> length (mounts s) = MAX_MOUNTS \<and> length (fd_table s) = MAX_FDS"

lemma fs_reset_ok: "fs_reset bs e s \<Longrightarrow> fs_ok (ramfs_init_ops (fd_init (vfs_init s))) bs e Map.empty"
  by (auto simp: fs_reset_def fs_ok_def ramfs_init_ops_def fd_init_def vfs_init_def fs_refs_def all_ops_def)

lemma boot_filesystem_runs:
  assumes start: "fs_reset bs0 e0 s" and room: "e0 + 768 < 0x800000"
    and x: "cstr (fmem s) (ad x) (bytes_of ''tmp'')" "off_heap x 64" "x + 64 \<le> 4294967296"
    and y: "cstr (fmem s) (ad y) (bytes_of ''/tmp'')" "off_heap y 5" "y + 5 \<le> 4294967296"
    and pt: "part_at s = ad pt" "off_heap pt 64" "pt + 64 \<le> 4294967296" and ap: "pt + 64 \<le> y \<or> y + 5 \<le> pt"
  shows "\<exists>s' bs e r c t. boot_filesystem (ad x) (ad y) s = Some (Ret s') \<and> distinct [r, c, t]
    \<and> fs_ok s' bs e [r \<mapsto> (empty_node (bytes_of ''/'') VFS_DIR)\<lparr>a_kids := [c]\<rparr>,
        c \<mapsto> empty_node (bytes_of ''tmp'') VFS_DIR, t \<mapsto> empty_node (bytes_of ''/'') VFS_DIR]
    \<and> vfs_root s' = ad r \<and> mount_target s' r = r \<and> mount_target s' c = t"
proof -
  let ?s0 = "begin_step ''Initializing Root Filesystem'' (end_step (fd_init (begin_step ''Initializing FD'' (end_step (vfs_init (begin_step ''Initializing VFS'' s))))))"
  have ok0: "fs_ok (ramfs_init_ops ?s0) bs0 e0 Map.empty" using fs_reset_ok [OF start] by (simp add: begin_step_def end_step_def vfs_init_def)
  have f0: "fmem ?s0 = fmem s" "part_at ?s0 = part_at s" "mount_count ?s0 = 0"
    using start by (simp_all add: begin_step_def end_step_def fd_init_def vfs_init_def fs_reset_def)
  obtain r s1 bs1 e1 h1 where 1: "ramfs_create_instance ?s0 = Some (ad r, s1)" "e1 \<le> e0 + 256"
      "fs_ok s1 bs1 e1 [r \<mapsto> empty_node [47] VFS_DIR]" "s1 = (ramfs_init_ops ?s0)\<lparr>fheap := h1\<rparr>"
      "touches (fmem s) (fmem s1) heap_area"
    using create_instance_adds [OF ok0] f0 room by auto
  let ?s1 = "begin_step ''Mounting /tmp as RAMFS'' (end_step (s1\<lparr>vfs_root := ad r\<rparr>))"
  have ok1: "fs_ok ?s1 bs1 e1 [r \<mapsto> empty_node [47] VFS_DIR]"
    using 1(3) by (simp add: begin_step_def end_step_def)
  have kept: "cstr m (ad z) u" if "touches (fmem s) m heap_area" "cstr (fmem s) (ad z) u" "off_heap z (length u + 1)" "z + length u < 4294967296" for m z u
    by (rule touches_cstr [OF that(1) _ that(4,2)]) (use off_heap_disjoint [OF that(3)] in \<open>simp add: atLeastLessThanSuc_atLeastAtMost\<close>)
  have x1: "cstr (fmem ?s1) (ad x) (bytes_of ''tmp'')" using kept [OF 1(5) x(1)] off_heap_mono [OF x(2), of "Suc (Suc (Suc (Suc 0)))"] x(3) by (simp add: begin_step_def end_step_def)
  have len0: "length (a_kids (empty_node [47] VFS_DIR)) < 32" "length (bytes_of ''tmp'') < 64" by (simp_all add: empty_node_def)
  obtain c s2 bs2 e2 h2 where 2: "ramfs_create (ad r) (ad x) VFS_DIR ?s1 = Some (Ret (0, s2))" "c \<noteq> r" "e2 \<le> e1 + 256"
      "fs_ok s2 bs2 e2 [r \<mapsto> empty_node [47] VFS_DIR, c \<mapsto> empty_node (bytes_of ''tmp'') VFS_DIR,
         r \<mapsto> (empty_node [47] VFS_DIR)\<lparr>a_kids := [c]\<rparr>]" "s2 = ?s1\<lparr>fheap := h2\<rparr>"
      "touches (fmem s1) (fmem s2) heap_area"
    using ramfs_create_adds [OF ok1 _ len0(1) x1 len0(2), of r VFS_DIR] x(2,3) 1(2) room
    by (auto simp: empty_node_def begin_step_def end_step_def)
  have s2: "s2 = s1\<lparr>vfs_root := ad r, fheap := h2\<rparr>" using 2(5) by (simp add: begin_step_def end_step_def)
  have ri: "ramfs_init_ops s2 = s2" using s2 1(4) by (simp add: ramfs_init_ops_def split: if_splits)
  let ?N2 = "[r \<mapsto> (empty_node [47] VFS_DIR)\<lparr>a_kids := [c]\<rparr>, c \<mapsto> empty_node (bytes_of ''tmp'') VFS_DIR]"
  have ok2: "fs_ok (ramfs_init_ops s2) bs2 e2 ?N2"
    using 2(2,4) ri by (simp add: fun_upd_twist)
  obtain t s3 bs3 e3 h3 where 3: "ramfs_create_instance s2 = Some (ad t, s3)" "t \<notin> dom ?N2"
      "fs_ok s3 bs3 e3 (?N2(t \<mapsto> empty_node [47] VFS_DIR))" "s3 = s2\<lparr>fheap := h3\<rparr>"
      "touches (fmem s2) (fmem s3) heap_area"
    using create_instance_adds [OF ok2] 1(2) 2(3) ri room by auto
  have t3: "touches (fmem s) (fmem s3) heap_area"
    using 1(5) 2(6) 3(5) by (blast intro: touches_trans)
  have y3: "cstr (fmem s3) (ad y) (bytes_of ''/tmp'')" using kept [OF t3 y(1)] off_heap_mono [OF y(2), of "Suc (Suc (Suc (Suc (Suc 0))))"] y(3) by simp
  have parts: "path_parts (bytes_of ''/tmp'') = [bytes_of ''tmp'']"
    by (simp add: parts.simps [of 47 "47 # _"] parts.simps [of 47 "[]"] Let_def)
  have mc: "mount_count s3 = 0" "vfs_root s3 = ad r" "part_at s3 = ad pt"
    using 3(4) s2 1(4) f0 pt(1) by (simp_all add: ramfs_init_ops_def)
  let ?N3 = "?N2(t \<mapsto> empty_node [47] VFS_DIR)"
  have mt: "mount_target s3 z = z" for z by (simp add: mount_target_def mc)
  have wk: "walk ?N3 (mount_target s3) r (path_parts (bytes_of ''/tmp'')) = Some c"
    unfolding parts using 2(2) 3(2) by (auto simp: mt named_def empty_node_def)
  have ap': "apart 64 (part_at s3) (length (bytes_of ''/tmp'') + 1) (ad y)"
    unfolding mc(3) unfolding ad_def by (rule apart_of_nat) (use ap pt(3) y(3) in auto)
  have sh: "\<forall>c\<in>set (path_parts (bytes_of ''/tmp'')). length c < 64" unfolding parts by simp
  have "r \<in> dom ?N3" "c \<in> dom ?N3" "t \<in> dom ?N3" by auto
  from vfs_mount_maps [OF 3(3) mc(2) this(1) y3 sh mc(3) _ _ ap' wk this(2,3)] pt(2,3) mc
  obtain s4 where 4: "vfs_mount (ad y) (ad t) s3 = Some (Ret s4)" "fs_ok s4 bs3 e3 ?N3" "vfs_root s4 = vfs_root s3"
      "\<forall>z\<in>dom ?N3. mount_target s4 z = (if z = c then t else mount_target s3 z)" by fastforce
  have "ops_of (ad r) ?s1 = Some all_ops" "vfs_root ?s1 = ad r" using ops_of_node [OF ok1, of r] by (simp_all add: begin_step_def end_step_def)
  then have "boot_filesystem (ad x) (ad y) s = Some (Ret (end_step s4))"
    using 1(1) 2(1) 3(1) 4(1) by (simp add: boot_filesystem_def Let_def)
  then show ?thesis using 4(2-4) mc 2(2) 3(2) mt
    by (intro exI [of _ "end_step s4"] exI [of _ bs3] exI [of _ e3] exI [of _ r] exI [of _ c] exI [of _ t]) (auto simp: end_step_def)
qed

text \<open>
  C18. The boot's file systems: from a heap in order with room left the sequence returns, with a root directory
  that holds the directory \<open>tmp\<close> and a second root directory mounted on it, so that the
  path \<open>/tmp\<close> leads from the first to the second.
\<close>

theorem boot_mounts_tmp:
  assumes start: "fs_reset bs0 e0 s" and room: "e0 + 768 < 0x800000"
    and x: "cstr (fmem s) (ad x) (bytes_of ''tmp'')" "off_heap x 64" "x + 64 \<le> 4294967296"
    and y: "cstr (fmem s) (ad y) (bytes_of ''/tmp'')" "off_heap y 5" "y + 5 \<le> 4294967296"
    and pt: "part_at s = ad pt" "off_heap pt 64" "pt + 64 \<le> 4294967296" and ap: "pt + 64 \<le> y \<or> y + 5 \<le> pt"
  shows "\<exists>s' bs e r c t. boot_filesystem (ad x) (ad y) s = Some (Ret s') \<and> distinct [r, c, t]
    \<and> fs_ok s' bs e [r \<mapsto> (empty_node (bytes_of ''/'') VFS_DIR)\<lparr>a_kids := [c]\<rparr>,
        c \<mapsto> empty_node (bytes_of ''tmp'') VFS_DIR, t \<mapsto> empty_node (bytes_of ''/'') VFS_DIR]
    \<and> vfs_root s' = ad r \<and> mount_target s' r = r \<and> mount_target s' c = t"
  using assms by (rule boot_filesystem_runs)

section \<open>Opening a file\<close>

lemma walk_dom:
  "fs_ok s bs e N \<Longrightarrow> p \<in> dom N \<Longrightarrow> walk N (mount_target s) p ts = Some q \<Longrightarrow> q \<in> dom N"
proof (induction ts arbitrary: p)
  case (Cons t ts)
  from Cons.prems(3) obtain a q' where a: "N p = Some a" "find (named N t) (a_kids a) = Some q'"
    "walk N (mount_target s) (mount_target s q') ts = Some q" by (auto split: option.splits)
  then have "q' \<in> dom N" by (auto simp: find_Some_iff named_def)
  from Cons.IH [OF Cons.prems(1) mount_target_dom [OF Cons.prems(1) this] a(3)] show ?case .
qed simp

definition lowest_free :: "fs \<Rightarrow> nat option" where
  "lowest_free s = find (\<lambda>i. \<not> fd_used (fd_table s ! i)) [0..<MAX_FDS]"

text \<open>What \<open>sys_open\<close> does to the state: only the local array of the resolution and the entry it gives out change.\<close>

lemma sys_open_runs:
  assumes ok: "fs_ok s bs e N" and r: "vfs_root s = ad r" "r \<in> dom N" and t: "cstr (fmem s) path t"
    and short: "\<forall>c\<in>set (path_parts t). length c < 64"
    and pt: "part_at s = ad pt" "off_heap pt 64" "pt + 64 \<le> 4294967296"
    and ap: "apart 64 (part_at s) (length t + 1) path"
  shows "\<exists>m s'. sys_open path s = Some (Ret (case (walk N (mount_target s) r (path_parts t), lowest_free s) of
        (Some q, Some i) \<Rightarrow> int i | _ \<Rightarrow> -1, s')) \<and> fs_ok s' bs e N
    \<and> s' = (set_fmem m s)\<lparr>fd_table := (case (walk N (mount_target s) r (path_parts t), lowest_free s) of
        (Some q, Some i) \<Rightarrow> (fd_table s)[i := \<lparr>fd_used = True, fd_node = ad q, fd_offset = 0\<rparr>] | _ \<Rightarrow> fd_table s)\<rparr>
    \<and> touches (fmem s) m {pt..<pt + 64}"
proof -
  obtain a where a: "N r = Some a" using r(2) by auto
  have "clear_of_part 64 (ad pt) path t" using clear_of_part_apart [OF ap cstr_length [OF t]] pt(1) by simp
  from resolve_walk [OF ok a t short pt this] obtain m where
    m: "resolve_loop s (ad r) path = Some (Ret (found (walk N (mount_target s) r (path_parts t)), set_fmem m s))"
      "touches (fmem s) m {pt..<pt + 64}" by blast
  have ok1: "fs_ok (set_fmem m s) bs e N" by (rule fs_touch_outside [OF ok m(2) off_heap_disjoint [OF pt(2)]])
  have nz: "ad r \<noteq> 0" using fs_node_nonzero [OF ok a] by simp
  have lk: "vfs_lookup path s = Some (Ret (found (walk N (mount_target s) r (path_parts t)), set_fmem m s))"
    using m(1) nz r(1) by (simp add: vfs_lookup_def path_resolve_def)
  have lf: "find (\<lambda>i. \<not> fd_used (fd_table s ! i)) [0..<32] = lowest_free s" by (simp add: lowest_free_def)
  have same: "(set_fmem m s)\<lparr>fd_table := fd_table s\<rparr> = set_fmem m s" by (simp add: set_fmem_def)
  show ?thesis
  proof (cases "walk N (mount_target s) r (path_parts t)")
    case None
    then show ?thesis using lk ok1 m(2) same by (intro exI [of _ m] exI [of _ "set_fmem m s"]) (simp add: sys_open_def found_def)
  next
    case (Some q)
    then have q: "q \<in> dom N" using walk_dom [OF ok r(2)] by simp
    then obtain b where b: "N q = Some b" by auto
    have qz: "ad q \<noteq> 0" using fs_node_nonzero [OF ok b] by simp
    show ?thesis
    proof (cases "lowest_free s")
      case None
      then show ?thesis using lk ok1 Some qz lf m(2) same
        by (intro exI [of _ m] exI [of _ "set_fmem m s"]) (simp add: sys_open_def found_def fd_alloc_def)
    next
      case i: (Some i)
      then have i32: "i < 32" by (auto simp: lowest_free_def find_Some_iff)
      have len: "length (fd_table s) = 32" using ok by (simp add: fs_ok_def fs_refs_def)
      let ?s = "set_fd i (\<lambda>d. d\<lparr>fd_node := ad q\<rparr>) (set_fd i (\<lambda>d. d\<lparr>fd_used := True, fd_offset := 0\<rparr>) (set_fmem m s))"
      have one: "?s = set_fd i (\<lambda>d. \<lparr>fd_used = True, fd_node = ad q, fd_offset = 0\<rparr>) (set_fmem m s)"
        using i32 len by (cases "fd_table s ! i") (simp add: set_fd_def)
      have "fs_ok ?s bs e N" unfolding one by (rule fs_set_fd [OF ok1]) (use i32 q in auto)
      moreover have "?s = (set_fmem m s)\<lparr>fd_table := (fd_table s)[i := \<lparr>fd_used = True, fd_node = ad q, fd_offset = 0\<rparr>]\<rparr>"
        unfolding one by (simp add: set_fd_def)
      moreover have "sys_open path s = Some (Ret (int i, ?s))"
        using lk qz i lf by (simp add: sys_open_def found_def fd_alloc_def Some)
      ultimately show ?thesis using m(2) i Some by (intro exI [of _ m] exI [of _ ?s]) simp
    qed
  qed
qed

text \<open>
  C17. \<open>sys_open\<close> gives out the lowest descriptor that is not open, for the node the path leads to,
  at offset 0; it returns -1 and opens nothing when the path leads nowhere or all 32 are open.
\<close>

theorem sys_open_lowest:
  assumes ok: "fs_ok s bs e N" and r: "vfs_root s = ad r" "r \<in> dom N" and t: "cstr (fmem s) path t"
    and short: "\<forall>c\<in>set (path_parts t). length c < 64"
    and pt: "part_at s = ad pt" "off_heap pt 64" "pt + 64 \<le> 4294967296"
    and ap: "apart 64 (part_at s) (length t + 1) path"
  shows "\<exists>s'. sys_open path s = Some (Ret (case (walk N (mount_target s) r (path_parts t), lowest_free s) of
        (Some q, Some i) \<Rightarrow> int i | _ \<Rightarrow> -1, s')) \<and> fs_ok s' bs e N
    \<and> fd_table s' = (case (walk N (mount_target s) r (path_parts t), lowest_free s) of
        (Some q, Some i) \<Rightarrow> (fd_table s)[i := \<lparr>fd_used = True, fd_node = ad q, fd_offset = 0\<rparr>] | _ \<Rightarrow> fd_table s)"
proof -
  from sys_open_runs [OF assms] obtain m s' where s': "sys_open path s = Some (Ret (case (walk N (mount_target s) r (path_parts t), lowest_free s) of
        (Some q, Some i) \<Rightarrow> int i | _ \<Rightarrow> -1, s'))" "fs_ok s' bs e N"
    and eq: "s' = (set_fmem m s)\<lparr>fd_table := (case (walk N (mount_target s) r (path_parts t), lowest_free s) of
        (Some q, Some i) \<Rightarrow> (fd_table s)[i := \<lparr>fd_used = True, fd_node = ad q, fd_offset = 0\<rparr>] | _ \<Rightarrow> fd_table s)\<rparr>" by blast
  show ?thesis by (rule exI [of _ s'], intro conjI s') (simp add: eq)
qed

text \<open>
  The local array of \<open>path_resolve\<close> holds 64 characters and the copy does not count them: the
  65th character of a component is written behind the array.
\<close>

theorem long_component_overflows:
  assumes t: "cstr (fmem s) path t" and c: "c = takeWhile (\<lambda>c. c \<noteq> 47) t" "64 < length c"
    and ap: "apart (length c + 1) (part_at s) (length t + 1) path"
  shows "\<exists>m p j. copy_part (part_at s) (fmem s) path 0 = Some (m, p, j) \<and> m (part_at s + 64) = c ! 64"
proof -
  have lt: "length t < 4294967296" by (rule cstr_length [OF t])
  have lc: "length c \<le> length t" unfolding c(1) by (rule length_takeWhile_le)
  have "clear_of_part (length c + 1) (part_at s) path t"
    by (rule clear_of_part_apart [OF ap lt]) (use lc lt in simp)
  from copy_part_cstr [OF t this, of 0] c(1) lc lt
  have "copy_part (part_at s) (fmem s) path 0 =
      Some (write_bytes (fmem s) (part_at s) c, path + of_nat (length c), of_nat (length c))" by simp
  moreover have "write_bytes (fmem s) (part_at s) c (part_at s + of_nat 64) = c ! 64"
    by (rule write_bytes_inside) (use c(2) lc lt in auto)
  ultimately show ?thesis by simp
qed

section \<open>Concrete file systems\<close>

text \<open>
  An empty heap, the strings \<open>tmp\<close> and \<open>/tmp\<close> at \<open>0x101000\<close> and \<open>0x101010\<close>, the local array at \<open>0x102000\<close>.
\<close>

definition fs_start :: fs where
  "fs_start = \<lparr>fheap = fresh_heap (write_bytes (write_bytes (\<lambda>_. 0) (ad 0x101000) ([116, 109, 112] @ [0])) (ad 0x101010) ([47, 116, 109, 112] @ [0]))
       (vga_initial (replicate 2000 0)), vfs_root = 0, mounts = replicate 8 (0, 0), mount_count = 0, ramfs_initialized = False,
     ramfs_ops = \<lparr>lookup_set = False, create_set = False, read_set = False, write_set = False, list_set = False\<rparr>,
     fd_table = replicate 32 \<lparr>fd_used = False, fd_node = 0, fd_offset = 0\<rparr>, ramfs_ops_at = 0x3000, part_at = ad 0x102000\<rparr>"

lemma fs_start_reset: "fs_reset [] 0x400000 fs_start"
  using fresh_heap_ok by (simp add: fs_reset_def fs_start_def)

lemma fs_start_strings: "cstr (fmem fs_start) (ad 0x101000) [116, 109, 112]" "cstr (fmem fs_start) (ad 0x101010) [47, 116, 109, 112]"
proof -
  let ?m = "write_bytes (\<lambda>_. 0) (ad 0x101000) ([116, 109, 112] @ [0])"
  have m: "fmem fs_start = write_bytes ?m (ad 0x101010) ([47, 116, 109, 112] @ [0])"
    by (simp add: fmem_def fs_start_def fresh_heap_def heap_init_def)
  show "cstr (fmem fs_start) (ad 0x101010) [47, 116, 109, 112]" unfolding m by (rule cstr_write_bytes) auto
  have t: "touches ?m (fmem fs_start) {0x101010..<0x101015}" unfolding m by (intro touches_write touches_refl) auto
  have "cstr ?m (ad 0x101000) [116, 109, 112]" by (rule cstr_write_bytes) auto
  then show "cstr (fmem fs_start) (ad 0x101000) [116, 109, 112]" by (intro touches_cstr [OF t]) auto
qed

text \<open>A root directory with the file \<open>tmp\<close>, which holds three bytes, open as descriptor 0.\<close>

lemma one_file:
  obtains s bs e r c f where "fs_ok s bs e [c \<mapsto> f, r \<mapsto> (empty_node [47] VFS_DIR)\<lparr>a_kids := [c]\<rparr>]"
    and "a_name f = [116, 109, 112]" and "a_flags f = VFS_FILE" and "a_bytes f = [116, 109, 112]" and "a_kids f = []"
    and "r \<noteq> c" and "e \<le> 0x401000" and "vfs_root s = ad r" and "part_at s = ad 0x102000" and "mount_count s = 0"
    and "cstr (fmem s) (ad 0x101000) [116, 109, 112]" and "cstr (fmem s) (ad 0x101010) [47, 116, 109, 112]"
    and "fd_table s = (replicate 32 \<lparr>fd_used = False, fd_node = 0, fd_offset = 0\<rparr>)[0 := \<lparr>fd_used = True, fd_node = ad c, fd_offset = 0\<rparr>]"
proof -
  have ok0: "fs_ok (ramfs_init_ops (fd_init (vfs_init fs_start))) [] 0x400000 Map.empty"
    by (rule fs_reset_ok [OF fs_start_reset])
  have f0: "fmem (fd_init (vfs_init fs_start)) = fmem fs_start" by (simp add: fd_init_def vfs_init_def)
  obtain r s1 bs1 e1 h1 where 1: "e1 \<le> 0x400000 + 256" "fs_ok s1 bs1 e1 [r \<mapsto> empty_node [47] VFS_DIR]"
      "s1 = (ramfs_init_ops (fd_init (vfs_init fs_start)))\<lparr>fheap := h1\<rparr>" "touches (fmem fs_start) (fmem s1) heap_area"
    using create_instance_adds [OF ok0] f0 by auto
  let ?s1 = "s1\<lparr>vfs_root := ad r\<rparr>"
  have ok1: "fs_ok ?s1 bs1 e1 [r \<mapsto> empty_node [47] VFS_DIR]" using 1(2) by (simp add: fs_ok_def fs_refs_def)
  have kept: "cstr m (ad z) u" if "touches (fmem fs_start) m heap_area" "cstr (fmem fs_start) (ad z) u" "off_heap z (length u + 1)" "z + length u < 4294967296" for m z u
    by (rule touches_cstr [OF that(1) _ that(4,2)]) (use off_heap_disjoint [OF that(3)] in \<open>simp add: atLeastLessThanSuc_atLeastAtMost\<close>)
  have x1: "cstr (fmem ?s1) (ad 0x101000) [116, 109, 112]" using kept [OF 1(4) fs_start_strings(1)] by simp
  have len0: "length (a_kids (empty_node [47] VFS_DIR)) < 32" "length [116, 109, 112 :: u8] < 64" by (simp_all add: empty_node_def)
  obtain c s2 bs2 e2 h2 where 2: "c \<noteq> r" "e2 \<le> e1 + 256"
      "fs_ok s2 bs2 e2 [r \<mapsto> empty_node [47] VFS_DIR, c \<mapsto> empty_node [116, 109, 112] VFS_FILE,
         r \<mapsto> (empty_node [47] VFS_DIR)\<lparr>a_kids := [c]\<rparr>]" "s2 = ?s1\<lparr>fheap := h2\<rparr>"
      "touches (fmem s1) (fmem s2) heap_area"
    using ramfs_create_adds [OF ok1 _ len0(1) x1 len0(2), of r VFS_FILE] 1(1) by (auto simp: empty_node_def)
  let ?R = "(empty_node [47] VFS_DIR)\<lparr>a_kids := [c]\<rparr>" and ?F = "empty_node [116, 109, 112] VFS_FILE"
  have ok2: "fs_ok s2 bs2 e2 [c \<mapsto> ?F, r \<mapsto> ?R]" using 2(1,3) by (simp add: fun_upd_twist)
  have t2: "touches (fmem fs_start) (fmem s2) heap_area" using 1(4) 2(5) by (rule touches_trans)
  have "cstr (fmem s2) (ad 0x101000) [116, 109, 112]" using kept [OF t2 fs_start_strings(1)] by simp
  then have src: "read_bytes (fmem s2) (ad 0x101000) (unat (3 :: u32)) = [116, 109, 112]"
  proof -
    have u3: "unat (3 :: u32) = 3" by simp
    show ?thesis using \<open>cstr (fmem s2) (ad 0x101000) [116, 109, 112]\<close> unfolding u3 by (simp add: numeral_3_eq_3)
  qed
  have Fc: "[c \<mapsto> ?F, r \<mapsto> ?R] c = Some ?F" using 2(1) by simp
  obtain s3 bs3 e3 d k q where 3: "spliced (a_bytes ?F) (unat (0 :: u32)) [116, 109, 112] q"
      "fs_ok s3 bs3 e3 ([c \<mapsto> ?F, r \<mapsto> ?R](c \<mapsto> ?F\<lparr>a_buf := d, a_cap := k, a_bytes := q\<rparr>))" "e3 \<le> e2 + 34"
      "touches (fmem s2) (fmem s3) heap_area" "\<exists>h. s3 = s2\<lparr>fheap := h\<rparr>"
  proof -
    have "a_flags ?F AND VFS_DIR = 0" by (simp add: empty_node_def)
    moreover have "off_heap 0x101000 (unat (3 :: u32))" "0x101000 + unat (3 :: u32) \<le> 4294967296"
      "unat (0 :: u32) + unat (3 :: u32) \<le> 0x7FFFFFFF" by simp_all
    moreover have "e2 + 31 + unat (0 :: u32) + unat (3 :: u32) < 0x800000" using 1(1) 2(2) by simp
    moreover have "e2 + 31 + unat (0 :: u32) + unat (3 :: u32) = e2 + 34" by simp
    ultimately show thesis using ramfs_write_splices [OF ok2 Fc _ src, of 0] that by metis
  qed
  have q: "q = [116, 109, 112]" using spliced_inside [OF 3(1)] by (simp add: empty_node_def)
  let ?G = "?F\<lparr>a_buf := d, a_cap := k, a_bytes := [116, 109, 112]\<rparr>"
  have ok3: "fs_ok s3 bs3 e3 [c \<mapsto> ?G, r \<mapsto> ?R]" using 3(2) 2(1) q by (simp add: fun_upd_twist)
  let ?s = "set_fd 0 (\<lambda>_. \<lparr>fd_used = True, fd_node = ad c, fd_offset = 0\<rparr>) s3"
  have t3: "touches (fmem fs_start) (fmem s3) heap_area" using t2 3(4) by (rule touches_trans)
  have st: "vfs_root s3 = ad r" "part_at s3 = ad 0x102000" "mount_count s3 = 0"
      "fd_table s3 = replicate 32 \<lparr>fd_used = False, fd_node = 0, fd_offset = 0\<rparr>"
    using 3(5) 2(4) 1(3) by (auto simp: ramfs_init_ops_def fd_init_def vfs_init_def fs_start_def)
  show thesis
  proof (rule that [of ?s bs3 e3 c ?G r])
    show "fs_ok ?s bs3 e3 [c \<mapsto> ?G, r \<mapsto> ?R]" by (rule fs_set_fd [OF ok3]) auto
    show "cstr (fmem ?s) (ad 0x101000) [116, 109, 112]" using kept [OF t3 fs_start_strings(1)] by simp
    show "cstr (fmem ?s) (ad 0x101010) [47, 116, 109, 112]" using kept [OF t3 fs_start_strings(2)] by simp
  qed (use 1(1) 2(1,2) 3(3) st in \<open>auto simp: empty_node_def\<close>)
qed

lemma path_parts_tmp: "path_parts [47, 116, 109, 112] = [[116, 109, 112]]"
  by (simp add: parts.simps [of 47 "47 # _"] parts.simps [of 47 "[]"] Let_def)

lemma apart_of_part: "y + 5 \<le> 0x102000 \<Longrightarrow> apart 64 (ad 0x102000) (length [47, 116, 109, 112 :: u8] + 1) (ad y)"
  unfolding ad_def by (rule apart_of_nat) auto

lemma path_resolve_walks_witness:
  "\<exists>s r c s'. path_resolve (ad r) (ad 0x101010) s = Some (Ret (ad c, s')) \<and> cstr (fmem s) (ad 0x101010) (bytes_of ''/tmp'')
     \<and> touches (fmem s) (fmem s') {0x102000..<0x102040}"
proof -
  obtain s bs e r c f where f: "fs_ok s bs e [c \<mapsto> f, r \<mapsto> (empty_node [47] VFS_DIR)\<lparr>a_kids := [c]\<rparr>]" "a_name f = [116, 109, 112]"
      "r \<noteq> c" "part_at s = ad 0x102000" "mount_count s = 0" "cstr (fmem s) (ad 0x101010) [47, 116, 109, 112]" by (rule one_file)
  have mt: "mount_target s z = z" for z by (simp add: mount_target_def f(5))
  have "walk [c \<mapsto> f, r \<mapsto> (empty_node [47] VFS_DIR)\<lparr>a_kids := [c]\<rparr>] (mount_target s) r [[116, 109, 112]] = Some c"
    using f(2,3) by (simp add: mt named_def empty_node_def)
  moreover from path_resolve_walks [OF f(1) _ f(6) _ f(4), of r] path_parts_tmp apart_of_part [of "0x101010"] f(4)
  obtain s' where "path_resolve (ad r) (ad 0x101010) s = Some (Ret (found (walk [c \<mapsto> f, r \<mapsto> (empty_node [47] VFS_DIR)\<lparr>a_kids := [c]\<rparr>]
     (mount_target s) r [[116, 109, 112]]), s'))" "touches (fmem s) (fmem s') {0x102000..<0x102040}" by auto
  ultimately show ?thesis using f(6)
    by (intro exI [of _ s] exI [of _ r] exI [of _ c] exI [of _ s']) (simp add: found_def)
qed

lemma ramfs_create_correct_witness:
  "\<exists>s r s' bs' e' N c. ramfs_create (ad r) (ad 0x101000) VFS_FILE s = Some (Ret (0, s')) \<and> fs_ok s' bs' e' N
     \<and> N c = Some (empty_node [116, 109, 112] VFS_FILE)"
proof -
  obtain s bs e r c f where f: "fs_ok s bs e [c \<mapsto> f, r \<mapsto> (empty_node [47] VFS_DIR)\<lparr>a_kids := [c]\<rparr>]"
      "cstr (fmem s) (ad 0x101000) [116, 109, 112]" "e \<le> 0x401000" by (rule one_file)
  let ?N = "[c \<mapsto> f, r \<mapsto> (empty_node [47] VFS_DIR)\<lparr>a_kids := [c]\<rparr>]"
  let ?R = "(empty_node [47] VFS_DIR)\<lparr>a_kids := [c]\<rparr>"
  have r: "?N r = Some ?R" by simp
  have l: "length (a_kids ?R) < 32" "length [116, 109, 112 :: u8] < 64" by simp_all
  have o: "off_heap 0x101000 64" "0x101000 + 64 \<le> (4294967296 :: nat)" "e + 256 < 0x800000"
    using f(3) by simp_all
  obtain c' s' bs' e' where w: "ramfs_create (ad r) (ad 0x101000) VFS_FILE s = Some (Ret (0, s'))" "c' \<notin> dom ?N"
      "fs_ok s' bs' e' (?N(c' \<mapsto> empty_node [116, 109, 112] VFS_FILE, r \<mapsto> ?R\<lparr>a_kids := a_kids ?R @ [c']\<rparr>))"
    using ramfs_create_correct [OF f(1) r f(2) l(2) o, of VFS_FILE] l(1) by (simp only: if_True) blast
  from w(2) have "(?N(c' \<mapsto> empty_node [116, 109, 112] VFS_FILE, r \<mapsto> ?R\<lparr>a_kids := a_kids ?R @ [c']\<rparr>)) c' =
      Some (empty_node [116, 109, 112] VFS_FILE)" by auto
  with w(1,3) show ?thesis by blast
qed

lemma ramfs_write_correct_witness:
  "\<exists>s c s' bs' e' N f'. ramfs_write (ad c) 1 2 (ad 0x101000) s = Some (Ret (2, s')) \<and> fs_ok s' bs' e' N
     \<and> N c = Some f' \<and> a_bytes f' = [116, 116, 109]"
proof -
  obtain s bs e r c f where f: "fs_ok s bs e [c \<mapsto> f, r \<mapsto> (empty_node [47] VFS_DIR)\<lparr>a_kids := [c]\<rparr>]" "a_flags f = VFS_FILE"
      "a_bytes f = [116, 109, 112]" "r \<noteq> c" "e \<le> 0x401000" "cstr (fmem s) (ad 0x101000) [116, 109, 112]" by (rule one_file)
  have u: "unat (2 :: u32) = 2" "unat (1 :: u32) = 1" by simp_all
  have src: "read_bytes (fmem s) (ad 0x101000) (unat (2 :: u32)) = [116, 109]"
    unfolding u using f(6) by (simp add: numeral_2_eq_2)
  from ramfs_write_correct [OF f(1) _ _ src, of c f 1] f u obtain s' bs' e' d k q where
    w: "ramfs_write (ad c) 1 2 (ad 0x101000) s = Some (Ret (2, s'))" "spliced [116, 109, 112] 1 [116, 109] q"
      "fs_ok s' bs' e' ([c \<mapsto> f, r \<mapsto> (empty_node [47] VFS_DIR)\<lparr>a_kids := [c]\<rparr>](c \<mapsto> f\<lparr>a_buf := d, a_cap := k, a_bytes := q\<rparr>))"
    by auto
  have "q = [116, 116, 109]" using spliced_inside [OF w(2)] by simp
  with w(1,3) show ?thesis by fastforce
qed

lemma ramfs_read_correct_witness:
  "\<exists>s c s'. ramfs_read (ad c) 1 9 (ad 0x104000) s = (2, s') \<and> read_bytes (fmem s') (ad 0x104000) 2 = [109, 112]"
proof -
  obtain s bs e r c f where f: "fs_ok s bs e [c \<mapsto> f, r \<mapsto> (empty_node [47] VFS_DIR)\<lparr>a_kids := [c]\<rparr>]"
      "a_bytes f = [116, 109, 112]" "r \<noteq> c" by (rule one_file)
  have u: "unat (9 :: u32) = 9" "unat (1 :: u32) = 1" by simp_all
  from ramfs_read_correct [OF f(1), of c f 1 9 "0x104000"] f u obtain s' where
    "ramfs_read (ad c) 1 9 (ad 0x104000) s = (2, s')" "read_bytes (fmem s') (ad 0x104000) 2 = [109, 112]"
    by (auto simp: numeral_2_eq_2)
  then show ?thesis by blast
qed

lemma ramfs_read_wraps_witness:
  "\<exists>s c d. ramfs_read (ad c) 1 0xFFFFFFFF (ad 0x104000) s = (-1, set_fmem (memcpy (fmem s) (ad 0x104000) (ad (d + 1)) 0xFFFFFFFF) s)"
proof -
  obtain s bs e r c f where f: "fs_ok s bs e [c \<mapsto> f, r \<mapsto> (empty_node [47] VFS_DIR)\<lparr>a_kids := [c]\<rparr>]"
      "a_bytes f = [116, 109, 112]" "r \<noteq> c" by (rule one_file)
  have u: "unat (0xFFFFFFFF :: u32) = 0xFFFFFFFF" "unat (1 :: u32) = 1" "sint (0xFFFFFFFF :: u32) = -1" by simp_all
  from ramfs_read_wraps [OF f(1), of c f 1 "0xFFFFFFFF" "ad 0x104000"] f u show ?thesis by auto
qed

lemma file_roundtrip_witness:
  "\<exists>s s1 s2 s3. sys_write 0 (ad 0x101000) 3 s = Some (Ret (3, s1)) \<and> sys_seek 0 0 s1 = (0, s2)
     \<and> sys_read 0 (ad 0x104000) 3 s2 = Some (Ret (3, s3)) \<and> read_bytes (fmem s3) (ad 0x104000) 3 = [116, 109, 112]"
proof -
  obtain s bs e r c f where f: "fs_ok s bs e [c \<mapsto> f, r \<mapsto> (empty_node [47] VFS_DIR)\<lparr>a_kids := [c]\<rparr>]" "a_flags f = VFS_FILE"
      "r \<noteq> c" "e \<le> 0x401000" "cstr (fmem s) (ad 0x101000) [116, 109, 112]"
      "fd_table s = (replicate 32 \<lparr>fd_used = False, fd_node = 0, fd_offset = 0\<rparr>)[0 := \<lparr>fd_used = True, fd_node = ad c, fd_offset = 0\<rparr>]"
    by (rule one_file)
  have u: "unat (3 :: u32) = 3" by simp
  have src: "read_bytes (fmem s) (ad 0x101000) (unat (3 :: u32)) = [116, 109, 112]"
    unfolding u using f(5) by (simp add: numeral_3_eq_3)
  have v: "fd_valid 0 s" by (simp add: fd_valid_def f(6))
  from file_roundtrip [OF f(1) v _ _ _ _ src, of "\<lparr>fd_used = True, fd_node = ad c, fd_offset = 0\<rparr>" c f "0x104000"] f u
  show ?thesis by auto
qed

lemma bad_descriptor_refused_witness:
  "sys_read 0 0x104000 3 fs_start = Some (Ret (-1, fs_start)) \<and> sys_write (-1) 0x104000 3 fs_start = Some (Ret (-1, fs_start))"
  using bad_descriptor_refused [of 0 fs_start] bad_descriptor_refused [of "-1" fs_start]
  by (simp add: fd_valid_def fs_start_def)

lemma vfs_mount_redirects_witness:
  "\<exists>s r c s'. vfs_mount (ad 0x101010) (ad r) s = Some (Ret s') \<and> mount_target s' c = r \<and> mount_target s c = c \<and> r \<noteq> c"
proof -
  obtain s bs e r c f where f: "fs_ok s bs e [c \<mapsto> f, r \<mapsto> (empty_node [47] VFS_DIR)\<lparr>a_kids := [c]\<rparr>]" "a_name f = [116, 109, 112]"
      "r \<noteq> c" "vfs_root s = ad r" "part_at s = ad 0x102000" "mount_count s = 0" "cstr (fmem s) (ad 0x101010) [47, 116, 109, 112]"
    by (rule one_file)
  have mt: "mount_target s z = z" for z by (simp add: mount_target_def f(6))
  have wk: "walk [c \<mapsto> f, r \<mapsto> (empty_node [47] VFS_DIR)\<lparr>a_kids := [c]\<rparr>] (mount_target s) r (path_parts [47, 116, 109, 112]) = Some c"
    unfolding path_parts_tmp using f(2,3) by (simp add: mt named_def empty_node_def)
  have ap: "apart 64 (part_at s) (length [47, 116, 109, 112 :: u8] + 1) (ad 0x101010)"
    unfolding f(5) by (rule apart_of_part) simp
  have sh: "\<forall>c\<in>set (path_parts [47, 116, 109, 112]). length c < 64" unfolding path_parts_tmp by simp
  let ?N = "[c \<mapsto> f, r \<mapsto> (empty_node [47] VFS_DIR)\<lparr>a_kids := [c]\<rparr>]"
  have d: "r \<in> dom ?N" "c \<in> dom ?N" by auto
  obtain s' where s': "vfs_mount (ad 0x101010) (ad r) s = Some (Ret s')"
      "\<forall>x\<in>dom ?N. mount_target s' x = (if x = c then r else mount_target s x)"
    using vfs_mount_redirects [OF f(1,4) d(1) f(7) sh f(5) _ _ ap wk d(2,1)] f(6) by auto
  from s'(2) d(2) have "mount_target s' c = r" by simp
  with s'(1) mt f(3) show ?thesis
    by (intro exI [of _ s] exI [of _ r] exI [of _ c] exI [of _ s']) simp
qed

lemma boot_mounts_tmp_witness:
  "\<exists>s'. boot_filesystem (ad 0x101000) (ad 0x101010) fs_start = Some (Ret s') \<and> vfs_root s' \<noteq> 0"
proof -
  from boot_mounts_tmp [OF fs_start_reset, of "0x101000" "0x101010" "0x102000"] fs_start_strings
  obtain s' bs e r c t where "boot_filesystem (ad 0x101000) (ad 0x101010) fs_start = Some (Ret s')"
    "fs_ok s' bs e [r \<mapsto> (empty_node (bytes_of ''/'') VFS_DIR)\<lparr>a_kids := [c]\<rparr>,
        c \<mapsto> empty_node (bytes_of ''tmp'') VFS_DIR, t \<mapsto> empty_node (bytes_of ''/'') VFS_DIR]" "vfs_root s' = ad r" "distinct [r, c, t]"
    by (fastforce simp: fs_start_def)
  with fs_node_nonzero(1) [OF this(2), of r] show ?thesis by auto
qed

lemma sys_open_lowest_witness:
  "\<exists>s s' c. sys_open (ad 0x101010) s = Some (Ret (1, s')) \<and> fd_node (fd_table s' ! 1) = ad c"
proof -
  obtain s bs e r c f where f: "fs_ok s bs e [c \<mapsto> f, r \<mapsto> (empty_node [47] VFS_DIR)\<lparr>a_kids := [c]\<rparr>]" "a_name f = [116, 109, 112]"
      "r \<noteq> c" "vfs_root s = ad r" "part_at s = ad 0x102000" "mount_count s = 0" "cstr (fmem s) (ad 0x101010) [47, 116, 109, 112]"
      "fd_table s = (replicate 32 \<lparr>fd_used = False, fd_node = 0, fd_offset = 0\<rparr>)[0 := \<lparr>fd_used = True, fd_node = ad c, fd_offset = 0\<rparr>]"
    by (rule one_file)
  have mt: "mount_target s z = z" for z by (simp add: mount_target_def f(6))
  have wk: "walk [c \<mapsto> f, r \<mapsto> (empty_node [47] VFS_DIR)\<lparr>a_kids := [c]\<rparr>] (mount_target s) r (path_parts [47, 116, 109, 112]) = Some c"
    unfolding path_parts_tmp using f(2,3) by (simp add: mt named_def empty_node_def)
  have lf: "lowest_free s = Some 1" unfolding lowest_free_def find_upt_Some f(8) by (simp add: less_Suc_eq)
  have ap: "apart 64 (part_at s) (length [47, 116, 109, 112 :: u8] + 1) (ad 0x101010)"
    unfolding f(5) by (rule apart_of_part) simp
  have sh: "\<forall>c\<in>set (path_parts [47, 116, 109, 112]). length c < 64" unfolding path_parts_tmp by simp
  from sys_open_lowest [OF f(1,4) _ f(7) sh f(5) _ _ ap] wk lf obtain s' where
    "sys_open (ad 0x101010) s = Some (Ret (1, s'))"
    "fd_table s' = (fd_table s)[1 := \<lparr>fd_used = True, fd_node = ad c, fd_offset = 0\<rparr>]" by auto
  then show ?thesis by (intro exI [of _ s] exI [of _ s'] exI [of _ c]) (simp add: f(8))
qed

lemma long_component_overflows_witness:
  "\<exists>m p j. copy_part 0x102000 (write_bytes (\<lambda>_. 0) 0x101000 (replicate 65 97 @ [0])) 0x101000 0 = Some (m, p, j) \<and> m 0x102040 = 97"
proof -
  let ?t = "replicate 65 (97 :: u8)"
  define s where "s = set_fmem (write_bytes (\<lambda>_. 0) 0x101000 (?t @ [0])) fs_start\<lparr>part_at := 0x102000\<rparr>"
  have t: "cstr (fmem s) 0x101000 ?t" unfolding s_def by (simp add: fmem_def set_fmem_def) (intro cstr_write_bytes, auto)
  have tw: "?t = takeWhile (\<lambda>c. c \<noteq> 47) ?t" by (simp add: takeWhile_replicate)
  have ap: "apart (length ?t + 1) (part_at s) (length ?t + 1) 0x101000"
    using apart_of_nat [of "0x102000" "length ?t + 1" "0x101000" "length ?t + 1"] by (simp add: s_def)
  from long_component_overflows [OF t tw _ ap] show ?thesis by (simp add: s_def fmem_def set_fmem_def)
qed

end
