(* ===== verification/Framebuffer.thy ===== *)
theory Framebuffer imports Klog Pmm "HOL-Library.Signed_Division" "HOL-Library.Monad_Syntax" begin

text \<open>
  The linear framebuffer, \<^verbatim>\<open>video/framebuffer.c\<close> with the font of \<^verbatim>\<open>video/font8x8.h\<close>.  The
  pixels are bytes of the memory, at addresses that the code computes and that wrap; a
  rectangle is clipped to the screen first, a character is not.  The C \<open>int\<close>s of the line
  drawing are integers reduced to 32 bits.
\<close>

record framebuffer =
  fb_mem :: mem
  fb_addr :: u32
  fb_pitch :: u32
  fb_width :: u32
  fb_height :: u32
  fb_bpp :: u8
  fb_type :: u8
  red_pos :: u8
  red_mask :: u8
  green_pos :: u8
  green_mask :: u8
  blue_pos :: u8
  blue_mask :: u8
  backbuffer :: u32
  backbuffer_pitch :: u32
  fb_available :: bool

section \<open>Where the drawing goes and how a colour is stored\<close>

definition fb_target_base :: "framebuffer \<Rightarrow> u32" where
  "fb_target_base fb = (if backbuffer fb \<noteq> 0 then backbuffer fb else fb_addr fb)"

definition fb_target_pitch :: "framebuffer \<Rightarrow> u32" where
  "fb_target_pitch fb = (if backbuffer fb \<noteq> 0 then backbuffer_pitch fb else fb_pitch fb)"

text \<open>
  A channel keeps its upper bits, as many as the mask size says.  For a size of more than eight bits the shift of the
  code is undefined; here the channel is then 0.
\<close>

definition pack_channel :: "u8 \<Rightarrow> u8 \<Rightarrow> u8 \<Rightarrow> u32" where
  "pack_channel c bits pos =
     (if bits \<noteq> 0 then push_bit (unat pos) (ucast (drop_bit (unat (8 - bits)) c)) else 0)"

definition fb_pack_color :: "framebuffer \<Rightarrow> u32 \<Rightarrow> u32" where
  "fb_pack_color fb argb =
     (let r = ucast (drop_bit 16 argb AND 0xFF) :: u8;
          g = ucast (drop_bit 8 argb AND 0xFF) :: u8;
          b = ucast (argb AND 0xFF) :: u8
      in pack_channel r (red_mask fb) (red_pos fb) OR pack_channel g (green_mask fb) (green_pos fb)
           OR pack_channel b (blue_mask fb) (blue_pos fb))"

definition framebuffer_set_backbuffer :: "u32 \<Rightarrow> u32 \<Rightarrow> framebuffer \<Rightarrow> framebuffer" where
  "framebuffer_set_backbuffer buf pitch fb = fb\<lparr>backbuffer := buf, backbuffer_pitch := pitch\<rparr>"

definition framebuffer_present :: "u32 \<Rightarrow> u32 \<Rightarrow> framebuffer \<Rightarrow> framebuffer" where
  "framebuffer_present src src_pitch fb =
     (if \<not> fb_available fb \<or> src = 0 then fb
      else let bpp_bytes = ucast (fb_bpp fb) div 8 :: u32
      in if bpp_bytes = 0 then fb
      else let copy_bytes = fb_width fb * bpp_bytes
      in fb\<lparr>fb_mem := for_to (fb_height fb) (\<lambda>y m.
              memcpy m (fb_addr fb + y * fb_pitch fb) (src + y * src_pitch) copy_bytes) (fb_mem fb)\<rparr>)"

definition framebuffer_flush :: "framebuffer \<Rightarrow> framebuffer" where
  "framebuffer_flush fb =
     (if \<not> fb_available fb \<or> backbuffer fb = 0 then fb
      else let bpp_bytes = ucast (fb_bpp fb) div 8 :: u32
      in if bpp_bytes = 0 then fb
      else let src = backbuffer fb; dst = fb_addr fb; src_pitch = backbuffer_pitch fb; dst_pitch = fb_pitch fb;
               copy_bytes = fb_width fb * bpp_bytes
      in fb\<lparr>fb_mem := for_to (fb_height fb) (\<lambda>y m.
              memcpy m (dst + y * dst_pitch) (src + y * src_pitch) copy_bytes) (fb_mem fb)\<rparr>)"

definition fb_write_pixel :: "u32 \<Rightarrow> u32 \<Rightarrow> u8 \<Rightarrow> mem \<Rightarrow> mem" where
  "fb_write_pixel dst packed bytes_per_pixel m =
     (if bytes_per_pixel = 4 then store32 m dst packed
      else if bytes_per_pixel = 3 then
        m(dst := ucast (packed AND 0xFF), dst + 1 := ucast (drop_bit 8 packed AND 0xFF),
          dst + 2 := ucast (drop_bit 16 packed AND 0xFF))
      else if bytes_per_pixel = 2 then m(dst := ucast packed, dst + 1 := ucast (drop_bit 8 packed))
      else m)"

section \<open>Finding the framebuffer\<close>

definition mbi_framebuffer_addr :: "mem \<Rightarrow> u32 \<Rightarrow> u64" where
  "mbi_framebuffer_addr m a = load64 m (a + 88)"

definition mbi_framebuffer_pitch :: "mem \<Rightarrow> u32 \<Rightarrow> u32" where
  "mbi_framebuffer_pitch m a = load32 m (a + 96)"

definition mbi_framebuffer_width :: "mem \<Rightarrow> u32 \<Rightarrow> u32" where
  "mbi_framebuffer_width m a = load32 m (a + 100)"

definition mbi_framebuffer_height :: "mem \<Rightarrow> u32 \<Rightarrow> u32" where
  "mbi_framebuffer_height m a = load32 m (a + 104)"

definition mbi_framebuffer_bpp :: "mem \<Rightarrow> u32 \<Rightarrow> u8" where
  "mbi_framebuffer_bpp m a = m (a + 108)"

definition mbi_framebuffer_type :: "mem \<Rightarrow> u32 \<Rightarrow> u8" where
  "mbi_framebuffer_type m a = m (a + 109)"

definition mbi_color_info :: "mem \<Rightarrow> u32 \<Rightarrow> u32 \<Rightarrow> u8" where
  "mbi_color_info m a i = m (a + 110 + i)"

definition framebuffer_parse :: "u32 \<Rightarrow> framebuffer \<Rightarrow> bool \<times> framebuffer" where
  "framebuffer_parse mbi fb =
     (let m = fb_mem fb
      in if mbi_flags m mbi AND push_bit 12 1 = 0 then (False, fb)
      else let fb = fb\<lparr>fb_addr := ucast (mbi_framebuffer_addr m mbi), fb_pitch := mbi_framebuffer_pitch m mbi,
                       fb_width := mbi_framebuffer_width m mbi, fb_height := mbi_framebuffer_height m mbi,
                       fb_bpp := mbi_framebuffer_bpp m mbi, fb_type := mbi_framebuffer_type m mbi\<rparr>
      in if fb_type fb \<noteq> 1 then (False, fb)
      else (True, fb\<lparr>red_pos := mbi_color_info m mbi 0, red_mask := mbi_color_info m mbi 1,
                     green_pos := mbi_color_info m mbi 2, green_mask := mbi_color_info m mbi 3,
                     blue_pos := mbi_color_info m mbi 4, blue_mask := mbi_color_info m mbi 5,
                     fb_available := True\<rparr>))"

definition framebuffer_init :: "u32 \<Rightarrow> framebuffer \<Rightarrow> klog \<Rightarrow> (framebuffer \<times> klog) option" where
  "framebuffer_init multiboot_addr fb l =
     (let (found, fb) = framebuffer_parse multiboot_addr fb
      in if found
         then do {
           let l = log_write (bytes_of ''fb: available '') l;
           l \<leftarrow> log_write_dec (fb_width fb) l;
           let l = log_write (bytes_of ''x'') l;
           l \<leftarrow> log_write_dec (fb_height fb) l;
           let l = log_write (bytes_of ''x'') l;
           l \<leftarrow> log_write_dec (ucast (fb_bpp fb)) l;
           let l = log_write (bytes_of '' pitch='') l;
           l \<leftarrow> log_write_dec (fb_pitch fb) l;
           Some (fb, log_write (bytes_of ''\<newline>'') l)
         }
         else Some (fb, log_write (bytes_of ''fb: unavailable\<newline>'') l))"

section \<open>Filling\<close>

definition framebuffer_clear :: "u32 \<Rightarrow> framebuffer \<Rightarrow> framebuffer" where
  "framebuffer_clear argb fb =
     (if \<not> fb_available fb then fb
      else let packed = fb_pack_color fb argb;
               base = fb_target_base fb;
               pitch = fb_target_pitch fb;
               bpp_bytes = fb_bpp fb div 8
           in fb\<lparr>fb_mem := for_to (fb_height fb) (\<lambda>y.
                let row = base + y * pitch
                in for_to (fb_width fb) (\<lambda>x. fb_write_pixel (row + x * ucast bpp_bytes) packed bpp_bytes))
                (fb_mem fb)\<rparr>)"

definition framebuffer_putpixel :: "u32 \<Rightarrow> u32 \<Rightarrow> u32 \<Rightarrow> framebuffer \<Rightarrow> framebuffer" where
  "framebuffer_putpixel x y argb fb =
     (if \<not> fb_available fb then fb
      else if x \<ge> fb_width fb \<or> y \<ge> fb_height fb then fb
      else let bpp_bytes = fb_bpp fb div 8
      in if bpp_bytes = 0 then fb
      else let packed = fb_pack_color fb argb;
               dst = fb_target_base fb + y * fb_target_pitch fb + x * ucast bpp_bytes
           in fb\<lparr>fb_mem := fb_write_pixel dst packed bpp_bytes (fb_mem fb)\<rparr>)"

definition framebuffer_fill_rect :: "u32 \<Rightarrow> u32 \<Rightarrow> u32 \<Rightarrow> u32 \<Rightarrow> u32 \<Rightarrow> framebuffer \<Rightarrow> framebuffer" where
  "framebuffer_fill_rect x y w h argb fb =
     (if \<not> fb_available fb \<or> w = 0 \<or> h = 0 then fb
      else if x \<ge> fb_width fb \<or> y \<ge> fb_height fb then fb
      else let max_w = fb_width fb - x;
               max_h = fb_height fb - y;
               w = (if w > max_w then max_w else w);
               h = (if h > max_h then max_h else h);
               bpp_bytes = fb_bpp fb div 8
      in if bpp_bytes = 0 then fb
      else let packed = fb_pack_color fb argb;
               base = fb_target_base fb + y * fb_target_pitch fb + x * ucast bpp_bytes;
               pitch = fb_target_pitch fb
           in fb\<lparr>fb_mem := for_to h (\<lambda>yy.
                let row = base + yy * pitch
                in for_to w (\<lambda>xx. fb_write_pixel (row + xx * ucast bpp_bytes) packed bpp_bytes))
                (fb_mem fb)\<rparr>)"

definition framebuffer_test_pattern :: "framebuffer \<Rightarrow> framebuffer" where
  "framebuffer_test_pattern fb =
     (if \<not> fb_available fb then fb
      else let colors = [0x00FF0000, 0x0000FF00, 0x000000FF, 0x00FFFF00, 0x0000FFFF, 0x00FF00FF, 0x00FFFFFF, 0x00000000];
               bars = of_nat (length colors);
               bar_w = fb_width fb div bars
           in for_to bars (\<lambda>i fb.
                let x = i * bar_w;
                    w = (if i = bars - 1 then fb_width fb - x else bar_w)
                in framebuffer_fill_rect x 0 w (fb_height fb) (colors ! unat i) fb) fb)"

text \<open>One channel of row \<open>y\<close> of the gradient; the division rounds towards 0.\<close>

definition gradient_channel :: "u8 \<Rightarrow> u8 \<Rightarrow> u32 \<Rightarrow> u32 \<Rightarrow> u8" where
  "gradient_channel a b y height =
     a + of_int (int32 ((uint b - uint a) * sint y) sdiv sint (height - 1))"

definition rgb :: "u8 \<Rightarrow> u8 \<Rightarrow> u8 \<Rightarrow> u32" where
  "rgb r g b = push_bit 16 (ucast r) OR push_bit 8 (ucast g) OR ucast b"

definition framebuffer_fill_gradient_vert :: "u32 \<Rightarrow> u32 \<Rightarrow> framebuffer \<Rightarrow> framebuffer" where
  "framebuffer_fill_gradient_vert top_argb bottom_argb fb =
     (if \<not> fb_available fb then fb
      else let top_r = ucast (drop_bit 16 top_argb AND 0xFF); top_g = ucast (drop_bit 8 top_argb AND 0xFF);
               top_b = ucast (top_argb AND 0xFF);
               bot_r = ucast (drop_bit 16 bottom_argb AND 0xFF); bot_g = ucast (drop_bit 8 bottom_argb AND 0xFF);
               bot_b = ucast (bottom_argb AND 0xFF);
               height = (if fb_height fb \<noteq> 0 then fb_height fb else 1);
               bpp_bytes = fb_bpp fb div 8
      in if bpp_bytes = 0 then fb
      else if height = 1
        then let packed = fb_pack_color fb (rgb top_r top_g top_b); row = fb_addr fb
             in fb\<lparr>fb_mem := for_to (fb_width fb) (\<lambda>x. fb_write_pixel (row + x * ucast bpp_bytes) packed bpp_bytes)
                  (fb_mem fb)\<rparr>
      else fb\<lparr>fb_mem := for_to (fb_height fb) (\<lambda>y.
             let r = gradient_channel top_r bot_r y height;
                 g = gradient_channel top_g bot_g y height;
                 b = gradient_channel top_b bot_b y height;
                 packed = fb_pack_color fb (rgb r g b);
                 row = fb_target_base fb + y * fb_target_pitch fb
             in for_to (fb_width fb) (\<lambda>x. fb_write_pixel (row + x * ucast bpp_bytes) packed bpp_bytes))
             (fb_mem fb)\<rparr>)"

section \<open>Characters\<close>

definition font8x8_basic :: "u8 list list" where
  "font8x8_basic = [
     [0x00, 0x00, 0x00, 0x00, 0x00, 0x00, 0x00, 0x00],
     [0x18, 0x3C, 0x3C, 0x18, 0x18, 0x00, 0x18, 0x00],
     [0x36, 0x36, 0x12, 0x00, 0x00, 0x00, 0x00, 0x00],
     [0x36, 0x36, 0x7F, 0x36, 0x7F, 0x36, 0x36, 0x00],
     [0x0C, 0x3E, 0x03, 0x1E, 0x30, 0x1F, 0x0C, 0x00],
     [0x00, 0x63, 0x33, 0x18, 0x0C, 0x66, 0x63, 0x00],
     [0x1C, 0x36, 0x1C, 0x6E, 0x3B, 0x33, 0x6E, 0x00],
     [0x06, 0x06, 0x03, 0x00, 0x00, 0x00, 0x00, 0x00],
     [0x18, 0x0C, 0x06, 0x06, 0x06, 0x0C, 0x18, 0x00],
     [0x06, 0x0C, 0x18, 0x18, 0x18, 0x0C, 0x06, 0x00],
     [0x00, 0x66, 0x3C, 0xFF, 0x3C, 0x66, 0x00, 0x00],
     [0x00, 0x0C, 0x0C, 0x3F, 0x0C, 0x0C, 0x00, 0x00],
     [0x00, 0x00, 0x00, 0x00, 0x0C, 0x0C, 0x06, 0x00],
     [0x00, 0x00, 0x00, 0x3F, 0x00, 0x00, 0x00, 0x00],
     [0x00, 0x00, 0x00, 0x00, 0x00, 0x0C, 0x0C, 0x00],
     [0x60, 0x30, 0x18, 0x0C, 0x06, 0x03, 0x01, 0x00],
     [0x3E, 0x63, 0x73, 0x7B, 0x6F, 0x67, 0x3E, 0x00],
     [0x0C, 0x0E, 0x0F, 0x0C, 0x0C, 0x0C, 0x3F, 0x00],
     [0x1E, 0x33, 0x30, 0x1C, 0x06, 0x33, 0x3F, 0x00],
     [0x1E, 0x33, 0x30, 0x1C, 0x30, 0x33, 0x1E, 0x00],
     [0x38, 0x3C, 0x36, 0x33, 0x7F, 0x30, 0x78, 0x00],
     [0x3F, 0x03, 0x1F, 0x30, 0x30, 0x33, 0x1E, 0x00],
     [0x1C, 0x06, 0x03, 0x1F, 0x33, 0x33, 0x1E, 0x00],
     [0x3F, 0x33, 0x30, 0x18, 0x0C, 0x0C, 0x0C, 0x00],
     [0x1E, 0x33, 0x33, 0x1E, 0x33, 0x33, 0x1E, 0x00],
     [0x1E, 0x33, 0x33, 0x3E, 0x30, 0x18, 0x0E, 0x00],
     [0x00, 0x0C, 0x0C, 0x00, 0x00, 0x0C, 0x0C, 0x00],
     [0x00, 0x0C, 0x0C, 0x00, 0x0C, 0x0C, 0x06, 0x00],
     [0x18, 0x0C, 0x06, 0x03, 0x06, 0x0C, 0x18, 0x00],
     [0x00, 0x00, 0x3F, 0x00, 0x3F, 0x00, 0x00, 0x00],
     [0x06, 0x0C, 0x18, 0x30, 0x18, 0x0C, 0x06, 0x00],
     [0x1E, 0x33, 0x30, 0x18, 0x0C, 0x00, 0x0C, 0x00],
     [0x3E, 0x63, 0x7B, 0x7B, 0x7B, 0x03, 0x1E, 0x00],
     [0x0C, 0x1E, 0x33, 0x33, 0x3F, 0x33, 0x33, 0x00],
     [0x3F, 0x66, 0x66, 0x3E, 0x66, 0x66, 0x3F, 0x00],
     [0x3C, 0x66, 0x03, 0x03, 0x03, 0x66, 0x3C, 0x00],
     [0x1F, 0x36, 0x66, 0x66, 0x66, 0x36, 0x1F, 0x00],
     [0x7F, 0x46, 0x16, 0x1E, 0x16, 0x46, 0x7F, 0x00],
     [0x7F, 0x46, 0x16, 0x1E, 0x16, 0x06, 0x0F, 0x00],
     [0x3C, 0x66, 0x03, 0x03, 0x73, 0x66, 0x7C, 0x00],
     [0x33, 0x33, 0x33, 0x3F, 0x33, 0x33, 0x33, 0x00],
     [0x1E, 0x0C, 0x0C, 0x0C, 0x0C, 0x0C, 0x1E, 0x00],
     [0x78, 0x30, 0x30, 0x30, 0x33, 0x33, 0x1E, 0x00],
     [0x67, 0x66, 0x36, 0x1E, 0x36, 0x66, 0x67, 0x00],
     [0x0F, 0x06, 0x06, 0x06, 0x46, 0x66, 0x7F, 0x00],
     [0x63, 0x77, 0x7F, 0x7F, 0x6B, 0x63, 0x63, 0x00],
     [0x63, 0x67, 0x6F, 0x7B, 0x73, 0x63, 0x63, 0x00],
     [0x1C, 0x36, 0x63, 0x63, 0x63, 0x36, 0x1C, 0x00],
     [0x3F, 0x66, 0x66, 0x3E, 0x06, 0x06, 0x0F, 0x00],
     [0x1E, 0x33, 0x33, 0x33, 0x3B, 0x1E, 0x38, 0x00],
     [0x3F, 0x66, 0x66, 0x3E, 0x36, 0x66, 0x67, 0x00],
     [0x1E, 0x33, 0x07, 0x0E, 0x38, 0x33, 0x1E, 0x00],
     [0x3F, 0x2D, 0x0C, 0x0C, 0x0C, 0x0C, 0x1E, 0x00],
     [0x33, 0x33, 0x33, 0x33, 0x33, 0x33, 0x3F, 0x00],
     [0x33, 0x33, 0x33, 0x33, 0x33, 0x1E, 0x0C, 0x00],
     [0x63, 0x63, 0x63, 0x6B, 0x7F, 0x77, 0x63, 0x00],
     [0x63, 0x63, 0x36, 0x1C, 0x1C, 0x36, 0x63, 0x00],
     [0x33, 0x33, 0x33, 0x1E, 0x0C, 0x0C, 0x1E, 0x00],
     [0x7F, 0x63, 0x31, 0x18, 0x4C, 0x66, 0x7F, 0x00],
     [0x1E, 0x06, 0x06, 0x06, 0x06, 0x06, 0x1E, 0x00],
     [0x03, 0x06, 0x0C, 0x18, 0x30, 0x60, 0x40, 0x00],
     [0x1E, 0x18, 0x18, 0x18, 0x18, 0x18, 0x1E, 0x00],
     [0x08, 0x1C, 0x36, 0x63, 0x00, 0x00, 0x00, 0x00],
     [0x00, 0x00, 0x00, 0x00, 0x00, 0x00, 0x00, 0xFF],
     [0x0C, 0x0C, 0x18, 0x00, 0x00, 0x00, 0x00, 0x00],
     [0x00, 0x00, 0x1E, 0x30, 0x3E, 0x33, 0x6E, 0x00],
     [0x07, 0x06, 0x06, 0x3E, 0x66, 0x66, 0x3B, 0x00],
     [0x00, 0x00, 0x1E, 0x33, 0x03, 0x33, 0x1E, 0x00],
     [0x38, 0x30, 0x30, 0x3E, 0x33, 0x33, 0x6E, 0x00],
     [0x00, 0x00, 0x1E, 0x33, 0x3F, 0x03, 0x1E, 0x00],
     [0x1C, 0x36, 0x06, 0x0F, 0x06, 0x06, 0x0F, 0x00],
     [0x00, 0x00, 0x6E, 0x33, 0x33, 0x3E, 0x30, 0x1F],
     [0x07, 0x06, 0x36, 0x6E, 0x66, 0x66, 0x67, 0x00],
     [0x0C, 0x00, 0x0E, 0x0C, 0x0C, 0x0C, 0x1E, 0x00],
     [0x30, 0x00, 0x38, 0x30, 0x30, 0x33, 0x33, 0x1E],
     [0x07, 0x06, 0x66, 0x36, 0x1E, 0x36, 0x67, 0x00],
     [0x0E, 0x0C, 0x0C, 0x0C, 0x0C, 0x0C, 0x1E, 0x00],
     [0x00, 0x00, 0x33, 0x7F, 0x7F, 0x6B, 0x63, 0x00],
     [0x00, 0x00, 0x1F, 0x33, 0x33, 0x33, 0x33, 0x00],
     [0x00, 0x00, 0x1E, 0x33, 0x33, 0x33, 0x1E, 0x00],
     [0x00, 0x00, 0x3B, 0x66, 0x66, 0x3E, 0x06, 0x0F],
     [0x00, 0x00, 0x6E, 0x33, 0x33, 0x3E, 0x30, 0x78],
     [0x00, 0x00, 0x3B, 0x6E, 0x66, 0x06, 0x0F, 0x00],
     [0x00, 0x00, 0x3E, 0x03, 0x1E, 0x30, 0x1F, 0x00],
     [0x08, 0x0C, 0x3E, 0x0C, 0x0C, 0x2C, 0x18, 0x00],
     [0x00, 0x00, 0x33, 0x33, 0x33, 0x33, 0x6E, 0x00],
     [0x00, 0x00, 0x33, 0x33, 0x33, 0x1E, 0x0C, 0x00],
     [0x00, 0x00, 0x63, 0x6B, 0x7F, 0x7F, 0x36, 0x00],
     [0x00, 0x00, 0x63, 0x36, 0x1C, 0x36, 0x63, 0x00],
     [0x00, 0x00, 0x33, 0x33, 0x33, 0x3E, 0x30, 0x1F],
     [0x00, 0x00, 0x3F, 0x19, 0x0C, 0x26, 0x3F, 0x00],
     [0x38, 0x0C, 0x0C, 0x07, 0x0C, 0x0C, 0x38, 0x00],
     [0x18, 0x18, 0x18, 0x00, 0x18, 0x18, 0x18, 0x00],
     [0x07, 0x0C, 0x0C, 0x38, 0x0C, 0x0C, 0x07, 0x00],
     [0x6E, 0x3B, 0x00, 0x00, 0x00, 0x00, 0x00, 0x00],
     [0x3F, 0x21, 0x21, 0x21, 0x21, 0x21, 0x3F, 0x00]]"

definition framebuffer_draw_char :: "u32 \<Rightarrow> u32 \<Rightarrow> u8 \<Rightarrow> u32 \<Rightarrow> framebuffer \<Rightarrow> framebuffer" where
  "framebuffer_draw_char x y c argb fb =
     (if \<not> fb_available fb then fb
      else let c = (if (scast c :: u32) < 32 \<or> (scast c :: u32) > 127 then of_char CHR ''?'' else c);
               bpp_bytes = fb_bpp fb div 8
      in if bpp_bytes = 0 then fb
      else let packed = fb_pack_color fb argb;
               glyph = font8x8_basic ! unat ((scast c :: u32) - 32);
               base = fb_target_base fb;
               pitch = fb_target_pitch fb
           in fb\<lparr>fb_mem := for_to 8 (\<lambda>row.
                let bits = glyph ! unat row;
                    dst = base + (y + row) * pitch + x * ucast bpp_bytes
                in for_to 8 (\<lambda>col m.
                     if (ucast bits :: u32) AND push_bit (unat (7 - col)) 1 \<noteq> 0
                     then fb_write_pixel (dst + col * ucast bpp_bytes) packed bpp_bytes m else m))
                (fb_mem fb)\<rparr>)"

partial_function (option) draw_string_loop :: "u32 \<Rightarrow> u32 \<Rightarrow> u32 \<Rightarrow> u32 \<Rightarrow> framebuffer \<Rightarrow> framebuffer option" where
  "draw_string_loop cursor_x y str argb fb =
     (if fb_mem fb str = 0 then Some fb
      else if cursor_x + 8 > fb_width fb then Some fb
      else draw_string_loop (cursor_x + 8) y (str + 1) argb (framebuffer_draw_char cursor_x y (fb_mem fb str) argb fb))"

definition framebuffer_draw_string :: "u32 \<Rightarrow> u32 \<Rightarrow> u32 \<Rightarrow> u32 \<Rightarrow> framebuffer \<Rightarrow> framebuffer option" where
  "framebuffer_draw_string x y str argb fb =
     (if \<not> fb_available fb \<or> str = 0 then Some fb else draw_string_loop x y str argb fb)"

section \<open>The progress ring\<close>

definition ring_cos :: "int list" where
  "ring_cos = [127, 115, 90, 49, 0, -49, -90, -115, -127, -115, -90, -49, 0, 49, 90, 115]"

definition ring_sin :: "int list" where
  "ring_sin = [0, 49, 90, 115, 127, 115, 90, 49, 0, -49, -90, -115, -127, -115, -90, -49]"

text \<open>
  The product of the unsigned radius and the signed entry of the table is unsigned, and so is
  its division.
\<close>

definition ring_offset :: "u32 \<Rightarrow> int \<Rightarrow> u32" where
  "ring_offset radius t = radius * of_int t div 127"

definition framebuffer_progress_ring :: "u32 \<Rightarrow> u32 \<Rightarrow> u32 \<Rightarrow> u32 \<Rightarrow> u32 \<Rightarrow> u32 \<Rightarrow> framebuffer \<Rightarrow> framebuffer" where
  "framebuffer_progress_ring cx cy radius steps active color fb =
     (if \<not> fb_available fb \<or> steps = 0 then fb
      else let bpp_bytes = fb_bpp fb div 8
      in if bpp_bytes = 0 then fb
      else let packed_active = fb_pack_color fb color;
               packed_inactive = fb_pack_color fb 0x00404040;
               use_steps = (if steps > 16 then 16 else steps)
           in fb\<lparr>fb_mem := for_to use_steps (\<lambda>i m.
                let idx = unat ((i * 16) div use_steps AND 15);
                    px = cx + ring_offset radius (ring_cos ! idx);
                    py = cy + ring_offset radius (ring_sin ! idx);
                    packed = (if i < active then packed_active else packed_inactive)
                in if px < fb_width fb \<and> py < fb_height fb
                   then let row = fb_target_base fb + py * fb_target_pitch fb;
                            m = fb_write_pixel (row + px * ucast bpp_bytes) packed bpp_bytes m;
                            m = (if px + 1 < fb_width fb
                                 then fb_write_pixel (row + (px + 1) * ucast bpp_bytes) packed bpp_bytes m else m)
                        in if py + 1 < fb_height fb
                           then let row2 = fb_target_base fb + (py + 1) * fb_target_pitch fb
                                in fb_write_pixel (row2 + px * ucast bpp_bytes) packed bpp_bytes m
                           else m
                   else m) (fb_mem fb)\<rparr>)"

section \<open>Lines\<close>

partial_function (option) line_loop ::
  "int \<Rightarrow> int \<Rightarrow> int \<Rightarrow> int \<Rightarrow> int \<Rightarrow> int \<Rightarrow> u32 \<Rightarrow> int \<Rightarrow> int \<Rightarrow> int \<Rightarrow> framebuffer \<Rightarrow> framebuffer option" where
  "line_loop dx dy sx sy x1 y1 argb err x0 y0 fb =
     (let fb = framebuffer_putpixel (of_int x0) (of_int y0) argb fb
      in if x0 = x1 \<and> y0 = y1 then Some fb
         else let e2 = int32 (2 * err);
                  (err, x0) = (if e2 \<ge> dy then (int32 (err + dy), int32 (x0 + sx)) else (err, x0));
                  (err, y0) = (if e2 \<le> dx then (int32 (err + dx), int32 (y0 + sy)) else (err, y0))
              in line_loop dx dy sx sy x1 y1 argb err x0 y0 fb)"

definition framebuffer_draw_line :: "int \<Rightarrow> int \<Rightarrow> int \<Rightarrow> int \<Rightarrow> u32 \<Rightarrow> framebuffer \<Rightarrow> framebuffer option" where
  "framebuffer_draw_line x0 y0 x1 y1 argb fb =
     (if \<not> fb_available fb then Some fb
      else let dx = (if x1 > x0 then int32 (x1 - x0) else int32 (x0 - x1));
               sx = (if x0 < x1 then 1 else - 1);
               dy = (if y1 > y0 then int32 (y0 - y1) else int32 (y1 - y0));
               sy = (if y0 < y1 then 1 else - 1);
               err = int32 (dx + dy)
           in line_loop dx dy sx sy x1 y1 argb err x0 y0 fb)"

section \<open>The boot picture\<close>

text \<open>Unsigned coordinates are converted to \<open>int\<close> for the lines: \<open>sint\<close> reads the word as the \<open>int\<close> of the same bits.\<close>

definition framebuffer_demo_bootscreen :: "framebuffer \<Rightarrow> framebuffer option" where
  "framebuffer_demo_bootscreen fb =
     (if \<not> fb_available fb then Some fb
      else let fb = framebuffer_clear 0x00008080 fb;
        taskbar_h = fb_height fb div 12;
        taskbar_y = fb_height fb - taskbar_h;
        tb_light = 0x00C0C0C0;
        tb_dark = 0x00808080;
        fb = framebuffer_fill_rect 0 taskbar_y (fb_width fb) taskbar_h tb_light fb;
        sb_w = fb_width fb div 10;
        sb_h = taskbar_h - 6;
        sb_x = 4;
        sb_y = taskbar_y + 3;
        win_w = fb_width fb div 3;
        win_h = fb_height fb div 3;
        win_x = (fb_width fb - win_w) div 2;
        win_y = (fb_height fb - win_h) div 2 - taskbar_h div 2;
        bar_h = win_h div 6;
        client_y = win_y + bar_h + 2;
        client_h = win_h - bar_h - 3
      in do {
        fb \<leftarrow> framebuffer_draw_line 0 (int32 (sint taskbar_y - 1)) (int32 (sint (fb_width fb) - 1))
               (int32 (sint taskbar_y - 1)) tb_dark fb;
        let fb = framebuffer_fill_rect sb_x sb_y sb_w sb_h 0x00C0DCC0 fb;
        fb \<leftarrow> framebuffer_draw_line (sint sb_x) (sint sb_y) (sint (sb_x + sb_w - 1)) (sint sb_y) 0x00FFFFFF fb;
        fb \<leftarrow> framebuffer_draw_line (sint sb_x) (sint sb_y) (sint sb_x) (sint (sb_y + sb_h - 1)) 0x00FFFFFF fb;
        fb \<leftarrow> framebuffer_draw_line (int32 (sint sb_x + 1)) (sint (sb_y + sb_h - 1)) (sint (sb_x + sb_w - 1))
               (sint (sb_y + sb_h - 1)) 0x00808080 fb;
        fb \<leftarrow> framebuffer_draw_line (sint (sb_x + sb_w - 1)) (int32 (sint sb_y + 1)) (sint (sb_x + sb_w - 1))
               (sint (sb_y + sb_h - 1)) 0x00808080 fb;
        let fb = framebuffer_fill_rect win_x win_y win_w win_h 0x00C0C0C0 fb;
        fb \<leftarrow> framebuffer_draw_line (sint win_x) (sint win_y) (sint (win_x + win_w - 1)) (sint win_y) 0x00FFFFFF fb;
        fb \<leftarrow> framebuffer_draw_line (sint win_x) (sint win_y) (sint win_x) (sint (win_y + win_h - 1)) 0x00FFFFFF fb;
        fb \<leftarrow> framebuffer_draw_line (int32 (sint win_x + 1)) (sint (win_y + win_h - 1)) (sint (win_x + win_w - 1))
               (sint (win_y + win_h - 1)) 0x00808080 fb;
        fb \<leftarrow> framebuffer_draw_line (sint (win_x + win_w - 1)) (int32 (sint win_y + 1)) (sint (win_x + win_w - 1))
               (sint (win_y + win_h - 1)) 0x00808080 fb;
        let fb = framebuffer_fill_rect (win_x + 1) (win_y + 1) (win_w - 2) bar_h 0x00008080 fb;
        fb \<leftarrow> framebuffer_draw_line (int32 (sint win_x + 1)) (int32 (sint win_y + 1)) (sint (win_x + win_w - 2))
               (int32 (sint win_y + 1)) 0x00FFFFFF fb;
        fb \<leftarrow> framebuffer_draw_line (int32 (sint win_x + 1)) (int32 (sint win_y + 1)) (int32 (sint win_x + 1))
               (sint (win_y + bar_h)) 0x00FFFFFF fb;
        fb \<leftarrow> framebuffer_draw_line (int32 (sint win_x + 1)) (sint (win_y + bar_h)) (sint (win_x + win_w - 2))
               (sint (win_y + bar_h)) 0x00000000 fb;
        fb \<leftarrow> framebuffer_draw_line (sint (win_x + win_w - 2)) (int32 (sint win_y + 1)) (sint (win_x + win_w - 2))
               (sint (win_y + bar_h)) 0x00000000 fb;
        Some (framebuffer_fill_rect (win_x + 2) client_y (win_w - 4) (client_h - 2) 0x00FFFFFF fb)
      })"

section \<open>Copying a picture\<close>

definition framebuffer_blit :: "u32 \<Rightarrow> u32 \<Rightarrow> u32 \<Rightarrow> u32 \<Rightarrow> u32 \<Rightarrow> u32 \<Rightarrow> u8 \<Rightarrow> framebuffer \<Rightarrow> framebuffer" where
  "framebuffer_blit dst_x dst_y w h src src_pitch src_bpp fb =
     (if \<not> fb_available fb \<or> src = 0 \<or> w = 0 \<or> h = 0 then fb
      else if dst_x \<ge> fb_width fb \<or> dst_y \<ge> fb_height fb then fb
      else let dst_bpp_bytes = fb_bpp fb div 8
      in if dst_bpp_bytes = 0 \<or> src_bpp = 0 then fb
      else let max_w = fb_width fb - dst_x;
               max_h = fb_height fb - dst_y;
               w = (if w > max_w then max_w else w);
               h = (if h > max_h then max_h else h);
               copy = (if uint src_bpp < uint dst_bpp_bytes * 8 then ucast src_bpp div 8 else ucast dst_bpp_bytes) :: u32;
               copy = (if copy = 0 then ucast dst_bpp_bytes else copy)
           in fb\<lparr>fb_mem := for_to h (\<lambda>yy.
                let srow = src + yy * src_pitch;
                    base = fb_target_base fb + (dst_y + yy) * fb_target_pitch fb + dst_x * ucast dst_bpp_bytes
                in for_to w (\<lambda>xx. for_to copy (\<lambda>b m.
                     m(base + (xx * ucast dst_bpp_bytes + b) := m (srow + (xx * copy + b)))))) (fb_mem fb)\<rparr>)"

end
