(* ===== verification/FbLaws.thy ===== *)
theory FbLaws imports Framebuffer begin

text \<open>
  What drawing does to the pixels: a filled rectangle sets exactly the pixels of its part on
  the screen, a character those of its glyph, and a line ends and stays within half a pixel of
  the straight line.
\<close>

section \<open>The pixels\<close>

definition bytes_per_pixel :: "framebuffer \<Rightarrow> nat" where
  "bytes_per_pixel fb = unat (fb_bpp fb div 8)"

definition pixel_at :: "framebuffer \<Rightarrow> nat \<times> nat \<Rightarrow> nat" where
  "pixel_at fb p = unat (fb_target_base fb) + snd p * unat (fb_target_pitch fb) + fst p * bytes_per_pixel fb"

definition on_screen :: "framebuffer \<Rightarrow> nat \<times> nat \<Rightarrow> bool" where
  "on_screen fb p \<longleftrightarrow> fst p < unat (fb_width fb) \<and> snd p < unat (fb_height fb)"

definition pixel_bytes :: "nat \<Rightarrow> u32 \<Rightarrow> u8 list" where
  "pixel_bytes n packed = take n [ucast packed, ucast (drop_bit 8 packed), ucast (drop_bit 16 packed), ucast (drop_bit 24 packed)]"

text \<open>
  The framebuffer is in order: a supported depth, rows that fit the pitch, and the whole
  picture below the end of the address space.
\<close>

definition fb_ok :: "framebuffer \<Rightarrow> bool" where
  "fb_ok fb \<longleftrightarrow> fb_available fb \<and> bytes_per_pixel fb \<in> {2, 3, 4}
     \<and> unat (fb_width fb) * bytes_per_pixel fb \<le> unat (fb_target_pitch fb)
     \<and> unat (fb_target_base fb) + unat (fb_height fb) * unat (fb_target_pitch fb) \<le> 4294967296"

lemma pixel_row:
  assumes ok: "fb_ok fb" and p: "on_screen fb p"
  shows "pixel_at fb p + bytes_per_pixel fb \<le> unat (fb_target_base fb) + (snd p + 1) * unat (fb_target_pitch fb)"
proof -
  have "(fst p + 1) * bytes_per_pixel fb \<le> unat (fb_width fb) * bytes_per_pixel fb"
    by (rule mult_le_mono1) (use p in \<open>simp add: on_screen_def\<close>)
  also have "\<dots> \<le> unat (fb_target_pitch fb)" using ok by (simp add: fb_ok_def)
  finally show ?thesis by (simp add: pixel_at_def algebra_simps)
qed

lemma pixel_range:
  assumes ok: "fb_ok fb" and p: "on_screen fb p"
  shows "pixel_at fb p + bytes_per_pixel fb \<le> 4294967296"
proof -
  have "(snd p + 1) * unat (fb_target_pitch fb) \<le> unat (fb_height fb) * unat (fb_target_pitch fb)"
    by (rule mult_le_mono1) (use p in \<open>simp add: on_screen_def\<close>)
  with pixel_row [OF ok p] ok show ?thesis unfolding fb_ok_def by linarith
qed

lemma pixel_left: "fst p < fst q \<Longrightarrow> snd p = snd q \<Longrightarrow> pixel_at fb p + bytes_per_pixel fb \<le> pixel_at fb q"
  using mult_le_mono1 [of "Suc (fst p)" "fst q" "bytes_per_pixel fb"] by (simp add: pixel_at_def)

lemma pixel_above:
  assumes "fb_ok fb" and "on_screen fb p" and "snd p < snd q"
  shows "pixel_at fb p + bytes_per_pixel fb \<le> pixel_at fb q"
  using pixel_row [OF assms(1,2)] mult_le_mono1 [of "snd p + 1" "snd q" "unat (fb_target_pitch fb)"] assms(3)
  by (simp add: pixel_at_def)

lemma pixel_apart:
  assumes "fb_ok fb" and "on_screen fb p" and "on_screen fb q" and "p \<noteq> q"
  shows "pixel_at fb p + bytes_per_pixel fb \<le> pixel_at fb q \<or> pixel_at fb q + bytes_per_pixel fb \<le> pixel_at fb p"
proof (cases "snd p = snd q")
  case True
  with assms(4) have "fst p \<noteq> fst q" by (auto simp: prod_eq_iff)
  with True show ?thesis using pixel_left [of p q fb] pixel_left [of q p fb] by (auto simp: neq_iff)
next
  case False
  then show ?thesis using pixel_above [OF assms(1,2), of q] pixel_above [OF assms(1,3), of p] by (metis neq_iff)
qed

section \<open>Painting\<close>

definition paint :: "framebuffer \<Rightarrow> u8 list \<Rightarrow> (nat \<times> nat) list \<Rightarrow> mem \<Rightarrow> mem" where
  "paint fb bs ps = fold (\<lambda>p m. write_bytes m (ad (pixel_at fb p)) bs) ps"

definition pixel :: "framebuffer \<Rightarrow> mem \<Rightarrow> nat \<times> nat \<Rightarrow> u8 list" where
  "pixel fb m p = read_bytes m (ad (pixel_at fb p)) (bytes_per_pixel fb)"

definition screen_bytes :: "framebuffer \<Rightarrow> nat set" where
  "screen_bytes fb = (\<Union>p\<in>{p. on_screen fb p}. {pixel_at fb p..<pixel_at fb p + bytes_per_pixel fb})"

lemma bytes_per_pixel_range: "fb_ok fb \<Longrightarrow> 2 \<le> bytes_per_pixel fb \<and> bytes_per_pixel fb \<le> 4"
  by (auto simp: fb_ok_def)

lemma paint_pixel:
  assumes ok: "fb_ok fb" and ps: "\<forall>p\<in>set ps. on_screen fb p" and q: "on_screen fb q" and bs: "length bs = bytes_per_pixel fb"
  shows "pixel fb (paint fb bs ps m) q = (if q \<in> set ps then bs else pixel fb m q)"
  using ps
proof (induction ps arbitrary: m)
  case Nil
  then show ?case by (simp add: paint_def)
next
  case (Cons p ps)
  have p: "on_screen fb p" using Cons.prems by simp
  note n = bytes_per_pixel_range [OF ok]
  have "pixel fb (write_bytes m (ad (pixel_at fb p)) bs) q = (if q = p then bs else pixel fb m q)"
  proof (cases "q = p")
    case True
    then show ?thesis using read_write_bytes [of bs m "ad (pixel_at fb p)"] bs n by (simp add: pixel_def)
  next
    case False
    have "apart (length bs) (ad (pixel_at fb p)) (bytes_per_pixel fb) (ad (pixel_at fb q))"
      unfolding ad_def bs
      by (rule apart_of_nat) (use pixel_apart [OF ok p q] pixel_range [OF ok p] pixel_range [OF ok q] False n in auto)
    with False bs n show ?thesis by (simp add: pixel_def read_write_bytes_apart)
  qed
  with Cons show ?case by (auto simp: paint_def)
qed

lemma paint_touches:
  assumes ok: "fb_ok fb" and ps: "\<forall>p\<in>set ps. on_screen fb p" and bs: "length bs = bytes_per_pixel fb"
  shows "touches m (paint fb bs ps m) (screen_bytes fb)"
  using ps
proof (induction ps arbitrary: m)
  case Nil
  then show ?case by (simp add: paint_def)
next
  case (Cons p ps)
  have p: "on_screen fb p" using Cons.prems by simp
  have "touches m (write_bytes m (ad (pixel_at fb p)) bs) (screen_bytes fb)"
    by (rule touches_write [OF touches_refl]) (use p pixel_range [OF ok p] bs in \<open>auto simp: screen_bytes_def\<close>)
  moreover have "touches (write_bytes m (ad (pixel_at fb p)) bs) (paint fb bs (p # ps) m) (screen_bytes fb)"
    using Cons by (simp add: paint_def)
  ultimately show ?case by (rule touches_trans)
qed

lemma length_pixel_bytes [simp]: "n \<le> 4 \<Longrightarrow> length (pixel_bytes n packed) = n"
  by (simp add: pixel_bytes_def)

lemma ucast_low: "ucast ((w :: u32) AND 0xFF) = (ucast w :: u8)"
  by (rule bit_word_eqI) (auto simp: bit_simps mask8)

lemma write_pixel_bytes:
  assumes "unat n \<in> {2, 3, 4}"
  shows "fb_write_pixel dst packed n m = write_bytes m dst (pixel_bytes (unat n) packed)"
proof -
  have "n = 2 \<or> n = 3 \<or> n = 4" using assms by (simp add: word_unat_eq_iff)
  then show ?thesis
    by (auto simp: fb_write_pixel_def pixel_bytes_def store32_def ucast_low add.assoc)
qed

section \<open>Filling\<close>

text \<open>The pairs that two nested loops run through, in their order.\<close>

definition grid :: "nat \<Rightarrow> nat \<Rightarrow> (nat \<times> nat) list" where
  "grid w h = concat (map (\<lambda>y. map (\<lambda>x. (x, y)) [0..<w]) [0..<h])"

lemma set_grid [simp]: "p \<in> set (grid w h) \<longleftrightarrow> fst p < w \<and> snd p < h"
  by (cases p) (force simp: grid_def)

lemma fold_grid: "fold (\<lambda>y. fold (\<lambda>x. f x y) [0..<w]) [0..<h] = fold (\<lambda>(x, y). f x y) (grid w h)"
proof -
  have "fold (\<lambda>y. fold (\<lambda>x. f x y) xs) ys = fold (\<lambda>(x, y). f x y) (concat (map (\<lambda>y. map (\<lambda>x. (x, y)) xs) ys))" for xs ys
    by (induction ys) (simp_all add: fold_map comp_def)
  then show ?thesis by (simp add: grid_def)
qed

lemma for_to_grid:
  "for_to h (\<lambda>y. for_to w (\<lambda>x. f x y)) = fold (\<lambda>(x, y). f (of_nat x) (of_nat y)) (grid (unat w) (unat h))"
  unfolding for_to_def by (rule fold_grid)

lemma ad_pixel_at:
  "ad (pixel_at fb (i, j)) = fb_target_base fb + of_nat j * fb_target_pitch fb + of_nat i * ucast (fb_bpp fb div 8)"
  by (simp add: pixel_at_def bytes_per_pixel_def ad_def)

lemma fb_ok_depth: "fb_ok fb \<Longrightarrow> fb_bpp fb div 8 \<noteq> 0"
  by (auto simp: fb_ok_def bytes_per_pixel_def)

lemma fb_ok_write:
  "fb_ok fb \<Longrightarrow> fb_write_pixel dst packed (fb_bpp fb div 8) = (\<lambda>m. write_bytes m dst (pixel_bytes (bytes_per_pixel fb) packed))"
  by (rule ext) (simp add: fb_ok_def bytes_per_pixel_def write_pixel_bytes)

text \<open>The part of \<open>w\<close> pixels from \<open>x\<close> on that lies below \<open>n\<close>.\<close>

definition clip :: "u32 \<Rightarrow> u32 \<Rightarrow> u32 \<Rightarrow> nat" where
  "clip x w n = min (unat w) (unat n - unat x)"

lemma clip_word: "x < n \<Longrightarrow> unat (if w > n - x then n - x else w) = clip x w n"
  by (auto simp: clip_def word_less_nat_alt unat_sub word_le_nat_alt)

lemma fill_rect_paint:
  assumes ok: "fb_ok fb"
  shows "framebuffer_fill_rect x y w h argb fb = fb\<lparr>fb_mem :=
    paint fb (pixel_bytes (bytes_per_pixel fb) (fb_pack_color fb argb))
      (map (\<lambda>p. (unat x + fst p, unat y + snd p)) (grid (clip x w (fb_width fb)) (clip y h (fb_height fb)))) (fb_mem fb)\<rparr>"
proof (cases "w = 0 \<or> h = 0 \<or> \<not> x < fb_width fb \<or> \<not> y < fb_height fb")
  case True
  then have e: "grid (clip x w (fb_width fb)) (clip y h (fb_height fb)) = []"
    by (auto simp: clip_def grid_def word_less_nat_alt)
  from True ok show ?thesis unfolding e by (auto simp: framebuffer_fill_rect_def fb_ok_def paint_def)
next
  case False
  then have f: "w \<noteq> 0" "h \<noteq> 0" "x < fb_width fb" "y < fb_height fb" by auto
  have av: "fb_available fb" using ok by (simp add: fb_ok_def)
  show ?thesis
    unfolding framebuffer_fill_rect_def Let_def for_to_grid paint_def fold_map clip_word [OF f(3)] clip_word [OF f(4)]
    using f av fb_ok_depth [OF ok] ok
    by (simp add: fb_ok_write case_prod_beta' comp_def ad_pixel_at algebra_simps not_le)
qed

lemma fill_rect_pixels:
  assumes ok: "fb_ok fb"
  shows "\<exists>m. framebuffer_fill_rect x y w h argb fb = fb\<lparr>fb_mem := m\<rparr> \<and> touches (fb_mem fb) m (screen_bytes fb)
    \<and> (\<forall>p. on_screen fb p \<longrightarrow> pixel fb m p =
        (if fst p \<in> {unat x..<unat x + unat w} \<and> snd p \<in> {unat y..<unat y + unat h}
         then pixel_bytes (bytes_per_pixel fb) (fb_pack_color fb argb) else pixel fb (fb_mem fb) p))"
proof -
  let ?bs = "pixel_bytes (bytes_per_pixel fb) (fb_pack_color fb argb)"
  let ?ps = "map (\<lambda>p. (unat x + fst p, unat y + snd p)) (grid (clip x w (fb_width fb)) (clip y h (fb_height fb)))"
  have sc: "\<forall>p\<in>set ?ps. on_screen fb p" by (auto simp: on_screen_def clip_def)
  have bs: "length ?bs = bytes_per_pixel fb" using bytes_per_pixel_range [OF ok] by simp
  have mem: "p \<in> set ?ps \<longleftrightarrow> fst p \<in> {unat x..<unat x + unat w} \<and> snd p \<in> {unat y..<unat y + unat h}"
    if p: "on_screen fb p" for p
  proof
    assume r: "fst p \<in> {unat x..<unat x + unat w} \<and> snd p \<in> {unat y..<unat y + unat h}"
    have "p = (unat x + (fst p - unat x), unat y + (snd p - unat y))" using r by (simp add: prod_eq_iff)
    moreover have "(fst p - unat x, snd p - unat y) \<in> set (grid (clip x w (fb_width fb)) (clip y h (fb_height fb)))"
      using r p by (auto simp: clip_def on_screen_def)
    ultimately show "p \<in> set ?ps" unfolding set_map
      by (intro image_eqI [where x = "(fst p - unat x, snd p - unat y)"]) simp_all
  qed (auto simp: clip_def)
  from paint_pixel [OF ok sc _ bs] mem paint_touches [OF ok sc bs]
  show ?thesis unfolding fill_rect_paint [OF ok] by (intro exI conjI) auto
qed

text \<open>
  C27. A filled rectangle: of the pixels on the screen exactly those of the rectangle get the
  colour, as it is stored at the depth of the screen, and no byte outside the screen's pixels
  changes; the rectangle may reach over the edges, its size may even wrap.
\<close>

theorem fill_rect_correct:
  assumes ok: "fb_ok fb"
  shows "\<exists>m. framebuffer_fill_rect x y w h argb fb = fb\<lparr>fb_mem := m\<rparr> \<and> touches (fb_mem fb) m (screen_bytes fb)
    \<and> (\<forall>p. on_screen fb p \<longrightarrow> pixel fb m p =
        (if fst p \<in> {unat x..<unat x + unat w} \<and> snd p \<in> {unat y..<unat y + unat h}
         then pixel_bytes (bytes_per_pixel fb) (fb_pack_color fb argb) else pixel fb (fb_mem fb) p))"
  using assms by (rule fill_rect_pixels)

text \<open>
  A pixel set is the same as a rectangle of one pixel.
\<close>

lemma putpixel_eq_rect:
  assumes "fb_ok fb"
  shows "framebuffer_putpixel x y argb fb = framebuffer_fill_rect x y 1 1 argb fb"
proof (cases "x < fb_width fb \<and> y < fb_height fb")
  case True
  have c: "clip x 1 (fb_width fb) = 1" "clip y 1 (fb_height fb) = 1" using True by (auto simp: clip_def word_less_nat_alt)
  have "grid 1 1 = [(0, 0)]" by (simp add: grid_def)
  moreover have "\<not> fb_width fb \<le> x" "\<not> fb_height fb \<le> y" using True by auto
  ultimately show ?thesis using assms fb_ok_depth [OF assms] unfolding fill_rect_paint [OF assms] c
    by (simp add: framebuffer_putpixel_def Let_def paint_def ad_pixel_at fb_ok_write fb_ok_def not_le)
next
  case False
  then show ?thesis by (auto simp: framebuffer_putpixel_def framebuffer_fill_rect_def)
qed

lemma fb_ok_mem [simp]: "fb_ok (fb\<lparr>fb_mem := m\<rparr>) = fb_ok fb"
  by (simp add: fb_ok_def bytes_per_pixel_def fb_target_pitch_def fb_target_base_def)

section \<open>Characters\<close>

lemma scast_char: "(c :: u8) \<le> 127 \<Longrightarrow> (scast c :: u32) = of_nat (unat c)"
proof -
  assume c: "c \<le> 127"
  have "uint c \<le> 127" using c by (simp add: word_le_def)
  moreover have "- 128 \<le> uint c" using uint_ge_0 [of c] by linarith
  ultimately have "sint c = uint c" unfolding sint_uint by (intro signed_take_bit_int_eq_self) simp_all
  then show ?thesis by (metis of_int_of_nat_eq of_nat_unat scast_eq uint_nat)
qed

lemma fold_if: "fold (\<lambda>p m. if Q p then f p m else m) ps = fold f (filter Q ps)"
  by (induction ps) (auto simp: fun_eq_iff)

text \<open>The pixels of the character whose glyph is \<open>g\<close>, in the order in which they are drawn.\<close>

definition glyph_pixels :: "u8 list \<Rightarrow> (nat \<times> nat) list" where
  "glyph_pixels g = filter (\<lambda>p. bit (g ! snd p) (7 - fst p)) (grid 8 8)"

lemma draw_char_paint:
  assumes ok: "fb_ok fb" and c: "32 \<le> c" "c \<le> 127"
  shows "framebuffer_draw_char x y c argb fb = fb\<lparr>fb_mem :=
    paint fb (pixel_bytes (bytes_per_pixel fb) (fb_pack_color fb argb))
      (map (\<lambda>p. (unat x + fst p, unat y + snd p)) (glyph_pixels (font8x8_basic ! (unat c - 32)))) (fb_mem fb)\<rparr>"
proof -
  let ?g = "font8x8_basic ! (unat c - 32)"
  have av: "fb_available fb" using ok by (simp add: fb_ok_def)
  have u: "unat c \<le> 127" "32 \<le> unat c" using c by (simp_all add: word_le_nat_alt)
  have w: "unat (scast c :: u32) = unat c" unfolding scast_char [OF c(2)] by (rule unat_of_nat32) (use u in simp)
  have sc: "\<not> ((scast c :: u32) < 32 \<or> (scast c :: u32) > 127)" and g: "unat ((scast c :: u32) - 32) = unat c - 32"
    using u by (simp_all add: w word_less_nat_alt unat_sub word_le_nat_alt)
  have test: "(ucast (?g ! unat (of_nat j :: u32)) :: u32) AND 2 ^ unat (7 - of_nat i :: u32) \<noteq> 0 \<longleftrightarrow> bit (?g ! j) (7 - i)"
    if "i < 8" "j < 8" for i j
  proof -
    have "unat (7 - of_nat i :: u32) = 7 - i" "unat (of_nat j :: u32) = j"
      using that by (simp_all add: unat_sub unat_of_nat32 word_le_nat_alt)
    then show ?thesis using that
      by (simp only: bit_iff_and_push_bit_not_eq_0 [symmetric] push_bit_of_1 [symmetric] bit_unsigned_iff) auto
  qed
  have u8: "unat (8 :: u32) = 8" by simp
  have "for_to 8 (\<lambda>row. for_to 8 (\<lambda>col m.
      if (ucast (?g ! unat row) :: u32) AND push_bit (unat (7 - col)) 1 \<noteq> 0
      then fb_write_pixel (fb_target_base fb + (y + row) * fb_target_pitch fb + x * ucast (fb_bpp fb div 8)
             + col * ucast (fb_bpp fb div 8)) (fb_pack_color fb argb) (fb_bpp fb div 8) m else m)) =
    paint fb (pixel_bytes (bytes_per_pixel fb) (fb_pack_color fb argb)) (map (\<lambda>p. (unat x + fst p, unat y + snd p)) (glyph_pixels ?g))"
    unfolding for_to_grid u8 paint_def fold_map glyph_pixels_def fold_if [symmetric]
    by (rule ext, rule fold_cong)
      (use ok in \<open>auto simp: test fb_ok_write ad_pixel_at algebra_simps comp_def\<close>)
  then show ?thesis using av sc fb_ok_depth [OF ok] by (simp add: framebuffer_draw_char_def Let_def g)
qed

text \<open>
  A character that lies on the screen: of the 8 by 8 pixels from \<open>(x, y)\<close> on exactly those
  get the colour whose bit is set in the glyph's row, the highest bit at the left; the other
  pixels of the screen and all bytes outside it keep their values.
\<close>

theorem draw_char_correct:
  assumes ok: "fb_ok fb" and fit: "unat x + 8 \<le> unat (fb_width fb)" "unat y + 8 \<le> unat (fb_height fb)"
    and c: "32 \<le> c" "c \<le> 127"
  shows "\<exists>m. framebuffer_draw_char x y c argb fb = fb\<lparr>fb_mem := m\<rparr> \<and> touches (fb_mem fb) m (screen_bytes fb)
    \<and> (\<forall>p. on_screen fb p \<longrightarrow> pixel fb m p =
        (if fst p \<in> {unat x..<unat x + 8} \<and> snd p \<in> {unat y..<unat y + 8}
            \<and> bit (font8x8_basic ! (unat c - 32) ! (snd p - unat y)) (7 - (fst p - unat x))
         then pixel_bytes (bytes_per_pixel fb) (fb_pack_color fb argb) else pixel fb (fb_mem fb) p))"
proof -
  let ?bs = "pixel_bytes (bytes_per_pixel fb) (fb_pack_color fb argb)"
  let ?ps = "map (\<lambda>p. (unat x + fst p, unat y + snd p)) (glyph_pixels (font8x8_basic ! (unat c - 32)))"
  have sc: "\<forall>p\<in>set ?ps. on_screen fb p" using fit by (auto simp: on_screen_def glyph_pixels_def)
  have bs: "length ?bs = bytes_per_pixel fb" using bytes_per_pixel_range [OF ok] by simp
  have mem: "p \<in> set ?ps \<longleftrightarrow> fst p \<in> {unat x..<unat x + 8} \<and> snd p \<in> {unat y..<unat y + 8}
      \<and> bit (font8x8_basic ! (unat c - 32) ! (snd p - unat y)) (7 - (fst p - unat x))" for p
  proof
    assume r: "fst p \<in> {unat x..<unat x + 8} \<and> snd p \<in> {unat y..<unat y + 8}
      \<and> bit (font8x8_basic ! (unat c - 32) ! (snd p - unat y)) (7 - (fst p - unat x))"
    then show "p \<in> set ?ps" unfolding set_map
      by (intro image_eqI [where x = "(fst p - unat x, snd p - unat y)"]) (auto simp: glyph_pixels_def prod_eq_iff)
  qed (auto simp: glyph_pixels_def)
  from paint_pixel [OF ok sc _ bs] mem paint_touches [OF ok sc bs]
  show ?thesis unfolding draw_char_paint [OF ok c] by (intro exI conjI) auto
qed

section \<open>The progress ring\<close>

text \<open>
  The unsigned product of a radius and a negative entry of the tables is close to \<open>2 ^ 32\<close>, so
  its quotient by 127 leads far off the screen: the dots of the left and the upper half are
  never drawn.
\<close>

theorem ring_left_half_lost:
  assumes r: "0 < unat radius" "unat radius \<le> 1000000" and t: "t \<in> set ring_cos \<union> set ring_sin" "t < 0"
    and n: "unat cx < 16777216" "unat n \<le> 16777216"
  shows "\<not> cx + ring_offset radius t < n"
proof -
  obtain k :: nat where k: "t = - int k" "0 < k" "k \<le> 127" using t by (auto simp: ring_cos_def ring_sin_def)
  have p: "0 < unat radius * k" "unat radius * k \<le> 127000000"
    using r k mult_le_mono [of "unat radius" 1000000 k 127] by simp_all
  have "radius * of_int t = of_nat (4294967296 - unat radius * k)"
    using p(2) by (simp add: k(1) of_nat_diff)
  then have "unat (radius * of_int t) = 4294967296 - unat radius * k"
    by (simp only:) (rule unat_of_nat32, use p in simp)
  then have o: "unat (ring_offset radius t) = (4294967296 - unat radius * k) div 127"
    by (simp add: ring_offset_def unat_div)
  have "32818640 \<le> unat (ring_offset radius t)" "unat (ring_offset radius t) \<le> 33818640"
    unfolding o using p by linarith+
  then have "unat (cx + ring_offset radius t) = unat cx + unat (ring_offset radius t)"
    using n(1) by (simp add: unat_plus_if')
  then show ?thesis using \<open>32818640 \<le> _\<close> n(2) by (simp add: word_less_nat_alt)
qed

section \<open>A screen of 640 by 480 pixels\<close>

definition fb_640 :: framebuffer where
  "fb_640 = \<lparr>fb_mem = (\<lambda>_. 0), fb_addr = 0xE0000000, fb_pitch = 2560, fb_width = 640, fb_height = 480, fb_bpp = 32,
     fb_type = 1, red_pos = 16, red_mask = 8, green_pos = 8, green_mask = 8, blue_pos = 0, blue_mask = 8,
     backbuffer = 0, backbuffer_pitch = 0, fb_available = True\<rparr>"

lemma fb_640_ok: "fb_ok fb_640"
  by (simp add: fb_ok_def fb_640_def bytes_per_pixel_def fb_target_pitch_def fb_target_base_def)

lemma fill_rect_correct_witness:
  "\<exists>m. framebuffer_fill_rect 600 470 100 100 0x00FF8040 fb_640 = fb_640\<lparr>fb_mem := m\<rparr>
    \<and> pixel fb_640 m (639, 479) = [0x40, 0x80, 0xFF, 0] \<and> pixel fb_640 m (599, 479) = [0, 0, 0, 0]"
proof -
  have s: "on_screen fb_640 (639, 479)" "on_screen fb_640 (599, 479)" by (simp_all add: on_screen_def fb_640_def)
  have b: "bytes_per_pixel fb_640 = 4" by (simp add: bytes_per_pixel_def fb_640_def)
  have k: "pixel_bytes 4 (fb_pack_color fb_640 0x00FF8040) = [0x40, 0x80, 0xFF, 0]"
    by (simp add: fb_pack_color_def pack_channel_def fb_640_def pixel_bytes_def)
  have z: "pixel fb_640 (fb_mem fb_640) (599, 479) = [0, 0, 0, 0]"
    by (simp add: pixel_def b numeral_eq_Suc) (simp add: fb_640_def)
  from fill_rect_correct [OF fb_640_ok, of 600 470 100 100 "0x00FF8040"] s k z b show ?thesis by auto
qed

lemma draw_char_correct_witness:
  "\<exists>m. framebuffer_draw_char 0 0 76 0x00FFFFFF fb_640 = fb_640\<lparr>fb_mem := m\<rparr>
    \<and> pixel fb_640 m (7, 0) = [0xFF, 0xFF, 0xFF, 0] \<and> pixel fb_640 m (0, 0) = [0, 0, 0, 0]"
proof -
  have s: "on_screen fb_640 (7, 0)" "on_screen fb_640 (0, 0)" by (simp_all add: on_screen_def fb_640_def)
  have b: "bytes_per_pixel fb_640 = 4" by (simp add: bytes_per_pixel_def fb_640_def)
  have k: "pixel_bytes 4 (fb_pack_color fb_640 0x00FFFFFF) = [0xFF, 0xFF, 0xFF, 0]"
    by (simp add: fb_pack_color_def pack_channel_def fb_640_def pixel_bytes_def)
  have z: "pixel fb_640 (fb_mem fb_640) (0, 0) = [0, 0, 0, 0]"
    by (simp add: pixel_def b numeral_eq_Suc) (simp add: fb_640_def)
  have g: "font8x8_basic ! 44 ! 0 = 0x0F" by (simp add: font8x8_basic_def)
  from draw_char_correct [OF fb_640_ok, of 0 0 76 "0x00FFFFFF"] s k z b g show ?thesis
    by (auto simp: fb_640_def)
qed

end
