(* ===== verification/FbLine.thy ===== *)
theory FbLine imports FbLaws begin

text \<open>
  The lines of the framebuffer.  With \<open>i\<close> steps made in the direction of \<open>x\<close> and \<open>j\<close> in that of \<open>y\<close>,
  the error term is \<open>e + a - b\<close> for the deviation \<open>e = a * j - b * i\<close> from the straight line,
  which stays within half of the longer side.
\<close>

abbreviation plot :: "u32 \<Rightarrow> int \<times> int \<Rightarrow> framebuffer \<Rightarrow> framebuffer" where
  "plot argb p \<equiv> framebuffer_putpixel (of_int (fst p)) (of_int (snd p)) argb"

definition neighbours :: "int \<times> int \<Rightarrow> int \<times> int \<Rightarrow> bool" where
  "neighbours p q \<longleftrightarrow> \<bar>fst q - fst p\<bar> \<le> 1 \<and> \<bar>snd q - snd p\<bar> \<le> 1"

text \<open>The decisions of the loop: a step is made only towards the end, and one is always made.\<close>

lemma x_step_inside:
  fixes a b i j :: int
  assumes "0 \<le> a" "0 \<le> j" "i \<le> a" "j \<le> b" "(i, j) \<noteq> (a, b)" "- b \<le> 2 * (a * j - b * i + a - b)"
  shows "i < a"
proof (rule ccontr)
  assume "\<not> i < a"
  then have i: "i = a" "j < b" using assms by auto
  have "a * j \<le> a * (b - 1)" by (rule mult_left_mono) (use i assms(1) in auto)
  then show False using i assms(2,6) by (simp add: algebra_simps)
qed

lemma y_step_inside:
  fixes a b i j :: int
  assumes "0 \<le> b" "0 \<le> i" "i \<le> a" "j \<le> b" "(i, j) \<noteq> (a, b)" "2 * (a * j - b * i + a - b) \<le> a"
  shows "j < b"
proof (rule ccontr)
  assume "\<not> j < b"
  then have j: "j = b" "i < a" using assms by auto
  have "b * i \<le> b * (a - 1)" by (rule mult_left_mono) (use j assms(1) in auto)
  then show False using j assms(2,6) by (simp add: algebra_simps)
qed

lemma deviation_step:
  fixes a b d :: int
  assumes "0 \<le> a" "0 \<le> b" "2 * \<bar>d\<bar> \<le> max a b"
  shows "2 * \<bar>d - (if - b \<le> 2 * (d + a - b) then b else 0) + (if 2 * (d + a - b) \<le> a then a else 0)\<bar> \<le> max a b"
    and "if b \<le> a then - b \<le> 2 * (d + a - b) else 2 * (d + a - b) \<le> a"
  using assms by (auto simp: max_def abs_if split: if_splits)

lemma deviation_int32:
  fixes a b d :: int
  assumes "0 \<le> a" "0 \<le> b" "a \<le> 536870912" "b \<le> 536870912" "2 * \<bar>d\<bar> \<le> max a b"
  shows "int32 (2 * (d + a - b)) = 2 * (d + a - b)" "int32 (d + a - b + - b) = d - b + a - b"
    "int32 (d + a - b + a) = d + a + a - b" "int32 (d - b + a - b + a) = d - b + a + a - b"
  using assms by (auto intro!: int32_id simp: max_def abs_le_iff split: if_splits)

lemma line_step:
  fixes a b d x y :: int
  assumes ab: "0 \<le> a" "0 \<le> b" "a \<le> 536870912" "b \<le> 536870912" and d: "2 * \<bar>d\<bar> \<le> max a b"
    and ne: "\<not> (x = x1 \<and> y = y1)" and w: "int32 (x + sx) = x + sx" "int32 (y + sy) = y + sy"
  shows "line_loop a (- b) sx sy x1 y1 argb (d + a - b) x y fb =
    line_loop a (- b) sx sy x1 y1 argb
      (d - (if - b \<le> 2 * (d + a - b) then b else 0) + (if 2 * (d + a - b) \<le> a then a else 0) + a - b)
      (if - b \<le> 2 * (d + a - b) then x + sx else x) (if 2 * (d + a - b) \<le> a then y + sy else y) (plot argb (x, y) fb)"
proof -
  note we = deviation_int32 [OF ab d]
  have r: "d - 0 + 0 + a - b = d + a - b" "d - b + 0 + a - b = d - b + a - b" "d - 0 + a + a - b = d + a + a - b" by simp_all
  show ?thesis
    by (cases "- b \<le> 2 * (d + a - b)"; cases "2 * (d + a - b) \<le> a")
      (subst line_loop.simps, simp only: Let_def we w ne r if_True if_False prod.case fst_conv snd_conv simp_thms)+
qed

text \<open>The loop from the point that \<open>i\<close> and \<open>j\<close> steps lead to.\<close>

lemma line_loop_runs:
  fixes a b i j sx sy :: int
  assumes ab: "0 \<le> a" "0 \<le> b" "a \<le> 536870912" "b \<le> 536870912" and s: "sx \<in> {1, -1}" "sy \<in> {1, -1}"
    and o: "\<bar>X\<bar> \<le> 536870912" "\<bar>Y\<bar> \<le> 536870912"
    and ij: "0 \<le> i" "0 \<le> j" "i \<le> a" "j \<le> b" and e: "2 * \<bar>a * j - b * i\<bar> \<le> max a b"
  shows "\<exists>pts. line_loop a (- b) sx sy (X + sx * a) (Y + sy * b) argb (a * j - b * i + a - b) (X + sx * i) (Y + sy * j) fb
      = Some (fold (plot argb) pts fb)
    \<and> pts \<noteq> [] \<and> hd pts = (X + sx * i, Y + sy * j) \<and> last pts = (X + sx * a, Y + sy * b)
    \<and> length pts = nat (if b \<le> a then a - i else b - j) + 1 \<and> successively neighbours pts
    \<and> (\<forall>p\<in>set pts. \<exists>k l. p = (X + sx * k, Y + sy * l) \<and> 2 * \<bar>a * l - b * k\<bar> \<le> max a b)"
  using ij e
proof (induction "nat (a - i + (b - j))" arbitrary: i j fb rule: less_induct)
  case less
  note ij = less.prems(1-4)
  let ?e = "a * j - b * i"
  define fb' where "fb' = plot argb (X + sx * i, Y + sy * j) fb"
  show ?case
  proof (cases "(i, j) = (a, b)")
    case True
    have "\<exists>k l. (X + sx * a, Y + sy * b) = (X + sx * k, Y + sy * l) \<and> 2 * \<bar>a * l - b * k\<bar> \<le> max a b"
      by (rule exI [of _ a], rule exI [of _ b]) (use ab in simp)
    with True show ?thesis
      by (intro exI [of _ "[(X + sx * a, Y + sy * b)]"]) (subst line_loop.simps, simp add: Let_def)
  next
    case False
    define i' where "i' = (if - b \<le> 2 * (?e + a - b) then i + 1 else i)"
    define j' where "j' = (if 2 * (?e + a - b) \<le> a then j + 1 else j)"
    have i': "i' \<le> a" "0 \<le> i'" "i \<le> i'" using x_step_inside [OF ab(1) ij(2,3,4) False] ij by (auto simp: i'_def)
    have j': "j' \<le> b" "0 \<le> j'" "j \<le> j'" using y_step_inside [OF ab(2) ij(1,3,4) False] ij by (auto simp: j'_def)
    have e': "a * j' - b * i' = ?e - (if - b \<le> 2 * (?e + a - b) then b else 0) + (if 2 * (?e + a - b) \<le> a then a else 0)"
      by (auto simp: i'_def j'_def algebra_simps)
    have small: "2 * \<bar>a * j' - b * i'\<bar> \<le> max a b"
      unfolding e' by (rule deviation_step(1) [OF ab(1,2) less.prems(5)])
    have step: "if b \<le> a then i' = i + 1 else j' = j + 1"
      using deviation_step(2) [OF ab(1,2) less.prems(5)] by (simp add: i'_def j'_def split: if_splits)
    have "nat (a - i' + (b - j')) < nat (a - i + (b - j))" using step i' j' ij by (auto split: if_splits)
    from less.hyps [OF this i'(2) j'(2) i'(1) j'(1) small, of fb'] obtain pts where
      p: "line_loop a (- b) sx sy (X + sx * a) (Y + sy * b) argb (a * j' - b * i' + a - b) (X + sx * i') (Y + sy * j') fb'
        = Some (fold (plot argb) pts fb')"
      "pts \<noteq> []" "hd pts = (X + sx * i', Y + sy * j')" "last pts = (X + sx * a, Y + sy * b)"
      "length pts = nat (if b \<le> a then a - i' else b - j') + 1" "successively neighbours pts"
      "\<forall>p\<in>set pts. \<exists>k l. p = (X + sx * k, Y + sy * l) \<and> 2 * \<bar>a * l - b * k\<bar> \<le> max a b" by blast
    have ne: "\<not> (X + sx * i = X + sx * a \<and> Y + sy * j = Y + sy * b)" using False s by auto
    have xs: "X + sx * i + sx = X + sx * (i + 1)" "Y + sy * j + sy = Y + sy * (j + 1)" by (simp_all add: algebra_simps)
    have wx: "int32 (X + sx * (i + 1)) = X + sx * (i + 1)" "int32 (Y + sy * (j + 1)) = Y + sy * (j + 1)"
      using s o ab ij by (auto intro!: int32_id simp: abs_le_iff)
    have "line_loop a (- b) sx sy (X + sx * a) (Y + sy * b) argb (?e + a - b) (X + sx * i) (Y + sy * j) fb
        = line_loop a (- b) sx sy (X + sx * a) (Y + sy * b) argb (a * j' - b * i' + a - b) (X + sx * i') (Y + sy * j') fb'"
      using line_step [OF ab less.prems(5) ne, of sx sy argb fb] unfolding e'
      by (simp only: xs wx fb'_def i'_def j'_def if_distrib [of "\<lambda>k. X + sx * k"] if_distrib [of "\<lambda>k. Y + sy * k"])
    moreover have "neighbours (X + sx * i, Y + sy * j) (X + sx * i', Y + sy * j')"
      using s by (auto simp: neighbours_def i'_def j'_def algebra_simps)
    moreover have "\<exists>k l. (X + sx * i, Y + sy * j) = (X + sx * k, Y + sy * l) \<and> 2 * \<bar>a * l - b * k\<bar> \<le> max a b"
      by (rule exI [of _ i], rule exI [of _ j]) (use less.prems(5) in simp)
    ultimately show ?thesis using p step i' j' ij
      by (intro exI [of _ "(X + sx * i, Y + sy * j) # pts"])
        (cases pts, auto simp: fb'_def split: if_splits)
  qed
qed

text \<open>
  C28. \<open>framebuffer_draw_line\<close> returns, for all coordinates of at most 2 to the 28th: it plots a
  chain of neighbouring points from one end to the other, as many as the longer side has
  points, and each of them lies within half a pixel of the straight line, measured along the
  shorter side.
\<close>

theorem draw_line_correct:
  assumes av: "fb_available fb"
    and c: "\<bar>x0\<bar> \<le> 268435456" "\<bar>y0\<bar> \<le> 268435456" "\<bar>x1\<bar> \<le> 268435456" "\<bar>y1\<bar> \<le> 268435456"
  shows "\<exists>pts. framebuffer_draw_line x0 y0 x1 y1 argb fb = Some (fold (plot argb) pts fb)
    \<and> pts \<noteq> [] \<and> hd pts = (x0, y0) \<and> last pts = (x1, y1) \<and> successively neighbours pts
    \<and> length pts = nat (max \<bar>x1 - x0\<bar> \<bar>y1 - y0\<bar>) + 1
    \<and> (\<forall>p\<in>set pts. 2 * \<bar>(x1 - x0) * (snd p - y0) - (y1 - y0) * (fst p - x0)\<bar> \<le> max \<bar>x1 - x0\<bar> \<bar>y1 - y0\<bar>)"
proof -
  define a b where "a = \<bar>x1 - x0\<bar>" and "b = \<bar>y1 - y0\<bar>"
  define sx sy where "sx = (if x0 < x1 then 1 else - 1 :: int)" and "sy = (if y0 < y1 then 1 else - 1 :: int)"
  have ab: "0 \<le> a" "0 \<le> b" "a \<le> 536870912" "b \<le> 536870912" using c by (auto simp: a_def b_def abs_le_iff)
  have s: "sx \<in> {1, -1}" "sy \<in> {1, -1}" by (auto simp: sx_def sy_def)
  have e: "x0 + sx * a = x1" "y0 + sy * b = y1" by (auto simp: a_def b_def sx_def sy_def)
  have i: "(if x1 > x0 then int32 (x1 - x0) else int32 (x0 - x1)) = a" "(if y1 > y0 then int32 (y0 - y1) else int32 (y1 - y0)) = - b"
    "int32 (a + - b) = a * 0 - b * 0 + a - b"
    using c ab by (auto simp: a_def b_def abs_le_iff intro!: int32_id)
  have run: "framebuffer_draw_line x0 y0 x1 y1 argb fb = line_loop a (- b) sx sy x1 y1 argb (a * 0 - b * 0 + a - b) x0 y0 fb"
    using av unfolding framebuffer_draw_line_def Let_def i sx_def [symmetric] sy_def [symmetric] by simp
  have o: "\<bar>x0\<bar> \<le> 536870912" "\<bar>y0\<bar> \<le> 536870912" using c by auto
  have m: "2 * \<bar>a * 0 - b * 0\<bar> \<le> max a b" using ab by simp
  from line_loop_runs [OF ab s o order_refl order_refl ab(1,2) m, of argb fb, unfolded e mult_zero_right add_0_right]
  obtain pts where p: "line_loop a (- b) sx sy x1 y1 argb (0 - 0 + a - b) x0 y0 fb = Some (fold (plot argb) pts fb)"
    "pts \<noteq> []" "hd pts = (x0, y0)" "last pts = (x1, y1)" "length pts = nat (if b \<le> a then a - 0 else b - 0) + 1"
    "successively neighbours pts" "\<forall>p\<in>set pts. \<exists>k l. p = (x0 + sx * k, y0 + sy * l) \<and> 2 * \<bar>a * l - b * k\<bar> \<le> max a b"
    by blast
  have near: "2 * \<bar>(x1 - x0) * (snd q - y0) - (y1 - y0) * (fst q - x0)\<bar> \<le> max a b" if q: "q \<in> set pts" for q
  proof -
    obtain k l where k: "q = (x0 + sx * k, y0 + sy * l)" "2 * \<bar>a * l - b * k\<bar> \<le> max a b" using p(7) q by blast
    have "(x1 - x0) * (snd q - y0) - (y1 - y0) * (fst q - x0) = sx * sy * (a * l - b * k)"
      using e by (simp add: k(1) algebra_simps flip: e)
    moreover have "\<bar>sx * sy * (a * l - b * k)\<bar> = \<bar>a * l - b * k\<bar>" using s by auto
    ultimately show ?thesis using k(2) by simp
  qed
  show ?thesis unfolding run a_def [symmetric] b_def [symmetric]
    using p near by (intro exI [of _ pts]) (auto simp: max_def)
qed

lemma draw_line_correct_witness:
  "\<exists>pts. framebuffer_draw_line 3 5 10 2 0x00FFFFFF fb_640 = Some (fold (plot 0x00FFFFFF) pts fb_640) \<and> length pts = 8"
  using draw_line_correct [of fb_640 3 5 10 2 "0x00FFFFFF"] by (auto simp: fb_640_def)

end
