(* ===== verification/Cursors.thy ===== *)
theory Cursors imports FbLaws Input begin

text \<open>
  The two mouse cursors: the square on the framebuffer (\<^verbatim>\<open>video/cursor.c\<close>) and the block on the
  text screen (\<^verbatim>\<open>video/text_cursor.c\<close>).  Both take the waiting events from the mouse's ring at
  each tick of the timer.  The drawing routines get the framebuffer or the screen in the record
  of the cursor.
\<close>

section \<open>The cursor of the framebuffer\<close>

record cursor =
  cur_x :: u32
  cur_y :: u32
  cur_color :: u32
  cur_size :: u32
  cur_fb :: framebuffer

definition clamp_u32 :: "u32 \<Rightarrow> u32 \<Rightarrow> u32 \<Rightarrow> u32" where
  "clamp_u32 v low high = (if v < low then low else if v > high then high else v)"

definition cursor_draw :: "cursor \<Rightarrow> cursor" where
  "cursor_draw c =
     (if \<not> fb_available (cur_fb c) then c
      else let fb = cur_fb c;
               size = cur_size c;
               x = cur_x c;
               y = cur_y c;
               half = size div 2;
               start_x = int32 (sint x - sint half);
               start_y = int32 (sint y - sint half);
               clamped_x = (if start_x < 0 then 0 else of_int start_x) :: u32;
               clamped_y = (if start_y < 0 then 0 else of_int start_y) :: u32;
               w = (if clamped_x + size > fb_width fb then fb_width fb - clamped_x else size);
               h = (if clamped_y + size > fb_height fb then fb_height fb - clamped_y else size)
           in c\<lparr>cur_fb := framebuffer_fill_rect clamped_x clamped_y w h (cur_color c) fb\<rparr>)"

definition cursor_init :: "u32 \<Rightarrow> u32 \<Rightarrow> u32 \<Rightarrow> cursor \<Rightarrow> cursor" where
  "cursor_init x y color c = cursor_draw (c\<lparr>cur_x := x, cur_y := y, cur_color := color, cur_size := 5\<rparr>)"

definition cursor_handle_event :: "mouse_event \<Rightarrow> cursor \<Rightarrow> cursor" where
  "cursor_handle_event ev c =
     (let nx = int32 (sint (cur_x c) + dx ev);
          ny = int32 (sint (cur_y c) + dy ev);
          fb = cur_fb c;
          c = (if fb_available fb \<and> fb_width fb > 0 \<and> fb_height fb > 0
               then c\<lparr>cur_x := clamp_u32 (if nx < 0 then 0 else of_int nx) 0 (fb_width fb - 1),
                      cur_y := clamp_u32 (if ny < 0 then 0 else of_int ny) 0 (fb_height fb - 1)\<rparr>
               else c)
      in cursor_draw c)"

definition cursor_tick :: "mouse \<Rightarrow> cursor \<Rightarrow> (mouse \<times> cursor) option" where
  "cursor_tick = drain mouse_read_event cursor_handle_event"

section \<open>The cursor of the text screen\<close>

record text_cursor =
  tcur_col :: u32
  tcur_row :: u32
  tcur_attr :: u8
  saved_cell :: u16
  has_saved :: bool
  accum_x :: int
  accum_y :: int
  tcur_screen :: vga

definition clamp_to :: "u32 \<Rightarrow> u32 \<Rightarrow> u32" where
  "clamp_to v high = (if v > high then high else v)"

definition restore_cell :: "text_cursor \<Rightarrow> text_cursor" where
  "restore_cell t =
     (if has_saved t
      then t\<lparr>tcur_screen := vga_write_cell (unat (tcur_row t)) (unat (tcur_col t)) (saved_cell t) (tcur_screen t),
             has_saved := False\<rparr>
      else t)"

definition text_cursor_draw :: "text_cursor \<Rightarrow> text_cursor" where
  "text_cursor_draw t =
     (let t = restore_cell t;
          t = t\<lparr>saved_cell := vga_read_cell (tcur_screen t) (unat (tcur_row t)) (unat (tcur_col t)), has_saved := True\<rparr>;
          ch = 0xDB :: u8;
          cell = ucast ch OR push_bit 8 (ucast (tcur_attr t))
      in t\<lparr>tcur_screen := vga_write_cell (unat (tcur_row t)) (unat (tcur_col t)) cell (tcur_screen t)\<rparr>)"

definition text_cursor_init :: "u32 \<Rightarrow> u32 \<Rightarrow> u8 \<Rightarrow> text_cursor \<Rightarrow> text_cursor" where
  "text_cursor_init col row attr t =
     (let t = restore_cell t
      in text_cursor_draw (t\<lparr>tcur_col := clamp_to col (80 - 1), tcur_row := clamp_to row (25 - 1), tcur_attr := attr,
           accum_x := 0, accum_y := 0\<rparr>))"

text \<open>
  The four loops: every four units of movement are one step of the position, which stops at
  \<open>0\<close> and at \<open>high\<close>.  They return the position, what is left of the movement, and \<open>moved\<close>.
\<close>

function step_forward :: "u32 \<Rightarrow> u32 \<Rightarrow> int \<Rightarrow> bool \<Rightarrow> u32 \<times> int \<times> bool" where
  "step_forward high pos accum moved =
     (if accum \<ge> 4 then step_forward high (if pos < high then pos + 1 else pos) (accum - 4) True else (pos, accum, moved))"
  by pat_completeness auto
termination by (relation "measure (\<lambda>(high, pos, accum, moved). nat accum)") auto

function step_back :: "u32 \<Rightarrow> int \<Rightarrow> bool \<Rightarrow> u32 \<times> int \<times> bool" where
  "step_back pos accum moved =
     (if accum \<le> - 4 then step_back (if pos > 0 then pos - 1 else pos) (accum + 4) True else (pos, accum, moved))"
  by pat_completeness auto
termination by (relation "measure (\<lambda>(pos, accum, moved). nat (- accum))") auto

declare step_forward.simps [simp del] step_back.simps [simp del]

definition move_axis :: "u32 \<Rightarrow> u32 \<Rightarrow> int \<Rightarrow> bool \<Rightarrow> u32 \<times> int \<times> bool" where
  "move_axis high pos accum moved =
     (let (pos, accum, moved) = step_forward high pos accum moved in step_back pos accum moved)"

definition text_cursor_handle_event :: "mouse_event \<Rightarrow> text_cursor \<Rightarrow> text_cursor" where
  "text_cursor_handle_event ev t =
     (let ax = int32 (accum_x t + dx ev);
          ay = int32 (accum_y t + dy ev);
          (col, ax, moved) = move_axis (80 - 1) (tcur_col t) ax False;
          (row, ay, moved) = move_axis (25 - 1) (tcur_row t) ay moved;
          t = t\<lparr>tcur_col := col, tcur_row := row, accum_x := ax, accum_y := ay\<rparr>
      in if moved then text_cursor_draw t else t)"

definition text_cursor_tick :: "mouse \<Rightarrow> text_cursor \<Rightarrow> (mouse \<times> text_cursor) option" where
  "text_cursor_tick = drain mouse_read_event text_cursor_handle_event"

section \<open>The ticks handle every event\<close>

text \<open>
  Both cursor ticks return: they handle the waiting mouse events in the order of their
  arrival, and leave the ring empty.
\<close>

theorem cursor_ticks_drain:
  assumes "mouse_ok m"
  shows "(\<exists>m'. cursor_tick m c = Some (m', fold cursor_handle_event (mouse_contents m) c) \<and> mouse_ok m' \<and> mouse_contents m' = [])
    \<and> (\<exists>m'. text_cursor_tick m t = Some (m', fold text_cursor_handle_event (mouse_contents m) t) \<and> mouse_ok m' \<and> mouse_contents m' = [])"
  unfolding cursor_tick_def text_cursor_tick_def by (intro conjI mq.drain_handles_all assms)

section \<open>The cursor stays on the screen\<close>

text \<open>A position, a movement, and the number of pixels: the new position.\<close>

definition moved_to :: "u32 \<Rightarrow> int \<Rightarrow> u32 \<Rightarrow> int" where
  "moved_to pos d n = max 0 (min (uint n - 1) (uint pos + d))"

lemma clamp_moved:
  assumes "uint pos < 1073741824" and "\<bar>d\<bar> < 1073741824" and "0 < n"
  shows "uint (clamp_u32 (if int32 (sint pos + d) < 0 then 0 else of_int (int32 (sint pos + d))) 0 (n - 1)) = moved_to pos d n"
proof -
  have p: "0 \<le> uint pos" by simp
  have lo: "- 2147483648 \<le> uint pos" using p by linarith
  have s: "sint pos = uint pos" unfolding sint_uint
    by (rule signed_take_bit_int_eq_self) (use assms(1) lo in simp_all)
  define k where "k = uint pos + d"
  have "- 2147483648 \<le> k" "k < 2147483648" using assms p unfolding k_def by linarith+
  then have i: "int32 k = k" by (rule int32_id)
  have n: "uint (n - 1) = uint n - 1" "1 \<le> uint n"
    using assms(3) by (auto simp: uint_sub_if' word_less_def)
  show ?thesis
  proof (cases "k < 0")
    case True
    then show ?thesis using n by (simp add: clamp_u32_def s i moved_to_def k_def [symmetric])
  next
    case False
    have "k < 2147483648" using assms by (simp add: k_def)
    then have w: "uint (of_int k :: u32) = k"
      unfolding uint_word_of_int using False by (intro mod_pos_pos_trivial) simp_all
    show ?thesis unfolding clamp_u32_def s moved_to_def word_less_def k_def [symmetric] i
      using False n w by auto
  qed
qed

text \<open>
  A mouse event moves the square by its movement, stopped at the edges of the screen, so
  that it stays on the screen; the square is drawn there, and nothing but pixels of the screen
  is written.
\<close>

theorem cursor_event_moves:
  assumes ok: "fb_ok (cur_fb c)" and n: "0 < fb_width (cur_fb c)" "0 < fb_height (cur_fb c)"
    and p: "uint (cur_x c) < 1073741824" "uint (cur_y c) < 1073741824" and d: "\<bar>dx ev\<bar> < 1073741824" "\<bar>dy ev\<bar> < 1073741824"
  shows "uint (cur_x (cursor_handle_event ev c)) = moved_to (cur_x c) (dx ev) (fb_width (cur_fb c))
    \<and> uint (cur_y (cursor_handle_event ev c)) = moved_to (cur_y c) (dy ev) (fb_height (cur_fb c))
    \<and> (\<exists>m. cur_fb (cursor_handle_event ev c) = (cur_fb c)\<lparr>fb_mem := m\<rparr>
         \<and> touches (fb_mem (cur_fb c)) m (screen_bytes (cur_fb c)))"
proof -
  have av: "fb_available (cur_fb c)" using ok by (simp add: fb_ok_def)
  note x = clamp_moved [OF p(1) d(1) n(1)] clamp_moved [OF p(2) d(2) n(2)]
  have draw: "cur_x (cursor_draw c') = cur_x c' \<and> cur_y (cursor_draw c') = cur_y c'
      \<and> (\<exists>m. cur_fb (cursor_draw c') = (cur_fb c')\<lparr>fb_mem := m\<rparr> \<and> touches (fb_mem (cur_fb c')) m (screen_bytes (cur_fb c')))"
    if "fb_ok (cur_fb c')" for c'
  proof -
    have "\<exists>m. framebuffer_fill_rect x y w h k (cur_fb c') = (cur_fb c')\<lparr>fb_mem := m\<rparr>
        \<and> touches (fb_mem (cur_fb c')) m (screen_bytes (cur_fb c'))" for x y w h k
      using fill_rect_pixels [OF that, of x y w h k] by blast
    then show ?thesis using that by (simp add: cursor_draw_def Let_def fb_ok_def)
  qed
  show ?thesis
    using draw [of "c\<lparr>cur_x := _, cur_y := _\<rparr>"] ok av n x by (simp add: cursor_handle_event_def Let_def)
qed

section \<open>Steps of the text cursor\<close>

lemma step_forward_eq:
  "0 \<le> accum \<Longrightarrow> pos \<le> high \<Longrightarrow> step_forward high pos accum moved =
     (of_nat (min (unat high) (unat pos + nat (accum div 4))), accum mod 4, moved \<or> 4 \<le> accum)"
proof (induction high pos accum moved rule: step_forward.induct)
  case (1 high pos accum moved)
  show ?case
  proof (cases "4 \<le> accum")
    case True
    let ?p = "if pos < high then pos + 1 else pos"
    have "unat pos < 4294967295" if "pos < high" using that unat32_less [of high] unfolding word_less_nat_alt by linarith
    then have u: "unat ?p = min (unat high) (unat pos + 1)"
      using "1.prems"(2) by (auto simp: unat_plus_if' word_less_nat_alt word_le_nat_alt)
    have "?p \<le> high" unfolding word_le_nat_alt u by simp
    moreover have "nat (accum div 4) = nat ((accum - 4) div 4) + 1"
    proof -
      have "(accum - 4) div 4 = accum div 4 - 1" "1 \<le> accum div 4" using True by auto
      then show ?thesis by linarith
    qed
    then have "min (unat high) (unat ?p + nat ((accum - 4) div 4)) = min (unat high) (unat pos + nat (accum div 4))"
      unfolding u by linarith
    moreover have "(accum - 4) mod 4 = accum mod 4" by presburger
    ultimately show ?thesis using "1.IH" [OF True] True by (subst step_forward.simps) simp
  next
    case False
    then show ?thesis using "1.prems" by (subst step_forward.simps) (simp add: word_le_nat_alt)
  qed
qed

lemma step_back_eq:
  "accum \<le> 0 \<Longrightarrow> step_back pos accum moved =
     (of_nat (unat pos - nat (- accum div 4)), - (- accum mod 4), moved \<or> accum \<le> - 4)"
proof (induction pos accum moved rule: step_back.induct)
  case (1 pos accum moved)
  show ?case
  proof (cases "accum \<le> - 4")
    case True
    let ?p = "if pos > 0 then pos - 1 else pos"
    have u: "unat ?p = unat pos - 1" by (cases "pos = 0") (simp_all add: word_gt_0 unat_minus_one)
    have "nat (- accum div 4) = Suc (nat (- (accum + 4) div 4))" using True by simp
    moreover have "- (accum + 4) mod 4 = - accum mod 4" by presburger
    ultimately show ?thesis using "1.IH" [OF True] True u by (subst step_back.simps) simp
  next
    case False
    then show ?thesis using "1.prems" by (subst step_back.simps) simp
  qed
qed

text \<open>A position, the movement on hand and the highest position: the new position.\<close>

definition stepped :: "u32 \<Rightarrow> int \<Rightarrow> u32 \<Rightarrow> int" where
  "stepped pos accum high = max 0 (min (uint high) (uint pos + accum sdiv 4))"

lemma uint_of_nat32: "n < 4294967296 \<Longrightarrow> uint (of_nat n :: u32) = int n"
  using unat_of_nat32 [of n] by (metis of_nat_unat uint_nat)

text \<open>Both loops after each other: the position moves by the quotient, rounded towards 0.\<close>

lemma move_axis_eq:
  assumes "pos \<le> high"
  shows "\<exists>p. move_axis high pos accum moved = (p, accum smod 4, moved \<or> 4 \<le> \<bar>accum\<bar>) \<and> uint p = stepped pos accum high"
proof (cases "0 \<le> accum")
  case True
  let ?n = "min (unat high) (unat pos + nat (accum div 4))"
  have q: "accum sdiv 4 = accum div 4" "accum smod 4 = accum mod 4"
    using True by (simp_all add: signed_divide_int_def signed_modulo_int_def sgn_if)
  have "0 \<le> accum div 4" "0 \<le> uint pos" "0 \<le> uint high" using True by simp_all
  then have "int ?n = stepped pos accum high" by (simp add: stepped_def q of_nat_min)
  moreover have "?n < 4294967296" using unat32_less [of high] by (simp add: min_less_iff_disj)
  moreover have "step_back (of_nat ?n) (accum mod 4) (moved \<or> 4 \<le> accum) = (of_nat ?n, accum mod 4, moved \<or> 4 \<le> accum)"
    using pos_mod_sign [of 4 accum] by (subst step_back.simps) (simp add: not_le, linarith)
  ultimately show ?thesis using step_forward_eq [OF True assms, of moved] True q
    by (intro exI [of _ "of_nat ?n"]) (simp add: move_axis_def uint_of_nat32 del: of_nat_min of_nat_add)
next
  case False
  then have neg: "accum \<le> 0" "\<not> 4 \<le> accum" by auto
  let ?n = "unat pos - nat (- accum div 4)"
  have q: "accum sdiv 4 = - (- accum div 4)" "accum smod 4 = - (- accum mod 4)"
    using False by (simp_all add: signed_divide_int_def signed_modulo_int_def sgn_if)
  have "0 \<le> - accum div 4" "uint pos \<le> uint high" "0 \<le> uint pos"
    using False assms by (simp_all add: word_le_def)
  moreover have "int (unat pos - nat k) = max 0 (int (unat pos) - k)" if "0 \<le> k" for k using that by linarith
  ultimately have "int ?n = stepped pos accum high" by (simp add: stepped_def q)
  moreover have "?n < 4294967296" using unat32_less [of pos] by linarith
  moreover have "step_forward high pos accum moved = (pos, accum, moved)" using neg by (subst step_forward.simps) simp
  ultimately show ?thesis using step_back_eq [OF neg(1), of pos moved] neg q
    by (intro exI [of _ "of_nat ?n"]) (auto simp: move_axis_def uint_of_nat32 simp del: of_nat_diff)
qed

text \<open>
  The invariant of the text cursor: it is on the screen and less than one step is left over.
\<close>

definition tcur_ok :: "text_cursor \<Rightarrow> bool" where
  "tcur_ok t \<longleftrightarrow> tcur_col t < 80 \<and> tcur_row t < 25 \<and> \<bar>accum_x t\<bar> < 4 \<and> \<bar>accum_y t\<bar> < 4
     \<and> length (back_buffer (tcur_screen t)) = 2000 \<and> length (terminal_buffer (tcur_screen t)) = 2000"

lemma handle_event_eq:
  assumes ok: "tcur_ok t" and d: "\<bar>dx ev\<bar> < 1073741824" "\<bar>dy ev\<bar> < 1073741824"
  shows "\<exists>col row. text_cursor_handle_event ev t =
      (let t' = t\<lparr>tcur_col := col, tcur_row := row, accum_x := (accum_x t + dx ev) smod 4, accum_y := (accum_y t + dy ev) smod 4\<rparr>
       in if 4 \<le> \<bar>accum_x t + dx ev\<bar> \<or> 4 \<le> \<bar>accum_y t + dy ev\<bar> then text_cursor_draw t' else t')
    \<and> uint col = stepped (tcur_col t) (accum_x t + dx ev) 79
    \<and> uint row = stepped (tcur_row t) (accum_y t + dy ev) 24"
proof -
  have i: "int32 (accum_x t + dx ev) = accum_x t + dx ev" "int32 (accum_y t + dy ev) = accum_y t + dy ev"
    using ok d by (auto simp: tcur_ok_def intro!: int32_id)
  have c: "tcur_col t \<le> 79" "tcur_row t \<le> 24" using ok by (auto simp: tcur_ok_def word_less_nat_alt word_le_nat_alt)
  obtain col where col: "move_axis 79 (tcur_col t) (accum_x t + dx ev) False = (col, (accum_x t + dx ev) smod 4, 4 \<le> \<bar>accum_x t + dx ev\<bar>)"
    "uint col = stepped (tcur_col t) (accum_x t + dx ev) 79" using move_axis_eq [OF c(1), of _ False] by auto
  obtain row where row: "move_axis 24 (tcur_row t) (accum_y t + dy ev) (4 \<le> \<bar>accum_x t + dx ev\<bar>)
      = (row, (accum_y t + dy ev) smod 4, 4 \<le> \<bar>accum_x t + dx ev\<bar> \<or> 4 \<le> \<bar>accum_y t + dy ev\<bar>)"
    "uint row = stepped (tcur_row t) (accum_y t + dy ev) 24" using move_axis_eq [OF c(2)] by blast
  show ?thesis using col row
    by (intro exI [of _ col] exI [of _ row]) (simp add: text_cursor_handle_event_def i Let_def)
qed

lemma read_write_cell:
  assumes "r < 25" and "c < 80" and "r' < 25" and "c' < 80" and "length (back_buffer v) = 2000"
  shows "vga_read_cell (vga_write_cell r c x v) r' c' = (if r = r' \<and> c = c' then x else vga_read_cell v r' c')"
    and "length (back_buffer (vga_write_cell r c x v)) = 2000"
proof -
  define i j where "i = r * 80 + c" and "j = r' * 80 + c'"
  have i: "i < 2000" using assms unfolding i_def by linarith
  have "i div 80 = r" "i mod 80 = c" "j div 80 = r'" "j mod 80 = c'" using assms by (simp_all add: i_def j_def)
  then have ij: "i = j \<longleftrightarrow> r = r' \<and> c = c'" by (metis i_def j_def)
  have "vga_read_cell (vga_write_cell r c x v) r' c' = (back_buffer v)[i := x] ! j" "vga_read_cell v r' c' = back_buffer v ! j"
    using assms by (simp_all add: vga_read_cell_def vga_write_cell_def i_def j_def)
  then show "vga_read_cell (vga_write_cell r c x v) r' c' = (if r = r' \<and> c = c' then x else vga_read_cell v r' c')"
    using i assms(5) by (simp add: nth_list_update flip: ij)
qed (use assms in \<open>simp add: vga_write_cell_def\<close>)

lemma text_cursor_draw_fields:
  "tcur_col (text_cursor_draw t) = tcur_col t" "tcur_row (text_cursor_draw t) = tcur_row t"
  "accum_x (text_cursor_draw t) = accum_x t" "accum_y (text_cursor_draw t) = accum_y t"
  "length (back_buffer (tcur_screen (text_cursor_draw t))) = length (back_buffer (tcur_screen t))"
  "length (terminal_buffer (tcur_screen (text_cursor_draw t))) = length (terminal_buffer (tcur_screen t))"
  by (simp_all add: text_cursor_draw_def restore_cell_def vga_write_cell_def Let_def)

text \<open>
  The text cursor follows the mouse: the position moves by one cell for every four units of
  movement, what is left over is kept for the next event, and the position stays on the screen.
\<close>

theorem text_cursor_moves:
  assumes "tcur_ok t" and "\<bar>dx ev\<bar> < 1073741824" and "\<bar>dy ev\<bar> < 1073741824"
  shows "tcur_ok (text_cursor_handle_event ev t)
    \<and> uint (tcur_col (text_cursor_handle_event ev t)) = stepped (tcur_col t) (accum_x t + dx ev) 79
    \<and> uint (tcur_row (text_cursor_handle_event ev t)) = stepped (tcur_row t) (accum_y t + dy ev) 24
    \<and> accum_x (text_cursor_handle_event ev t) = (accum_x t + dx ev) smod 4
    \<and> accum_y (text_cursor_handle_event ev t) = (accum_y t + dy ev) smod 4"
proof -
  have m: "\<bar>x smod 4\<bar> < 4" for x :: int by (simp add: signed_modulo_int_def abs_mult sgn_if)
  obtain col row where e: "text_cursor_handle_event ev t =
      (let t' = t\<lparr>tcur_col := col, tcur_row := row, accum_x := (accum_x t + dx ev) smod 4, accum_y := (accum_y t + dy ev) smod 4\<rparr>
       in if 4 \<le> \<bar>accum_x t + dx ev\<bar> \<or> 4 \<le> \<bar>accum_y t + dy ev\<bar> then text_cursor_draw t' else t')"
    "uint col = stepped (tcur_col t) (accum_x t + dx ev) 79" "uint row = stepped (tcur_row t) (accum_y t + dy ev) 24"
    using handle_event_eq [OF assms] by blast
  have "col < 80" "row < 25" using e(2,3) by (auto simp: word_less_def stepped_def)
  with e assms(1) m show ?thesis by (simp add: Let_def text_cursor_draw_fields tcur_ok_def)
qed

text \<open>
  The text cursor destroys what it passes: the cell kept from under the block is put back
  only after the position has changed, so it goes to the new place.  After a move the block is
  still at the old place, the kept cell is still the one from there, and what was at the new
  place is lost.
\<close>

theorem text_cursor_leaves_block:
  assumes ok: "tcur_ok t" and s: "has_saved t" and d: "\<bar>dx ev\<bar> < 1073741824" "\<bar>dy ev\<bar> < 1073741824"
    and t': "t' = text_cursor_handle_event ev t" and ne: "(tcur_row t', tcur_col t') \<noteq> (tcur_row t, tcur_col t)"
  shows "vga_read_cell (tcur_screen t') (unat (tcur_row t)) (unat (tcur_col t)) = vga_read_cell (tcur_screen t) (unat (tcur_row t)) (unat (tcur_col t))
    \<and> saved_cell t' = saved_cell t
    \<and> vga_read_cell (tcur_screen t') (unat (tcur_row t')) (unat (tcur_col t')) = 0xDB OR push_bit 8 (ucast (tcur_attr t))"
proof -
  obtain col row where e: "text_cursor_handle_event ev t =
      (let t' = t\<lparr>tcur_col := col, tcur_row := row, accum_x := (accum_x t + dx ev) smod 4, accum_y := (accum_y t + dy ev) smod 4\<rparr>
       in if 4 \<le> \<bar>accum_x t + dx ev\<bar> \<or> 4 \<le> \<bar>accum_y t + dy ev\<bar> then text_cursor_draw t' else t')"
    "uint col = stepped (tcur_col t) (accum_x t + dx ev) 79" "uint row = stepped (tcur_row t) (accum_y t + dy ev) 24"
    using handle_event_eq [OF ok d] by blast
  have "col < 80" "row < 25" using e(2,3) by (auto simp: word_less_def stepped_def)
  then have c: "unat col < 80" "unat row < 25" "unat (tcur_col t) < 80" "unat (tcur_row t) < 25"
    "length (back_buffer (tcur_screen t)) = 2000"
    using ok by (simp_all add: word_less_nat_alt tcur_ok_def)
  have moved: "4 \<le> \<bar>accum_x t + dx ev\<bar> \<or> 4 \<le> \<bar>accum_y t + dy ev\<bar>"
  proof (rule ccontr)
    assume nm: "\<not> ?thesis"
    then have "(accum_x t + dx ev) sdiv 4 = 0" "(accum_y t + dy ev) sdiv 4 = 0"
      by (auto simp: signed_divide_int_def div_pos_pos_trivial)
    then have "uint col = uint (tcur_col t)" "uint row = uint (tcur_row t)" using e(2,3) ok
      by (auto simp: stepped_def tcur_ok_def word_less_def)
    then show False using ne e(1) nm by (simp add: t' Let_def word_uint_eq_iff)
  qed
  define t1 where "t1 = t\<lparr>tcur_col := col, tcur_row := row, accum_x := (accum_x t + dx ev) smod 4, accum_y := (accum_y t + dy ev) smod 4\<rparr>"
  have e1: "t' = text_cursor_draw t1" unfolding t' e(1) t1_def using moved by (simp add: Let_def)
  then have p: "tcur_col t' = col" "tcur_row t' = row" by (simp_all add: text_cursor_draw_fields t1_def)
  then have n: "\<not> (unat row = unat (tcur_row t) \<and> unat col = unat (tcur_col t))"
    using ne by (simp add: word_unat_eq_iff)
  define v1 where "v1 = vga_write_cell (unat row) (unat col) (saved_cell t) (tcur_screen t)"
  have v1: "length (back_buffer v1) = 2000" "vga_read_cell v1 (unat row) (unat col) = saved_cell t"
    "vga_read_cell v1 (unat (tcur_row t)) (unat (tcur_col t)) = vga_read_cell (tcur_screen t) (unat (tcur_row t)) (unat (tcur_col t))"
    using c n by (auto simp: v1_def read_write_cell)
  have "tcur_screen t' = vga_write_cell (unat row) (unat col) (0xDB OR push_bit 8 (ucast (tcur_attr t))) v1"
    "saved_cell t' = vga_read_cell v1 (unat row) (unat col)"
    unfolding e1 using s by (simp_all add: t1_def text_cursor_draw_def restore_cell_def Let_def v1_def)
  then show ?thesis unfolding p using c v1 n by (auto simp: read_write_cell)
qed

section \<open>Concrete events\<close>

definition some_event :: "int \<Rightarrow> int \<Rightarrow> mouse_event" where
  "some_event x y = \<lparr>dx = x, dy = y, scroll = 0, buttons = 0\<rparr>"

lemma cursor_ticks_drain_witness:
  "\<exists>m'. text_cursor_tick (buffer_push (some_event 9 0) mouse_start) t = Some (m', text_cursor_handle_event (some_event 9 0) t)"
proof -
  have s: "mouse_ok mouse_start" "mouse_contents mouse_start = []"
    by (simp_all add: mouse_start_def mouse_ok_def mouse_contents_def ring_contents_def ring_count_def)
  have "mouse_ok (buffer_push (some_event 9 0) mouse_start)" "mouse_contents (buffer_push (some_event 9 0) mouse_start) = [some_event 9 0]"
    using mq.put_ok [OF s(1), of "some_event 9 0"] s(2) by simp_all
  with cursor_ticks_drain [of "buffer_push (some_event 9 0) mouse_start"] show ?thesis by fastforce
qed

definition cursor_640 :: cursor where
  "cursor_640 = \<lparr>cur_x = 320, cur_y = 240, cur_color = 0x00FFFFFF, cur_size = 5, cur_fb = fb_640\<rparr>"

lemma cursor_event_moves_witness:
  "uint (cur_x (cursor_handle_event (some_event 400 (-10)) cursor_640)) = 639
    \<and> uint (cur_y (cursor_handle_event (some_event 400 (-10)) cursor_640)) = 230"
proof -
  have c: "cur_fb cursor_640 = fb_640" "cur_x cursor_640 = 320" "cur_y cursor_640 = 240" by (simp_all add: cursor_640_def)
  have f: "fb_width fb_640 = 640" "fb_height fb_640 = 480" by (simp_all add: fb_640_def)
  from cursor_event_moves [of cursor_640 "some_event 400 (-10)"] fb_640_ok show ?thesis
    by (simp add: c f some_event_def moved_to_def)
qed

definition tcur_start :: text_cursor where
  "tcur_start = \<lparr>tcur_col = 5, tcur_row = 5, tcur_attr = 0x70, saved_cell = 0x0741, has_saved = True,
     accum_x = 0, accum_y = 0, tcur_screen = vga_initial (replicate 2000 0)\<rparr>"

lemma tcur_start_ok: "tcur_ok tcur_start"
  by (simp add: tcur_ok_def tcur_start_def vga_initial_def)

lemma text_cursor_moves_witness:
  "uint (tcur_col (text_cursor_handle_event (some_event 9 0) tcur_start)) = 7
    \<and> accum_x (text_cursor_handle_event (some_event 9 0) tcur_start) = 1"
proof -
  have q: "(9 :: int) sdiv 4 = 2" "(9 :: int) smod 4 = 1" by simp_all
  from text_cursor_moves [OF tcur_start_ok, of "some_event 9 0"] show ?thesis
    by (simp add: some_event_def stepped_def q) (simp add: tcur_start_def q)
qed

lemma text_cursor_leaves_block_witness:
  "saved_cell (text_cursor_handle_event (some_event 9 0) tcur_start) = 0x0741"
proof -
  let ?t = "text_cursor_handle_event (some_event 9 0) tcur_start"
  have "tcur_col ?t \<noteq> tcur_col tcur_start"
    by (simp add: text_cursor_handle_event_def some_event_def tcur_start_def move_axis_def step_forward.simps step_back.simps
        text_cursor_draw_def restore_cell_def)
  then have "(tcur_row ?t, tcur_col ?t) \<noteq> (tcur_row tcur_start, tcur_col tcur_start)" by simp
  from text_cursor_leaves_block [OF tcur_start_ok _ _ _ refl this] show ?thesis
    by (simp add: some_event_def) (simp add: tcur_start_def)
qed

end
