(* ===== verification/Timer.thy ===== *)
theory Timer imports Cursors Status begin

text \<open>
  The clock, \<^verbatim>\<open>core/time.c\<close>, and the loading animation of \<^verbatim>\<open>core/status.c\<close>.  The timer
  interrupt counts the ticks and moves the cursor of the mouse.  \<open>sleep\<close> halts the processor
  until enough ticks have come: what the interrupt that ends each halt does is a parameter.
\<close>

record clock =
  ticks :: u32
  seconds :: u32
  previous_seconds :: u32
  mouse_enabled :: int
  tm_mouse :: mouse
  tm_cursor :: cursor
  tm_tcur :: text_cursor

section \<open>Ticks\<close>

definition timer_tick :: "clock \<Rightarrow> clock option" where
  "timer_tick k =
     (let k = k\<lparr>ticks := ticks k + 1\<rparr>
      in map_option (\<lambda>k. if ticks k mod 100 = 0 then k\<lparr>seconds := seconds k + 1\<rparr> else k)
           (if mouse_is_enabled (mouse_enabled k) \<noteq> 0
            then if fb_available (cur_fb (tm_cursor k))
                 then map_option (\<lambda>(m, c). k\<lparr>tm_mouse := m, tm_cursor := c\<rparr>) (cursor_tick (tm_mouse k) (tm_cursor k))
                 else map_option (\<lambda>(m, t). k\<lparr>tm_mouse := m, tm_tcur := t\<rparr>) (text_cursor_tick (tm_mouse k) (tm_tcur k))
            else Some k))"

definition timer_get_ticks :: "clock \<Rightarrow> u32" where "timer_get_ticks k = ticks k"

definition timer_get_seconds :: "clock \<Rightarrow> u32" where "timer_get_seconds k = seconds k"

text \<open>The text screen is that of the text cursor.\<close>

definition on_text :: "(vga \<Rightarrow> vga) \<Rightarrow> clock \<Rightarrow> clock" where
  "on_text f k = k\<lparr>tm_tcur := (tm_tcur k)\<lparr>tcur_screen := f (tcur_screen (tm_tcur k))\<rparr>\<rparr>"

definition print_seconds :: "clock \<Rightarrow> clock" where
  "print_seconds k =
     (let current = timer_get_seconds k
      in if previous_seconds k \<noteq> current
         then (on_text (\<lambda>v. vga_print (bytes_of '' seconds passed since boot\<newline>'') (vga_print_dec current v)) k)
                \<lparr>previous_seconds := current\<rparr>
         else k)"

section \<open>Sleeping\<close>

text \<open>\<open>irq i\<close> is what the interrupt does that ends the \<open>i\<close>-th halt.\<close>

partial_function (option) sleep_loop :: "(nat \<Rightarrow> clock \<Rightarrow> clock option) \<Rightarrow> u32 \<Rightarrow> u32 \<Rightarrow> nat \<Rightarrow> clock \<Rightarrow> (nat \<times> clock) option" where
  "sleep_loop irq start wait_ticks i k =
     (if ticks k - start < wait_ticks
      then Option.bind (irq i k) (sleep_loop irq start wait_ticks (i + 1))
      else Some (i, k))"

definition sleep :: "(nat \<Rightarrow> clock \<Rightarrow> clock option) \<Rightarrow> u32 \<Rightarrow> nat \<Rightarrow> clock \<Rightarrow> (nat \<times> clock) option" where
  "sleep irq ms i k = (let start = ticks k; wait_ticks = ms div 10 in sleep_loop irq start wait_ticks i k)"

section \<open>The loading animation\<close>

primrec animation_loop :: "(nat \<Rightarrow> clock \<Rightarrow> clock option) \<Rightarrow> u32 \<Rightarrow> nat \<Rightarrow> nat \<times> clock \<Rightarrow> (nat \<times> clock) option" where
  "animation_loop irq delay 0 s = Some s"
| "animation_loop irq delay (Suc n) s =
     Option.bind (sleep irq delay (fst s) (on_text (vga_print (bytes_of ''.'')) (snd s))) (animation_loop irq delay n)"

definition status_loading_animation :: "(nat \<Rightarrow> clock \<Rightarrow> clock option) \<Rightarrow> u32 \<Rightarrow> nat \<Rightarrow> clock \<Rightarrow> (nat \<times> clock) option" where
  "status_loading_animation irq duration_ms i k =
     (let current = vga_get_column (tcur_screen (tm_tcur k))
      in if current \<ge> 60 then Some (i, k)
         else let dots = 60 - current
         in if dots = 0 then Some (i, k)
         else let delay = duration_ms div of_nat dots;
                  delay = (if delay = 0 then 1 else delay)
         in animation_loop irq delay dots (i, k))"

section \<open>The count of the seconds\<close>

lemma timer_tick_runs:
  assumes "mouse_ok (tm_mouse k)"
  shows "\<exists>k'. timer_tick k = Some k' \<and> mouse_ok (tm_mouse k') \<and> ticks k' = ticks k + 1
    \<and> seconds k' = (if (ticks k + 1) mod 100 = 0 then seconds k + 1 else seconds k)"
proof -
  obtain m1 c1 where c: "cursor_tick (tm_mouse k) (tm_cursor k) = Some (m1, c1)" "mouse_ok m1"
    using mq.drain_handles_all [OF assms, of cursor_handle_event "tm_cursor k"] unfolding cursor_tick_def by blast
  obtain m2 t2 where t: "text_cursor_tick (tm_mouse k) (tm_tcur k) = Some (m2, t2)" "mouse_ok m2"
    using mq.drain_handles_all [OF assms, of text_cursor_handle_event "tm_tcur k"] unfolding text_cursor_tick_def by blast
  let ?k = "if mouse_is_enabled (mouse_enabled k) \<noteq> 0
    then if fb_available (cur_fb (tm_cursor k)) then k\<lparr>ticks := ticks k + 1, tm_mouse := m1, tm_cursor := c1\<rparr>
         else k\<lparr>ticks := ticks k + 1, tm_mouse := m2, tm_tcur := t2\<rparr>
    else k\<lparr>ticks := ticks k + 1\<rparr>"
  have "timer_tick k = Some (if (ticks k + 1) mod 100 = 0 then ?k\<lparr>seconds := seconds k + 1\<rparr> else ?k)"
    by (simp add: timer_tick_def Let_def c(1) t(1))
  moreover have "mouse_ok (tm_mouse ?k)" "ticks ?k = ticks k + 1" "seconds ?k = seconds k" using c(2) t(2) assms by simp_all
  ultimately show ?thesis by auto
qed

primrec tick_run :: "nat \<Rightarrow> clock \<Rightarrow> clock option" where
  "tick_run 0 k = Some k"
| "tick_run (Suc n) k = Option.bind (timer_tick k) (tick_run n)"

lemma div_100_Suc: "Suc n div 100 = (if Suc n mod 100 = 0 then n div 100 + 1 else n div 100)" for n :: nat
  using div_Suc [of n 100] by simp

text \<open>
  The seconds follow the ticks: from a clock whose seconds are its ticks divided by 100, any
  number of ticks returns and keeps it so, until the counter of the ticks wraps.
\<close>

theorem timer_counts_seconds:
  assumes "mouse_ok (tm_mouse k)" and "unat (seconds k) = unat (ticks k) div 100" and "unat (ticks k) + n < 4294967296"
  shows "\<exists>k'. tick_run n k = Some k' \<and> mouse_ok (tm_mouse k') \<and> unat (ticks k') = unat (ticks k) + n
    \<and> unat (seconds k') = unat (ticks k') div 100"
  using assms
proof (induction n arbitrary: k)
  case 0
  then show ?case by simp
next
  case (Suc n)
  from timer_tick_runs [OF Suc.prems(1)] obtain k1 where k1: "timer_tick k = Some k1" "mouse_ok (tm_mouse k1)"
    "ticks k1 = ticks k + 1" "seconds k1 = (if (ticks k + 1) mod 100 = 0 then seconds k + 1 else seconds k)" by blast
  have t: "unat (ticks k1) = unat (ticks k) + 1" using Suc.prems(3) by (simp add: k1(3) unat_plus_if')
  have z: "(ticks k + 1) mod 100 = 0 \<longleftrightarrow> Suc (unat (ticks k)) mod 100 = 0"
    using t k1(3) by (simp add: word_unat_eq_iff unat_mod)
  have "unat (seconds k) + 1 < 4294967296" using Suc.prems(2,3) by simp
  then have "unat (seconds k1) = unat (ticks k1) div 100"
    unfolding t k1(4) z using Suc.prems(2) div_100_Suc [of "unat (ticks k)"] by (simp add: unat_plus_if')
  from Suc.IH [OF k1(2) this] Suc.prems(3) t k1(1) show ?case by simp
qed

section \<open>Sleep returns when its time has passed\<close>

text \<open>
  The interrupts that end the halts: the timer's, at the places that \<open>timer\<close> says, and others,
  which do not change the ticks; the timer never stops.
\<close>

definition irqs_ok :: "(nat \<Rightarrow> clock \<Rightarrow> clock option) \<Rightarrow> (nat \<Rightarrow> bool) \<Rightarrow> bool" where
  "irqs_ok irq timer \<longleftrightarrow> (\<forall>i k. mouse_ok (tm_mouse k) \<longrightarrow> (\<exists>k'. irq i k = Some k' \<and> mouse_ok (tm_mouse k')
     \<and> ticks k' = (if timer i then ticks k + 1 else ticks k))) \<and> (\<forall>i. \<exists>j\<ge>i. timer j)"

lemma sleep_to_next_tick:
  assumes "irqs_ok irq timer" and "timer (i + d)" and "\<forall>x<d. \<not> timer (i + x)"
    and "mouse_ok (tm_mouse k)" and "ticks k - start < w"
  shows "\<exists>k'. sleep_loop irq start w i k = sleep_loop irq start w (i + d + 1) k' \<and> mouse_ok (tm_mouse k')
    \<and> ticks k' = ticks k + 1"
  using assms(2-)
proof (induction d arbitrary: i k)
  case 0
  then obtain k' where "irq i k = Some k'" "mouse_ok (tm_mouse k')" "ticks k' = ticks k + 1"
    using assms(1) by (fastforce simp: irqs_ok_def)
  then show ?case using 0 by (subst sleep_loop.simps) auto
next
  case (Suc d)
  have "\<not> timer i" using Suc.prems(2) by (metis add_0_right zero_less_Suc)
  then obtain k1 where k1: "irq i k = Some k1" "mouse_ok (tm_mouse k1)" "ticks k1 = ticks k"
    using assms(1) Suc.prems(3) by (fastforce simp: irqs_ok_def)
  have "\<forall>x<d. \<not> timer (i + 1 + x)" using Suc.prems(2) by (metis Suc_less_eq add_Suc_right add_Suc_shift plus_1_eq_Suc add.commute)
  from Suc.IH [of "i + 1" k1, OF _ this k1(2)] Suc.prems k1 show ?case
    by (subst sleep_loop.simps) simp
qed

lemma next_timer:
  assumes "irqs_ok irq timer"
  shows "\<exists>d. timer (i + d) \<and> (\<forall>x<d. \<not> timer (i + x))"
proof -
  obtain j where "i \<le> j" "timer j" using assms unfolding irqs_ok_def by blast
  then have "timer (i + (j - i))" by simp
  from exists_least_iff [of "\<lambda>d. timer (i + d)"] this show ?thesis by blast
qed

text \<open>
  \<open>sleep\<close> returns, as soon as as many timer interrupts have come as the time has tens of
  milliseconds, whatever other interrupts come between and even when the counter of the ticks
  wraps meanwhile.
\<close>

theorem sleep_returns:
  assumes irq: "irqs_ok irq timer" and k: "mouse_ok (tm_mouse k)"
  shows "\<exists>j k'. sleep irq ms i k = Some (j, k') \<and> ticks k' - ticks k = ms div 10
    \<and> length (filter timer [i..<j]) = unat (ms div 10)"
proof -
  have "\<exists>j k'. sleep_loop irq start w i k = Some (j, k') \<and> ticks k' - start = w \<and> i \<le> j
      \<and> length (filter timer [i..<j]) = unat w - unat (ticks k - start)"
    if "mouse_ok (tm_mouse k)" "ticks k - start \<le> w" for start w i k
    using that
  proof (induction "unat w - unat (ticks k - start)" arbitrary: i k)
    case 0
    then have "ticks k - start = w" by (simp add: word_le_nat_alt word_unat_eq_iff)
    then show ?case by (subst sleep_loop.simps) simp
  next
    case (Suc n)
    then have less: "ticks k - start < w" by (simp add: word_less_nat_alt)
    obtain d where d: "timer (i + d)" "\<forall>x<d. \<not> timer (i + x)" using next_timer [OF irq] by blast
    obtain k1 where k1: "sleep_loop irq start w i k = sleep_loop irq start w (i + d + 1) k1" "mouse_ok (tm_mouse k1)"
      "ticks k1 = ticks k + 1" using sleep_to_next_tick [OF irq d Suc.prems(1) less] by blast
    define x where "x = ticks k - start"
    have "ticks k1 - start = x + 1" by (simp add: k1(3) x_def)
    moreover have "unat x + 1 < 4294967296" using less unat32_less [of w] unfolding x_def [symmetric] word_less_nat_alt by linarith
    ultimately have e: "unat (ticks k1 - start) = unat (ticks k - start) + 1" by (simp add: x_def [symmetric] unat_plus_if')
    then have "n = unat w - unat (ticks k1 - start)" "ticks k1 - start \<le> w"
      using Suc.hyps(2) less by (auto simp: word_le_nat_alt word_less_nat_alt)
    from Suc.hyps(1) [OF this(1) k1(2) this(2), of "i + d + 1"] obtain j k' where
      r: "sleep_loop irq start w (i + d + 1) k1 = Some (j, k')" "ticks k' - start = w" "i + d + 1 \<le> j"
      "length (filter timer [i + d + 1..<j]) = unat w - unat (ticks k1 - start)" by blast
    obtain m where m: "j = i + d + (1 + m)" using r(3) by (metis add.assoc le_Suc_ex)
    have "[i..<j] = [i..<i + d] @ (i + d) # [i + d + 1..<j]"
      unfolding m by (subst upt_add_eq_append) (simp_all add: upt_conv_Cons)
    moreover have "filter timer [i..<i + d] = []" using d(2) by (auto simp: filter_empty_conv) (metis le_Suc_ex nat_add_left_cancel_less)
    ultimately have "length (filter timer [i..<j]) = unat w - unat (ticks k - start)"
      using r(4) d(1) e less by (simp add: word_less_nat_alt)
    then show ?case using r k1(1) by (intro exI [of _ j] exI [of _ k']) simp
  qed
  from this [of k "ticks k" "ms div 10" i] k show ?thesis by (auto simp: sleep_def Let_def)
qed

text \<open>Without timer interrupts (they are off, say) \<open>sleep\<close> never returns, unless it has nothing to wait for.\<close>

definition no_ticks :: "(nat \<Rightarrow> clock \<Rightarrow> clock option) \<Rightarrow> bool" where
  "no_ticks irq \<longleftrightarrow> (\<forall>i k k'. irq i k = Some k' \<longrightarrow> ticks k' = ticks k)"

lemma sleep_loop_stuck:
  assumes run: "sleep_loop irq start w i k = Some r"
  shows "no_ticks irq \<longrightarrow> \<not> ticks k - start < w"
proof (rule sleep_loop.raw_induct [OF _ run])
  fix sl irq start w i k y
  assume ih: "\<And>irq start w i k y. sl irq start w i k = Some y \<Longrightarrow> no_ticks irq \<longrightarrow> \<not> ticks k - start < w"
    and body: "(if ticks k - start < w then Option.bind (irq i k) (sl irq start w (i + 1)) else Some (i, k)) = Some y"
  show "no_ticks irq \<longrightarrow> \<not> ticks k - start < w"
  proof (intro impI notI)
    assume nt: "no_ticks irq" and less: "ticks k - start < w"
    with body obtain k' where k': "irq i k = Some k'" "sl irq start w (i + 1) k' = Some y" by (auto simp: bind_eq_Some_conv)
    then have "ticks k' = ticks k" using nt unfolding no_ticks_def by blast
    with ih [OF k'(2)] nt less show False by simp
  qed
qed

theorem sleep_needs_timer:
  assumes "no_ticks irq" and "10 \<le> ms"
  shows "sleep irq ms i k = None"
proof (cases "sleep irq ms i k")
  case (Some r)
  have "0 < ms div 10" using assms(2) by (simp add: word_less_nat_alt word_le_nat_alt unat_div)
  with sleep_loop_stuck [of irq] assms(1) Some show ?thesis by (fastforce simp: sleep_def Let_def)
qed

section \<open>A clock\<close>

definition clock_start :: clock where
  "clock_start = \<lparr>ticks = 0, seconds = 0, previous_seconds = 0, mouse_enabled = 0, tm_mouse = mouse_start,
     tm_cursor = cursor_640, tm_tcur = tcur_start\<rparr>"

lemma clock_start_ok: "mouse_ok (tm_mouse clock_start)"
  by (simp add: clock_start_def mouse_start_def mouse_ok_def)

lemma timer_counts_seconds_witness: "\<exists>k'. tick_run 250 clock_start = Some k' \<and> unat (seconds k') = 2"
proof -
  have z: "unat (ticks clock_start) = 0" "unat (seconds clock_start) = 0" by (simp_all add: clock_start_def)
  from timer_counts_seconds [OF clock_start_ok, of 250] show ?thesis unfolding z by auto
qed

lemma sleep_returns_witness:
  "\<exists>j k'. sleep (\<lambda>_. timer_tick) 1700 0 clock_start = Some (j, k') \<and> ticks k' - ticks clock_start = 170"
proof -
  have "irqs_ok (\<lambda>_. timer_tick) (\<lambda>_. True)"
    using timer_tick_runs by (fastforce simp: irqs_ok_def)
  from sleep_returns [OF this clock_start_ok, of 1700 0] show ?thesis by auto
qed

end
