(* ===== verification/Descriptors.thy ===== *)
theory Descriptors imports Prelude begin

text \<open>
  The processor's tables: segment descriptors (\<^verbatim>\<open>arch/x86/gdt.c\<close>, \<^verbatim>\<open>boot/gdt_flush.s\<close>), the task
  state segment (\<^verbatim>\<open>arch/x86/tss.c\<close>, \<^verbatim>\<open>boot/tss_flush.s\<close>) and the interrupt gates (\<^verbatim>\<open>core/idt.c\<close>,
  \<^verbatim>\<open>boot/idt_load.s\<close>).  The addresses of the three tables and of the interrupt stubs are given
  by the linker: they are parameters.  What the processor makes of an entry is the
  specification the entries are compared with.
\<close>

record gdt_entry =
  limit_low :: u16
  base_low :: u16
  base_middle :: u8
  acc :: u8
  granularity :: u8
  base_high :: u8

record idt_entry =
  offset_low :: u16
  selector :: u16
  idt_zero :: u8
  type_attr :: u8
  offset_high :: u16

record tables =
  gdt :: "gdt_entry list"
  gp_limit :: u16
  gp_base :: u32
  gdt_at :: u32
  tss_at :: u32
  tss_ss0 :: u32
  tss_esp0_field :: u32
  tss_iomap_base :: u16
  idt :: "idt_entry list"
  idtp_limit :: u16
  idtp_base :: u32
  idt_at :: u32
  gdtr :: "(u16 \<times> u32) option"
  idtr :: "(u16 \<times> u32) option"
  cs_reg :: u16
  data_regs :: "u16 list"
  tr_reg :: u16

section \<open>Segments\<close>

definition gdt_set_entry :: "nat \<Rightarrow> u32 \<Rightarrow> u32 \<Rightarrow> u8 \<Rightarrow> u8 \<Rightarrow> tables \<Rightarrow> tables" where
  "gdt_set_entry num base limit access gran t = t\<lparr>gdt := (gdt t)[num :=
     \<lparr>limit_low = ucast (limit AND 0xFFFF), base_low = ucast (base AND 0xFFFF),
      base_middle = ucast (drop_bit 16 base AND 0xFF), acc = access,
      granularity = ucast (drop_bit 16 limit AND 0x0F) OR (gran AND 0xF0),
      base_high = ucast (drop_bit 24 base AND 0xFF)\<rparr>]\<rparr>"

text \<open>The entry that a selector names, if it lies in the loaded table.\<close>

definition descriptor_of :: "tables \<Rightarrow> u16 \<Rightarrow> gdt_entry option" where
  "descriptor_of t sel = (case gdtr t of None \<Rightarrow> None | Some (limit, base) \<Rightarrow>
     if base = gdt_at t \<and> unat sel div 8 < length (gdt t) \<and> unat sel + 7 \<le> unat limit then Some (gdt t ! (unat sel div 8)) else None)"

text \<open>
  The processor marks the descriptor whose selector is loaded: a segment as accessed (bit 0 of its
  access byte), a task state segment as busy (bit 1).  It writes the mark back to the table.
\<close>

definition mark_descriptor :: "u16 \<Rightarrow> u8 \<Rightarrow> tables \<Rightarrow> tables" where
  "mark_descriptor sel flag t = (case descriptor_of t sel of None \<Rightarrow> t
     | Some e \<Rightarrow> t\<lparr>gdt := (gdt t)[unat sel div 8 := e\<lparr>acc := acc e OR flag\<rparr>]\<rparr>)"

text \<open>
  \<open>gdt_flush\<close> loads the table, then the registers \<open>ds\<close>, \<open>es\<close>, \<open>fs\<close>, \<open>gs\<close>, \<open>ss\<close> and, by a far jump, \<open>cs\<close>.
\<close>

definition gdt_flush :: "tables \<Rightarrow> tables" where
  "gdt_flush t =
     (let t = t\<lparr>gdtr := Some (gp_limit t, gp_base t)\<rparr>;
          t = mark_descriptor 0x10 1 (t\<lparr>data_regs := replicate 5 0x10\<rparr>)
      in mark_descriptor 0x08 1 (t\<lparr>cs_reg := 0x08\<rparr>))"

definition gdt_init :: "tables \<Rightarrow> tables" where
  "gdt_init t =
     (let t = t\<lparr>gp_limit := 8 * 6 - 1\<rparr>;
          t = t\<lparr>gp_base := gdt_at t\<rparr>;
          t = gdt_set_entry 0 0 0 0 0 t;
          t = gdt_set_entry 1 0 0xFFFFFFFF 0x9A 0xCF t;
          t = gdt_set_entry 2 0 0xFFFFFFFF 0x92 0xCF t;
          t = gdt_set_entry 3 0 0xFFFFFFFF 0xFA 0xCF t;
          t = gdt_set_entry 4 0 0xFFFFFFFF 0xF2 0xCF t
      in gdt_flush t)"

section \<open>The task state segment\<close>

definition tss_flush :: "tables \<Rightarrow> tables" where
  "tss_flush t = mark_descriptor 0x28 2 (t\<lparr>tr_reg := 0x28\<rparr>)"

text \<open>The structure has 26 fields, 104 bytes.\<close>

definition tss_init :: "tables \<Rightarrow> tables" where
  "tss_init t =
     (let base = tss_at t;
          limit = 104;
          t = gdt_set_entry 5 base limit 0x89 0x40 t;
          t = t\<lparr>tss_ss0 := 0x10, tss_esp0_field := 0, tss_iomap_base := 104\<rparr>
      in tss_flush t)"

section \<open>Interrupt gates\<close>

definition idt_set_gate :: "nat \<Rightarrow> u32 \<Rightarrow> tables \<Rightarrow> tables" where
  "idt_set_gate n handler t = t\<lparr>idt := (idt t)[n :=
     \<lparr>offset_low = ucast (handler AND 0xFFFF), selector = 0x08, idt_zero = 0, type_attr = 0x8E,
      offset_high = ucast (drop_bit 16 handler AND 0xFFFF)\<rparr>]\<rparr>"

definition idt_load :: "tables \<Rightarrow> tables" where
  "idt_load t = t\<lparr>idtr := Some (idtp_limit t, idtp_base t)\<rparr>"

definition no_gate :: idt_entry where
  "no_gate = \<lparr>offset_low = 0, selector = 0, idt_zero = 0, type_attr = 0, offset_high = 0\<rparr>"

text \<open>\<open>isr\<close> and \<open>irq\<close> are the addresses of the stubs.\<close>

definition idt_init :: "(nat \<Rightarrow> u32) \<Rightarrow> (nat \<Rightarrow> u32) \<Rightarrow> tables \<Rightarrow> tables" where
  "idt_init isr irq t =
     (let t = t\<lparr>idtp_limit := 8 * 256 - 1\<rparr>;
          t = t\<lparr>idtp_base := idt_at t\<rparr>;
          t = fold (\<lambda>i t. t\<lparr>idt := (idt t)[i := no_gate]\<rparr>) [0..<256] t;
          t = fold (\<lambda>i. idt_set_gate (32 + i) (irq i)) [0..<16] t;
          t = fold (\<lambda>i. idt_set_gate i (isr i)) [0..<32] t
      in idt_load t)"

section \<open>What the processor reads\<close>

text \<open>Base, limit in bytes (the granularity bit counts it in pages), access byte and flags.\<close>

definition seg_base :: "gdt_entry \<Rightarrow> u32" where
  "seg_base e = ucast (base_low e) OR push_bit 16 (ucast (base_middle e)) OR push_bit 24 (ucast (base_high e))"

definition seg_limit_field :: "gdt_entry \<Rightarrow> u32" where
  "seg_limit_field e = ucast (limit_low e) OR push_bit 16 (ucast (granularity e AND 0x0F))"

definition seg_limit :: "gdt_entry \<Rightarrow> u32" where
  "seg_limit e = (if bit (granularity e) 7 then push_bit 12 (seg_limit_field e) OR 0xFFF else seg_limit_field e)"

definition gate_offset :: "idt_entry \<Rightarrow> u32" where
  "gate_offset e = ucast (offset_low e) OR push_bit 16 (ucast (offset_high e))"

lemma masks:
  "(0xFFFF :: u32) = mask 16" "(0xFF :: u32) = mask 8" "(0x0F :: u32) = mask 4" "(0x0F :: u8) = mask 4"
  "(0xF0 :: u8) = push_bit 4 (mask 4)" "(0xFFFFF :: u32) = mask 20" "(0xFFF :: u32) = mask 12"
  by (simp_all add: mask_eq_exp_minus_1)

lemma base_parts:
  "ucast (ucast (base AND 0xFFFF) :: u16) OR push_bit 16 (ucast (ucast (drop_bit 16 base AND 0xFF) :: u8))
      OR push_bit 24 (ucast (ucast (drop_bit 24 base AND 0xFF) :: u8)) = (base :: u32)"
proof (rule bit_word_eqI)
  fix i assume "i < LENGTH(32)"
  then consider "i < 16" | "16 \<le> i" "i < 24" | "24 \<le> i" "i < 32" by force
  then show "bit (ucast (ucast (base AND 0xFFFF) :: u16) OR push_bit 16 (ucast (ucast (drop_bit 16 base AND 0xFF) :: u8))
      OR push_bit 24 (ucast (ucast (drop_bit 24 base AND 0xFF) :: u8)) :: u32) i = bit base i"
    unfolding masks by cases (auto simp: bit_simps)
qed

lemma limit_parts:
  "ucast (ucast (limit AND 0xFFFF) :: u16) OR push_bit 16 (ucast ((ucast (drop_bit 16 limit AND 0x0F) OR (gran AND 0xF0)) AND 0x0F :: u8))
     = (limit :: u32) AND 0xFFFFF"
proof (rule bit_word_eqI)
  fix i assume "i < LENGTH(32)"
  then consider "i < 16" | "16 \<le> i" "i < 20" | "20 \<le> i" "i < 32" by force
  then show "bit (ucast (ucast (limit AND 0xFFFF) :: u16)
      OR push_bit 16 (ucast ((ucast (drop_bit 16 limit AND 0x0F) OR (gran AND 0xF0)) AND 0x0F :: u8)) :: u32) i = bit (limit AND 0xFFFFF) i"
    unfolding masks by cases (auto simp: bit_simps)
qed

lemma gate_parts:
  "ucast (ucast (h AND 0xFFFF) :: u16) OR push_bit 16 (ucast (ucast (drop_bit 16 h AND 0xFFFF) :: u16)) = (h :: u32)"
proof (rule bit_word_eqI)
  fix i assume "i < LENGTH(32)"
  then consider "i < 16" | "16 \<le> i" "i < 32" by force
  then show "bit (ucast (ucast (h AND 0xFFFF) :: u16) OR push_bit 16 (ucast (ucast (drop_bit 16 h AND 0xFFFF) :: u16)) :: u32) i = bit h i"
    unfolding masks by cases (auto simp: bit_simps)
qed

lemma flag_parts: "(ucast ((w :: u32) AND 0x0F) OR (gran AND 0xF0)) AND 0xF0 = (gran :: u8) AND 0xF0"
proof (rule bit_word_eqI)
  fix i assume "i < LENGTH(8)"
  then consider "i < 4" | "4 \<le> i" "i < 8" by force
  then show "bit ((ucast (w AND 0x0F) OR (gran AND 0xF0)) AND 0xF0) i = bit (gran AND 0xF0) i"
    unfolding masks by cases (auto simp: bit_simps)
qed

text \<open>
  A segment descriptor round trip: from the entry that \<open>gdt_set_entry\<close> writes the processor
  reads the base, the lower 20 bits of the limit, the access byte and the upper four flags that
  were given, and no other entry changes.
\<close>

theorem gdt_entry_roundtrip:
  assumes "num < length (gdt t)"
  shows "let e = gdt (gdt_set_entry num base limit access gran t) ! num
    in seg_base e = base \<and> seg_limit_field e = limit AND 0xFFFFF \<and> acc e = access \<and> granularity e AND 0xF0 = gran AND 0xF0
       \<and> (\<forall>i. i \<noteq> num \<longrightarrow> gdt (gdt_set_entry num base limit access gran t) ! i = gdt t ! i)"
  using assms by (simp add: gdt_set_entry_def seg_base_def seg_limit_field_def base_parts limit_parts flag_parts Let_def)

text \<open>
  An interrupt gate round trip: the gate leads to the handler that was given, through the
  kernel's code segment, and is a present interrupt gate of ring 0.
\<close>

theorem idt_gate_roundtrip:
  assumes "n < length (idt t)"
  shows "gate_offset (idt (idt_set_gate n h t) ! n) = h \<and> selector (idt (idt_set_gate n h t) ! n) = 0x08
    \<and> type_attr (idt (idt_set_gate n h t) ! n) = 0x8E \<and> (\<forall>i. i \<noteq> n \<longrightarrow> idt (idt_set_gate n h t) ! i = idt t ! i)"
  using assms by (simp add: idt_set_gate_def gate_offset_def gate_parts)

section \<open>The tables after the boot\<close>

lemma gdt_set_entry_fields [simp]:
  "length (gdt (gdt_set_entry n b l a g t)) = length (gdt t)" "gp_limit (gdt_set_entry n b l a g t) = gp_limit t"
  "gp_base (gdt_set_entry n b l a g t) = gp_base t" "gdt_at (gdt_set_entry n b l a g t) = gdt_at t"
  "gdtr (gdt_set_entry n b l a g t) = gdtr t" "cs_reg (gdt_set_entry n b l a g t) = cs_reg t"
  "data_regs (gdt_set_entry n b l a g t) = data_regs t" "tss_at (gdt_set_entry n b l a g t) = tss_at t"
  by (simp_all add: gdt_set_entry_def)

lemma idt_set_gate_fields [simp]:
  "length (idt (idt_set_gate n h t)) = length (idt t)" "idtp_limit (idt_set_gate n h t) = idtp_limit t"
  "idtp_base (idt_set_gate n h t) = idtp_base t" "idt_at (idt_set_gate n h t) = idt_at t"
  by (simp_all add: idt_set_gate_def)

lemma mark_present:
  "gdtr t = Some (47, gdt_at t) \<Longrightarrow> length (gdt t) = 6 \<Longrightarrow> unat sel + 7 \<le> 47 \<Longrightarrow>
   mark_descriptor sel f t = t\<lparr>gdt := (gdt t)[unat sel div 8 := (gdt t ! (unat sel div 8))\<lparr>acc := acc (gdt t ! (unat sel div 8)) OR f\<rparr>]\<rparr>"
  by (simp add: mark_descriptor_def descriptor_of_def)

lemma seg_acc [simp]: "seg_base (e\<lparr>acc := x\<rparr>) = seg_base e" "seg_limit (e\<lparr>acc := x\<rparr>) = seg_limit e"
  by (simp_all add: seg_base_def seg_limit_def seg_limit_field_def)

text \<open>The first five entries, and what the processor has loaded.\<close>

lemma gdt_init_loads:
  assumes "length (gdt t) = 6"
  defines "t' \<equiv> gdt_init t"
  shows "length (gdt t') = 6" and "gdtr t' = Some (47, gdt_at t)" and "gdt_at t' = gdt_at t" and "tss_at t' = tss_at t"
    and "cs_reg t' = 0x08" and "data_regs t' = replicate 5 0x10"
    and "acc (gdt t' ! 0) = 0"
    and "acc (gdt t' ! 1) = 0x9B \<and> seg_base (gdt t' ! 1) = 0 \<and> seg_limit (gdt t' ! 1) = 0xFFFFFFFF"
    and "acc (gdt t' ! 2) = 0x93 \<and> seg_base (gdt t' ! 2) = 0 \<and> seg_limit (gdt t' ! 2) = 0xFFFFFFFF"
    and "acc (gdt t' ! 3) = 0xFA \<and> acc (gdt t' ! 4) = 0xF2"
  using assms(1)
  by (simp_all add: t'_def gdt_init_def gdt_flush_def Let_def mark_present gdt_set_entry_def seg_base_def
      seg_limit_def seg_limit_field_def)

text \<open>
  C29. After \<open>gdt_init\<close> and \<open>tss_init\<close> every selector the processor has loaded names a present
  descriptor of its kind: the code register a ring 0 code segment of four gigabytes, the five data
  registers a writable ring 0 data segment of four gigabytes, and the task register the task
  state segment at its address, with a limit of 104 (one more than its last byte).  The processor
  has marked the segments as accessed and the task state segment as busy; the descriptors for
  user mode, which nothing has loaded, are not marked.
\<close>

theorem segments_loaded:
  assumes "length (gdt t) = 6" and t': "t' = tss_init (gdt_init t)"
  shows "(\<exists>e. descriptor_of t' (cs_reg t') = Some e \<and> acc e = 0x9B \<and> seg_base e = 0 \<and> seg_limit e = 0xFFFFFFFF)
    \<and> length (data_regs t') = 5
    \<and> (\<forall>r\<in>set (data_regs t'). \<exists>e. descriptor_of t' r = Some e \<and> acc e = 0x93 \<and> seg_base e = 0 \<and> seg_limit e = 0xFFFFFFFF)
    \<and> (\<exists>e. descriptor_of t' (tr_reg t') = Some e \<and> acc e = 0x8B \<and> seg_base e = tss_at t \<and> seg_limit e = 104)
    \<and> acc (gdt t' ! 0) = 0 \<and> acc (gdt t' ! 3) = 0xFA \<and> acc (gdt t' ! 4) = 0xF2"
proof -
  note g = gdt_init_loads [OF assms(1)]
  define t1 where "t1 = gdt_set_entry 5 (tss_at t) 104 0x89 0x40 (gdt_init t)"
  have l1: "length (gdt t1) = 6" "gdtr t1 = Some (47, gdt_at t1)" using g by (simp_all add: t1_def)
  have t1': "t' = mark_descriptor 0x28 2 (t1\<lparr>tss_ss0 := 0x10, tss_esp0_field := 0, tss_iomap_base := 104, tr_reg := 0x28\<rparr>)"
    using g(4) by (simp add: t' tss_init_def tss_flush_def Let_def t1_def)
  have e: "gdt t' = (gdt t1)[5 := (gdt t1 ! 5)\<lparr>acc := acc (gdt t1 ! 5) OR 2\<rparr>]"
    and f: "gdtr t' = Some (47, gdt_at t')" "tr_reg t' = 0x28" "cs_reg t' = cs_reg t1" "data_regs t' = data_regs t1"
    unfolding t1' using l1 by (simp_all add: mark_present)
  have s5: "seg_base (gdt t1 ! 5) = tss_at t" "seg_limit (gdt t1 ! 5) = 104" "acc (gdt t1 ! 5) = 0x89"
    using g(1) by (simp_all add: t1_def gdt_set_entry_def seg_base_def base_parts seg_limit_def seg_limit_field_def)
  have k: "gdt t' ! n = gdt (gdt_init t) ! n" if "n \<noteq> 5" for n
    using that by (simp add: e t1_def gdt_set_entry_def)
  have d: "descriptor_of t' 0x08 = Some (gdt t' ! 1)" "descriptor_of t' 0x10 = Some (gdt t' ! 2)" "descriptor_of t' 0x28 = Some (gdt t' ! 5)"
    using f(1) e l1 by (simp_all add: descriptor_of_def)
  have "cs_reg t' = 0x08" "data_regs t' = replicate 5 0x10" using f g(5,6) by (simp_all add: t1_def)
  moreover have "gdt t' ! 5 = (gdt t1 ! 5)\<lparr>acc := 0x8B\<rparr>" using e l1 s5(3) by simp
  ultimately show ?thesis using d k g(7-10) s5 f(2) by simp
qed

definition gate_to :: "u32 \<Rightarrow> idt_entry" where
  "gate_to h = \<lparr>offset_low = ucast (h AND 0xFFFF), selector = 0x08, idt_zero = 0, type_attr = 0x8E,
     offset_high = ucast (drop_bit 16 h AND 0xFFFF)\<rparr>"

lemma fold_gates:
  assumes "b + k \<le> length (idt t)"
  shows "length (idt (fold (\<lambda>i. idt_set_gate (b + i) (h i)) [0..<k] t)) = length (idt t)"
    and "idtp_limit (fold (\<lambda>i. idt_set_gate (b + i) (h i)) [0..<k] t) = idtp_limit t"
    and "idtp_base (fold (\<lambda>i. idt_set_gate (b + i) (h i)) [0..<k] t) = idtp_base t"
    and "idt (fold (\<lambda>i. idt_set_gate (b + i) (h i)) [0..<k] t) ! n = (if b \<le> n \<and> n < b + k then gate_to (h (n - b)) else idt t ! n)"
  using assms
  by (induction k) (auto simp: idt_set_gate_def gate_to_def nth_list_update less_Suc_eq)

lemma fold_no_gates:
  assumes "k \<le> length (idt t)"
  shows "fold (\<lambda>i t. t\<lparr>idt := (idt t)[i := no_gate]\<rparr>) [0..<k] t = t\<lparr>idt := replicate k no_gate @ drop k (idt t)\<rparr>"
  using assms
proof (induction k)
  case (Suc k)
  have "(replicate k no_gate @ drop k (idt t))[k := no_gate] = replicate k no_gate @ (drop k (idt t))[0 := no_gate]"
    by (simp add: list_update_append)
  moreover have "drop k (idt t) = idt t ! k # drop (Suc k) (idt t)" using Suc.prems by (simp add: Cons_nth_drop_Suc)
  ultimately show ?case using Suc by (simp add: replicate_append_same [symmetric])
qed simp

text \<open>
  After \<open>idt_init\<close> the loaded table has a gate for each of the 32 exceptions and the 16
  interrupts, to its stub; every other vector, that of the system call included, is not present.
\<close>

theorem idt_init_gates:
  assumes "length (idt t) = 256" and t': "t' = idt_init isr irq t" and n: "n < 256"
  shows "idtr t' = Some (2047, idt_at t) \<and>
    (if n < 48 then gate_offset (idt t' ! n) = (if n < 32 then isr n else irq (n - 32)) \<and> type_attr (idt t' ! n) = 0x8E
     else \<not> bit (type_attr (idt t' ! n)) 7)"
proof -
  define t1 where "t1 = t\<lparr>idtp_limit := 2047, idtp_base := idt_at t, idt := replicate 256 no_gate\<rparr>"
  have z: "fold (\<lambda>i t. t\<lparr>idt := (idt t)[i := no_gate]\<rparr>) [0..<256] (t\<lparr>idtp_limit := 2047, idtp_base := idt_at t\<rparr>) = t1"
    using fold_no_gates [of 256 "t\<lparr>idtp_limit := 2047, idtp_base := idt_at t\<rparr>"] assms(1) by (simp add: t1_def)
  define t2 where "t2 = fold (\<lambda>i. idt_set_gate (32 + i) (irq i)) [0..<16] t1"
  define t3 where "t3 = fold (\<lambda>i. idt_set_gate (0 + i) (isr i)) [0..<32] t2"
  have t': "t' = idt_load t3" using z by (simp add: t' idt_init_def Let_def t2_def t3_def)
  have l1: "length (idt t1) = 256" by (simp add: t1_def)
  note f2 = fold_gates [of 32 16 t1 irq, folded t2_def, unfolded l1, simplified]
  note f3 = fold_gates [of 0 32 t2 isr, folded t3_def, unfolded f2, simplified]
  have "idt t' ! n = (if n < 32 then gate_to (isr n) else if n < 48 then gate_to (irq (n - 32)) else no_gate)"
    using f3 f2 n by (simp add: t' idt_load_def) (simp add: t1_def)
  moreover have "idtr t' = Some (2047, idt_at t)" using f3 f2 by (simp add: t' idt_load_def) (simp add: t1_def)
  ultimately show ?thesis by (simp add: gate_to_def gate_offset_def gate_parts no_gate_def)
qed

section \<open>Tables in memory\<close>

definition tables_start :: tables where
  "tables_start = \<lparr>gdt = replicate 6 \<lparr>limit_low = 0, base_low = 0, base_middle = 0, acc = 0, granularity = 0, base_high = 0\<rparr>,
     gp_limit = 0, gp_base = 0, gdt_at = 0x120000, tss_at = 0x12345678, tss_ss0 = 0, tss_esp0_field = 0, tss_iomap_base = 0,
     idt = replicate 256 no_gate, idtp_limit = 0, idtp_base = 0, idt_at = 0x130000, gdtr = None, idtr = None,
     cs_reg = 0, data_regs = [], tr_reg = 0\<rparr>"

lemma tables_start_length: "length (gdt tables_start) = 6" "length (idt tables_start) = 256"
  by (simp_all add: tables_start_def)

lemma gdt_entry_roundtrip_witness:
  "seg_base (gdt (gdt_set_entry 5 0x12345678 104 0x89 0x40 tables_start) ! 5) = 0x12345678"
  using gdt_entry_roundtrip [of 5 tables_start "0x12345678" 104 "0x89" "0x40"] tables_start_length by (simp add: Let_def)

lemma idt_gate_roundtrip_witness: "gate_offset (idt (idt_set_gate 14 0x101234 tables_start) ! 14) = 0x101234"
  using idt_gate_roundtrip [of 14 tables_start "0x101234"] tables_start_length by simp

lemma segments_loaded_witness:
  "\<exists>e. descriptor_of (tss_init (gdt_init tables_start)) (tr_reg (tss_init (gdt_init tables_start))) = Some e \<and> seg_base e = 0x12345678"
proof -
  have "tss_at tables_start = 0x12345678" by (simp add: tables_start_def)
  then show ?thesis using segments_loaded [OF tables_start_length(1) refl] by auto
qed

lemma idt_init_gates_witness:
  "gate_offset (idt (idt_init (\<lambda>i. 0x1000 + of_nat i) (\<lambda>i. 0x2000 + of_nat i) tables_start) ! 33) = 0x2001"
  using idt_init_gates [OF tables_start_length(2) refl, of 33 "\<lambda>i. 0x1000 + of_nat i" "\<lambda>i. 0x2000 + of_nat i"] by simp

end
