(* ===== verification/Debug.thy ===== *)
theory Debug imports Klog begin

text \<open>
  Debugging output, \<^verbatim>\<open>core/debug.c\<close>, and the processor's brand string, \<^verbatim>\<open>arch/x86/cpuid.c\<close>.
  What the instructions read from the processor is a record of its registers, a parameter.
  \<open>debug_panic\<close> never returns: its model gives the state in which the processor is halted.
\<close>

record cpu =
  cpu_cs :: u16
  cpu_ds :: u16
  cpu_es :: u16
  cpu_fs :: u16
  cpu_gs :: u16
  cpu_ss :: u16
  cpu_tr :: u16
  cpu_esp :: u32
  cpu_eflags :: u32
  cpu_cr0 :: u32
  cpu_cr2 :: u32
  cpu_cr3 :: u32
  cpu_cr4 :: u32
  cpu_gdtr :: "u32 \<times> u16"
  cpu_idtr :: "u32 \<times> u16"

section \<open>Reading the registers\<close>

definition debug_get_cs :: "cpu \<Rightarrow> u16" where "debug_get_cs c = cpu_cs c"
definition debug_get_ds :: "cpu \<Rightarrow> u16" where "debug_get_ds c = cpu_ds c"
definition debug_get_es :: "cpu \<Rightarrow> u16" where "debug_get_es c = cpu_es c"
definition debug_get_fs :: "cpu \<Rightarrow> u16" where "debug_get_fs c = cpu_fs c"
definition debug_get_gs :: "cpu \<Rightarrow> u16" where "debug_get_gs c = cpu_gs c"
definition debug_get_ss :: "cpu \<Rightarrow> u16" where "debug_get_ss c = cpu_ss c"
definition debug_get_esp :: "cpu \<Rightarrow> u32" where "debug_get_esp c = cpu_esp c"
definition debug_get_cr2 :: "cpu \<Rightarrow> u32" where "debug_get_cr2 c = cpu_cr2 c"
definition debug_get_cr3 :: "cpu \<Rightarrow> u32" where "debug_get_cr3 c = cpu_cr3 c"
definition debug_get_tr :: "cpu \<Rightarrow> u16" where "debug_get_tr c = cpu_tr c"
definition debug_get_gdtr :: "cpu \<Rightarrow> u32 \<times> u16" where "debug_get_gdtr c = cpu_gdtr c"
definition debug_get_idtr :: "cpu \<Rightarrow> u32 \<times> u16" where "debug_get_idtr c = cpu_idtr c"
definition debug_get_cr0 :: "cpu \<Rightarrow> u32" where "debug_get_cr0 c = cpu_cr0 c"
definition debug_get_cr4 :: "cpu \<Rightarrow> u32" where "debug_get_cr4 c = cpu_cr4 c"
definition debug_get_eflags :: "cpu \<Rightarrow> u32" where "debug_get_eflags c = cpu_eflags c"

section \<open>Printing them\<close>

definition hex16_buffer :: "u16 \<Rightarrow> u8 list" where
  "hex16_buffer v =
     (let hex = bytes_of ''0123456789ABCDEF''
      in [of_char CHR ''0'', of_char CHR ''x'', hex ! unat (drop_bit 12 v AND 0xF), hex ! unat (drop_bit 8 v AND 0xF),
          hex ! unat (drop_bit 4 v AND 0xF), hex ! unat (v AND 0xF)])"

definition print_hex16 :: "u16 \<Rightarrow> vga \<Rightarrow> vga" where
  "print_hex16 x v = vga_print (hex16_buffer x) v"

definition debug_print_segments :: "cpu \<Rightarrow> vga \<Rightarrow> vga" where
  "debug_print_segments c v =
     (let v = vga_print (bytes_of ''==== CPU STATE ====\<newline>'') v;
          cs = debug_get_cs c; ds = debug_get_ds c; es = debug_get_es c; fs = debug_get_fs c;
          gs = debug_get_gs c; ss = debug_get_ss c; tr = debug_get_tr c;
          cr0 = debug_get_cr0 c; cr2 = debug_get_cr2 c; cr3 = debug_get_cr3 c; cr4 = debug_get_cr4 c;
          eflags = debug_get_eflags c; esp = debug_get_esp c;
          (gdtr_base, gdtr_limit) = debug_get_gdtr c;
          (idtr_base, idtr_limit) = debug_get_idtr c;
          v = print_hex16 cs (vga_print (bytes_of ''CS: '') v);
          v = print_hex16 ds (vga_print (bytes_of '' DS: '') v);
          v = print_hex16 es (vga_print (bytes_of '' ES: '') v);
          v = print_hex16 fs (vga_print (bytes_of '' FS: '') v);
          v = print_hex16 gs (vga_print (bytes_of '' GS: '') v);
          v = print_hex16 ss (vga_print (bytes_of '' SS: '') v);
          v = print_hex16 tr (vga_print (bytes_of '' TR: '') v);
          v = vga_print (bytes_of ''\<newline>'') v;
          v = vga_print_hex esp (vga_print (bytes_of ''ESP: '') v);
          v = vga_print_hex eflags (vga_print (bytes_of '' EFLAGS: '') v);
          v = vga_print_dec (ucast (cs AND 0x3)) (vga_print (bytes_of '' CPL: '') v);
          v = vga_print (bytes_of ''\<newline>'') v;
          v = vga_print_hex cr0 (vga_print (bytes_of ''CR0: '') v);
          v = vga_print_hex cr2 (vga_print (bytes_of '' CR2: '') v);
          v = vga_print_hex cr3 (vga_print (bytes_of '' CR3: '') v);
          v = vga_print_hex cr4 (vga_print (bytes_of '' CR4: '') v);
          v = vga_print (bytes_of ''\<newline>'') v;
          v = vga_print_hex gdtr_base (vga_print (bytes_of ''GDTR: '') v);
          v = vga_print_hex (ucast gdtr_limit) (vga_print (bytes_of ''/'') v);
          v = vga_print_hex idtr_base (vga_print (bytes_of '' IDTR: '') v);
          v = vga_print_hex (ucast idtr_limit) (vga_print (bytes_of ''/'') v);
          v = vga_print (bytes_of ''\<newline>'') v;
          v = vga_print (bytes_of ''PM:'') v;
          v = vga_print (if cr0 AND 0x1 \<noteq> 0 then bytes_of ''1 '' else bytes_of ''0 '') v;
          v = vga_print (bytes_of ''PG:'') v;
          v = vga_print (if cr0 AND 0x80000000 \<noteq> 0 then bytes_of ''1'' else bytes_of ''0'') v
      in vga_print (bytes_of ''\<newline>====================\<newline>'') v)"

definition debug_panic :: "u8 list \<Rightarrow> cpu \<Rightarrow> klog \<times> vga \<Rightarrow> klog \<times> vga" where
  "debug_panic message c s =
     (let (l, v) = s;
          l = log_write (bytes_of ''panic: '') l;
          l = log_write message l;
          l = log_write (bytes_of ''\<newline>'') l;
          v = vga_set_color 0x4F v;
          v = vga_clear v;
          v = vga_print (replicate 80 (of_char CHR ''='') @ bytes_of ''\<newline>'') v;
          v = vga_set_color 0xCF v;
          v = vga_print (bytes_of ''                                 KERNEL PANIC                                   \<newline>'') v;
          v = vga_set_color 0x4F v;
          v = vga_print (replicate 80 (of_char CHR ''='') @ bytes_of ''\<newline>\<newline>'') v;
          v = vga_set_color 0x4F v;
          v = vga_print (bytes_of ''Reason: '') v;
          v = vga_print message v;
          v = vga_print (bytes_of ''\<newline>\<newline>'') v;
          v = vga_print (bytes_of ''CPU Segment Registers:\<newline>'') v;
          v = debug_print_segments c v;
          v = vga_print (bytes_of ''\<newline>'') v
      in (l, vga_print (bytes_of ''System Halted.\<newline>'') v))"

lemma debug_print_wf: "vga_wf v \<Longrightarrow> vga_wf (debug_print_segments c v)"
  unfolding debug_print_segments_def print_hex16_def Let_def split_beta
  by (intro vga_wf_ops)

text \<open>
  The message of a panic is the last thing in the kernel's log: the log holds the end of what
  it held followed by the message.
\<close>

theorem panic_logged:
  assumes "log_ok l"
  shows "log_ok (fst (debug_panic message c (l, v)))
    \<and> log_text (fst (debug_panic message c (l, v))) = last_of 8192 (log_text l @ bytes_of ''panic: '' @ message @ bytes_of ''\<newline>'')"
  using assms by (simp add: debug_panic_def Let_def log_write_text last_of_append)

lemma panic_logged_witness:
  "log_text (fst (debug_panic (bytes_of ''x'') c (log_start, v))) = bytes_of ''panic: x\<newline>''"
proof -
  have "log_ok log_start" "log_text log_start = []" using log_start_ok by simp_all
  with panic_logged [of log_start "bytes_of ''x''" c v] show ?thesis by (simp add: last_of_def)
qed

section \<open>The brand string\<close>

text \<open>\<open>cpuid\<close> gives the four registers for each leaf.\<close>

definition cpu_get_brand :: "(u32 \<Rightarrow> u32 \<times> u32 \<times> u32 \<times> u32) \<Rightarrow> u32 \<Rightarrow> mem \<Rightarrow> mem" where
  "cpu_get_brand cpuid buffer m =
     (let m = fold (\<lambda>i m.
            let (a, b, c, d) = cpuid (0x80000002 + of_nat i);
                p = buffer + 16 * of_nat i;
                m = store32 m p a;
                m = store32 m (p + 4) b;
                m = store32 m (p + 8) c
            in store32 m (p + 12) d) [0..<3] m
      in m(buffer + 48 := 0))"

end
