(* ===== verification/Kernel.thy ===== *)
theory Kernel imports HeapRuns HeapClient PmmLaws Paging Input Klog Sched FsBoot FbLine Timer Descriptors Debug begin

text \<open>
  The components put together.  Each of them was modelled over a state of its own that holds a
  copy of what it shares with others: the memory, the text screen, the trace of the port
  accesses and the log.  In the kernel there is one of each: the memory and the screen of the
  record \<open>kfs\<close>, with the trace in the screen, and \<open>klogs\<close>.  The operations of this theory run a
  component on a state into which the shared parts are put, and take them back from its result.
\<close>

record kernel =
  kfs :: fs
  kpages :: vm
  ksched :: sched
  klogs :: klog
  kclock :: clock
  kkeyboard :: keyboard
  kconsole :: console
  ktables :: tables
  last_alloc :: u32
  cwd :: u32
  mode :: int

definition kmem :: "kernel \<Rightarrow> mem" where "kmem k = fmem (kfs k)"
definition kscreen :: "kernel \<Rightarrow> vga" where "kscreen k = screen (fheap (kfs k))"
definition kio :: "kernel \<Rightarrow> io_trace" where "kio k = crtc (kscreen k)"

definition set_kmem :: "mem \<Rightarrow> kernel \<Rightarrow> kernel" where
  "set_kmem m k = k\<lparr>kfs := set_fmem m (kfs k)\<rparr>"

definition on_screen :: "(vga \<Rightarrow> vga) \<Rightarrow> kernel \<Rightarrow> kernel" where
  "on_screen f k = k\<lparr>kfs := (kfs k)\<lparr>fheap := (fheap (kfs k))\<lparr>screen := f (kscreen k)\<rparr>\<rparr>\<rparr>"

definition on_ports :: "(io_trace \<Rightarrow> io_trace) \<Rightarrow> kernel \<Rightarrow> kernel" where
  "on_ports f = on_screen (\<lambda>v. v\<lparr>crtc := f (crtc v)\<rparr>)"

definition on_log :: "(klog \<Rightarrow> klog) \<Rightarrow> kernel \<Rightarrow> kernel" where
  "on_log f k = k\<lparr>klogs := f (klogs k)\<rparr>"

definition on_heap :: "(heap \<Rightarrow> heap) \<Rightarrow> kernel \<Rightarrow> kernel" where
  "on_heap f k = k\<lparr>kfs := (kfs k)\<lparr>fheap := f (fheap (kfs k))\<rparr>\<rparr>"

text \<open>Keyboard and mouse use the ports.\<close>

definition on_keyboard :: "(keyboard \<Rightarrow> keyboard) \<Rightarrow> kernel \<Rightarrow> kernel" where
  "on_keyboard f k =
     (let kb = f ((kkeyboard k)\<lparr>kbd_io := kio k\<rparr>)
      in on_ports (\<lambda>_. kbd_io kb) (k\<lparr>kkeyboard := kb\<rparr>))"

definition on_mouse :: "(mouse \<Rightarrow> mouse) \<Rightarrow> kernel \<Rightarrow> kernel" where
  "on_mouse f k =
     (let m = f ((tm_mouse (kclock k))\<lparr>mouse_io := kio k\<rparr>)
      in on_ports (\<lambda>_. mouse_io m) (k\<lparr>kclock := (kclock k)\<lparr>tm_mouse := m\<rparr>\<rparr>))"

text \<open>The line editor and the text cursor draw on the screen, the square of the mouse into the memory.\<close>

definition on_console :: "(console \<Rightarrow> console) \<Rightarrow> kernel \<Rightarrow> kernel" where
  "on_console f k =
     (let c = f ((kconsole k)\<lparr>con_screen := kscreen k\<rparr>)
      in on_screen (\<lambda>_. con_screen c) (k\<lparr>kconsole := c\<rparr>))"

definition clock_view :: "kernel \<Rightarrow> clock" where
  "clock_view k = (let c = kclock k in
     c\<lparr>tm_cursor := (tm_cursor c)\<lparr>cur_fb := (cur_fb (tm_cursor c))\<lparr>fb_mem := kmem k\<rparr>\<rparr>,
       tm_tcur := (tm_tcur c)\<lparr>tcur_screen := kscreen k\<rparr>\<rparr>)"

definition set_clock :: "clock \<Rightarrow> kernel \<Rightarrow> kernel" where
  "set_clock c k = on_screen (\<lambda>_. tcur_screen (tm_tcur c)) (set_kmem (fb_mem (cur_fb (tm_cursor c))) (k\<lparr>kclock := c\<rparr>))"

text \<open>The scheduler lives on the heap, page tables and frames in the memory.\<close>

definition sched_view :: "kernel \<Rightarrow> sched" where
  "sched_view k = (ksched k)\<lparr>sheap := fheap (kfs k), slog := klogs k, tss_esp0 := tss_esp0_field (ktables k)\<rparr>"

definition set_sched :: "sched \<Rightarrow> kernel \<Rightarrow> kernel" where
  "set_sched s k = k\<lparr>ksched := s, kfs := (kfs k)\<lparr>fheap := sheap s\<rparr>, klogs := slog s,
     ktables := (ktables k)\<lparr>tss_esp0_field := tss_esp0 s\<rparr>\<rparr>"

definition pages_view :: "kernel \<Rightarrow> vm" where
  "pages_view k = (kpages k)\<lparr>frames := (frames (kpages k))\<lparr>pmem := kmem k\<rparr>\<rparr>"

definition set_pages :: "vm \<Rightarrow> kernel \<Rightarrow> kernel" where
  "set_pages v k = set_kmem (pmem (frames v)) (k\<lparr>kpages := v\<rparr>)"

section \<open>What is not under \<open>src\<close>\<close>

text \<open>
  The devices' answers, what the processor's registers and \<open>cpuid\<close> give, the interrupt that ends
  a halt (its vector and error code), where the code of handlers and tasks is, and where the linker and the compiler put the string
  literals and the local and static arrays, and the date of the build.  What may vary in time is a function of the state:
  every interrupt leaves its traces there.
\<close>

record env =
  env_dev :: device
  env_cpu :: "kernel \<Rightarrow> cpu"
  env_cpuid :: "u32 \<Rightarrow> u32 \<times> u32 \<times> u32 \<times> u32"
  env_interrupt :: "kernel \<Rightarrow> u32 \<times> u32"
  entry :: "string \<Rightarrow> nat \<Rightarrow> u32"
  literal :: "string \<Rightarrow> u32"
  object :: "string \<Rightarrow> u32"
  build_date :: string

section \<open>How a call ends\<close>

text \<open>
  It returns; or the kernel panics and halts; or the processor is switched to a task, which goes on at
  an address with a stack pointer; or it leaves the code, where a pointer of a node leads elsewhere than
  to the operations, or does what C leaves undefined.  It may also never return, the value \<open>None\<close>.
\<close>

datatype run = Running kernel | Halted kernel | Switched u32 u32 kernel | Crashed string

definition run_bind :: "run option \<Rightarrow> (kernel \<Rightarrow> run option) \<Rightarrow> run option" where
  "run_bind r f = Option.bind r (\<lambda>r. case r of Running k \<Rightarrow> f k | Halted k \<Rightarrow> Some (Halted k)
     | Switched esp eip k \<Rightarrow> Some (Switched esp eip k) | Crashed e \<Rightarrow> Some (Crashed e))"

lemma run_bind_simps [simp]:
  "run_bind (Some (Running k)) f = f k" "run_bind (Some (Halted k)) f = Some (Halted k)"
  "run_bind (Some (Switched esp eip k)) f = Some (Switched esp eip k)"
  "run_bind (Some (Crashed e)) f = Some (Crashed e)" "run_bind None f = None"
  by (simp_all add: run_bind_def)

lemma run_bind_mono [partial_function_mono]:
  assumes "mono_option B" and "\<And>y. mono_option (\<lambda>f. C y f)"
  shows "mono_option (\<lambda>f. run_bind (B f) (\<lambda>y. C y f))"
  unfolding run_bind_def
  by (rule bind_mono [OF assms(1)]) (rename_tac y, case_tac y, simp_all add: assms(2) option.const_mono)

definition returns :: "kernel \<Rightarrow> run option" where "returns k = Some (Running k)"

definition panic :: "env \<Rightarrow> u8 list \<Rightarrow> kernel \<Rightarrow> run option" where
  "panic E message k =
     (let (l, v) = debug_panic message (env_cpu E k) (klogs k, kscreen k)
      in Some (Halted (on_log (\<lambda>_. l) (on_screen (\<lambda>_. v) k))))"

text \<open>A call into the file systems, and what is done with its result.\<close>

definition with_fs :: "env \<Rightarrow> (fs \<Rightarrow> ('a \<times> fs) outcome option) \<Rightarrow> ('a \<Rightarrow> kernel \<Rightarrow> run option) \<Rightarrow> kernel \<Rightarrow> run option" where
  "with_fs E f c k = (case f (kfs k) of None \<Rightarrow> None
     | Some (Ret (x, s)) \<Rightarrow> c x (k\<lparr>kfs := s\<rparr>)
     | Some (Panic e) \<Rightarrow> panic E (bytes_of e) k
     | Some (Fault e) \<Rightarrow> Some (Crashed e))"

definition with_heap :: "(heap \<Rightarrow> ('a \<times> heap) option) \<Rightarrow> ('a \<Rightarrow> kernel \<Rightarrow> run option) \<Rightarrow> kernel \<Rightarrow> run option" where
  "with_heap f c k = (case f (fheap (kfs k)) of None \<Rightarrow> None | Some (x, h) \<Rightarrow> c x (on_heap (\<lambda>_. h) k))"

definition say :: "string \<Rightarrow> kernel \<Rightarrow> kernel" where "say s = on_screen (vga_print (bytes_of s))"
definition say_dec :: "u32 \<Rightarrow> kernel \<Rightarrow> kernel" where "say_dec n = on_screen (vga_print_dec n)"
definition say_hex :: "u32 \<Rightarrow> kernel \<Rightarrow> kernel" where "say_hex n = on_screen (vga_print_hex n)"

section \<open>The invariant of the whole\<close>

definition kernel_ok :: "kernel \<Rightarrow> bool" where
  "kernel_ok k \<longleftrightarrow> vga_wf (kscreen k) \<and> keyboard_ok (kkeyboard k) \<and> mouse_ok (tm_mouse (kclock k))
     \<and> console_ok (kconsole k) \<and> log_ok (klogs k) \<and> current_task (ksched k) = 0"

text \<open>
  The only places where the code is left: calls through a function pointer of a node that does not
  lead to the operations of the file system, and the ninth entry of the table of mounts.
\<close>

definition crash_sites :: "string set" where
  "crash_sites = {''ops'', ''create'', ''read'', ''write'', ''mounts''}"

lemma crash_sites_simps [simp]:
  "''ops'' \<in> crash_sites" "''create'' \<in> crash_sites" "''read'' \<in> crash_sites" "''write'' \<in> crash_sites"
  "''mounts'' \<in> crash_sites"
  by (simp_all add: crash_sites_def)

text \<open>
  \<open>holds_after P r\<close>: if the call ends in a state, by returning or in a panic, that state satisfies \<open>P\<close>;
  it does not switch to a task, and leaves the code only at the places above.
\<close>

definition holds_after :: "(kernel \<Rightarrow> bool) \<Rightarrow> run option \<Rightarrow> bool" where
  "holds_after P r \<longleftrightarrow> (case r of None \<Rightarrow> True | Some (Running k) \<Rightarrow> P k | Some (Halted k) \<Rightarrow> P k
     | Some (Switched esp eip k) \<Rightarrow> False | Some (Crashed e) \<Rightarrow> e \<in> crash_sites)"

named_theorems kernel_oks

lemma holds_after_simps [simp]:
  "holds_after P (Some (Running k)) \<longleftrightarrow> P k" "holds_after P (Some (Halted k)) \<longleftrightarrow> P k"
  "\<not> holds_after P (Some (Switched esp eip k))" "holds_after P (Some (Crashed e)) \<longleftrightarrow> e \<in> crash_sites"
  "holds_after P None" "holds_after P (returns k) \<longleftrightarrow> P k"
  by (simp_all add: holds_after_def returns_def)

lemma run_bind_ok [kernel_oks]:
  assumes "holds_after P r" and "\<And>k. P k \<Longrightarrow> holds_after P (f k)"
  shows "holds_after P (run_bind r f)"
proof (cases r)
  case (Some x)
  then show ?thesis using assms by (cases x) auto
qed simp

text \<open>The parts of the state that an operation leaves alone.\<close>

lemma kscreen_simps [simp]:
  "kscreen (on_screen f k) = f (kscreen k)" "kscreen (set_kmem m k) = kscreen k" "kscreen (on_log g k) = kscreen k"
  "kscreen (k\<lparr>kpages := v\<rparr>) = kscreen k" "kscreen (k\<lparr>klogs := l\<rparr>) = kscreen k" "kscreen (k\<lparr>kclock := c\<rparr>) = kscreen k"
  "kscreen (k\<lparr>kkeyboard := kb\<rparr>) = kscreen k" "kscreen (k\<lparr>kconsole := co\<rparr>) = kscreen k" "kscreen (k\<lparr>ktables := t\<rparr>) = kscreen k"
  "kscreen (k\<lparr>last_alloc := a\<rparr>) = kscreen k" "kscreen (k\<lparr>cwd := a\<rparr>) = kscreen k" "kscreen (k\<lparr>mode := i\<rparr>) = kscreen k"
  "kscreen (k\<lparr>ksched := s\<rparr>) = kscreen k" "kscreen (k\<lparr>kfs := x\<rparr>) = screen (fheap x)"
  by (simp_all add: kscreen_def on_screen_def set_kmem_def set_fmem_def on_log_def)

lemma kmem_simps [simp]:
  "kmem (on_screen f k) = kmem k" "kmem (set_kmem m k) = m" "kmem (on_log g k) = kmem k" "kmem (on_ports p k) = kmem k"
  "kmem (k\<lparr>kpages := v\<rparr>) = kmem k" "kmem (k\<lparr>klogs := l\<rparr>) = kmem k" "kmem (k\<lparr>kclock := c\<rparr>) = kmem k"
  "kmem (k\<lparr>kkeyboard := kb\<rparr>) = kmem k" "kmem (k\<lparr>kconsole := co\<rparr>) = kmem k" "kmem (k\<lparr>ktables := t\<rparr>) = kmem k"
  "kmem (k\<lparr>last_alloc := a\<rparr>) = kmem k" "kmem (k\<lparr>cwd := a\<rparr>) = kmem k" "kmem (k\<lparr>mode := i\<rparr>) = kmem k"
  "kmem (k\<lparr>ksched := s\<rparr>) = kmem k" "kmem (k\<lparr>kfs := x\<rparr>) = fmem x"
  by (simp_all add: kmem_def on_screen_def on_ports_def set_kmem_def set_fmem_def on_log_def fmem_def)

lemma on_screen_fields [simp]:
  "kpages (on_screen f k) = kpages k" "ksched (on_screen f k) = ksched k" "klogs (on_screen f k) = klogs k"
  "kclock (on_screen f k) = kclock k" "kkeyboard (on_screen f k) = kkeyboard k" "kconsole (on_screen f k) = kconsole k"
  "ktables (on_screen f k) = ktables k" "last_alloc (on_screen f k) = last_alloc k" "cwd (on_screen f k) = cwd k"
  "mode (on_screen f k) = mode k"
  by (simp_all add: on_screen_def)

lemma set_kmem_fields [simp]:
  "kpages (set_kmem m k) = kpages k" "ksched (set_kmem m k) = ksched k" "klogs (set_kmem m k) = klogs k"
  "kclock (set_kmem m k) = kclock k" "kkeyboard (set_kmem m k) = kkeyboard k" "kconsole (set_kmem m k) = kconsole k"
  "ktables (set_kmem m k) = ktables k" "last_alloc (set_kmem m k) = last_alloc k" "cwd (set_kmem m k) = cwd k"
  "mode (set_kmem m k) = mode k"
  by (simp_all add: set_kmem_def)

lemma on_ports_fields [simp]:
  "kpages (on_ports f k) = kpages k" "ksched (on_ports f k) = ksched k" "klogs (on_ports f k) = klogs k"
  "kclock (on_ports f k) = kclock k" "kkeyboard (on_ports f k) = kkeyboard k" "kconsole (on_ports f k) = kconsole k"
  "kio (on_ports f k) = f (kio k)" "kscreen (on_ports f k) = (kscreen k)\<lparr>crtc := f (kio k)\<rparr>"
  by (simp_all add: on_ports_def kio_def)

lemma on_log_fields [simp]:
  "kpages (on_log f k) = kpages k" "ksched (on_log f k) = ksched k" "klogs (on_log f k) = f (klogs k)"
  "kclock (on_log f k) = kclock k" "kkeyboard (on_log f k) = kkeyboard k" "kconsole (on_log f k) = kconsole k"
  "kio (on_log f k) = kio k"
  by (simp_all add: on_log_def kio_def kscreen_def)

lemma vga_wf_crtc [simp]: "vga_wf (v\<lparr>crtc := tr\<rparr>) \<longleftrightarrow> vga_wf v"
  by (simp add: vga_wf_def)

lemma on_screen_ok [kernel_oks]:
  assumes "kernel_ok k" and "\<And>v. vga_wf v \<Longrightarrow> vga_wf (f v)"
  shows "kernel_ok (on_screen f k)"
  using assms by (simp add: kernel_ok_def)

lemma on_ports_ok [simp]: "kernel_ok (on_ports f k) \<longleftrightarrow> kernel_ok k"
  by (simp add: kernel_ok_def)

lemma set_kmem_ok [simp]: "kernel_ok (set_kmem m k) \<longleftrightarrow> kernel_ok k"
  by (simp add: kernel_ok_def)

lemma say_ok [simp]: "kernel_ok k \<Longrightarrow> kernel_ok (say s k)" "kernel_ok k \<Longrightarrow> kernel_ok (say_dec n k)"
  "kernel_ok k \<Longrightarrow> kernel_ok (say_hex n k)"
  by (simp_all add: say_def say_dec_def say_hex_def on_screen_ok)

lemma on_log_ok:
  assumes "kernel_ok k" and "log_ok (klogs k) \<Longrightarrow> log_ok (f (klogs k))"
  shows "kernel_ok (on_log f k)"
  using assms by (simp add: kernel_ok_def)

lemma debug_panic_ok:
  assumes "vga_wf v" and "log_ok l"
  shows "vga_wf (snd (debug_panic msg c (l, v)))" and "log_ok (fst (debug_panic msg c (l, v)))"
proof -
  show "vga_wf (snd (debug_panic msg c (l, v)))"
    unfolding debug_panic_def Let_def prod.case snd_conv by (intro vga_wf_ops debug_print_wf assms)
  show "log_ok (fst (debug_panic msg c (l, v)))" using assms(2) by (simp add: debug_panic_def Let_def log_write_text)
qed

lemma panic_ok [kernel_oks]: "kernel_ok k \<Longrightarrow> holds_after kernel_ok (panic E msg k)"
  using debug_panic_ok [of "kscreen k" "klogs k" msg "env_cpu E k"]
  by (simp add: panic_def split_beta kernel_ok_def)

lemma panic_halts: "\<exists>k'. panic E msg k = Some (Halted k')"
  by (simp add: panic_def split_beta)

lemma panic_text:
  assumes "log_ok (klogs k)" and "panic E msg k = Some (Halted k')"
  shows "log_text (klogs k') = last_of 8192 (log_text (klogs k) @ bytes_of ''panic: '' @ msg @ bytes_of ''\<newline>'')"
  using assms by (auto simp: panic_def split_beta debug_panic_def Let_def log_write_text last_of_append)

section \<open>A kernel\<close>

definition kernel_start :: kernel where
  "kernel_start = \<lparr>kfs = fs_start, kpages = vm_64, ksched = sched_start, klogs = log_start, kclock = clock_start,
     kkeyboard = keyboard_start, kconsole = console_start, ktables = tables_start, last_alloc = 0, cwd = 0, mode = 0\<rparr>"

definition env_quiet :: "u32 \<Rightarrow> u32 \<times> u32 \<Rightarrow> env" where
  "env_quiet cr2 vector = \<lparr>env_dev = \<lambda>tr p. 0, env_cpu = \<lambda>k. \<lparr>cpu_cs = 8, cpu_ds = 16, cpu_es = 16, cpu_fs = 16, cpu_gs = 16,
     cpu_ss = 16, cpu_tr = 40, cpu_esp = 0x90000, cpu_eflags = 0x202, cpu_cr0 = 0x80000001, cpu_cr2 = cr2, cpu_cr3 = 0x110000,
     cpu_cr4 = 0, cpu_gdtr = (0x120000, 47), cpu_idtr = (0x130000, 2047)\<rparr>,
     env_cpuid = \<lambda>n. (0, 0, 0, 0), env_interrupt = \<lambda>k. vector, entry = \<lambda>s i. 0, literal = \<lambda>s. 0, object = \<lambda>s. 0, build_date = ''''\<rparr>"

lemma kernel_start_ok: "kernel_ok kernel_start"
proof -
  have "vga_wf (vga_initial (replicate 2000 0))" by (simp add: vga_wf_def vga_initial_def)
  moreover have "kscreen kernel_start = vga_initial (replicate 2000 0)"
    by (simp add: kernel_start_def kscreen_def fs_start_def fresh_heap_def heap_init_def)
  ultimately show ?thesis
    using clock_start_ok keyboard_start_ok log_start_ok
    by (simp add: kernel_ok_def kernel_start_def console_start_def console_ok_def sched_start_def)
qed

end
