(* ===== verification/Interrupts.thy ===== *)
theory Interrupts imports Kernel begin

text \<open>
  Interrupts: the dispatcher \<open>isr_handler\<close> of \<^verbatim>\<open>core/idt.c\<close>, system calls
  (\<^verbatim>\<open>sys/syscall.c\<close>), and the assembly stubs between the processor and the dispatcher,
  \<^verbatim>\<open>boot/isr_stubs.s\<close>, \<^verbatim>\<open>boot/isr_common_stub.s\<close> and \<^verbatim>\<open>boot/syscall_entry.s\<close>.
  Here every interrupt runs the handlers of the other components on the state of the kernel.
\<close>

section \<open>Exceptions\<close>

definition exception_messages :: "string list" where
  "exception_messages =
    [''Divide By Zero'', ''Debug'', ''Non Maskable Interrupt'', ''Breakpoint'', ''Overflow'',
     ''Bound Range Exceeded'', ''Invalid Opcode'', ''Device Not Available'', ''Double Fault'',
     ''Coprocessor Segment Overrun'', ''Invalid TSS'', ''Segment Not Present'', ''Stack Fault'',
     ''General Protection Fault'', ''Page Fault'', ''Reserved'', ''x87 Floating Point'',
     ''Alignment Check'', ''Machine Check'', ''SIMD Floating Point'', ''Virtualization'',
     ''Control Protection'', ''Reserved'', ''Reserved'', ''Reserved'', ''Reserved'', ''Reserved'',
     ''Reserved'', ''Hypervisor Injection'', ''VMM Communication'', ''Security Exception'', ''Reserved'']"

text \<open>A page of the heap that is not there yet is given a frame.\<close>

definition demand_page :: "env \<Rightarrow> u32 \<Rightarrow> kernel \<Rightarrow> run option" where
  "demand_page E aligned_addr k =
     (let v = pages_view k;
          (frame, fr) = pmm_alloc_frame (frames v);
          k = set_pages (v\<lparr>frames := fr\<rparr>) k
      in if frame = 0 then panic E (bytes_of ''Out of physical memory during demand paging'') k
         else let v = map_page aligned_addr frame (pages_view k)
              in returns (set_pages (v\<lparr>flushed := aligned_addr # flushed v\<rparr>) k))"

definition page_fault :: "env \<Rightarrow> u32 \<Rightarrow> kernel \<Rightarrow> run option" where
  "page_fault E error_code k =
     (let fault_addr = cpu_cr2 (env_cpu E k);
          aligned_addr = fault_addr AND 0xFFFFF000;
          not_present = (error_code AND 0x1 = 0);
          write = (error_code AND 0x2 \<noteq> 0);
          user = (error_code AND 0x4 \<noteq> 0);
          reserved = (error_code AND 0x8 \<noteq> 0);
          instr_fetch = (error_code AND 0x10 \<noteq> 0)
      in if not_present \<and> \<not> user \<and> aligned_addr \<ge> KERNEL_HEAP_START \<and> aligned_addr < KERNEL_HEAP_END
         then demand_page E aligned_addr k
         else let k = say ''\<newline>PAGE FAULT\<newline>'' k;
                  k = say ''\<newline>'' (say_hex fault_addr (say ''Fault Address: '' k));
                  k = say ''\<newline>\<newline>'' (say_hex error_code (say ''Error Code: '' k));
                  k = (if not_present then say '' - Page not present\<newline>'' k else say '' - Protection violation\<newline>'' k);
                  k = (if write then say '' - Caused by write\<newline>'' k else say '' - Caused by read\<newline>'' k);
                  k = (if user then say '' - From user mode\<newline>'' k else say '' - From kernel mode\<newline>'' k);
                  k = (if reserved then say '' - Reserved bit violation\<newline>'' k else k);
                  k = (if instr_fetch then say '' - Instruction fetch\<newline>'' k else k);
                  k = say ''\<newline>'' k
              in panic E (bytes_of ''Unhandled Page Fault'') k)"

definition isr0_handler :: "env \<Rightarrow> kernel \<Rightarrow> run option" where
  "isr0_handler E k = panic E (bytes_of ''Divide by 0\<newline>'') k"

section \<open>System calls\<close>

text \<open>\<open>for (i = 0; i < edx && str[i]; i++) vga_putchar(str[i])\<close>\<close>

function write_chars :: "mem \<Rightarrow> u32 \<Rightarrow> u32 \<Rightarrow> u32 \<Rightarrow> vga \<Rightarrow> vga" where
  "write_chars m str len i v =
     (if i < len \<and> m (str + i) \<noteq> 0 then write_chars m str len (i + 1) (vga_putchar (m (str + i)) v) else v)"
  by pat_completeness auto

termination write_chars
  by (relation "measure (\<lambda>(m, str, len, i, v). unat len - unat i)") (auto intro: word_up_measure)

declare write_chars.simps [simp del]

definition syscall_handler :: "u32 \<Rightarrow> u32 \<Rightarrow> u32 \<Rightarrow> u32 \<Rightarrow> kernel \<Rightarrow> kernel" where
  "syscall_handler eax ebx ecx edx k =
     (if eax = 1
      then (if ecx \<noteq> 0 \<and> edx \<noteq> 0 then on_screen (write_chars (kmem k) ecx edx 0) k else k)
      else if eax = 2 then k
      else if eax = 3 then k
      else on_log (\<lambda>l. log_write (bytes_of ''\<newline>'') (log_write_hex eax (log_write (bytes_of ''syscall: unknown '') l))) k)"

section \<open>The dispatcher\<close>

definition kernel_timer_tick :: "kernel \<Rightarrow> run option" where
  "kernel_timer_tick k = map_option (\<lambda>c. Running (set_clock c k)) (timer_tick (clock_view k))"

text \<open>A tick that switches to a task leaves the handler: nothing behind it is done, the acknowledgement included.\<close>

definition kernel_scheduler_tick :: "kernel \<Rightarrow> run option" where
  "kernel_scheduler_tick k = map_option (\<lambda>r. case r of Stays s \<Rightarrow> Running (set_sched s k)
     | Leaves esp eip s \<Rightarrow> Switched esp eip (set_sched s k)) (scheduler_tick (sched_view k))"

text \<open>
  The test for vector 32 guards only the call of \<open>timer_tick\<close>: \<open>scheduler_tick\<close> follows on every
  hardware interrupt.  The test for the system call vector stands inside the branch of the
  vectors 32 to 47, so it is never true; what would follow it, the entry of a system call with
  the registers as they are there, is the argument \<open>syscall_entry\<close>.
\<close>

definition isr_handler :: "env \<Rightarrow> (kernel \<Rightarrow> run option) \<Rightarrow> u32 \<Rightarrow> u32 \<Rightarrow> kernel \<Rightarrow> run option" where
  "isr_handler E syscall_entry interrupt_number error_code k =
     (if interrupt_number < 32
      then (if interrupt_number = 14 then page_fault E error_code k
            else let k = say ''EXCEPTION: '' k;
                     k = say (exception_messages ! unat interrupt_number) k;
                     k = say ''\<newline>'' k
                 in panic E (bytes_of ''CPU Exception'') k)
      else if interrupt_number \<ge> 32 \<and> interrupt_number \<le> 47
      then run_bind (if interrupt_number = 32 then kernel_timer_tick k else returns k) (\<lambda>k.
           run_bind (kernel_scheduler_tick k) (\<lambda>k.
             if interrupt_number = 33
             then returns (on_ports (pic_send_eoi 1) (on_keyboard (keyboard_irq_handler (env_dev E)) k))
             else if interrupt_number = 44
             then returns (on_ports (pic_send_eoi 12) (on_mouse (mouse_irq_handler (env_dev E)) k))
             else if interrupt_number = 0x80 then syscall_entry k
             else returns (on_ports (pic_send_eoi (ucast (interrupt_number - 32))) k)))
      else returns k)"

text \<open>
  A division whose quotient does not fit is exception 0: the dispatcher, with the error code 0 that the
  stub pushes.
\<close>

definition divide_error :: "env \<Rightarrow> kernel \<Rightarrow> run option" where
  "divide_error E k = isr_handler E returns 0 0 k"

section \<open>Every interrupt is handled\<close>

lemma set_pages_ok [simp]: "kernel_ok (set_pages v k) \<longleftrightarrow> kernel_ok k"
  by (simp add: set_pages_def kernel_ok_def)

lemma demand_page_ok: "kernel_ok k \<Longrightarrow> holds_after kernel_ok (demand_page E a k)"
  by (simp add: demand_page_def Let_def split_beta panic_ok)

lemma page_fault_ok: "kernel_ok k \<Longrightarrow> holds_after kernel_ok (page_fault E e k)"
  unfolding page_fault_def Let_def by (auto intro!: demand_page_ok panic_ok)

lemma write_chars_wf: "vga_wf v \<Longrightarrow> vga_wf (write_chars m str len i v)"
  by (induction m str len i v rule: write_chars.induct) (subst write_chars.simps, simp)

lemma syscall_ok: "kernel_ok k \<Longrightarrow> kernel_ok (syscall_handler a b c d k)"
  by (auto simp: syscall_handler_def log_write_hex_def log_write_text intro!: on_screen_ok on_log_ok write_chars_wf)

lemma cursor_fold_wf: "vga_wf (tcur_screen t) \<Longrightarrow> vga_wf (tcur_screen (fold text_cursor_handle_event es t))"
proof (induction es arbitrary: t)
  case (Cons e es)
  have "vga_wf (tcur_screen (text_cursor_handle_event e t))"
    using Cons.prems by (simp add: text_cursor_handle_event_def split_beta Let_def text_cursor_draw_def restore_cell_def)
  with Cons.IH show ?case by simp
qed simp

text \<open>The clock ticks: the cursor of the mouse is moved by the waiting events.\<close>

lemma timer_tick_screen:
  assumes ok: "mouse_ok (tm_mouse c)" and wf: "vga_wf (tcur_screen (tm_tcur c))"
  shows "\<exists>c'. timer_tick c = Some c' \<and> ticks c' = ticks c + 1 \<and> mouse_ok (tm_mouse c') \<and> vga_wf (tcur_screen (tm_tcur c'))"
proof -
  obtain m1 where m1: "cursor_tick (tm_mouse c) (tm_cursor c) = Some (m1, fold cursor_handle_event (mouse_contents (tm_mouse c)) (tm_cursor c))"
    "mouse_ok m1" using mq.drain_handles_all [OF ok, of cursor_handle_event "tm_cursor c"] unfolding cursor_tick_def by blast
  obtain m2 where m2: "text_cursor_tick (tm_mouse c) (tm_tcur c) = Some (m2, fold text_cursor_handle_event (mouse_contents (tm_mouse c)) (tm_tcur c))"
    "mouse_ok m2" using mq.drain_handles_all [OF ok, of text_cursor_handle_event "tm_tcur c"] unfolding text_cursor_tick_def by blast
  show ?thesis using m1 m2 ok wf cursor_fold_wf [OF wf]
    by (simp add: timer_tick_def Let_def)
qed

lemma clock_view_simps [simp]:
  "tm_mouse (clock_view k) = tm_mouse (kclock k)" "tcur_screen (tm_tcur (clock_view k)) = kscreen k"
  "ticks (clock_view k) = ticks (kclock k)" "seconds (clock_view k) = seconds (kclock k)"
  by (simp_all add: clock_view_def Let_def)

lemma set_clock_simps [simp]: "kclock (set_clock c k) = c" "kscreen (set_clock c k) = tcur_screen (tm_tcur c)"
  "klogs (set_clock c k) = klogs k" "kkeyboard (set_clock c k) = kkeyboard k" "kconsole (set_clock c k) = kconsole k"
  "ksched (set_clock c k) = ksched k"
  by (simp_all add: set_clock_def)

lemma timer_returns:
  assumes "kernel_ok k"
  shows "\<exists>k'. kernel_timer_tick k = Some (Running k') \<and> kernel_ok k' \<and> ticks (kclock k') = ticks (kclock k) + 1"
  using timer_tick_screen [of "clock_view k"] assms
  by (auto simp: kernel_timer_tick_def kernel_ok_def)

text \<open>As long as no task is current the scheduler's part of an interrupt changes nothing.\<close>

lemma scheduler_idle:
  assumes "kernel_ok k"
  shows "\<exists>k'. kernel_scheduler_tick k = Some (Running k') \<and> kernel_ok k' \<and> kclock k' = kclock k
    \<and> kfs k' = kfs k \<and> kkeyboard k' = kkeyboard k \<and> kpages k' = kpages k \<and> kscreen k' = kscreen k \<and> kio k' = kio k"
  using assms by (simp add: kernel_scheduler_tick_def scheduler_tick_def scheduler_yield_def sched_view_def set_sched_def
      kernel_ok_def kscreen_def kio_def)

lemma keyboard_irq_ok: "keyboard_ok kb \<Longrightarrow> keyboard_ok (keyboard_irq_handler dev kb)"
  by (auto simp: keyboard_irq_handler_def keyboard_read_scancode_def inb_def Let_def keyboard_put_def keyboard_ok_def)

lemma keyboard_ok_io [simp]: "keyboard_ok (kb\<lparr>kbd_io := tr\<rparr>) \<longleftrightarrow> keyboard_ok kb"
  by (simp add: keyboard_ok_def)

lemma mouse_ok_io [simp]: "mouse_ok (m\<lparr>mouse_io := tr\<rparr>) \<longleftrightarrow> mouse_ok m"
  by (simp add: mouse_ok_def)

lemma on_keyboard_ok:
  assumes "kernel_ok k" and "\<And>kb. keyboard_ok kb \<Longrightarrow> keyboard_ok (f kb)"
  shows "kernel_ok (on_keyboard f k)"
  using assms by (simp add: on_keyboard_def Let_def kernel_ok_def)

lemma on_mouse_ok:
  assumes "kernel_ok k" and "\<And>m. mouse_ok m \<Longrightarrow> mouse_ok (f m)"
  shows "kernel_ok (on_mouse f k)"
  using assms by (simp add: on_mouse_def Let_def kernel_ok_def)

lemma mouse_handler_ok: "mouse_ok m \<Longrightarrow> mouse_ok (mouse_irq_handler dev m)"
  by (rule mouse_irq_trace [THEN conjunct1])


lemma eoi_trace: "pic_send_eoi i tr = Out8 0x20 0x20 # (if 8 \<le> i then [Out8 0xA0 0x20] else []) @ tr"
  by (rule pic_send_eoi_trace)

text \<open>A hardware interrupt returns; an exception returns when a page could be given, or panics.\<close>

lemma irq_returns:
  assumes ok: "kernel_ok k" and n: "32 \<le> n" "n \<le> 47"
  shows "\<exists>k'. isr_handler E sc n e k = Some (Running k') \<and> kernel_ok k'
    \<and> ticks (kclock k') = (if n = 32 then ticks (kclock k) + 1 else ticks (kclock k))"
proof -
  obtain k1 where k1: "(if n = 32 then kernel_timer_tick k else returns k) = Some (Running k1)" "kernel_ok k1"
    "ticks (kclock k1) = (if n = 32 then ticks (kclock k) + 1 else ticks (kclock k))"
    using timer_returns [OF ok] ok by (cases "n = 32") (auto simp: returns_def)
  obtain k2 where k2: "kernel_scheduler_tick k1 = Some (Running k2)" "kernel_ok k2" "kclock k2 = kclock k1"
    using scheduler_idle [OF k1(2)] by blast
  have "\<not> n < 32" "n \<noteq> 0x80" using n by (auto simp: word_less_nat_alt word_le_nat_alt)
  then have "isr_handler E sc n e k = (if n = 33 then returns (on_ports (pic_send_eoi 1) (on_keyboard (keyboard_irq_handler (env_dev E)) k2))
      else if n = 44 then returns (on_ports (pic_send_eoi 12) (on_mouse (mouse_irq_handler (env_dev E)) k2))
      else returns (on_ports (pic_send_eoi (ucast (n - 32))) k2))"
    using n k1(1) k2(1) by (simp add: isr_handler_def)
  moreover have "kernel_ok (on_keyboard (keyboard_irq_handler (env_dev E)) k2)" "kernel_ok (on_mouse (mouse_irq_handler (env_dev E)) k2)"
    using on_keyboard_ok [OF k2(2)] on_mouse_ok [OF k2(2)] keyboard_irq_ok mouse_handler_ok by blast+
  moreover have "ticks (kclock (on_keyboard f k2)) = ticks (kclock k2)" "ticks (kclock (on_mouse g k2)) = ticks (kclock k2)" for f g
    by (simp_all add: on_keyboard_def on_mouse_def Let_def)
  ultimately show ?thesis using k2 k1(3) by (simp add: returns_def)
qed

lemma demand_page_ends: "(\<exists>k'. demand_page E a k = Some (Running k')) \<or> (\<exists>k'. demand_page E a k = Some (Halted k'))"
  using panic_halts by (simp add: demand_page_def Let_def split_beta returns_def)

lemma page_fault_ends: "(\<exists>k'. page_fault E e k = Some (Running k')) \<or> (\<exists>k'. page_fault E e k = Some (Halted k'))"
  using demand_page_ends panic_halts by (simp add: page_fault_def Let_def)

lemma interrupt_cases:
  assumes "kernel_ok k"
  shows "(\<exists>k'. isr_handler E sc n e k = Some (Running k') \<and> kernel_ok k'
       \<and> ticks (kclock k') = (if n = 32 then ticks (kclock k) + 1 else ticks (kclock k)))
    \<or> (n < 32 \<and> (\<exists>k'. isr_handler E sc n e k = Some (Halted k') \<and> kernel_ok k'))"
proof -
  consider "n < 32" | "32 \<le> n" "n \<le> 47" | "47 < n" by fastforce
  then show ?thesis
  proof cases
    case 1
    have "kernel_ok (say ''\<newline>'' (say m (say ''EXCEPTION: '' k)))" for m using assms by simp
    with panic_ok panic_halts have "\<exists>k'. panic E t (say ''\<newline>'' (say m (say ''EXCEPTION: '' k))) = Some (Halted k') \<and> kernel_ok k'" for t m
      by (metis holds_after_simps(2))
    moreover have "\<exists>k'. (page_fault E e k = Some (Running k') \<or> page_fault E e k = Some (Halted k')) \<and> kernel_ok k' \<and> True"
      using page_fault_ends [of E e k] page_fault_ok [OF assms, of E e] by (metis holds_after_simps(1,2))
    moreover have "page_fault E e k = Some (Running k') \<Longrightarrow> ticks (kclock k') = ticks (kclock k)" for k'
      by (auto simp: page_fault_def demand_page_def Let_def split_beta returns_def panic_def set_pages_def split: if_splits)
    moreover have "n \<noteq> 32" using 1 by auto
    ultimately show ?thesis using 1 unfolding isr_handler_def Let_def by (cases "n = 14") auto
  next
    case 2
    then show ?thesis using irq_returns [OF assms, of n E sc e] by blast
  next
    case 3
    then have "\<not> n < 32" "\<not> n \<le> 47" "n \<noteq> 32" by (auto simp: word_less_nat_alt word_le_nat_alt)
    then show ?thesis using assms by (simp add: isr_handler_def returns_def)
  qed
qed


text \<open>
  C32. In a state in order every interrupt is handled: the dispatcher ends, by returning in a state
  in order again or, for an exception only, by a panic that leaves the screen and the log in
  order.  A hardware interrupt always returns, and exactly the timer's moves the clock.
\<close>

theorem interrupts_handled:
  assumes "kernel_ok k"
  shows "(\<exists>k'. isr_handler E sc n e k = Some (Running k') \<and> kernel_ok k'
       \<and> ticks (kclock k') = (if n = 32 then ticks (kclock k) + 1 else ticks (kclock k)))
    \<or> (n < 32 \<and> (\<exists>k'. isr_handler E sc n e k = Some (Halted k') \<and> kernel_ok k'))"
  using assms by (rule interrupt_cases)

text \<open>What an interrupt does to the ports.\<close>

lemma cursor_fold_crtc: "crtc (tcur_screen (fold text_cursor_handle_event es t)) = crtc (tcur_screen t)"
proof (induction es arbitrary: t)
  case (Cons e es)
  have "crtc (tcur_screen (text_cursor_handle_event e t)) = crtc (tcur_screen t)"
    by (simp add: text_cursor_handle_event_def split_beta Let_def text_cursor_draw_def restore_cell_def vga_write_cell_def)
  with Cons show ?case by simp
qed simp

lemma timer_tick_crtc:
  assumes ok: "mouse_ok (tm_mouse c)" and run: "timer_tick c = Some c'"
  shows "crtc (tcur_screen (tm_tcur c')) = crtc (tcur_screen (tm_tcur c))"
proof -
  obtain m1 where m1: "cursor_tick (tm_mouse c) (tm_cursor c) = Some (m1, fold cursor_handle_event (mouse_contents (tm_mouse c)) (tm_cursor c))"
    using mq.drain_handles_all [OF ok, of cursor_handle_event "tm_cursor c"] unfolding cursor_tick_def by blast
  obtain m2 where m2: "text_cursor_tick (tm_mouse c) (tm_tcur c) = Some (m2, fold text_cursor_handle_event (mouse_contents (tm_mouse c)) (tm_tcur c))"
    using mq.drain_handles_all [OF ok, of text_cursor_handle_event "tm_tcur c"] unfolding text_cursor_tick_def by blast
  show ?thesis using m1 m2 run cursor_fold_crtc
    by (auto simp: timer_tick_def Let_def split: if_splits)
qed

lemma timer_kio:
  assumes "kernel_ok k" and "kernel_timer_tick k = Some (Running k')"
  shows "kio k' = kio k"
proof -
  obtain c' where c: "timer_tick (clock_view k) = Some c'" "k' = set_clock c' k"
    using assms(2) by (auto simp: kernel_timer_tick_def)
  from timer_tick_crtc [OF _ c(1)] assms(1) show ?thesis by (simp add: c(2) kio_def kernel_ok_def)
qed

lemma keyboard_trace: "\<exists>s. kbd_io (keyboard_irq_handler dev kb) = pic_send_eoi 1 (In8 0x60 s # kbd_io kb)"
  by (auto simp: keyboard_irq_handler_def keyboard_read_scancode_def inb_def Let_def keyboard_put_def)

lemma on_keyboard_kio: "kio (on_keyboard f k) = kbd_io (f ((kkeyboard k)\<lparr>kbd_io := kio k\<rparr>))"
  by (simp add: on_keyboard_def Let_def)

lemma on_mouse_kio: "kio (on_mouse f k) = mouse_io (f ((tm_mouse (kclock k))\<lparr>mouse_io := kio k\<rparr>))"
  by (simp add: on_mouse_def Let_def)

lemma irq_line:
  assumes "32 \<le> n" "n \<le> (47 :: u32)"
  shows "8 \<le> (ucast (n - 32) :: u8) \<longleftrightarrow> 40 \<le> n"
proof -
  have u: "32 \<le> unat n" "unat n \<le> 47" using assms by (simp_all add: word_le_nat_alt)
  then have "unat (n - 32) = unat n - 32" by (simp add: unat_sub word_le_nat_alt)
  with u have "unat (ucast (n - 32) :: u8) = unat n - 32" by (simp add: unsigned_ucast_eq take_bit_nat_eq_self)
  with u show ?thesis by (simp add: word_le_nat_alt) linarith
qed

text \<open>
  C33. Every hardware interrupt is acknowledged: the last thing done to the ports is the end of
  interrupt, the byte \<open>0x20\<close>, to the second controller for the lines from 8 on and then to the first
  (the latest port access stands first).  Keyboard and mouse are acknowledged twice, once by their
  handler and once by the dispatcher, after what their handler read from the controller: the scan code,
  or the status and, when the status says that the byte is the mouse's, the byte;
  the other lines are acknowledged once and nothing else is done to the ports.
\<close>

theorem irqs_acknowledged:
  assumes ok: "kernel_ok k" and n: "32 \<le> n" "n \<le> 47"
  shows "\<exists>k'. isr_handler E sc n e k = Some (Running k')
    \<and> (n = 33 \<longrightarrow> (\<exists>s. kio k' = Out8 0x20 0x20 # Out8 0x20 0x20 # In8 0x60 s # kio k))
    \<and> (n = 44 \<longrightarrow> (\<exists>v w. kio k' = Out8 0x20 0x20 # Out8 0xA0 0x20 # Out8 0x20 0x20 # Out8 0xA0 0x20
         # (if v AND 0x20 = 0 then [In8 0x64 v] else [In8 0x60 w, In8 0x64 v]) @ kio k))
    \<and> (n \<noteq> 33 \<longrightarrow> n \<noteq> 44 \<longrightarrow> kio k' = Out8 0x20 0x20 # (if 40 \<le> n then [Out8 0xA0 0x20] else []) @ kio k)"
proof -
  obtain k1 where k1: "(if n = 32 then kernel_timer_tick k else returns k) = Some (Running k1)" "kernel_ok k1" "kio k1 = kio k"
    using timer_returns [OF ok] timer_kio [OF ok] ok by (cases "n = 32") (auto simp: returns_def)
  obtain k2 where k2: "kernel_scheduler_tick k1 = Some (Running k2)" "kernel_ok k2" "kio k2 = kio k"
    using scheduler_idle [OF k1(2)] k1(3) by auto
  have "\<not> n < 32" "n \<noteq> 0x80" using n by (auto simp: word_less_nat_alt word_le_nat_alt)
  then have run: "isr_handler E sc n e k = (if n = 33 then returns (on_ports (pic_send_eoi 1) (on_keyboard (keyboard_irq_handler (env_dev E)) k2))
      else if n = 44 then returns (on_ports (pic_send_eoi 12) (on_mouse (mouse_irq_handler (env_dev E)) k2))
      else returns (on_ports (pic_send_eoi (ucast (n - 32))) k2))"
    using n k1(1) k2(1) by (simp add: isr_handler_def)
  have m: "mouse_ok ((tm_mouse (kclock k2))\<lparr>mouse_io := kio k\<rparr>)" using k2(2) by (simp add: kernel_ok_def)
  obtain s where s: "kio (on_keyboard (keyboard_irq_handler (env_dev E)) k2) = pic_send_eoi 1 (In8 0x60 s # kio k)"
    using keyboard_trace [of "env_dev E" "(kkeyboard k2)\<lparr>kbd_io := kio k\<rparr>"] by (auto simp: on_keyboard_kio k2(3))
  obtain v w where r: "kio (on_mouse (mouse_irq_handler (env_dev E)) k2) =
      pic_send_eoi 12 ((if v AND 0x20 = 0 then [In8 0x64 v] else [In8 0x60 w, In8 0x64 v]) @ kio k)"
    using mouse_irq_trace [OF m, of "env_dev E"] by (auto simp: on_mouse_kio k2(3))
  have lines: "\<not> (8 :: u8) \<le> 1" "(8 :: u8) \<le> 12" by (simp_all add: word_le_nat_alt)
  have eight: "8 \<le> (ucast (n - 32) :: u8) \<longleftrightarrow> 40 \<le> n" using n by (rule irq_line)
  consider "n = 33" | "n = 44" | "n \<noteq> 33" "n \<noteq> 44" by blast
  then show ?thesis
  proof cases
    case 1
    then show ?thesis using run s by (simp add: returns_def eoi_trace lines)
  next
    case 2
    have "kio (on_ports (pic_send_eoi 12) (on_mouse (mouse_irq_handler (env_dev E)) k2)) =
        Out8 0x20 0x20 # Out8 0xA0 0x20 # Out8 0x20 0x20 # Out8 0xA0 0x20
          # (if v AND 0x20 = 0 then [In8 0x64 v] else [In8 0x60 w, In8 0x64 v]) @ kio k"
      by (simp add: eoi_trace r lines)
    then show ?thesis using run 2 by (simp add: returns_def del: on_ports_fields) blast
  qed (use run k2(3) in \<open>simp add: returns_def eoi_trace eight\<close>)
qed

section \<open>Demand paging\<close>

lemma pages_view_set [simp]: "pages_view (set_pages v k) = v"
  by (cases v; cases "frames v") (simp add: pages_view_def set_pages_def)

lemma translate_flushed [simp]: "translate (v\<lparr>flushed := fl\<rparr>) a = translate v a" "vm_ok (v\<lparr>flushed := fl\<rparr>) \<longleftrightarrow> vm_ok v"
  by (simp_all add: translate_def vm_ok_def table_ok_def Let_def)

lemma same_page: "drop_bit 12 (a AND 0xFFFFF000) = drop_bit 12 (a :: u32)"
  by (rule bit_word_eqI) (auto simp: bit_simps page_mask dest: bit_imp_le_length)

text \<open>
  C8. Demand paging: a fault of the kernel on an absent page of the heap is handled by giving the
  page a frame that was free.  The faulting address then translates into that frame, every
  other page translates as before, and the tables stay in order.  The frames needed are one for the
  page, and one more for a page table where the directory has none; without a frame for the page
  the kernel panics.
\<close>

theorem page_fault_maps:
  assumes ok: "vm_ok (pages_view k)"
    and e: "e AND 0x1 = 0" "e AND 0x4 = 0" and a: "cpu_cr2 (env_cpu E k) = addr"
      "KERNEL_HEAP_START \<le> addr AND 0xFFFFF000" "addr AND 0xFFFFF000 < KERNEL_HEAP_END"
    and fr: "pmm_alloc_frame (frames (pages_view k)) = (frame, fr)"
    and t: "page_tables (pages_view k) ! unat (drop_bit 22 addr) \<noteq> 0 \<or> fst (pmm_alloc_frame fr) \<noteq> 0"
  shows "if frame = 0 then \<exists>k'. isr_handler E sc 14 e k = Some (Halted k')
    else \<exists>k' f. isr_handler E sc 14 e k = Some (Running k') \<and> f \<in> free_set (frames (pages_view k)) \<and> frame = ad (4096 * f)
      \<and> vm_ok (pages_view k')
      \<and> (\<forall>b. translate (pages_view k') b =
          (if drop_bit 12 b = drop_bit 12 addr then Some (frame OR (b AND 0xFFF)) else translate (pages_view k) b))"
proof -
  let ?v = "pages_view k"
  have run: "isr_handler E sc 14 e k = demand_page E (addr AND 0xFFFFF000) k"
    using e a by (simp add: isr_handler_def page_fault_def Let_def)
  show ?thesis
  proof (cases "frame = 0")
    case True
    then show ?thesis using panic_halts by (simp add: run demand_page_def fr Let_def)
  next
    case False
    have wf: "pmm_wf (frames ?v)" using ok by (simp add: vm_ok_def)
    from alloc_frame_cases [OF wf] fr False obtain f where f: "f \<in> free_set (frames ?v)"
      "frame = ad (4096 * f)" "fr = set_frame (ad f) (frames ?v)" by auto
    let ?w = "?v\<lparr>frames := fr\<rparr>"
    have w: "vm_ok ?w" using taken_ok [OF ok f(1)] f(3) by simp
    have d: "drop_bit 22 (addr AND 0xFFFFF000) = drop_bit 22 addr"
      by (rule bit_word_eqI) (auto simp: bit_simps page_mask dest: bit_imp_le_length)
    have tr: "translate ?w b = translate ?v b" for b
      using set_frame_translate [OF ok f(1)] f(3) by simp
    have "page_tables ?w ! unat (drop_bit 22 (addr AND 0xFFFFF000)) \<noteq> 0 \<or> fst (pmm_alloc_frame (frames ?w)) \<noteq> 0"
      using t d by simp
    note m = map_page_maps [OF w this, of frame]
    have al: "frame AND 0xFFFFF000 = frame" using f(2) frame_aligned by simp
    let ?m = "map_page (addr AND 0xFFFFF000) frame ?w"
    have to: "translate ?m b = (if drop_bit 12 b = drop_bit 12 addr then Some (frame OR (b AND 0xFFF)) else translate ?v b)" for b
      using m [THEN conjunct2, THEN spec, of b] unfolding al tr same_page .
    have "isr_handler E sc 14 e k = Some (Running (set_pages (?m\<lparr>flushed := (addr AND 0xFFFFF000) # flushed ?m\<rparr>) (set_pages ?w k)))"
      unfolding run using False by (simp add: demand_page_def fr Let_def returns_def)
    with False f m to show ?thesis by simp blast
  qed
qed

section \<open>System calls\<close>

lemma write_chars_prints:
  assumes "cstr m (str + i) s" and "unat i + length s < 4294967296"
  shows "write_chars m str len i v = vga_print (take (unat len - unat i) s) v"
  using assms
proof (induction s arbitrary: i v)
  case Nil
  then show ?case by (subst write_chars.simps) simp
next
  case (Cons c s)
  have nx: "unat (i + 1) = unat i + 1" using Cons.prems(2) by (simp add: unat_plus_if')
  have c: "m (str + i) = c" "c \<noteq> 0" "cstr m (str + (i + 1)) s" using Cons.prems(1) by (simp_all add: add.assoc)
  have ih: "write_chars m str len (i + 1) w = vga_print (take (unat len - (unat i + 1)) s) w" for w
    using Cons.IH [of "i + 1" w] c(3) Cons.prems(2) by (simp add: nx)
  show ?case
  proof (cases "i < len")
    case True
    then have "unat len - unat i = Suc (unat len - (unat i + 1))" by (simp add: word_less_nat_alt)
    then show ?thesis using True c ih by (subst write_chars.simps) simp
  next
    case False
    then show ?thesis by (subst write_chars.simps) (simp add: word_less_nat_alt)
  qed
qed

text \<open>
  The system call for writing prints the string it is given up to the length it is given,
  and nothing else of the kernel's state changes; a null pointer or a length of 0 does nothing.
  An unknown number is logged.
\<close>

theorem syscall_writes:
  assumes "cstr (kmem k) ecx s"
  shows "(ecx \<noteq> 0 \<longrightarrow> length s < 4294967296 \<longrightarrow> syscall_handler 1 ebx ecx edx k = on_screen (vga_print (take (unat edx) s)) k)
    \<and> syscall_handler 1 ebx 0 edx k = k
    \<and> (3 < eax \<longrightarrow> log_ok (klogs k) \<longrightarrow>
        log_text (klogs (syscall_handler eax ebx ecx edx k)) = last_of 8192 (log_text (klogs k)
          @ bytes_of ''syscall: unknown '' @ log_hex_buffer eax @ bytes_of ''\<newline>''))"
proof -
  have w: "syscall_handler 1 ebx ecx edx k = on_screen (vga_print (take (unat edx) s)) k" if "ecx \<noteq> 0" "length s < 4294967296"
  proof (cases "edx = 0")
    case True
    then show ?thesis by (simp add: syscall_handler_def on_screen_def kscreen_def)
  next
    case False
    have "write_chars (kmem k) ecx edx 0 = vga_print (take (unat edx) s)"
      using write_chars_prints [of "kmem k" ecx 0 s edx] assms that(2) by (simp add: fun_eq_iff)
    with that(1) False show ?thesis by (simp add: syscall_handler_def)
  qed
  have "eax \<noteq> 1" "eax \<noteq> 2" "eax \<noteq> 3" if "3 < eax" using that by auto
  then have "3 < eax \<longrightarrow> log_ok (klogs k) \<longrightarrow>
        log_text (klogs (syscall_handler eax ebx ecx edx k)) = last_of 8192 (log_text (klogs k)
          @ bytes_of ''syscall: unknown '' @ log_hex_buffer eax @ bytes_of ''\<newline>'')"
    by (simp add: syscall_handler_def log_write_hex_def log_write_text last_of_append)
  with w show ?thesis by (simp add: syscall_handler_def)
qed

text \<open>
  The branch of the dispatcher for system calls is dead: whatever it would call, no
  interrupt has another effect, and vector 0x80 has none.
\<close>

theorem dispatcher_ignores_syscalls:
  "isr_handler E sc n e k = isr_handler E sc' n e k \<and> isr_handler E sc 0x80 e k = Some (Running k)"
proof -
  have "n \<noteq> 0x80" if "n \<le> 47" using that by (auto simp: word_le_nat_alt)
  then show ?thesis by (auto simp: isr_handler_def returns_def cong: if_cong)
qed

section \<open>The assembly stubs\<close>

text \<open>
  The general registers and the stack of the interrupted code, the word on top first.  What
  \<open>pusha\<close> stores as the stack pointer is not used again: it is an argument.  The C function that
  a stub calls may change \<open>eax\<close>, \<open>ecx\<close>, \<open>edx\<close> and the words of its arguments, to anything.
\<close>

record regs =
  r_eax :: u32
  r_ebx :: u32
  r_ecx :: u32
  r_edx :: u32
  r_ebp :: u32
  r_esi :: u32
  r_edi :: u32

record processor =
  gregs :: regs
  stack :: "u32 list"

definition push :: "u32 \<Rightarrow> processor \<Rightarrow> processor" where
  "push w p = p\<lparr>stack := w # stack p\<rparr>"

definition add_esp :: "nat \<Rightarrow> processor \<Rightarrow> processor" where
  "add_esp words p = p\<lparr>stack := drop words (stack p)\<rparr>"

definition pusha :: "u32 \<Rightarrow> processor \<Rightarrow> processor" where
  "pusha esp p = (let r = gregs p in p\<lparr>stack :=
     [r_edi r, r_esi r, r_ebp r, esp, r_ebx r, r_edx r, r_ecx r, r_eax r] @ stack p\<rparr>)"

definition popa :: "processor \<Rightarrow> processor" where
  "popa p = (let s = stack p in p\<lparr>stack := drop 8 s, gregs :=
     \<lparr>r_eax = s ! 7, r_ebx = s ! 4, r_ecx = s ! 6, r_edx = s ! 5, r_ebp = s ! 2, r_esi = s ! 1, r_edi = s ! 0\<rparr>\<rparr>)"

definition iretd :: "processor \<Rightarrow> (u32 \<times> u32 \<times> u32) \<times> processor" where
  "iretd p = ((stack p ! 0, stack p ! 1, stack p ! 2), add_esp 3 p)"

definition c_call :: "nat \<Rightarrow> (regs \<Rightarrow> (u32 \<times> u32 \<times> u32) \<times> u32 list) \<Rightarrow> processor \<Rightarrow> u32 list \<times> processor" where
  "c_call n callee p =
     (let args = take n (stack p); ((a, c, d), ws) = callee (gregs p)
      in (args, p\<lparr>gregs := (gregs p)\<lparr>r_eax := a, r_ecx := c, r_edx := d\<rparr>,
                  stack := map (\<lambda>i. ws ! i) [0..<n] @ drop n (stack p)\<rparr>))"

text \<open>The stubs of the 48 vectors: \<open>ISR_ERR\<close> where the processor is taken to push an error code.\<close>

definition isr_err :: "nat \<Rightarrow> bool" where "isr_err n \<longleftrightarrow> n \<in> {8, 10, 11, 12, 13, 14, 17}"

definition isr_stub :: "nat \<Rightarrow> processor \<Rightarrow> processor" where
  "isr_stub n p = push (of_nat n) (if isr_err n then p else push 0 p)"

definition isr_common_stub :: "u32 \<Rightarrow> (regs \<Rightarrow> (u32 \<times> u32 \<times> u32) \<times> u32 list) \<Rightarrow> processor
    \<Rightarrow> u32 list \<times> (u32 \<times> u32 \<times> u32) \<times> processor" where
  "isr_common_stub esp callee p =
     (let p = pusha esp p;
          p = p\<lparr>gregs := (gregs p)\<lparr>r_eax := stack p ! 8\<rparr>\<rparr>;
          p = p\<lparr>gregs := (gregs p)\<lparr>r_ebx := stack p ! 9\<rparr>\<rparr>;
          p = push (r_ebx (gregs p)) p;
          p = push (r_eax (gregs p)) p;
          (args, p) = c_call 2 callee p;
          p = add_esp 2 p;
          p = popa p;
          p = add_esp 2 p
      in (args, iretd p))"

definition syscall_entry :: "u32 \<Rightarrow> (regs \<Rightarrow> (u32 \<times> u32 \<times> u32) \<times> u32 list) \<Rightarrow> processor
    \<Rightarrow> u32 list \<times> (u32 \<times> u32 \<times> u32) \<times> processor" where
  "syscall_entry esp callee p =
     (let p = pusha esp p;
          p = push (r_eax (gregs p)) (push (r_ebx (gregs p)) (push (r_ecx (gregs p)) (push (r_edx (gregs p)) p)));
          (args, p) = c_call 4 callee p;
          p = add_esp 4 p;
          p = popa p
      in (args, iretd p))"

text \<open>
  What the processor does on vector \<open>n\<close>: it pushes the flags, the code segment and the address
  of the interrupted code, and an error code for the exceptions that have one.
\<close>

definition has_error_code :: "nat \<Rightarrow> bool" where
  "has_error_code n \<longleftrightarrow> n \<in> {8, 10, 11, 12, 13, 14, 17, 21, 29, 30}"

definition interrupt :: "nat \<Rightarrow> u32 \<Rightarrow> u32 \<times> u32 \<times> u32 \<Rightarrow> processor \<Rightarrow> processor" where
  "interrupt n err frame p = (let (eip, cs, eflags) = frame; p = push eip (push cs (push eflags p))
     in if has_error_code n then push err p else p)"

text \<open>
  C34. The stubs are transparent: the dispatcher is called with the vector and the error code (0
  where there is none), and the interrupted code goes on where it was, with its flags, all its
  registers and its stack, whatever the C code did to the registers it may change.  This holds
  for all 48 vectors but 21, 29 and 30: there the processor pushes an error code that the stub
  does not expect, so the dispatcher is told 0 and a return would take the error code as address.
  A system call gets its four registers as arguments and cannot return a value, because
  every register is restored.
\<close>

theorem stubs_transparent:
  fixes n :: nat
  shows "(n \<noteq> 21 \<and> n \<noteq> 29 \<and> n \<noteq> 30 \<longrightarrow>
      isr_common_stub esp callee (isr_stub n (interrupt n err frame p))
        = ([of_nat n, if has_error_code n then err else 0], frame, p))
    \<and> (n \<in> {21, 29, 30} \<longrightarrow> (\<exists>q. isr_common_stub esp callee (isr_stub n (interrupt n err (eip, cs, eflags) p))
        = ([of_nat n, 0], (err, eip, cs), q)))
    \<and> syscall_entry esp callee (interrupt 0x80 err frame p)
        = ([r_eax (gregs p), r_ebx (gregs p), r_ecx (gregs p), r_edx (gregs p)], frame, p)"
proof -
  obtain a b c where f: "frame = (a, b, c)" by (cases frame) auto
  have c2: "c_call 2 callee q = (take 2 (stack q), q\<lparr>gregs := (gregs q)\<lparr>r_eax := fst (fst (callee (gregs q))),
      r_ecx := fst (snd (fst (callee (gregs q)))), r_edx := snd (snd (fst (callee (gregs q))))\<rparr>,
      stack := snd (callee (gregs q)) ! 0 # snd (callee (gregs q)) ! 1 # drop 2 (stack q)\<rparr>)" for q
    by (simp add: c_call_def split_beta Let_def numeral_2_eq_2)
  have c4: "c_call 4 callee q = (take 4 (stack q), q\<lparr>gregs := (gregs q)\<lparr>r_eax := fst (fst (callee (gregs q))),
      r_ecx := fst (snd (fst (callee (gregs q)))), r_edx := snd (snd (fst (callee (gregs q))))\<rparr>,
      stack := snd (callee (gregs q)) ! 0 # snd (callee (gregs q)) ! 1 # snd (callee (gregs q)) ! 2
        # snd (callee (gregs q)) ! 3 # drop 4 (stack q)\<rparr>)" for q
    by (simp add: c_call_def split_beta Let_def upt_conv_Cons numeral_2_eq_2 numeral_3_eq_3)
  have s: "isr_common_stub esp callee (push (of_nat n) (push e (push x (push y (push z q))))) = ([of_nat n, e], (x, y, z), q)" for e x y z q
    by (simp add: isr_common_stub_def pusha_def popa_def push_def add_esp_def iretd_def c2 Let_def)
  have t: "syscall_entry esp callee (push a (push b (push c p)))
      = ([r_eax (gregs p), r_ebx (gregs p), r_ecx (gregs p), r_edx (gregs p)], (a, b, c), p)"
    by (simp add: syscall_entry_def pusha_def popa_def push_def add_esp_def iretd_def c4 Let_def)
  have "syscall_entry esp callee (interrupt 0x80 err frame p)
      = ([r_eax (gregs p), r_ebx (gregs p), r_ecx (gregs p), r_edx (gregs p)], frame, p)"
    using t by (simp add: interrupt_def f has_error_code_def Let_def)
  moreover have "isr_common_stub esp callee (isr_stub n (interrupt n err frame p))
      = ([of_nat n, if has_error_code n then err else 0], frame, p)" if "n \<noteq> 21 \<and> n \<noteq> 29 \<and> n \<noteq> 30"
  proof -
    have "isr_err n \<longleftrightarrow> has_error_code n" using that by (auto simp: isr_err_def has_error_code_def)
    then show ?thesis using s by (simp add: interrupt_def isr_stub_def f Let_def)
  qed
  moreover have "isr_common_stub esp callee (isr_stub n (interrupt n err (eip, cs, eflags) p))
      = ([of_nat n, 0], (err, eip, cs), push eflags p)" if "n \<in> {21, 29, 30}"
  proof -
    have "has_error_code n" "\<not> isr_err n" using that by (auto simp: isr_err_def has_error_code_def)
    then show ?thesis using s [of 0 err eip cs "push eflags p"] by (simp add: interrupt_def isr_stub_def Let_def)
  qed
  ultimately show ?thesis by blast
qed

section \<open>Sleeping\<close>

text \<open>
  \<open>sleep\<close> with the real handlers: each halt is ended by the interrupt that the environment gives.
  What the dispatcher would do with a system call does not matter (\<open>dispatcher_ignores_syscalls\<close>).
\<close>

definition next_interrupt :: "env \<Rightarrow> kernel \<Rightarrow> run option" where
  "next_interrupt E k = isr_handler E returns (fst (env_interrupt E k)) (snd (env_interrupt E k)) k"

partial_function (option) kernel_sleep_loop :: "env \<Rightarrow> u32 \<Rightarrow> u32 \<Rightarrow> kernel \<Rightarrow> run option" where
  "kernel_sleep_loop E start wait_ticks k =
     (if ticks (kclock k) - start < wait_ticks
      then run_bind (next_interrupt E k) (kernel_sleep_loop E start wait_ticks)
      else returns k)"

definition kernel_sleep :: "env \<Rightarrow> u32 \<Rightarrow> kernel \<Rightarrow> run option" where
  "kernel_sleep E ms k =
     (let start = timer_get_ticks (kclock k); wait_ticks = ms div 10 in kernel_sleep_loop E start wait_ticks k)"

lemma next_interrupt_ok: "kernel_ok k \<Longrightarrow> holds_after kernel_ok (next_interrupt E k)"
  using interrupt_cases [of k E returns "fst (env_interrupt E k)" "snd (env_interrupt E k)"]
  by (auto simp: next_interrupt_def)

lemma sleep_loop_ok:
  assumes run: "kernel_sleep_loop E start w k = Some r"
  shows "kernel_ok k \<longrightarrow> holds_after kernel_ok (Some r)"
proof (rule kernel_sleep_loop.raw_induct [OF _ run])
  fix sl E start w k r
  assume ih: "\<And>E start w k r. sl E start w k = Some r \<Longrightarrow> kernel_ok k \<longrightarrow> holds_after kernel_ok (Some r)"
    and body: "(if ticks (kclock k) - start < w then run_bind (next_interrupt E k) (sl E start w) else returns k) = Some r"
  show "kernel_ok k \<longrightarrow> holds_after kernel_ok (Some r)"
  proof
    assume k: "kernel_ok k"
    have "holds_after kernel_ok (sl E start w k')" if "kernel_ok k'" for k'
      using ih that by (cases "sl E start w k'") auto
    with next_interrupt_ok [OF k, of E] body k show "holds_after kernel_ok (Some r)"
      by (metis holds_after_simps(6) run_bind_ok)
  qed
qed

lemma kernel_sleep_ok [kernel_oks]: "kernel_ok k \<Longrightarrow> holds_after kernel_ok (kernel_sleep E ms k)"
  using sleep_loop_ok by (cases "kernel_sleep E ms k") (auto simp: kernel_sleep_def Let_def)

text \<open>
  The interrupts are those of the hardware, and the timer's come again and again: \<open>d\<close> bounds how
  many others come before the next one.
\<close>

definition timer_comes :: "env \<Rightarrow> (kernel \<Rightarrow> nat) \<Rightarrow> bool" where
  "timer_comes E d \<longleftrightarrow> (\<forall>k. 32 \<le> fst (env_interrupt E k) \<and> fst (env_interrupt E k) \<le> 47
     \<and> (fst (env_interrupt E k) = 32 \<or> (\<forall>k'. next_interrupt E k = Some (Running k') \<longrightarrow> d k' < d k)))"

lemma sleep_loop_returns:
  assumes tc: "timer_comes E d" and ok: "kernel_ok k" and le: "ticks (kclock k) - start \<le> w"
  shows "\<exists>k'. kernel_sleep_loop E start w k = Some (Running k') \<and> kernel_ok k' \<and> ticks (kclock k') - start = w"
  using ok le
proof (induction "(unat w - unat (ticks (kclock k) - start), d k)" arbitrary: k rule: wf_induct_rule [OF wf_lex_prod [OF wf_less_than wf_less_than]])
  case (1 k)
  show ?case
  proof (cases "ticks (kclock k) - start < w")
    case False
    with 1 show ?thesis by (subst kernel_sleep_loop.simps) (simp add: returns_def)
  next
    case True
    define x where "x = ticks (kclock k) - start"
    have x: "x < w" using True by (simp add: x_def)
    let ?n = "fst (env_interrupt E k)"
    have n: "32 \<le> ?n" "?n \<le> 47" using tc by (auto simp: timer_comes_def)
    obtain k1 where k1: "next_interrupt E k = Some (Running k1)" "kernel_ok k1"
      "ticks (kclock k1) = (if ?n = 32 then ticks (kclock k) + 1 else ticks (kclock k))"
      using irq_returns [OF 1(2) n] unfolding next_interrupt_def by blast
    have tk: "ticks (kclock k1) - start = (if ?n = 32 then x + 1 else x)" by (simp add: k1(3) x_def)
    have "unat x + 1 < 4294967296" using x unat32_less [of w] unfolding word_less_nat_alt by linarith
    then have "unat (x + 1) = unat x + 1" by (simp add: unat_plus_if')
    then have "unat w - unat (ticks (kclock k1) - start) < unat w - unat x \<or>
        (ticks (kclock k1) - start = x \<and> d k1 < d k)" and "ticks (kclock k1) - start \<le> w"
      using x tc k1(1) unfolding tk timer_comes_def by (auto simp: word_less_nat_alt word_le_nat_alt)
    with 1(1) [of k1] k1(2) show ?thesis
      unfolding x_def by (subst kernel_sleep_loop.simps) (auto simp: True k1(1))
  qed
qed

text \<open>
  C39. \<open>sleep\<close> returns, with all interrupts handled by the kernel's own handlers: as soon as the timer
  interrupt has come as often as the time has tens of milliseconds, whatever keyboard, mouse and other
  interrupts come between and even when the counter of the ticks wraps; the kernel is in order again.
\<close>

theorem sleep_wakes:
  assumes "timer_comes E d" and "kernel_ok k"
  shows "\<exists>k'. kernel_sleep E ms k = Some (Running k') \<and> kernel_ok k' \<and> ticks (kclock k') - ticks (kclock k) = ms div 10"
  using sleep_loop_returns [OF assms, of "ticks (kclock k)" "ms div 10"]
  by (simp add: kernel_sleep_def timer_get_ticks_def Let_def)

section \<open>The theorems on a concrete kernel\<close>

lemma interrupts_handled_witness:
  "\<exists>k'. isr_handler (env_quiet 0 (32, 0)) returns 32 0 kernel_start = Some (Running k') \<and> ticks (kclock k') = 1"
  using interrupts_handled [OF kernel_start_ok, of "env_quiet 0 (32, 0)" returns 32 0]
  by (auto simp: kernel_start_def clock_start_def)

lemma irqs_acknowledged_witness:
  "\<exists>k' s. isr_handler (env_quiet 0 (33, 0)) returns 33 0 kernel_start = Some (Running k')
     \<and> kio k' = Out8 0x20 0x20 # Out8 0x20 0x20 # In8 0x60 s # kio kernel_start"
  using irqs_acknowledged [OF kernel_start_ok, of 33 "env_quiet 0 (33, 0)" returns 0] by auto

text \<open>Two free frames: one for the page and one for its table.\<close>

definition vm_two :: vm where "vm_two = vm_64\<lparr>frames := clear_frame (ad 32) pmm_64\<rparr>"

lemma vm_two_ok: "vm_ok vm_two" "free_set (frames vm_two) = {32, 33}"
proof -
  have t: "unat (total_frames pmm_64) = 64" "bitmap_words pmm_64 = 2" by (simp_all add: pmm_64_def bitmap_words_def)
  have wf: "pmm_wf (frames vm_two)" and fs: "free_set (frames vm_two) = {32, 33}"
    using free_set_clear_frame [OF pmm_64_wf, of 32] t pmm_64_wf by (auto simp: vm_two_def pmm_64_free)
  have p: "bitmap (frames vm_two) = 0x2000" "total_frames (frames vm_two) = 64"
    by (simp_all add: vm_two_def clear_frame_def set_bitmap_word_def pmm_64_def Let_def)
  have bk: "bitmap_kept (frames vm_two)" unfolding bitmap_kept_def fs
    by (simp add: p bitmap_words_def ad_def apart_def)
  have "0 < total_frames (frames vm_two)" by (simp add: p)
  from empty_ok [OF wf bk this refl] show "vm_ok vm_two" by (simp add: vm_two_def vm_64_def)
  show "free_set (frames vm_two) = {32, 33}" by (rule fs)
qed

lemma alloc_some:
  assumes wf: "pmm_wf p" and f: "f \<in> free_set p" "f < 32 * (unat (total_frames p) div 32)"
  shows "\<exists>g\<in>free_set p. pmm_alloc_frame p = (ad (4096 * g), set_frame (ad g) p)"
proof -
  have "find (\<lambda>f. \<not> frame_used p f) [0..<32 * (unat (total_frames p) div 32)] \<noteq> None"
    using f by (auto simp: find_None_iff free_set_def)
  then obtain g where g: "first_free_frame p = Some (ad g)" "\<not> frame_used p g" "g < 32 * (unat (total_frames p) div 32)"
    by (auto simp: first_free_frame_eq [OF wf] find_upt_Some)
  then have "g < unat (total_frames p)" by linarith
  moreover have "ad g * 4096 = ad (4096 * g)" by (simp add: ad_def)
  ultimately show ?thesis using g by (auto simp: pmm_alloc_frame_def free_set_def)
qed

lemma page_fault_maps_witness:
  "\<exists>k' frame. isr_handler (env_quiet 0x400123 (14, 2)) returns 14 2 (set_pages vm_two kernel_start) = Some (Running k')
     \<and> frame \<in> {0x20000, 0x21000} \<and> translate (pages_view k') 0x400123 = Some (frame OR 0x123)"
proof -
  let ?k = "set_pages vm_two kernel_start"
  have wf: "pmm_wf (frames vm_two)" using vm_two_ok(1) by (simp add: vm_ok_def)
  have p: "unat (total_frames (frames vm_two)) = 64" "bitmap_words (frames vm_two) = 2"
    by (simp_all add: vm_two_def clear_frame_def set_bitmap_word_def pmm_64_def Let_def bitmap_words_def)
  have "32 \<in> free_set (frames vm_two)" "32 < 32 * (unat (total_frames (frames vm_two)) div 32)"
    unfolding vm_two_ok(2) p(1) by simp_all
  from alloc_some [OF wf this] obtain g where g': "g \<in> free_set (frames vm_two)"
    and g2: "pmm_alloc_frame (frames vm_two) = (ad (4096 * g), set_frame (ad g) (frames vm_two))" by blast
  then have g1: "g = 32 \<or> g = 33" unfolding vm_two_ok(2) by blast
  let ?p = "set_frame (ad g) (frames vm_two)"
  have g64: "g < 32 * bitmap_words (frames vm_two)" using g1 unfolding p(2) by auto
  have tf: "total_frames ?p = total_frames (frames vm_two)" by (simp add: set_frame_def set_bitmap_word_def)
  have s: "pmm_wf ?p" "free_set ?p = {32, 33} - {g}"
    using free_set_set_frame [OF wf g64] wf unfolding vm_two_ok(2) by simp_all
  have "65 - g \<in> free_set ?p" "65 - g < 32 * (unat (total_frames ?p) div 32)"
    unfolding s(2) tf p(1) using g1 by auto
  from alloc_some [OF s(1) this] obtain h where "h \<in> free_set ?p" "fst (pmm_alloc_frame ?p) = ad (4096 * h)" by auto
  then have two: "fst (pmm_alloc_frame ?p) \<noteq> 0" unfolding s(2) by (auto simp: ad_eq_0_iff)
  have ne: "ad (4096 * g) \<noteq> 0" using g1 by (auto simp: ad_eq_0_iff)
  from page_fault_maps [of ?k 2 "env_quiet 0x400123 (14, 2)" "0x400123" "ad (4096 * g)" "set_frame (ad g) (frames vm_two)" returns]
    vm_two_ok(1) g2 two ne obtain k' where "isr_handler (env_quiet 0x400123 (14, 2)) returns 14 2 ?k = Some (Running k')"
      "translate (pages_view k') 0x400123 = Some (ad (4096 * g) OR 0x123)"
    by (auto simp: env_quiet_def)
  moreover have "ad (4096 * g) \<in> {0x20000, 0x21000}" using g1 by (auto simp: ad_def)
  ultimately show ?thesis by blast
qed

lemma syscall_writes_witness:
  "syscall_handler 1 1 0x1000 2 (set_kmem (write_bytes (\<lambda>_. 0) 0x1000 (bytes_of ''abc'')) kernel_start)
     = on_screen (vga_print (bytes_of ''ab'')) (set_kmem (write_bytes (\<lambda>_. 0) 0x1000 (bytes_of ''abc'')) kernel_start)"
proof -
  have "cstr (write_bytes (\<lambda>_. 0) 0x1000 (bytes_of ''abc'')) 0x1000 (bytes_of ''abc'')" by simp
  with syscall_writes [of "set_kmem (write_bytes (\<lambda>_. 0) 0x1000 (bytes_of ''abc'')) kernel_start" "0x1000" "bytes_of ''abc''" 1 2 0]
  show ?thesis by simp
qed

lemma stubs_transparent_witness:
  "\<forall>esp callee p. isr_common_stub esp callee (isr_stub 14 (interrupt 14 2 (0x100000, 8, 0x202) p)) = ([14, 2], (0x100000, 8, 0x202), p)"
  using stubs_transparent [of 14 _ _ 2 "(0x100000, 8, 0x202)"] by (simp add: has_error_code_def)

lemma sleep_wakes_witness:
  "\<exists>k'. kernel_sleep (env_quiet 0 (32, 0)) 1700 kernel_start = Some (Running k') \<and> ticks (kclock k') = 170"
proof -
  have "timer_comes (env_quiet 0 (32, 0)) (\<lambda>_. 0)" by (simp add: timer_comes_def env_quiet_def)
  from sleep_wakes [OF this kernel_start_ok, of 1700] show ?thesis by (auto simp: kernel_start_def clock_start_def)
qed

end
