(* ===== verification/Shell.thy ===== *)
theory Shell imports Interrupts begin

text \<open>
  The shell, \<^verbatim>\<open>shell/shell.c\<close>, with the strings of \<^verbatim>\<open>include/system.c\<close>.  A command gets the
  pointers to its arguments as a list, whose length is \<open>argc\<close>; the arguments themselves are in
  the memory.  String literals that are passed on as pointers and the arrays of the functions
  are where \<open>literal\<close> and \<open>object\<close> say.
\<close>

section \<open>Calls of a command\<close>

definition says :: "string list \<Rightarrow> kernel \<Rightarrow> kernel" where "says = fold say"

definition say_color :: "string \<Rightarrow> u8 \<Rightarrow> kernel \<Rightarrow> kernel" where
  "say_color s color = on_screen (vga_print_color (bytes_of s) color)"

text \<open>The string in the memory at \<open>p\<close> is printed.\<close>

definition print_at :: "u32 \<Rightarrow> (kernel \<Rightarrow> run option) \<Rightarrow> kernel \<Rightarrow> run option" where
  "print_at p c k = Option.bind (print_string (kmem k) p (kscreen k)) (\<lambda>v. c (on_screen (\<lambda>_. v) k))"

definition heap_call :: "(heap \<Rightarrow> heap option) \<Rightarrow> (kernel \<Rightarrow> run option) \<Rightarrow> kernel \<Rightarrow> run option" where
  "heap_call f c k = Option.bind (f (fheap (kfs k))) (\<lambda>h. c (on_heap (\<lambda>_. h) k))"

text \<open>Calls through the table of operations of a node.\<close>

definition call_create :: "env \<Rightarrow> u32 \<Rightarrow> u32 \<Rightarrow> u32 \<Rightarrow> (int \<Rightarrow> kernel \<Rightarrow> run option) \<Rightarrow> kernel \<Rightarrow> run option" where
  "call_create E node name flags c k =
     (case ops_of node (kfs k) of None \<Rightarrow> Some (Crashed ''ops'')
      | Some ops \<Rightarrow> if \<not> create_set ops then Some (Crashed ''create'')
                    else with_fs E (ramfs_create node name flags) c k)"

definition call_write :: "env \<Rightarrow> u32 \<Rightarrow> u32 \<Rightarrow> u32 \<Rightarrow> u32 \<Rightarrow> (int \<Rightarrow> kernel \<Rightarrow> run option) \<Rightarrow> kernel \<Rightarrow> run option" where
  "call_write E node offset sz buffer c k =
     (case ops_of node (kfs k) of None \<Rightarrow> Some (Crashed ''ops'')
      | Some ops \<Rightarrow> if \<not> write_set ops then Some (Crashed ''write'')
                    else with_fs E (ramfs_write node offset sz buffer) c k)"

definition pmm_of :: "kernel \<Rightarrow> pmm" where "pmm_of k = frames (pages_view k)"

section \<open>Cursor and mouse\<close>

definition cmd_cur :: "env \<Rightarrow> u32 list \<Rightarrow> kernel \<Rightarrow> run option" where
  "cmd_cur E argv k =
     (if length argv \<noteq> 2 then returns (say ''Usage: cur <0-4>\<newline>'' k)
      else Option.bind (strcmp (kmem k) (argv ! 1) (literal E ''vfs'')) (\<lambda>c.
        if c = 0
        then returns (says [''[VFS]\<newline>'', '' ls\<newline>'', '' cd <path>\<newline>'', '' mk <file>\<newline>'', '' mkr <file>\<newline>'',
               '' rd <file>\<newline>'', '' write <file> <data...>\<newline>'', '' fsseed\<newline>''] k)
        else Option.bind (atoi (kmem k) (argv ! 1)) (\<lambda>preset. returns
          (if preset = 0 then say ''Cursor: disabled\<newline>'' (on_screen vga_disable_cursor k)
           else if preset = 1 then say ''Cursor: underline\<newline>'' (on_screen (vga_enable_cursor (env_dev E) 14 15) k)
           else if preset = 2 then say ''Cursor: half block\<newline>'' (on_screen (vga_enable_cursor (env_dev E) 8 15) k)
           else if preset = 3 then say ''Cursor: full block\<newline>'' (on_screen (vga_enable_cursor (env_dev E) 0 15) k)
           else if preset = 4 then say ''Cursor: thin line\<newline>'' (on_screen (vga_enable_cursor (env_dev E) 15 15) k)
           else say ''Invalid preset (1-4)\<newline>'' k))))"

definition set_mouse :: "int \<Rightarrow> kernel \<Rightarrow> kernel" where
  "set_mouse enable k = k\<lparr>kclock := (kclock k)\<lparr>mouse_enabled := mouse_enable enable\<rparr>\<rparr>"

definition cmd_mouse :: "env \<Rightarrow> u32 list \<Rightarrow> kernel \<Rightarrow> run option" where
  "cmd_mouse E argv k =
     (if length argv < 2 then returns (say ''Usage: mouse <on|off>\<newline>'' k)
      else Option.bind (strcmp (kmem k) (argv ! 1) (literal E ''on'')) (\<lambda>c.
        if c = 0 then returns (say ''Mouse: enabled\<newline>'' (set_mouse 1 k))
        else Option.bind (strcmp (kmem k) (argv ! 1) (literal E ''off'')) (\<lambda>c.
          if c = 0 then returns (say ''Mouse: disabled\<newline>'' (set_mouse 0 k))
          else returns (say ''Usage: mouse <on|off>\<newline>'' k))))"

section \<open>Memory\<close>

definition cmd_memsummary :: "env \<Rightarrow> u32 list \<Rightarrow> kernel \<Rightarrow> run option" where
  "cmd_memsummary E argv k =
     (let total = pmm_get_total_frames (pmm_of k);
          free = pmm_get_free_frames (pmm_of k);
          used = total - free;
          total_kb = total * 4;
          used_kb = used * 4;
          k = say ''Memory Summary:\<newline>'' k;
          k = say '' KiB)\<newline>'' (say_dec used_kb (say '' frames ('' (say_dec used (say ''  Used:  '' k))));
          k = say '' KiB)\<newline>'' (say_dec total_kb (say '' frames ('' (say_dec total (say ''  Total: '' k))))
      in returns k)"

definition cmd_heapcheck :: "env \<Rightarrow> u32 list \<Rightarrow> kernel \<Rightarrow> run option" where
  "cmd_heapcheck E argv = heap_call heap_validate (\<lambda>k. returns (say ''Heap validation completed.\<newline>'' k))"

definition cmd_heapval :: "env \<Rightarrow> u32 list \<Rightarrow> kernel \<Rightarrow> run option" where
  "cmd_heapval E argv = heap_call heap_validate returns"

definition cmd_heapinfo :: "env \<Rightarrow> u32 list \<Rightarrow> kernel \<Rightarrow> run option" where
  "cmd_heapinfo E argv = heap_call heap_dump returns"

definition cmd_meminfo :: "env \<Rightarrow> u32 list \<Rightarrow> kernel \<Rightarrow> run option" where
  "cmd_meminfo E argv k =
     (let total = pmm_get_total_frames (pmm_of k);
          free = pmm_get_free_frames (pmm_of k);
          k = say ''Physical Memory:\<newline>'' k;
          k = say ''\<newline>'' (say_dec total (say ''  Total frames: '' k));
          k = say ''\<newline>'' (say_dec free (say ''  Free frames:  '' k));
          k = say ''\<newline>'' (say_dec (total - free) (say ''  Used frames:  '' k))
      in returns k)"

definition cmd_alloc :: "env \<Rightarrow> u32 list \<Rightarrow> kernel \<Rightarrow> run option" where
  "cmd_alloc E argv k =
     (if length argv < 2 then returns (say ''Usage: alloc <size>\<newline>'' k)
      else Option.bind (atoi (kmem k) (argv ! 1)) (\<lambda>sz.
        if sint sz \<le> 0 then returns (say ''Invalid size\<newline>'' k)
        else with_heap (kmalloc sz) (\<lambda>ptr k.
          if ptr = 0 then returns (say ''Allocation failed\<newline>'' k)
          else returns (say ''\<newline>'' (say_hex ptr (say ''Allocated at: '' (k\<lparr>last_alloc := ptr\<rparr>))))) k))"

definition cmd_free :: "env \<Rightarrow> u32 list \<Rightarrow> kernel \<Rightarrow> run option" where
  "cmd_free E argv k =
     (if length argv < 2 then returns (say ''Usage: free <address>\<newline>'' k)
      else Option.bind (atoi_hex (kmem k) (argv ! 1)) (\<lambda>ptr.
        if ptr = 0 then returns (say ''Invalid address\<newline>'' k)
        else heap_call (kfree ptr) (\<lambda>k. returns (say ''\<newline>'' (say_hex ptr (say ''Freed: '' k)))) k))"

definition cmd_freelast :: "env \<Rightarrow> u32 list \<Rightarrow> kernel \<Rightarrow> run option" where
  "cmd_freelast E argv k =
     (if last_alloc k = 0 then returns (say ''No previous allocation\<newline>'' k)
      else heap_call (kfree (last_alloc k)) (\<lambda>k.
        returns ((say ''\<newline>'' (say_hex (last_alloc k) (say ''Freed: '' k)))\<lparr>last_alloc := 0\<rparr>)) k)"

definition memdump_byte :: "mem \<Rightarrow> u32 \<Rightarrow> nat \<Rightarrow> vga \<Rightarrow> vga" where
  "memdump_byte m ptr i v =
     (let v = (if i mod 16 = 0
               then vga_print (bytes_of '': '') (vga_print_hex (ptr + of_nat i) (vga_print (bytes_of ''\<newline>'') v)) else v);
          val = m (ptr + of_nat i);
          v = (if val < 16 then vga_print (bytes_of ''0'') v else v)
      in vga_print (bytes_of '' '') (vga_print_hex (ucast val) v))"

definition cmd_memdump :: "env \<Rightarrow> u32 list \<Rightarrow> kernel \<Rightarrow> run option" where
  "cmd_memdump E argv k =
     (if length argv < 3 then returns (say ''Usage: memdump <addr> <bytes>\<newline>'' k)
      else Option.bind (atoi_hex (kmem k) (argv ! 1)) (\<lambda>addr.
        Option.bind (atoi (kmem k) (argv ! 2)) (\<lambda>n.
          if sint n \<le> 0 then returns (say ''Invalid byte count\<newline>'' k)
          else returns (say ''\<newline>'' (on_screen (fold (memdump_byte (kmem k) addr) [0..<nat (sint n)]) k)))))"

section \<open>Files\<close>

text \<open>\<open>seed_about\<close> and \<open>seed_tmp\<close> are the two halves of \<open>cmd_fsseed\<close>.\<close>

definition about_text :: string where
  "about_text = ''zynthexos: minimal RAMFS seed\<newline>This is a demo file.\<newline>''"

definition tmp_text :: string where "tmp_text = ''hello from /tmp on zynthexos\<newline>''"

definition write_all :: "env \<Rightarrow> u32 \<Rightarrow> u32 \<Rightarrow> (kernel \<Rightarrow> run option) \<Rightarrow> kernel \<Rightarrow> run option" where
  "write_all E node text_at c k =
     Option.bind (strlen (kmem k) text_at) (\<lambda>n. call_write E node 0 n text_at (\<lambda>_. c) k)"

definition has_write :: "u32 \<Rightarrow> kernel \<Rightarrow> bool" where
  "has_write node k \<longleftrightarrow> node \<noteq> 0 \<and> n_ops (kmem k) node \<noteq> 0
     \<and> (case ops_of node (kfs k) of Some ops \<Rightarrow> write_set ops | None \<Rightarrow> True)"

definition seed_tmp :: "env \<Rightarrow> kernel \<Rightarrow> run option" where
  "seed_tmp E = with_fs E (vfs_lookup (literal E ''/tmp'')) (\<lambda>tmp k.
     if tmp \<noteq> 0 \<and> n_flags (kmem k) tmp AND VFS_DIR \<noteq> 0 \<and> n_ops (kmem k) tmp \<noteq> 0
     then call_create E tmp (literal E ''hello.txt'') VFS_FILE (\<lambda>r k.
       if r = 0
       then with_fs E (vfs_lookup (literal E ''/tmp/hello.txt'')) (\<lambda>hello k.
              if has_write hello k
              then write_all E hello (literal E tmp_text) (\<lambda>k. returns (say ''Seeded /tmp/hello.txt\<newline>'' k)) k
              else returns k) k
       else returns (say ''Failed to seed /tmp/hello.txt\<newline>'' k)) k
     else returns (say ''Failed to seed /tmp/hello.txt\<newline>'' k))"

definition seed_about :: "env \<Rightarrow> u32 \<Rightarrow> kernel \<Rightarrow> run option" where
  "seed_about E about k =
     (if has_write about k
      then write_all E about (literal E about_text) (\<lambda>k. seed_tmp E (say ''Seeded /about.txt\<newline>'' k)) k
      else seed_tmp E (say ''Failed to seed /about.txt\<newline>'' k))"

definition cmd_fsseed :: "env \<Rightarrow> u32 list \<Rightarrow> kernel \<Rightarrow> run option" where
  "cmd_fsseed E argv = with_fs E (vfs_lookup (literal E ''/about.txt'')) (\<lambda>about k.
     if about \<noteq> 0 then seed_about E about k
     else if vfs_root (kfs k) \<noteq> 0 \<and> n_ops (kmem k) (vfs_root (kfs k)) \<noteq> 0
     then call_create E (vfs_root (kfs k)) (literal E ''about.txt'') VFS_FILE (\<lambda>r k.
       if r = 0 then with_fs E (vfs_lookup (literal E ''/about.txt'')) (seed_about E) k
       else seed_about E 0 k) k
     else seed_about E 0 k)"

definition resolve_arg :: "env \<Rightarrow> u32 \<Rightarrow> (u32 \<Rightarrow> kernel \<Rightarrow> run option) \<Rightarrow> kernel \<Rightarrow> run option" where
  "resolve_arg E p c k =
     (if kmem k p = of_char CHR ''/'' then with_fs E (vfs_lookup p) c k else with_fs E (path_resolve (cwd k) p) c k)"

definition cmd_cd :: "env \<Rightarrow> u32 list \<Rightarrow> kernel \<Rightarrow> run option" where
  "cmd_cd E argv k =
     (if length argv < 2 then returns (k\<lparr>cwd := vfs_root (kfs k)\<rparr>)
      else resolve_arg E (argv ! 1) (\<lambda>target k.
        if target = 0 then returns (say ''Path not found\<newline>'' k)
        else if n_flags (kmem k) target AND VFS_DIR = 0 then returns (say ''Not a directory\<newline>'' k)
        else returns (k\<lparr>cwd := target\<rparr>)) k)"

definition list_dir :: "env \<Rightarrow> u32 \<Rightarrow> kernel \<Rightarrow> run option" where
  "list_dir E dir k =
     (if dir = 0 then returns (say ''Path not found\<newline>'' k)
      else if n_flags (kmem k) dir AND VFS_DIR = 0 then returns (say ''Not a directory\<newline>'' k)
      else case ops_of dir (kfs k) of None \<Rightarrow> Some (Crashed ''ops'')
           | Some ops \<Rightarrow> if \<not> list_set ops then returns (say ''List not supported\<newline>'' k)
                         else with_fs E (\<lambda>s. map_option Ret (ramfs_list dir s)) (\<lambda>_. returns) k)"

definition cmd_ls :: "env \<Rightarrow> u32 list \<Rightarrow> kernel \<Rightarrow> run option" where
  "cmd_ls E argv k = (if length argv \<ge> 2 then resolve_arg E (argv ! 1) (list_dir E) k else list_dir E (cwd k) k)"

text \<open>The arguments are written one after the other, with a space between them.\<close>

fun write_args :: "env \<Rightarrow> int \<Rightarrow> u32 list \<Rightarrow> (kernel \<Rightarrow> run option) \<Rightarrow> kernel \<Rightarrow> run option" where
  "write_args E fd [] c k = c k"
| "write_args E fd (a # as) c k =
     Option.bind (strlen (kmem k) a) (\<lambda>n. with_fs E (sys_write fd a n) (\<lambda>_ k.
       if as \<noteq> [] then with_fs E (sys_write fd (literal E '' '') 1) (\<lambda>_. write_args E fd as c) k
       else write_args E fd as c k) k)"

definition seek_start :: "int \<Rightarrow> kernel \<Rightarrow> kernel" where
  "seek_start fd k = k\<lparr>kfs := snd (sys_seek fd 0 (kfs k))\<rparr>"

definition close_fd :: "int \<Rightarrow> kernel \<Rightarrow> kernel" where "close_fd fd k = k\<lparr>kfs := sys_close fd (kfs k)\<rparr>"

definition cmd_write :: "env \<Rightarrow> u32 list \<Rightarrow> kernel \<Rightarrow> run option" where
  "cmd_write E argv k =
     (if length argv < 3 then returns (say ''Usage: write <file> <text>\<newline>'' k)
      else with_fs E (sys_open (argv ! 1)) (\<lambda>fd k.
        if fd < 0 then returns (say ''File not found\<newline>'' k)
        else write_args E fd (drop 2 argv) (\<lambda>k. returns (say ''Written.\<newline>'' (close_fd fd k))) (seek_start fd k)) k)"

definition cmd_rd :: "env \<Rightarrow> u32 list \<Rightarrow> kernel \<Rightarrow> run option" where
  "cmd_rd E argv k =
     (if length argv < 2 then returns (say ''Usage: rd <file>\<newline>'' k)
      else with_fs E (sys_open (argv ! 1)) (\<lambda>fd k.
        if fd < 0 then returns (say ''File not found\<newline>'' k)
        else let buffer = object E ''cmd_rd.buffer'';
                 k = set_kmem (memset (kmem k) buffer 0 256) k;
                 k = seek_start fd k
             in with_fs E (sys_read fd buffer (256 - 1)) (\<lambda>read k.
                  if read > 0 then print_at buffer (\<lambda>k. returns (close_fd fd (say ''\<newline>'' k))) k
                  else returns (close_fd fd (say ''\<newline>'' k))) k) k)"

definition cmd_mk :: "env \<Rightarrow> u32 list \<Rightarrow> kernel \<Rightarrow> run option" where
  "cmd_mk E argv k =
     (if length argv < 2 then returns (say ''Usage: mk <file>\<newline>'' k)
      else if cwd k = 0 then returns (say ''No working directory\<newline>'' k)
      else call_create E (cwd k) (argv ! 1) VFS_FILE (\<lambda>r k.
        if r \<noteq> 0 then returns (say ''Failed to create file\<newline>'' k) else returns (say ''File created\<newline>'' k)) k)"

definition cmd_mkr :: "env \<Rightarrow> u32 list \<Rightarrow> kernel \<Rightarrow> run option" where
  "cmd_mkr E argv k =
     (if length argv < 2 then returns (say ''Usage: mkr <file>\<newline>'' k)
      else with_fs E (vfs_lookup (literal E ''/tmp'')) (\<lambda>tmp k.
        if tmp = 0 then returns (say ''/tmp not found\<newline>'' k)
        else if n_flags (kmem k) tmp AND VFS_DIR = 0 then returns (say ''/tmp is not a directory\<newline>'' k)
        else call_create E tmp (argv ! 1) VFS_FILE (\<lambda>r k.
          if r \<noteq> 0 then returns (say ''Failed to create file\<newline>'' k) else returns (say ''RAM file created\<newline>'' k)) k) k)"

section \<open>Calculating and text\<close>

text \<open>The loop of \<open>cmd_inttoascii\<close> over the arguments; the line ends only when all were codes.\<close>

fun inttoascii_args :: "u32 list \<Rightarrow> kernel \<Rightarrow> run option" where
  "inttoascii_args [] k = returns (say ''\<newline>'' k)"
| "inttoascii_args (a # as) k =
     Option.bind (atoi (kmem k) a) (\<lambda>x.
       if sint x < 0 \<or> sint x > 255 then returns (say ''Invalid ASCII code\<newline>'' k)
       else inttoascii_args as (on_screen (vga_putchar (ucast x)) k))"

definition cmd_inttoascii :: "env \<Rightarrow> u32 list \<Rightarrow> kernel \<Rightarrow> run option" where
  "cmd_inttoascii E argv k =
     (if length argv < 2 then returns (say ''Usage: inttoascii <ascii codes...>\<newline>'' k)
      else inttoascii_args (drop 1 argv) (say ''ASCII: '' k))"

text \<open>A \<open>char\<close> is signed: the code printed for a byte above 127 is that of the negative number.\<close>

partial_function (option) asciitoint_loop :: "mem \<Rightarrow> u32 \<Rightarrow> vga \<Rightarrow> vga option" where
  "asciitoint_loop m p v =
     (if m p = 0 then Some v
      else asciitoint_loop m (p + 1) (vga_print_dec (scast (m p)) (vga_print (bytes_of '' '') v)))"

definition cmd_asciitoint :: "env \<Rightarrow> u32 list \<Rightarrow> kernel \<Rightarrow> run option" where
  "cmd_asciitoint E argv k =
     (if length argv \<noteq> 2 then returns (say ''Usage: asciitoint <anything>\<newline>'' k)
      else let k = say ''\<newline>ASCII code: '' k
           in Option.bind (asciitoint_loop (kmem k) (argv ! 1) (kscreen k)) (\<lambda>v.
                returns (say ''\<newline>'' (on_screen (\<lambda>_. v) k))))"

text \<open>
  The operator is the first character of its argument.  \<open>a / b\<close> is computed and thrown away: the
  \<open>return\<close> behind the \<open>else\<close> is taken in both cases, so a division prints no result.  The quotient of the
  least integer and -1 does not fit: the processor's division raises the divide error.
\<close>

definition cmd_calc :: "env \<Rightarrow> u32 list \<Rightarrow> kernel \<Rightarrow> run option" where
  "cmd_calc E argv k =
     (if length argv \<noteq> 4 then returns (say ''Usage: eval <a> <op> <b>\<newline>'' k)
      else Option.bind (atoi (kmem k) (argv ! 1)) (\<lambda>a.
        Option.bind (atoi (kmem k) (argv ! 3)) (\<lambda>b.
          let oper = kmem k (argv ! 2);
              print_result = (\<lambda>result. Option.bind (utoa (kmem k) result (object E ''cmd_calc.buf'') 10) (\<lambda>m.
                print_at (object E ''cmd_calc.buf'') (\<lambda>k. returns (say ''\<newline>'' k)) (set_kmem m k)))
          in if oper = of_char CHR ''+'' then print_result (a + b)
             else if oper = of_char CHR ''-'' then print_result (a - b)
             else if oper = of_char CHR ''*'' then print_result (a * b)
             else if oper = of_char CHR ''/'' then (if b \<noteq> 0 then if a = 0x80000000 \<and> b = 0xFFFFFFFF then divide_error E k else returns k
                   else returns (say ''Division by zero!\<newline>'' k))
             else print_result 0)))"

text \<open>The arguments joined in a buffer, with a space between them (\<open>cmd_echo\<close>, \<open>cmd_panic\<close>).\<close>

fun join_args :: "env \<Rightarrow> u32 \<Rightarrow> u32 list \<Rightarrow> mem \<Rightarrow> mem option" where
  "join_args E buffer [] m = Some m"
| "join_args E buffer (a # as) m =
     Option.bind (strcat m buffer a) (\<lambda>m.
       if as \<noteq> [] then Option.bind (strcat m buffer (literal E '' '')) (join_args E buffer as)
       else join_args E buffer as m)"

definition cmd_echo :: "env \<Rightarrow> u32 list \<Rightarrow> kernel \<Rightarrow> run option" where
  "cmd_echo E argv k =
     (let buffer = object E ''cmd_echo.buffer''
      in Option.bind (join_args E buffer (drop 1 argv) ((kmem k)(buffer := 0))) (\<lambda>m.
           print_at buffer (\<lambda>k. returns (say ''\<newline>'' k)) (set_kmem m k)))"

definition cmd_clear :: "env \<Rightarrow> u32 list \<Rightarrow> kernel \<Rightarrow> run option" where
  "cmd_clear E argv k = returns (on_screen vga_clear k)"

section \<open>The system\<close>

definition KERNEL_VERSION :: string where "KERNEL_VERSION = ''0.1.1-dev''"

text \<open>The character 0x5C is the backslash.\<close>

definition boot_logo :: string where
  "boot_logo =
     ''---------------------------------------\<newline>''
   @ ''  ______          _          __     ___  \<newline>''
   @ '' |__  /___ _   _ | |_ ___   / /__  / _ '' @ [CHR 0x5C] @ '' \<newline>''
   @ ''   / // _ '' @ [CHR 0x5C] @ '' | | || __/ _ '' @ [CHR 0x5C] @ '' / / _ '' @ [CHR 0x5C] @ ''| | | |\<newline>''
   @ ''  / /|  __/ |_| || || (_) / /  __/| |_| |\<newline>''
   @ '' /____'' @ [CHR 0x5C] @ ''___|'' @ [CHR 0x5C] @ ''__,_| '' @ [CHR 0x5C] @ ''__'' @ [CHR 0x5C] @ ''___/_/ '' @ [CHR 0x5C] @ ''___| '' @ [CHR 0x5C] @ ''___/ \<newline>''
   @ ''---------------------------------------\<newline>\<newline>''"

definition cmd_cpuid :: "env \<Rightarrow> u32 list \<Rightarrow> kernel \<Rightarrow> run option" where
  "cmd_cpuid E argv k =
     (let brand = object E ''cmd_cpuid.brand'';
          k = set_kmem (cpu_get_brand (env_cpuid E) brand (kmem k)) k;
          k = say ''CPU: '' k
      in print_at brand (\<lambda>k. returns (say ''\<newline>'' k)) k)"

definition cmd_uptime :: "env \<Rightarrow> u32 list \<Rightarrow> kernel \<Rightarrow> run option" where
  "cmd_uptime E argv k =
     (let secs = timer_get_seconds (kclock k)
      in returns (say '' seconds\<newline>'' (say_dec secs (say ''Uptime: '' k))))"

definition help_overview :: "string list" where
  "help_overview = [''[SYS]\<newline>'', '' help      sysfetch   cpuid\<newline>'', '' uptime    state      panic\<newline>'',
     '' dmesg     doom       shutdown   reboot\<newline>'', '' clear\<newline>'',
     ''\<newline>[MEM]\<newline>'', '' meminfo   memsummary heapinfo   heapval\<newline>'', '' alloc     free       freelast\<newline>'',
     '' memdump   heapcheck\<newline>'', ''\<newline>[UTIL]\<newline>'', '' echo      calc       cur\<newline>'', '' asciitoint inttoascii\<newline>'',
     ''\<newline>[VFS]\<newline>'', '' ls        cd         mk        mkr\<newline>'', '' rd        write      fsseed\<newline>'']"

definition help_sys :: "string list" where
  "help_sys = [''[SYS]\<newline>'', '' help\<newline>'', '' sysfetch\<newline>'', '' cpuid\<newline>'', '' uptime\<newline>'', '' state\<newline>'', '' panic <msg>\<newline>'',
     '' dmesg\<newline>'', '' doom\<newline>'', '' shutdown\<newline>'', '' reboot\<newline>'', '' clear\<newline>'']"

definition help_mem :: "string list" where
  "help_mem = [''[MEM]\<newline>'', '' meminfo\<newline>'', '' memsummary\<newline>'', '' heapinfo\<newline>'', '' heapval\<newline>'', '' heapcheck\<newline>'',
     '' alloc <size>\<newline>'', '' free <addr>\<newline>'', '' freelast\<newline>'', '' memdump <addr> <n>\<newline>'']"

definition help_util :: "string list" where
  "help_util = [''[UTIL]\<newline>'', '' echo <text>\<newline>'', '' calc <a> <op> <b>\<newline>'', '' cur <0-4>\<newline>'', '' asciitoint <text>\<newline>'',
     '' inttoascii <nums>\<newline>'', ''\<newline>cur presets:\<newline>'', '' 0 - disabled\<newline>'', '' 1 - underline\<newline>'', '' 2 - half block\<newline>'',
     '' 3 - full block\<newline>'', '' 4 - thin line\<newline>'']"

definition cmd_help :: "env \<Rightarrow> u32 list \<Rightarrow> kernel \<Rightarrow> run option" where
  "cmd_help E argv k =
     (if length argv = 1 then returns (says help_overview k)
      else Option.bind (strcmp (kmem k) (argv ! 1) (literal E ''sys'')) (\<lambda>c.
        if c = 0 then returns (says help_sys k)
        else Option.bind (strcmp (kmem k) (argv ! 1) (literal E ''mem'')) (\<lambda>c.
          if c = 0 then returns (says help_mem k)
          else Option.bind (strcmp (kmem k) (argv ! 1) (literal E ''util'')) (\<lambda>c.
            if c = 0 then returns (says help_util k)
            else returns (say ''Unknown help category\<newline>'' k)))))"

definition cmd_sysfetch :: "env \<Rightarrow> u32 list \<Rightarrow> kernel \<Rightarrow> run option" where
  "cmd_sysfetch E argv k =
     (let brand = object E ''cmd_sysfetch.brand'';
          k = set_kmem (cpu_get_brand (env_cpuid E) brand (kmem k)) k;
          total = pmm_get_total_frames (pmm_of k);
          free = pmm_get_free_frames (pmm_of k);
          secs = timer_get_seconds (kclock k);
          k = say_color boot_logo 0x0B k;
          k = say_color ''Kernel build date: '' 0x0B k;
          k = say_color (build_date E) 0xC k;
          k = say_color ''\<newline>Version: '' 0x0B k;
          k = say_color KERNEL_VERSION 0xC k;
          k = say ''\<newline>\<newline>CPU:        '' k
      in print_at brand (\<lambda>k.
           let k = say ''\<newline>'' k;
               k = say '' seconds\<newline>'' (say_dec secs (say ''Uptime:     '' k));
               k = say '' frames used\<newline>'' (say_dec total (say ''/'' (say_dec (total - free) (say ''Memory:     '' k))));
               k = say ''Mode:       '' k
           in returns (if mode k = 0 then say ''kernel\<newline>'' k else if mode k = 1 then say ''root\<newline>'' k else say ''user\<newline>'' k)) k)"

text \<open>The string in the memory at \<open>p\<close>, as \<open>debug_panic\<close> is given it.\<close>

partial_function (option) string_at :: "mem \<Rightarrow> u32 \<Rightarrow> u8 list option" where
  "string_at m p = (if m p = 0 then Some [] else Option.bind (string_at m (p + 1)) (\<lambda>s. Some (m p # s)))"

definition cmd_panic :: "env \<Rightarrow> u32 list \<Rightarrow> kernel \<Rightarrow> run option" where
  "cmd_panic E argv k =
     (if length argv < 2 then panic E (bytes_of ''Manual panic triggered'') k
      else let buffer = object E ''cmd_panic.buffer''
           in Option.bind (join_args E buffer (drop 1 argv) ((kmem k)(buffer := 0))) (\<lambda>m.
                Option.bind (string_at m buffer) (\<lambda>s. panic E s (set_kmem m k))))"

definition cmd_dmesg :: "env \<Rightarrow> u32 list \<Rightarrow> kernel \<Rightarrow> run option" where
  "cmd_dmesg E argv k = returns (on_screen (log_dump (klogs k)) k)"

definition cmd_doom :: "env \<Rightarrow> u32 list \<Rightarrow> kernel \<Rightarrow> run option" where
  "cmd_doom E argv k = returns (says [''DOOM placeholder:\<newline>'',
     '' - Wymaga: framebuffer VBE/GOP, scheduler + syscall, userland, WAD.\<newline>'',
     '' - Obecnie brak: tryb graficzny i procesy.\<newline>'',
     '' - Uruchomimy po dodaniu grafiki+userland.\<newline>''] k)"

definition cmd_state :: "env \<Rightarrow> u32 list \<Rightarrow> kernel \<Rightarrow> run option" where
  "cmd_state E argv k = returns (on_screen (debug_print_segments (env_cpu E k)) k)"

definition cmd_shutdown :: "env \<Rightarrow> u32 list \<Rightarrow> kernel \<Rightarrow> run option" where
  "cmd_shutdown E argv k =
     (let k = say ''Shutting down...\<newline>'' k;
          k = on_ports (outw 0x604 0x2000) k
      in run_bind (kernel_sleep E 1000 k) (\<lambda>k. returns (say_color ''Unable to shutdown\<newline>'' 0xC k)))"

definition cmd_reboot :: "env \<Rightarrow> u32 list \<Rightarrow> kernel \<Rightarrow> run option" where
  "cmd_reboot E argv k =
     (let k = say ''Rebooting...\<newline>'' k;
          k = on_ports (outb 0x64 0xFE) k
      in run_bind (kernel_sleep E 1000 k) (\<lambda>k. returns (say_color ''Unable to reboot\<newline>'' 0xC k)))"

section \<open>The table of commands\<close>

definition commands :: "(string \<times> (env \<Rightarrow> u32 list \<Rightarrow> kernel \<Rightarrow> run option)) list" where
  "commands =
    [(''help'', cmd_help), (''panic'', cmd_panic), (''dmesg'', cmd_dmesg), (''doom'', cmd_doom), (''state'', cmd_state),
     (''uptime'', cmd_uptime), (''cpuid'', cmd_cpuid), (''meminfo'', cmd_meminfo), (''memsummary'', cmd_memsummary),
     (''heapinfo'', cmd_heapinfo), (''heapcheck'', cmd_heapcheck), (''alloc'', cmd_alloc), (''free'', cmd_free),
     (''freelast'', cmd_freelast), (''memdump'', cmd_memdump), (''heapval'', cmd_heapval), (''sysfetch'', cmd_sysfetch),
     (''shutdown'', cmd_shutdown), (''reboot'', cmd_reboot), (''clear'', cmd_clear), (''echo'', cmd_echo),
     (''calc'', cmd_calc), (''asciitoint'', cmd_asciitoint), (''inttoascii'', cmd_inttoascii), (''mk'', cmd_mk),
     (''mkr'', cmd_mkr), (''rd'', cmd_rd), (''write'', cmd_write), (''fsseed'', cmd_fsseed), (''ls'', cmd_ls),
     (''cd'', cmd_cd), (''cur'', cmd_cur), (''mouse'', cmd_mouse)]"

section \<open>Taking a line apart\<close>

partial_function (option) skip_spaces :: "mem \<Rightarrow> u32 \<Rightarrow> u32 option" where
  "skip_spaces m input = (if m input = of_char CHR '' '' then skip_spaces m (input + 1) else Some input)"

partial_function (option) skip_word :: "mem \<Rightarrow> u32 \<Rightarrow> u32 option" where
  "skip_word m input =
     (if m input \<noteq> 0 \<and> m input \<noteq> of_char CHR '' '' then skip_word m (input + 1) else Some input)"

text \<open>\<open>argv\<close> holds the arguments found so far, at most \<open>MAX_ARGS\<close>; each is ended by a zero in the line.\<close>

partial_function (option) parse_loop :: "u32 \<Rightarrow> u32 list \<Rightarrow> mem \<Rightarrow> (u32 list \<times> mem) option" where
  "parse_loop input argv m =
     (if m input \<noteq> 0 \<and> length argv < 8
      then Option.bind (skip_spaces m input) (\<lambda>input.
        if m input = 0 then Some (argv, m)
        else let argv = argv @ [input]
             in Option.bind (skip_word m input) (\<lambda>input.
                  if m input \<noteq> 0 then parse_loop (input + 1) argv (m(input := 0)) else parse_loop input argv m))
      else Some (argv, m))"

definition parse_arguments :: "u32 \<Rightarrow> mem \<Rightarrow> (u32 list \<times> mem) option" where
  "parse_arguments input m = parse_loop input [] m"

section \<open>Running commands\<close>

fun dispatch :: "env \<Rightarrow> (string \<times> (env \<Rightarrow> u32 list \<Rightarrow> kernel \<Rightarrow> run option)) list \<Rightarrow> u32 list \<Rightarrow> kernel \<Rightarrow> run option" where
  "dispatch E [] argv k = returns (say ''Unknown command\<newline>'' k)"
| "dispatch E ((name, handler) # cs) argv k =
     Option.bind (strcmp (kmem k) (argv ! 0) (literal E name)) (\<lambda>c.
       if c = 0 then handler E argv k else dispatch E cs argv k)"

definition execute_command :: "env \<Rightarrow> u32 \<Rightarrow> kernel \<Rightarrow> run option" where
  "execute_command E input k =
     (let local_buffer = object E ''execute_command.local_buffer''
      in Option.bind (strcpy (kmem k) local_buffer input) (\<lambda>m.
           Option.bind (parse_arguments local_buffer m) (\<lambda>(argv, m).
             let k = set_kmem m k
             in if length argv = 0 then returns k else dispatch E commands argv k)))"

definition prompt :: "kernel \<Rightarrow> kernel" where
  "prompt k =
     (if mode k = 0 then say ''> '' (say_color ''kernel'' 0xC k)
      else if mode k = 1 then say ''> '' (say_color ''root'' 0xE k)
      else if mode k = 2 then say ''> '' (say_color ''user'' 0x9 k)
      else k)"

definition shell_init :: "kernel \<Rightarrow> kernel" where
  "shell_init k = prompt (k\<lparr>cwd := vfs_root (kfs k)\<rparr>)"

text \<open>
  The line of the editor is a static array: where the pointer \<open>console_get_line\<close> returns is
  followed, the memory at \<open>object E ''line_buffer''\<close> holds its bytes.
\<close>

definition line_in_memory :: "env \<Rightarrow> kernel \<Rightarrow> kernel" where
  "line_in_memory E k = set_kmem (write_bytes (kmem k) (object E ''line_buffer'') (console_get_line (kconsole k))) k"

definition shell_key :: "env \<Rightarrow> u8 \<Rightarrow> kernel \<Rightarrow> run option" where
  "shell_key E c k =
     (if c = 10
      then let k = line_in_memory E k;
               k = on_screen (vga_putchar 10) k
           in run_bind (execute_command E (object E ''line_buffer'') k) (\<lambda>k.
                returns (prompt (on_console console_clear_line k)))
      else returns (on_console (console_handle_char c) k))"

partial_function (option) shell_update :: "env \<Rightarrow> kernel \<Rightarrow> run option" where
  "shell_update E k =
     (if keyboard_has_input (kkeyboard k)
      then let (c, kb) = keyboard_getchar (kkeyboard k)
           in run_bind (shell_key E c (k\<lparr>kkeyboard := kb\<rparr>)) (shell_update E)
      else returns k)"

end
