(* ===== verification/ShellOk.thy ===== *)
theory ShellOk imports Shell begin

text \<open>
  The shell keeps the kernel in order: every command, and so every turn of the shell, leaves
  the screen, the log, the rings and the line editor within their bounds.
\<close>

section \<open>What the file systems and the heap do to the screen\<close>

lemma kmalloc_screen: "kmalloc n h = Some (p, h') \<Longrightarrow> screen h' = screen h"
  by (auto simp: kmalloc_def kmalloc_first_def kmalloc_take_def kmalloc_append_def Let_def split: if_splits)

text \<open>
  \<open>same_screen s r\<close>: the call has not changed the screen, and leaves the code only at the places where
  it may.
\<close>

definition same_screen :: "fs \<Rightarrow> ('a \<times> fs) outcome option \<Rightarrow> bool" where
  "same_screen s r \<longleftrightarrow> (case r of Some (Ret (x, s')) \<Rightarrow> screen (fheap s') = screen (fheap s)
     | Some (Fault e) \<Rightarrow> e \<in> crash_sites | _ \<Rightarrow> True)"

lemma same_screen_simps [simp]:
  "same_screen s (Some (Ret (x, s'))) \<longleftrightarrow> screen (fheap s') = screen (fheap s)" "same_screen s None"
  "same_screen s (Some (Panic e))" "same_screen s (Some (Fault e)) \<longleftrightarrow> e \<in> crash_sites"
  by (simp_all add: same_screen_def)

lemma screen_simps [simp]:
  "screen (fheap (set_fmem m s)) = screen (fheap s)" "screen (fheap (set_fd i f s)) = screen (fheap s)"
  "screen (fheap (s\<lparr>fheap := h\<rparr>)) = screen h"
  by (simp_all add: set_fmem_def set_fd_def)

lemma same_screen_bind:
  assumes "\<And>y. x = Some (Ret y) \<Longrightarrow> same_screen s (f y)" and "\<And>e. x = Some (Fault e) \<Longrightarrow> e \<in> crash_sites"
  shows "same_screen s (bind_run x f)"
proof (cases x)
  case (Some r)
  with assms show ?thesis by (cases r) simp_all
qed simp

lemma same_screen_obind: "(\<And>y. same_screen s (f y)) \<Longrightarrow> same_screen s (Option.bind x f)"
  by (cases x) simp_all

lemma lookup_faults: "ramfs_lookup node nm s \<noteq> Some (Fault e)"
  by (auto simp: ramfs_lookup_def Let_def)

lemma same_screen_fault: "same_screen s r \<Longrightarrow> r = Some (Fault e) \<Longrightarrow> e \<in> crash_sites"
  by simp

lemma resolve_screen: "same_screen s (resolve_loop s p path)"
proof (cases "resolve_loop s p path")
  case (Some r)
  have "same_screen s (Some r)"
  proof (rule resolve_loop.raw_induct [OF _ Some])
    fix rl and s :: fs and current path :: u32 and y
    assume ih: "\<And>s current path y. rl s current path = Some y \<Longrightarrow> same_screen s (Some y)"
      and body: "(if fmem s path = 0 then Some (Ret (current, s))
      else Option.bind (skip_slashes (fmem s) path) (\<lambda>path.
        if fmem s path = 0 then Some (Ret (current, s))
        else Option.bind (copy_part (part_at s) (fmem s) path 0) (\<lambda>(m, path, j).
          let s = set_fmem (m(part_at s + j := 0)) s
          in (case ops_of current s of None \<Rightarrow> Some (Fault ''ops'')
              | Some ops \<Rightarrow>
                if \<not> lookup_set ops then Some (Ret (0, s))
                else bind_run (ramfs_lookup current (part_at s) s) (\<lambda>next.
                  if next = 0 then Some (Ret (0, s)) else rl s (vfs_check_mount next s) path))))) = Some y"
    have rec: "same_screen s (rl (set_fmem m s) c p)" for m c p
    proof (cases "rl (set_fmem m s) c p")
      case (Some z)
      have e: "screen (fheap (set_fmem m s)) = screen (fheap s)" by simp
      from ih [OF Some] show ?thesis unfolding Some same_screen_def e .
    qed simp
    have "same_screen s (bind_run (ramfs_lookup c n t) (\<lambda>next. if next = 0 then Some (Ret (0, set_fmem m s)) else rl (set_fmem m s) (g next) p))"
      for c n t m g p by (rule same_screen_bind) (simp_all add: rec lookup_faults)
    then show "same_screen s (Some y)"
      unfolding body [symmetric] by (auto simp: Let_def intro!: same_screen_obind split: option.splits)
  qed
  with Some show ?thesis by simp
qed simp

lemma lookup_screen: "same_screen s (vfs_lookup path s)" "same_screen s (path_resolve root path s)"
  by (simp_all add: vfs_lookup_def path_resolve_def resolve_screen)

lemma alloc_fd_screen: "screen (fheap (snd (fd_alloc s))) = screen (fheap s)"
  by (simp add: fd_alloc_def split: option.splits)

lemma same_screen_Ret: "same_screen s r \<Longrightarrow> r = Some (Ret (x, s')) \<Longrightarrow> screen (fheap s') = screen (fheap s)"
  by simp

lemma open_screen: "same_screen s (sys_open path s)"
  unfolding sys_open_def
proof (rule same_screen_bind)
  fix y assume y: "vfs_lookup path s = Some (Ret y)"
  obtain node s1 where ns: "y = (node, s1)" by (cases y)
  have "screen (fheap s1) = screen (fheap s)" using lookup_screen(1) [of s path] y by (simp add: ns)
  then show "same_screen s (case y of (node, s) \<Rightarrow> if node = 0 then Some (Ret (- 1, s))
      else let (fd, s) = fd_alloc s in if fd < 0 then Some (Ret (- 1, s))
           else Some (Ret (fd, set_fd (nat fd) (\<lambda>d. d\<lparr>fd_node := node\<rparr>) s)))"
    using alloc_fd_screen [of s1] by (simp add: ns split_beta Let_def)
qed (rule same_screen_fault [OF lookup_screen(1)])

lemma grow_screen: "ramfs_grow r c s = Some s' \<Longrightarrow> screen (fheap s') = screen (fheap s)"
  using kmalloc_screen by (auto simp: ramfs_grow_def Let_def)

lemma write_screen: "same_screen s (ramfs_write node off sz buf s)"
  using grow_screen by (auto simp: same_screen_def ramfs_write_def Let_def split: option.splits outcome.splits if_splits)

lemma create_screen: "same_screen s (ramfs_create p nm fl s)"
  using kmalloc_screen by (auto simp: same_screen_def ramfs_create_def Let_def bind_eq_Some_conv split: option.splits outcome.splits if_splits)

lemma sys_write_screen: "same_screen s (sys_write fd buf n s)"
proof -
  have "same_screen s (bind_run (ramfs_write a b n buf s) (\<lambda>(written, s). Some (Ret (advance fd written s))))" for a b
  proof (rule same_screen_bind)
    fix y assume "ramfs_write a b n buf s = Some (Ret y)"
    then show "same_screen s (case y of (written, s) \<Rightarrow> Some (Ret (advance fd written s)))"
      using write_screen [of s a b n buf] by (cases y) (simp add: advance_def)
  qed (rule same_screen_fault [OF write_screen])
  then show ?thesis by (auto simp: sys_write_def Let_def split: option.splits)
qed

lemma sys_read_screen: "same_screen s (sys_read fd buf n s)"
  by (auto simp: sys_read_def ramfs_read_def advance_def Let_def split_beta split: option.splits)

lemma sys_misc_screen [simp]: "screen (fheap (snd (sys_seek fd o' s))) = screen (fheap s)" "screen (fheap (sys_close fd s)) = screen (fheap s)"
  by (simp_all add: sys_seek_def sys_close_def)

lemma print_string_wf:
  assumes run: "print_string m p v = Some w"
  shows "vga_wf v \<longrightarrow> vga_wf w"
proof (rule print_string.raw_induct [OF _ run])
  fix ps and m :: mem and p v w
  assume ih: "\<And>m p v w. ps m p v = Some w \<Longrightarrow> vga_wf v \<longrightarrow> vga_wf w"
    and body: "(if m p = 0 then Some v else ps m (p + 1) (vga_putchar (m p) v)) = Some w"
  show "vga_wf v \<longrightarrow> vga_wf w"
    using body ih [of m "p + 1" "vga_putchar (m p) v" w] by (auto split: if_splits)
qed

lemma list_children_wf:
  assumes run: "list_children m r i v = Some w"
  shows "vga_wf v \<longrightarrow> vga_wf w"
proof (rule list_children.raw_induct [OF _ run])
  fix lc and m :: mem and r i v w
  assume ih: "\<And>m r i v w. lc m r i v = Some w \<Longrightarrow> vga_wf v \<longrightarrow> vga_wf w"
    and body: "(if i < r_child_count m r
      then Option.bind (print_string m (r_child m r i) v) (\<lambda>v. lc m r (i + 1) (vga_print (bytes_of ''\<newline>'') v))
      else Some v) = Some w"
  show "vga_wf v \<longrightarrow> vga_wf w"
  proof
    assume v: "vga_wf v"
    show "vga_wf w"
    proof (cases "i < r_child_count m r")
      case True
      then obtain u where u: "print_string m (r_child m r i) v = Some u" "lc m r (i + 1) (vga_print (bytes_of ''\<newline>'') u) = Some w"
        using body by (auto simp: bind_eq_Some_conv)
      have "vga_wf (vga_print (bytes_of ''\<newline>'') u)" using print_string_wf [OF u(1)] v by (intro vga_wf_ops) blast
      with ih [OF u(2)] show ?thesis by blast
    qed (use body v in simp)
  qed
qed

lemma heap_print_wf [simp]: "vga_wf (screen h) \<Longrightarrow> vga_wf (screen (heap_print msg h))"
  by (simp add: heap_print_def)

lemma kfree_wf:
  assumes "kfree p h = Some h'" and "vga_wf (screen h)"
  shows "vga_wf (screen h')"
proof -
  have n: "screen (kfree_merge_next b h) = screen h" "screen (kfree_merge_prev b h) = screen h" for b h
    by (simp_all add: kfree_merge_next_def kfree_merge_prev_def Let_def)
  have s: "kfree_shrink h = Some h' \<Longrightarrow> screen h' = screen h" for h h'
    by (auto simp: kfree_shrink_def split: if_splits)
  show ?thesis using assms s n by (auto simp: kfree_def Let_def heap_print_wf split: if_splits)
qed

lemma heap_dump_loop_wf:
  assumes run: "heap_dump_loop m c i v = Some w"
  shows "vga_wf v \<longrightarrow> vga_wf w"
proof (rule heap_dump_loop.raw_induct [OF _ run])
  fix dl and m :: mem and c i v w
  assume ih: "\<And>m c i v w. dl m c i v = Some w \<Longrightarrow> vga_wf v \<longrightarrow> vga_wf w"
    and body: "(if c \<noteq> 0
      then (let v = vga_print (bytes_of ''  Block '') v;
                v = vga_print_dec i v;
                v = vga_print (bytes_of '': addr='') v;
                v = vga_print_hex c v;
                v = vga_print (bytes_of '' size='') v;
                v = vga_print_dec (bh_size m c) v;
                v = vga_print (bytes_of '' header='') v;
                v = vga_print_hex c v;
                v = vga_print (bytes_of '' payload='') v;
                v = vga_print_hex (c + sizeof_block_header) v;
                v = vga_print (bytes_of '' '') v;
                v = (if bh_free m c \<noteq> 0 then vga_print (bytes_of ''FREE'') v
                     else vga_print (bytes_of ''USED'') v);
                v = vga_print (bytes_of ''\<newline>'') v
            in dl m (bh_next m c) (i + 1) v)
      else Some v) = Some w"
  show "vga_wf v \<longrightarrow> vga_wf w"
  proof
    assume v: "vga_wf v"
    show "vga_wf w"
    proof (cases "c = 0")
      case False
      note b = body [unfolded Let_def if_P [OF False]]
      show ?thesis
        by (rule mp [OF ih [OF b]], rule vga_wf_ops, cases "bh_free m c = 0") (simp_all add: v del: vga_print.simps)
    qed (use body v in simp)
  qed
qed


lemma heap_validate_wf: "heap_validate h = Some h' \<Longrightarrow> vga_wf (screen h) \<Longrightarrow> vga_wf (screen h')"
  by (auto simp: heap_validate_def bind_eq_Some_conv split: if_splits)

lemma heap_dump_wf: "heap_dump h = Some h' \<Longrightarrow> vga_wf (screen h) \<Longrightarrow> vga_wf (screen h')"
  using heap_dump_loop_wf heap_print_wf [of h] by (fastforce simp: heap_dump_def Let_def split: if_splits)

lemma asciitoint_wf:
  assumes run: "asciitoint_loop m p v = Some w"
  shows "vga_wf v \<longrightarrow> vga_wf w"
proof (rule asciitoint_loop.raw_induct [OF _ run])
  fix al and m :: mem and p v w
  assume ih: "\<And>m p v w. al m p v = Some w \<Longrightarrow> vga_wf v \<longrightarrow> vga_wf w"
    and body: "(if m p = 0 then Some v
      else al m (p + 1) (vga_print_dec (scast (m p)) (vga_print (bytes_of '' '') v))) = Some w"
  have "vga_wf v \<Longrightarrow> vga_wf (vga_print_dec (scast (m p)) (vga_print (bytes_of '' '') v))" by (intro vga_wf_ops)
  then show "vga_wf v \<longrightarrow> vga_wf w" using body ih by (auto split: if_splits)
qed

section \<open>Calls\<close>

lemma bind_ok [kernel_oks]: "(\<And>y. x = Some y \<Longrightarrow> holds_after P (f y)) \<Longrightarrow> holds_after P (Option.bind x f)"
  by (cases x) simp_all

lemma with_fs_ok:
  assumes k: "kernel_ok k" and sc: "same_screen (kfs k) (f (kfs k))"
    and c: "\<And>x k'. kernel_ok k' \<Longrightarrow> holds_after kernel_ok (c x k')"
  shows "holds_after kernel_ok (with_fs E f c k)"
proof (cases "f (kfs k)")
  case (Some r)
  show ?thesis
  proof (cases r)
    case (Ret y)
    obtain x s where y: "y = (x, s)" by (cases y)
    have "kernel_ok (k\<lparr>kfs := s\<rparr>)" using k sc by (simp add: Some Ret y kernel_ok_def) (simp add: kscreen_def)
    with c show ?thesis by (simp add: with_fs_def Some Ret y)
  qed (use panic_ok [OF k] sc in \<open>simp_all add: with_fs_def Some\<close>)
qed (simp add: with_fs_def)

lemma on_heap_ok: "kernel_ok k \<Longrightarrow> vga_wf (screen h) \<Longrightarrow> kernel_ok (on_heap (\<lambda>_. h) k)"
  by (simp add: on_heap_def kernel_ok_def)

lemma kernel_heap_wf: "kernel_ok k \<Longrightarrow> vga_wf (screen (fheap (kfs k)))"
  by (simp add: kernel_ok_def kscreen_def)

lemma heap_call_ok:
  assumes "kernel_ok k" and "\<And>h h'. f h = Some h' \<Longrightarrow> vga_wf (screen h) \<Longrightarrow> vga_wf (screen h')"
    and "\<And>k'. kernel_ok k' \<Longrightarrow> holds_after kernel_ok (c k')"
  shows "holds_after kernel_ok (heap_call f c k)"
  unfolding heap_call_def using assms(2) [OF _ kernel_heap_wf [OF assms(1)]] assms(3)
  by (intro bind_ok) (blast intro: on_heap_ok [OF assms(1)])

lemma print_at_ok [kernel_oks]:
  assumes "kernel_ok k" and "\<And>k'. kernel_ok k' \<Longrightarrow> holds_after kernel_ok (c k')"
  shows "holds_after kernel_ok (print_at p c k)"
  unfolding print_at_def
proof (rule bind_ok)
  fix v assume "print_string (kmem k) p (kscreen k) = Some v"
  with print_string_wf assms(1) have "vga_wf v" unfolding kernel_ok_def by blast
  with assms show "holds_after kernel_ok (c (on_screen (\<lambda>_. v) k))" by (simp add: on_screen_ok)
qed

lemma call_ok [kernel_oks]:
  assumes "kernel_ok k" and "\<And>x k'. kernel_ok k' \<Longrightarrow> holds_after kernel_ok (c x k')"
  shows "holds_after kernel_ok (call_create E node nm fl c k)" "holds_after kernel_ok (call_write E node off n buf c k)"
  using assms with_fs_ok [of k "ramfs_create node nm fl" c E] with_fs_ok [of k "ramfs_write node off n buf" c E] create_screen write_screen
  by (auto simp: call_create_def call_write_def split: option.splits)

lemma fs_calls_ok [kernel_oks]:
  assumes "kernel_ok k" and "\<And>x k'. kernel_ok k' \<Longrightarrow> holds_after kernel_ok (c x k')"
  shows "holds_after kernel_ok (with_fs E (vfs_lookup p) c k)" "holds_after kernel_ok (with_fs E (path_resolve r p) c k)"
  using assms lookup_screen by (auto intro!: with_fs_ok)

lemma fd_calls_ok [kernel_oks]:
  assumes "kernel_ok k" and "\<And>x k'. kernel_ok k' \<Longrightarrow> holds_after kernel_ok (c x k')"
  shows "holds_after kernel_ok (with_fs E (sys_open p) c k)" "holds_after kernel_ok (with_fs E (sys_write fd p n) c k)"
    "holds_after kernel_ok (with_fs E (sys_read fd p n) c k)"
  using assms open_screen sys_write_screen sys_read_screen by (auto intro!: with_fs_ok)

lemma record_ok [simp]:
  "kernel_ok (k\<lparr>last_alloc := a\<rparr>) \<longleftrightarrow> kernel_ok k" "kernel_ok (k\<lparr>cwd := a\<rparr>) \<longleftrightarrow> kernel_ok k"
  "kernel_ok (set_mouse i k) \<longleftrightarrow> kernel_ok k" "kernel_ok (seek_start fd k) \<longleftrightarrow> kernel_ok k" "kernel_ok (close_fd fd k) \<longleftrightarrow> kernel_ok k"
  by (simp_all add: kernel_ok_def set_mouse_def seek_start_def close_fd_def kscreen_def)

lemma says_ok [simp]: "kernel_ok k \<Longrightarrow> kernel_ok (says ss k)"
  by (induction ss arbitrary: k) (simp_all add: says_def)

lemma say_color_ok [simp]: "kernel_ok k \<Longrightarrow> kernel_ok (say_color s col k)"
  by (simp add: say_color_def on_screen_ok)

lemma screen_ops_ok [simp]:
  "kernel_ok k \<Longrightarrow> kernel_ok (on_screen vga_clear k)" "kernel_ok k \<Longrightarrow> kernel_ok (on_screen vga_disable_cursor k)"
  "kernel_ok k \<Longrightarrow> kernel_ok (on_screen (vga_enable_cursor dev a b) k)" "kernel_ok k \<Longrightarrow> kernel_ok (on_screen (vga_putchar c) k)"
  by (simp_all add: on_screen_ok)

section \<open>The commands\<close>

lemma memdump_wf: "vga_wf v \<Longrightarrow> vga_wf (fold (memdump_byte m p) is v)"
proof (induction "is" arbitrary: v)
  case (Cons i "is")
  have "vga_wf (memdump_byte m p i v)"
    unfolding memdump_byte_def Let_def using Cons.prems by (auto simp del: vga_print.simps)
  with Cons.IH show ?case by simp
qed simp

lemma log_dump_wf: "vga_wf v \<Longrightarrow> vga_wf (log_dump l v)"
proof -
  have f: "vga_wf v \<Longrightarrow> vga_wf (fold (\<lambda>i. vga_putchar (f i)) is v)" for f :: "nat \<Rightarrow> u8" and "is" v
    by (induction "is" arbitrary: v) simp_all
  show "vga_wf v \<Longrightarrow> vga_wf (log_dump l v)" unfolding log_dump_def Let_def by (rule vga_wf_ops, rule f, rule vga_wf_ops)
qed

lemma write_args_ok:
  "kernel_ok k \<Longrightarrow> (\<And>k. kernel_ok k \<Longrightarrow> holds_after kernel_ok (c k)) \<Longrightarrow> holds_after kernel_ok (write_args E fd as c k)"
  by (induction E fd as c k rule: write_args.induct) (auto intro!: kernel_oks)

lemma inttoascii_ok: "kernel_ok k \<Longrightarrow> holds_after kernel_ok (inttoascii_args as k)"
  by (induction as k rule: inttoascii_args.induct) (auto intro!: kernel_oks)

lemma cmd_simple_ok [kernel_oks]:
  assumes "kernel_ok k"
  shows "holds_after kernel_ok (cmd_cur E argv k)" "holds_after kernel_ok (cmd_mouse E argv k)"
    "holds_after kernel_ok (cmd_memsummary E argv k)" "holds_after kernel_ok (cmd_meminfo E argv k)"
    "holds_after kernel_ok (cmd_clear E argv k)" "holds_after kernel_ok (cmd_uptime E argv k)"
    "holds_after kernel_ok (cmd_help E argv k)" "holds_after kernel_ok (cmd_doom E argv k)"
    "holds_after kernel_ok (cmd_state E argv k)" "holds_after kernel_ok (cmd_dmesg E argv k)"
    "holds_after kernel_ok (cmd_memdump E argv k)" "holds_after kernel_ok (cmd_inttoascii E argv k)"
  using assms by (auto simp: cmd_cur_def cmd_mouse_def cmd_memsummary_def cmd_meminfo_def cmd_clear_def cmd_uptime_def
      cmd_help_def cmd_doom_def cmd_state_def cmd_dmesg_def cmd_memdump_def cmd_inttoascii_def Let_def
      intro!: bind_ok on_screen_ok debug_print_wf log_dump_wf memdump_wf inttoascii_ok say_ok)

lemma with_heap_ok:
  assumes "kernel_ok k" and "\<And>x h'. f (fheap (kfs k)) = Some (x, h') \<Longrightarrow> vga_wf (screen h')"
    and "\<And>x k'. kernel_ok k' \<Longrightarrow> holds_after kernel_ok (c x k')"
  shows "holds_after kernel_ok (with_heap f c k)"
  using assms on_heap_ok [OF assms(1)] by (auto simp: with_heap_def split: option.splits)

lemma cmd_heap_ok [kernel_oks]:
  assumes k: "kernel_ok k"
  shows "holds_after kernel_ok (cmd_heapcheck E argv k)" "holds_after kernel_ok (cmd_heapval E argv k)"
    "holds_after kernel_ok (cmd_heapinfo E argv k)" "holds_after kernel_ok (cmd_free E argv k)"
    "holds_after kernel_ok (cmd_freelast E argv k)" "holds_after kernel_ok (cmd_alloc E argv k)"
proof -
  show "holds_after kernel_ok (cmd_heapcheck E argv k)" "holds_after kernel_ok (cmd_heapval E argv k)"
    unfolding cmd_heapcheck_def cmd_heapval_def by (auto intro!: heap_call_ok [OF k heap_validate_wf])
  show "holds_after kernel_ok (cmd_heapinfo E argv k)"
    unfolding cmd_heapinfo_def by (auto intro!: heap_call_ok [OF k heap_dump_wf])
  show "holds_after kernel_ok (cmd_free E argv k)" "holds_after kernel_ok (cmd_freelast E argv k)"
    unfolding cmd_free_def cmd_freelast_def using k by (auto intro!: bind_ok heap_call_ok [OF k kfree_wf])
  have "kmalloc n (fheap (kfs k)) = Some (x, h') \<Longrightarrow> vga_wf (screen h')" for n x h'
    using kmalloc_screen kernel_heap_wf [OF k] by fastforce
  then show "holds_after kernel_ok (cmd_alloc E argv k)"
    unfolding cmd_alloc_def using k by (auto intro!: bind_ok with_heap_ok [OF k])
qed

lemma resolve_arg_ok [kernel_oks]:
  "kernel_ok k \<Longrightarrow> (\<And>x k'. kernel_ok k' \<Longrightarrow> holds_after kernel_ok (c x k')) \<Longrightarrow> holds_after kernel_ok (resolve_arg E p c k)"
  by (auto simp: resolve_arg_def intro!: fs_calls_ok)

lemma list_dir_ok [kernel_oks]:
  assumes k: "kernel_ok k"
  shows "holds_after kernel_ok (list_dir E d k)"
proof -
  have "holds_after kernel_ok (with_fs E (\<lambda>s. map_option Ret (ramfs_list d s)) (\<lambda>_. returns) k)"
  proof (cases "ramfs_list d (kfs k)")
    case (Some r)
    then obtain v where v: "list_children (fmem (kfs k)) (n_fs_private (fmem (kfs k)) d) 0 (screen (fheap (kfs k))) = Some v"
      "r = (0, (kfs k)\<lparr>fheap := (fheap (kfs k))\<lparr>screen := v\<rparr>\<rparr>)" by (auto simp: ramfs_list_def)
    have "vga_wf v" using list_children_wf [OF v(1)] kernel_heap_wf [OF k] by blast
    with k show ?thesis by (simp add: with_fs_def Some v(2) kernel_ok_def)
  qed (simp add: with_fs_def)
  then show ?thesis using k by (auto simp: list_dir_def split: option.splits)
qed

lemma write_all_ok [kernel_oks]:
  "kernel_ok k \<Longrightarrow> (\<And>k'. kernel_ok k' \<Longrightarrow> holds_after kernel_ok (c k')) \<Longrightarrow> holds_after kernel_ok (write_all E d t c k)"
  by (auto simp: write_all_def intro!: kernel_oks)

lemma seed_tmp_ok [kernel_oks]: "kernel_ok k \<Longrightarrow> holds_after kernel_ok (seed_tmp E k)"
  by (auto simp: seed_tmp_def intro!: kernel_oks)

lemma seed_about_ok [kernel_oks]: "kernel_ok k \<Longrightarrow> holds_after kernel_ok (seed_about E d k)"
  by (auto simp: seed_about_def intro!: kernel_oks)

lemma cmd_file_ok [kernel_oks]:
  assumes "kernel_ok k"
  shows "holds_after kernel_ok (cmd_fsseed E argv k)" "holds_after kernel_ok (cmd_cd E argv k)"
    "holds_after kernel_ok (cmd_ls E argv k)" "holds_after kernel_ok (cmd_write E argv k)"
    "holds_after kernel_ok (cmd_rd E argv k)" "holds_after kernel_ok (cmd_mk E argv k)" "holds_after kernel_ok (cmd_mkr E argv k)"
  using assms by (auto simp: cmd_fsseed_def cmd_cd_def cmd_ls_def cmd_write_def cmd_rd_def cmd_mk_def cmd_mkr_def Let_def
      intro!: kernel_oks write_args_ok)

lemma cmd_asciitoint_ok [kernel_oks]:
  assumes "kernel_ok k"
  shows "holds_after kernel_ok (cmd_asciitoint E argv k)"
proof -
  have "asciitoint_loop m p (kscreen (say s k)) = Some v \<Longrightarrow> kernel_ok (on_screen (\<lambda>_. v) (say s k))" for m p s v
    using asciitoint_wf say_ok(1) [OF assms, of s] by (auto simp: kernel_ok_def)
  then show ?thesis using assms by (auto simp: cmd_asciitoint_def Let_def intro!: bind_ok)
qed

lemma divide_error_ok: "kernel_ok k \<Longrightarrow> holds_after kernel_ok (divide_error E k)"
  using interrupt_cases [of k E returns 0 0] by (auto simp: divide_error_def)

lemma cmd_system_ok [kernel_oks]:
  assumes "kernel_ok k"
  shows "holds_after kernel_ok (cmd_calc E argv k)" "holds_after kernel_ok (cmd_echo E argv k)"
    "holds_after kernel_ok (cmd_cpuid E argv k)" "holds_after kernel_ok (cmd_sysfetch E argv k)"
    "holds_after kernel_ok (cmd_panic E argv k)" "holds_after kernel_ok (cmd_shutdown E argv k)" "holds_after kernel_ok (cmd_reboot E argv k)"
  using assms divide_error_ok [OF assms, of E] by (auto simp: cmd_calc_def cmd_echo_def cmd_cpuid_def cmd_sysfetch_def cmd_panic_def cmd_shutdown_def cmd_reboot_def Let_def
      intro!: kernel_oks)

lemma commands_ok: "(n, h) \<in> set commands \<Longrightarrow> kernel_ok k \<Longrightarrow> holds_after kernel_ok (h E argv k)"
  unfolding commands_def by (auto intro!: kernel_oks)

section \<open>The shell\<close>

lemma dispatch_ok: "kernel_ok k \<Longrightarrow> set cs \<subseteq> set commands \<Longrightarrow> holds_after kernel_ok (dispatch E cs argv k)"
proof (induction cs)
  case (Cons c cs)
  obtain n h where "c = (n, h)" by (cases c)
  with Cons commands_ok [of n h k E argv] show ?case by (auto intro!: bind_ok)
qed simp

lemma execute_command_ok: "kernel_ok k \<Longrightarrow> holds_after kernel_ok (execute_command E input k)"
  by (auto simp: execute_command_def Let_def split_beta intro!: bind_ok dispatch_ok)

lemma prompt_ok [simp]: "kernel_ok k \<Longrightarrow> kernel_ok (prompt k)"
  by (simp add: prompt_def)

lemma on_console_ok:
  assumes "kernel_ok k" and "\<And>c. console_ok c \<Longrightarrow> vga_wf (con_screen c) \<Longrightarrow> console_ok (f c) \<and> vga_wf (con_screen (f c))"
  shows "kernel_ok (on_console f k)"
  using assms(1) assms(2) [of "(kconsole k)\<lparr>con_screen := kscreen k\<rparr>"]
  by (simp add: on_console_def Let_def kernel_ok_def console_ok_def)

lemma fold_zero_length [simp]: "length (fold (\<lambda>i b. b[i := x]) is b) = length b"
  by (induction "is" arbitrary: b) simp_all

lemma console_steps_ok:
  assumes "console_ok c" and "vga_wf (con_screen c)"
  shows "console_ok (console_handle_char ch c)" "vga_wf (con_screen (console_handle_char ch c))"
    "console_ok (console_clear_line c)" "vga_wf (con_screen (console_clear_line c))"
  using assms by (auto simp: console_handle_char_def console_clear_line_def console_ok_def)

lemma shell_key_ok: "kernel_ok k \<Longrightarrow> holds_after kernel_ok (shell_key E c k)"
  by (auto simp: shell_key_def Let_def line_in_memory_def intro!: run_bind_ok execute_command_ok prompt_ok on_console_ok console_steps_ok)

lemma getchar_ok: "keyboard_ok kb \<Longrightarrow> keyboard_ok (snd (keyboard_getchar kb))"
  by (simp add: keyboard_getchar_def keyboard_ok_def)

lemma shell_update_ok:
  assumes run: "shell_update E k = Some r"
  shows "kernel_ok k \<longrightarrow> holds_after kernel_ok (Some r)"
proof (rule shell_update.raw_induct [OF _ run])
  fix su E k r
  assume ih: "\<And>E k r. su E k = Some r \<Longrightarrow> kernel_ok k \<longrightarrow> holds_after kernel_ok (Some r)"
    and body: "(if keyboard_has_input (kkeyboard k)
      then let (c, kb) = keyboard_getchar (kkeyboard k) in run_bind (shell_key E c (k\<lparr>kkeyboard := kb\<rparr>)) (su E)
      else returns k) = Some r"
  show "kernel_ok k \<longrightarrow> holds_after kernel_ok (Some r)"
  proof
    assume k: "kernel_ok k"
    have "holds_after kernel_ok (su E k')" if "kernel_ok k'" for k'
      using ih that by (cases "su E k'") auto
    moreover have "kernel_ok (k\<lparr>kkeyboard := snd (keyboard_getchar (kkeyboard k))\<rparr>)"
      using k getchar_ok by (simp add: kernel_ok_def)
    ultimately have "holds_after kernel_ok (run_bind (shell_key E c (k\<lparr>kkeyboard := snd (keyboard_getchar (kkeyboard k))\<rparr>)) (su E))" for c
      by (intro run_bind_ok shell_key_ok)
    then show "holds_after kernel_ok (Some r)"
      using k unfolding body [symmetric] by (simp add: split_beta)
  qed
qed

section \<open>The running kernel\<close>

text \<open>
  After the boot the kernel alternates between turns of the shell and halts that interrupts end:
  the steps of the machine are the interrupts, with any vector and error code, and the turns of the
  shell, whose commands may themselves sleep through interrupts.
\<close>

inductive machine_step :: "env \<Rightarrow> kernel \<Rightarrow> kernel \<Rightarrow> bool" for E where
  interrupt: "isr_handler E returns n e k = Some (Running k') \<Longrightarrow> machine_step E k k'"
| turn: "shell_update E k = Some (Running k') \<Longrightarrow> machine_step E k k'"

inductive machine_run :: "env \<Rightarrow> kernel \<Rightarrow> kernel \<Rightarrow> bool" for E where
  start: "machine_run E k k"
| step: "machine_run E k k' \<Longrightarrow> machine_step E k' k'' \<Longrightarrow> machine_run E k k''"

inductive_cases machine_stepE: "machine_step E k k'"

lemma machine_step_ok: "machine_step E k k' \<Longrightarrow> kernel_ok k \<Longrightarrow> kernel_ok k'"
proof (elim machine_stepE)
  fix n e assume "isr_handler E returns n e k = Some (Running k')" and "kernel_ok k"
  then show "kernel_ok k'" using interrupt_cases [of k E returns n e] by auto
next
  assume "shell_update E k = Some (Running k')" and "kernel_ok k"
  then show "kernel_ok k'" using shell_update_ok [of E k "Running k'"] by simp
qed

text \<open>
  C7. The invariant of the running kernel: whatever keys are typed, whatever commands they make,
  and whatever interrupts come in whatever order, in every state the machine reaches the cursor is on
  the screen, both screen buffers have 80 by 25 cells, the rings of keyboard and mouse, the line
  editor and the log have their indices in range, and no task is current; and every interrupt
  in such a state is handled.
\<close>

theorem kernel_stays_ok:
  assumes "machine_run E k k'" and "kernel_ok k"
  shows "kernel_ok k' \<and> (\<exists>r k''. isr_handler E returns n e k' = Some r \<and> r \<in> {Running k'', Halted k''} \<and> kernel_ok k'')"
proof -
  have ok: "kernel_ok k'" using assms by induction (auto dest: machine_step_ok)
  with interrupt_cases [OF ok, of E returns n e] show ?thesis by auto
qed

lemma kernel_stays_ok_witness:
  "\<exists>k'. machine_run (env_quiet 0 (32, 0)) kernel_start k' \<and> ticks (kclock k') = 1 \<and> kernel_ok k'"
proof -
  let ?E = "env_quiet 0 (32, 0)"
  obtain k' where k': "isr_handler ?E returns 32 0 kernel_start = Some (Running k')" "ticks (kclock k') = 1"
    using irq_returns [OF kernel_start_ok, of 32 ?E returns 0] by (auto simp: kernel_start_def clock_start_def)
  have "machine_run ?E kernel_start k'" by (rule machine_run.step [OF machine_run.start interrupt [OF k'(1)]])
  with kernel_stays_ok [OF this kernel_start_ok] k'(2) show ?thesis by blast
qed

end
