(* ===== verification/ShellLaws.thy ===== *)
theory ShellLaws imports Shell begin

text \<open>
  What the shell does: a line is taken apart into its words, the first of them selects the
  command, and every command leaves the kernel in order.
\<close>

section \<open>The words of a line\<close>

abbreviation words :: "u8 list \<Rightarrow> u8 list list" where "words \<equiv> parts 32"

lemma words_Nil [simp]: "words [] = []" by (subst parts.simps) simp

lemma words_space: "words (32 # t) = words t"
  by (subst (1 2) parts.simps) simp

lemma words_blank: "dropWhile (\<lambda>c. c = 32) t = [] \<Longrightarrow> words t = []"
  by (subst parts.simps) (simp add: Let_def)

lemma words_step:
  "dropWhile (\<lambda>c. c = 32) t = u \<Longrightarrow> u \<noteq> [] \<Longrightarrow> words t = takeWhile (\<lambda>c. c \<noteq> 32) u # words (dropWhile (\<lambda>c. c \<noteq> 32) u)"
  by (subst parts.simps) (simp add: Let_def)

lemma skip_spaces_cstr:
  "cstr m p t \<Longrightarrow> skip_spaces m p = Some (p + of_nat (length (takeWhile (\<lambda>c. c = 32) t)))"
proof (induction t arbitrary: p)
  case Nil
  then show ?case by (subst skip_spaces.simps) simp
next
  case (Cons c t)
  then show ?case by (subst skip_spaces.simps) (auto simp: add.assoc)
qed

lemma skip_word_cstr:
  "cstr m p t \<Longrightarrow> skip_word m p = Some (p + of_nat (length (takeWhile (\<lambda>c. c \<noteq> 32) t)))"
proof (induction t arbitrary: p)
  case Nil
  then show ?case by (subst skip_word.simps) simp
next
  case (Cons c t)
  then show ?case by (subst skip_word.simps) (auto simp: add.assoc)
qed

lemma cstr_prefix:
  "cstr m p (w @ t) \<Longrightarrow> m' (p + of_nat (length w)) = 0 \<Longrightarrow> (\<And>i. i < length w \<Longrightarrow> m' (p + of_nat i) = m (p + of_nat i)) \<Longrightarrow> cstr m' p w"
proof (induction w arbitrary: p)
  case (Cons c w)
  have "cstr m' (p + 1) w"
  proof (rule Cons.IH)
    show "m' (p + 1 + of_nat i) = m (p + 1 + of_nat i)" if "i < length w" for i
      using Cons.prems(3) [of "Suc i"] that by (simp add: add.assoc)
  qed (use Cons.prems in \<open>simp_all add: add.assoc\<close>)
  then show ?case using Cons.prems(1) Cons.prems(3) [of 0] by simp
qed simp

lemma behind: "0 < j \<Longrightarrow> i + j < 4294967296 \<Longrightarrow> i \<le> unat (- (of_nat j) :: u32)"
proof -
  assume j: "0 < j" "i + j < 4294967296"
  have "(of_nat (4294967296 - j) :: u32) = of_nat 4294967296 - of_nat j" using j by (subst of_nat_diff) simp_all
  then have "(- of_nat j :: u32) = of_nat (4294967296 - j)" by simp
  moreover have "unat (of_nat (4294967296 - j) :: u32) = 4294967296 - j" using j by (intro unat_of_nat32) simp
  ultimately have "unat (- of_nat j :: u32) = 4294967296 - j" by simp
  with j show ?thesis by simp
qed

lemma parse_loop_words:
  assumes "cstr m p t" and "length argv \<le> 8"
  shows "\<exists>ps m'. parse_loop p argv m = Some (argv @ ps, m') \<and> length ps = min (8 - length argv) (length (words t))
    \<and> (\<forall>i<length ps. cstr m' (ps ! i) (words t ! i) \<and> (\<exists>d. ps ! i = p + of_nat d \<and> d + length (words t ! i) \<le> length t))
    \<and> (\<forall>a. length t \<le> unat (a - p) \<longrightarrow> m' a = m a)"
  using assms
proof (induction "length t" arbitrary: p t argv m rule: less_induct)
  case less
  define n u where "n = length (takeWhile (\<lambda>c. c = 32) t)" and "u = dropWhile (\<lambda>c. c = 32) t"
  define w v where "w = takeWhile (\<lambda>c. c \<noteq> 32) u" and "v = dropWhile (\<lambda>c. c \<noteq> 32) u"
  have len: "length t < 4294967296" using cstr_length [OF less.prems(1)] .
  have tu: "length t = n + length u" "u = drop n t"
    using arg_cong [OF takeWhile_dropWhile_id [of "\<lambda>c. c = 32" t], of length]
    by (simp_all add: n_def u_def dropWhile_eq_drop del: takeWhile_dropWhile_id)
  have uw: "u = w @ v" by (simp add: w_def v_def)
  let ?q = "p + of_nat n"
  let ?e = "?q + of_nat (length w)"
  have q: "cstr m ?q u" unfolding tu(2) by (rule cstr_drop [OF less.prems(1)]) (simp add: tu(1))
  have e: "cstr m ?e v" using cstr_drop [OF q, of "length w"] by (simp add: uw)
  consider "length argv = 8 \<or> t = []" | "length argv < 8" "t \<noteq> []" "u = []" | "length argv < 8" "t \<noteq> []" "u \<noteq> []"
    using less.prems(2) by linarith
  then show ?case
  proof cases
    case 1
    then show ?thesis using less.prems by (subst parse_loop.simps) auto
  next
    case 2
    have "m p \<noteq> 0" using less.prems(1) 2(2) by (cases t) auto
    then show ?thesis using 2 q skip_spaces_cstr [OF less.prems(1)] words_blank [of t]
      by (subst parse_loop.simps) (simp add: n_def [symmetric] u_def [symmetric])
  next
    case 3
    have p0: "m p \<noteq> 0" using less.prems(1) 3(2) by (cases t) auto
    have q0: "m ?q \<noteq> 0" using q 3(3) by (cases u) auto
    have wt: "words t = w # words v" using words_step [of t u] 3(3) by (simp add: u_def w_def v_def)
    have step: "parse_loop p argv m =
        (if m ?e \<noteq> 0 then parse_loop (?e + 1) (argv @ [?q]) (m(?e := 0)) else parse_loop ?e (argv @ [?q]) m)"
      using 3 p0 q0 skip_spaces_cstr [OF less.prems(1)] skip_word_cstr [OF q]
      by (subst parse_loop.simps) (simp add: n_def [symmetric] w_def [symmetric])
    have w0: "w \<noteq> []" using hd_dropWhile_not [of "\<lambda>c. c = 32" t] 3(3) unfolding w_def u_def by (cases "dropWhile (\<lambda>c. c = 32) t") auto
    text \<open>The rest of the line is \<open>x\<close>, parsed from \<open>f\<close> in the memory \<open>m1\<close>.\<close>
    obtain f x m1 d where f: "parse_loop p argv m = parse_loop f (argv @ [?q]) m1" "cstr m1 f x" "words v = words x"
      "m1 = m(?e := 0)" "f = ?e + of_nat d" "x = [] \<or> d = 1" "d + length x = length v"
    proof (cases v)
      case Nil
      have z: "m ?e = 0" using e Nil by simp
      then have "m(?e := 0) = m" by (auto simp: fun_eq_iff)
      moreover have "parse_loop p argv m = parse_loop ?e (argv @ [?q]) m" unfolding step using z by (intro if_not_P) simp
      ultimately show ?thesis using e by (intro that [of ?e m "[]" 0]) (simp_all add: Nil)
    next
      case (Cons c x)
      have c: "c = 32" using hd_dropWhile_not [of "\<lambda>c. c \<noteq> 32" u, folded v_def] Cons by simp
      have "cstr (m(?e := 0)) (?e + 1) x"
      proof (rule cstr_cong)
        show "cstr m (?e + 1) x" using e Cons by simp
        fix i assume "i \<le> length x"
        then have "Suc i < 4294967296" using len tu(1) uw Cons by simp
        then have "(of_nat (Suc i) :: u32) \<noteq> 0" by (subst of_nat32_eq_0_iff) auto
        then have "?e + 1 + of_nat i \<noteq> ?e" by (simp add: add.assoc)
        then show "(m(?e := 0)) (?e + 1 + of_nat i) = m (?e + 1 + of_nat i)" by simp
      qed
      moreover have "m ?e \<noteq> 0" using e Cons by simp
      then have "parse_loop p argv m = parse_loop (?e + 1) (argv @ [?q]) (m(?e := 0))" unfolding step by (rule if_P)
      ultimately show ?thesis
        by (intro that [of "?e + 1" "m(?e := 0)" x 1]) (simp_all add: Cons c words_space)
    qed
    have lx: "length x < length t" using f(6,7) tu(1) uw w0 by (cases w) auto
    from less.hyps [OF lx f(2), of "argv @ [?q]"] 3(1) obtain ps m' where
      r: "parse_loop f (argv @ [?q]) m1 = Some ((argv @ [?q]) @ ps, m')"
        "length ps = min (8 - length (argv @ [?q])) (length (words x))"
        "\<And>i. i < length ps \<Longrightarrow> cstr m' (ps ! i) (words x ! i) \<and> (\<exists>d. ps ! i = f + of_nat d \<and> d + length (words x ! i) \<le> length x)"
        "\<And>a. length x \<le> unat (a - f) \<Longrightarrow> m' a = m1 a" by auto
    have before: "m' (?q + of_nat i) = m1 (?q + of_nat i)" if i: "i \<le> length w" for i
    proof (rule r(4))
      show "length x \<le> unat (?q + of_nat i - f)"
      proof (cases "x = []")
        case False
        then have d: "d = 1" using f(6) by blast
        have j: "0 < Suc (length w) - i" "length x + (Suc (length w) - i) < 4294967296"
          using i f(7) d tu(1) uw len by auto
        have "?q + of_nat i - f = - of_nat (Suc (length w) - i)"
          using i by (simp add: f(5) d of_nat_diff algebra_simps)
        with behind [OF j] show ?thesis by simp
      qed simp
    qed
    have m1e: "m1 ?e = 0" by (simp add: f(4))
    have word: "cstr m' ?q w"
    proof (rule cstr_prefix [of m ?q w v])
      show "cstr m ?q (w @ v)" using q uw by simp
      show "m' (?q + of_nat (length w)) = 0" using before [of "length w"] m1e by simp
      fix i assume i: "i < length w"
      then have "(of_nat i :: u32) \<noteq> of_nat (length w)" using len tu(1) uw by (subst of_nat32_eq_iff) auto
      then show "m' (?q + of_nat i) = m (?q + of_nat i)" using before [of i] i by (simp add: f(4))
    qed
    have outside: "m' a = m a" if a: "length t \<le> unat (a - p)" for a
    proof -
      let ?k = "n + length w + d"
      have k: "?k + length x = length t" using tu(1) uw f(7) by simp
      then have u: "unat (of_nat ?k :: u32) = ?k" using len by (intro unat_of_nat32) simp
      have af: "a - f = (a - p) - of_nat ?k" by (simp add: f(5))
      have "of_nat ?k \<le> a - p" using a k by (simp add: word_le_nat_alt u del: of_nat_add)
      from unat_sub [OF this] have "unat (a - f) = unat (a - p) - ?k" by (simp only: af u)
      then have "m' a = m1 a" using a k by (intro r(4)) simp
      also have "\<dots> = m a"
      proof (cases "a = ?e")
        case True
        then have "unat (a - p) = n + length w" using len tu(1) uw unat_of_nat32 [of "n + length w"] by simp
        then have "v = []" using a tu(1) uw by simp
        then show ?thesis using e m1e True by simp
      qed (simp add: f(4))
      finally show ?thesis .
    qed
    have places: "\<exists>d'. ps ! i = p + of_nat d' \<and> d' + length (words x ! i) \<le> length t" if il: "i < length ps" for i
    proof -
      obtain d' where "ps ! i = f + of_nat d'" "d' + length (words x ! i) \<le> length x" using r(3) [OF il] by blast
      then show ?thesis using tu(1) uw f(7) by (intro exI [of _ "n + length w + d + d'"]) (simp add: f(5) add.assoc)
    qed
    have "cstr m' ((?q # ps) ! i) (words t ! i) \<and> (\<exists>d. (?q # ps) ! i = p + of_nat d \<and> d + length (words t ! i) \<le> length t)"
      if "i < length (?q # ps)" for i
    proof (cases i)
      case 0
      then show ?thesis using word tu(1) uw by (auto simp: wt intro!: exI [of _ n])
    next
      case (Suc j)
      then show ?thesis using that r(3) [of j] places [of j] by (auto simp: wt f(3))
    qed
    moreover have "parse_loop p argv m = Some (argv @ ?q # ps, m')" using f(1) r(1) by simp
    moreover have "length (?q # ps) = min (8 - length argv) (length (words t))"
      using r(2) 3(1) by (simp add: wt f(3) min_def) linarith
    ultimately show ?thesis using outside by blast
  qed
qed

text \<open>
  C35. A line is taken apart into its words: \<open>argv\<close> gets pointers to the first eight words of the
  line, each a string of its own in the line's buffer, and no byte outside the line is changed.
\<close>

theorem parse_arguments_words:
  assumes "cstr m line t"
  shows "\<exists>argv m'. parse_arguments line m = Some (argv, m') \<and> length argv = min 8 (length (words t))
    \<and> (\<forall>i<length argv. cstr m' (argv ! i) (words t ! i))
    \<and> (\<forall>a. length t \<le> unat (a - line) \<longrightarrow> m' a = m a)"
  using parse_loop_words [OF assms, of "[]"] by (auto simp: parse_arguments_def)

section \<open>The command that a line runs\<close>

text \<open>
  A string literal is in the memory, apart from the 256 bytes of the local copy of the line.
\<close>

definition literal_ok :: "env \<Rightarrow> u32 \<Rightarrow> mem \<Rightarrow> string \<Rightarrow> bool" where
  "literal_ok E B m s \<longleftrightarrow> cstr m (literal E s) (bytes_of s) \<and> apart 256 B (length s + 1) (literal E s) \<and> length s < 4294967295"

lemma literal_ok_outside:
  assumes "literal_ok E B m s" and "\<And>a. 256 \<le> unat (a - B) \<Longrightarrow> m' a = m a"
  shows "cstr m' (literal E s) (bytes_of s)"
proof (rule cstr_cong)
  show "cstr m (literal E s) (bytes_of s)" using assms(1) by (simp add: literal_ok_def)
  fix i assume "i \<le> length (bytes_of s)"
  with assms(1) apart_outside [of 256 B "length s + 1" "literal E s" i]
  show "m' (literal E s + of_nat i) = m (literal E s + of_nat i)" by (intro assms(2)) (simp add: literal_ok_def)
qed

text \<open>The handler of the command with the name \<open>w\<close>.\<close>

definition command_named :: "u8 list \<Rightarrow> (env \<Rightarrow> u32 list \<Rightarrow> kernel \<Rightarrow> run option) option" where
  "command_named w = map_of (map (\<lambda>(n, h). (bytes_of n, h)) commands) w"

lemma dispatch_eq:
  assumes "cstr (kmem k) (argv ! 0) w" and "\<forall>(n, h)\<in>set cs. cstr (kmem k) (literal E n) (bytes_of n)"
  shows "dispatch E cs argv k = (case map_of (map (\<lambda>(n, h). (bytes_of n, h)) cs) w of
      Some h \<Rightarrow> h E argv k | None \<Rightarrow> returns (say ''Unknown command\<newline>'' k))"
  using assms(2)
proof (induction cs)
  case (Cons c cs)
  obtain n h where c: "c = (n, h)" by (cases c)
  obtain r where r: "strcmp (kmem k) (argv ! 0) (literal E n) = Some r" "r = 0 \<longleftrightarrow> w = bytes_of n"
    using strcmp_eq_iff [OF assms(1), of "literal E n" "bytes_of n"] Cons.prems c by auto
  have "dispatch E (c # cs) argv k = (if r = 0 then h E argv k else dispatch E cs argv k)"
    unfolding c dispatch.simps r(1) by simp
  then show ?case using Cons r(2) by (simp add: c)
qed simp

lemma execute_runs:
  assumes t: "cstr (kmem k) input t" "length t < 256" and B: "B = object E ''execute_command.local_buffer''"
    and ap: "apart 256 B 256 input" and lit: "\<forall>(n, h)\<in>set commands. literal_ok E B (kmem k) n"
  shows "\<exists>argv m'. length argv = min 8 (length (words t)) \<and> (\<forall>i<length argv. cstr m' (argv ! i) (words t ! i)
        \<and> (\<exists>d. argv ! i = B + of_nat d \<and> d + length (words t ! i) < 256))
    \<and> (\<forall>a. 256 \<le> unat (a - B) \<longrightarrow> m' a = kmem k a)
    \<and> execute_command E input k =
        (if words t = [] then returns (set_kmem m' k)
         else case command_named (hd (words t)) of
             Some h \<Rightarrow> h E argv (set_kmem m' k)
           | None \<Rightarrow> returns (say ''Unknown command\<newline>'' (set_kmem m' k)))"
proof -
  define m1 where "m1 = write_bytes (kmem k) B (t @ [0])"
  have "apart (length t + 1) (B + of_nat 0) (length t + 1) (input + of_nat 0)"
    by (rule apart_part [OF ap]) (use t(2) in auto)
  with t(1) have cp: "strcpy (kmem k) B input = Some m1" unfolding m1_def by (intro strcpy_correct) simp_all
  have z: "0 \<notin> set t" using t(1) by (simp add: cstr_read_bytes)
  have c1: "cstr m1 B t" unfolding m1_def using t(2) z by (intro cstr_write_bytes) simp_all
  have o1: "256 \<le> unat (a - B) \<Longrightarrow> m1 a = kmem k a" for a
    unfolding m1_def using t(2) by (intro write_bytes_outside) simp
  obtain argv m' where p: "parse_loop B [] m1 = Some (argv, m')" "length argv = min 8 (length (words t))"
      "\<forall>i<length argv. cstr m' (argv ! i) (words t ! i) \<and> (\<exists>d. argv ! i = B + of_nat d \<and> d + length (words t ! i) < 256)"
      "\<forall>a. length t \<le> unat (a - B) \<longrightarrow> m' a = m1 a"
    using parse_loop_words [OF c1, of "[]"] t(2) by fastforce
  have o: "256 \<le> unat (a - B) \<Longrightarrow> m' a = kmem k a" for a using p(4) o1 t(2) by simp
  have run: "execute_command E input k = (if length argv = 0 then returns (set_kmem m' k) else dispatch E commands argv (set_kmem m' k))"
    by (simp add: execute_command_def Let_def B [symmetric] cp parse_arguments_def p(1))
  show ?thesis
  proof (cases "words t = []")
    case True
    then show ?thesis using run p(2,3) o by (intro exI [of _ argv] exI [of _ m']) simp
  next
    case False
    then have a0: "0 < length argv" using p(2) by simp
    have w: "cstr (kmem (set_kmem m' k)) (argv ! 0) (hd (words t))" using p(3) a0 False by (simp add: hd_conv_nth)
    have l: "\<forall>(n, h)\<in>set commands. cstr (kmem (set_kmem m' k)) (literal E n) (bytes_of n)"
      using lit literal_ok_outside [where m' = m'] o by fastforce
    show ?thesis using run a0 dispatch_eq [OF w l] p(2,3) o False
      by (intro exI [of _ argv] exI [of _ m']) (simp add: command_named_def)
  qed
qed

text \<open>
  C10. What a line runs: nothing if it is blank, otherwise the command that its first word names,
  with pointers to its first eight words, or the message that there is none.  Nothing but the
  local copy of the line is changed before the command is called.
\<close>

theorem execute_command_runs:
  assumes t: "cstr (kmem k) input t" "length t < 256" and B: "B = object E ''execute_command.local_buffer''"
    and ap: "apart 256 B 256 input" and lit: "\<forall>(n, h)\<in>set commands. literal_ok E B (kmem k) n"
  shows "\<exists>argv m'. length argv = min 8 (length (words t)) \<and> (\<forall>i<length argv. cstr m' (argv ! i) (words t ! i))
    \<and> (\<forall>a. 256 \<le> unat (a - B) \<longrightarrow> m' a = kmem k a)
    \<and> execute_command E input k =
        (if words t = [] then returns (set_kmem m' k)
         else case command_named (hd (words t)) of
             Some h \<Rightarrow> h E argv (set_kmem m' k)
           | None \<Rightarrow> returns (say ''Unknown command\<newline>'' (set_kmem m' k)))"
  using execute_runs [OF assms] by blast

section \<open>Echo\<close>

lemma print_string_cstr: "cstr m p s \<Longrightarrow> print_string m p v = Some (vga_print s v)"
  by (induction s arbitrary: p v) (subst print_string.simps, simp)+

fun joined :: "u8 list list \<Rightarrow> u8 list" where
  "joined [] = []"
| "joined [w] = w"
| "joined (w # v # ws) = w @ 32 # joined (v # ws)"

lemma joined_Cons: "joined (w # ws) = (if ws = [] then w else w @ 32 # joined ws)"
  by (cases ws) simp_all

text \<open>A string outside the buffer of \<open>N\<close> bytes at \<open>b\<close>.\<close>

definition string_apart :: "nat \<Rightarrow> u32 \<Rightarrow> mem \<Rightarrow> u32 \<Rightarrow> u8 list \<Rightarrow> bool" where
  "string_apart N b m p w \<longleftrightarrow> cstr m p w \<and> apart N b (length w + 1) p \<and> N < 4294967296"

lemma string_apart_outside:
  assumes "string_apart N b m p w" and "\<And>a. N \<le> unat (a - b) \<Longrightarrow> m' a = m a"
  shows "string_apart N b m' p w"
proof -
  have w: "cstr m p w" "apart N b (length w + 1) p" "N < 4294967296" using assms(1) by (auto simp: string_apart_def)
  have "cstr m' p w"
  proof (rule cstr_cong [OF w(1)])
    fix i assume "i \<le> length w"
    with apart_outside [OF w(2), of i] w(3) cstr_length [OF w(1)]
    show "m' (p + of_nat i) = m (p + of_nat i)" by (intro assms(2)) simp
  qed
  with w show ?thesis by (simp add: string_apart_def)
qed

lemma strcat_apart:
  assumes "cstr m b s" and "string_apart N b m p w" and "length s + length w < N"
  shows "\<exists>m'. strcat m b p = Some m' \<and> cstr m' b (s @ w) \<and> (\<forall>a. N \<le> unat (a - b) \<longrightarrow> m' a = m a)"
proof -
  have w: "cstr m p w" "apart N b (length w + 1) p" "N < 4294967296" using assms(2) by (auto simp: string_apart_def)
  have l: "length w < 4294967296" using cstr_length [OF w(1)] .
  have "apart (length s + length w + 1) (b + of_nat 0) (length w + 1) (p + of_nat 0)"
    by (rule apart_part [OF w(2)]) (use assms(3) w(3) l in auto)
  with strcat_correct [OF assms(1) w(1)] assms(3) w(3) show ?thesis by fastforce
qed

lemma join_args_joins:
  assumes "length as = length ws" and "\<And>i. i < length ws \<Longrightarrow> string_apart N b m (as ! i) (ws ! i)"
    and "string_apart N b m (literal E '' '') [32]" and "cstr m b s" and "length s + length (joined ws) < N"
  shows "\<exists>m'. join_args E b as m = Some m' \<and> cstr m' b (s @ joined ws) \<and> (\<forall>a. N \<le> unat (a - b) \<longrightarrow> m' a = m a)"
  using assms
proof (induction as arbitrary: ws m s)
  case Nil
  then show ?case by simp
next
  case (Cons p as)
  then obtain w ws' where ws: "ws = w # ws'" by (cases ws) auto
  have w: "string_apart N b m p w" and rest: "\<And>i. i < length ws' \<Longrightarrow> string_apart N b m (as ! i) (ws' ! i)"
    using Cons.prems(2) [of 0] Cons.prems(2) [of "Suc i" for i] by (auto simp: ws)
  have len: "length s + length w < N" using Cons.prems(5) by (simp add: ws joined_Cons split: if_splits)
  obtain m1 where m1: "strcat m b p = Some m1" "cstr m1 b (s @ w)" "\<forall>a. N \<le> unat (a - b) \<longrightarrow> m1 a = m a"
    using strcat_apart [OF Cons.prems(4) w len] by blast
  show ?case
  proof (cases "as = []")
    case True
    then have "ws' = []" using Cons.prems(1) by (simp add: ws)
    with True m1 show ?thesis by (simp add: ws)
  next
    case False
    then have ne: "ws' \<noteq> []" using Cons.prems(1) by (auto simp: ws)
    have len2: "length (s @ w) + length [32 :: u8] < N" "length (s @ w @ [32]) + length (joined ws') < N"
      using Cons.prems(5) ne by (simp_all add: ws joined_Cons)
    have sp: "string_apart N b m1 (literal E '' '') [32]" using string_apart_outside [OF Cons.prems(3)] m1(3) by blast
    obtain m2 where m2: "strcat m1 b (literal E '' '') = Some m2" "cstr m2 b (s @ w @ [32])" "\<forall>a. N \<le> unat (a - b) \<longrightarrow> m2 a = m1 a"
      using strcat_apart [OF m1(2) sp len2(1)] by auto
    have o: "\<And>a. N \<le> unat (a - b) \<Longrightarrow> m2 a = m a" using m1(3) m2(3) by simp
    have "\<exists>m'. join_args E b as m2 = Some m' \<and> cstr m' b ((s @ w @ [32]) @ joined ws') \<and> (\<forall>a. N \<le> unat (a - b) \<longrightarrow> m' a = m2 a)"
    proof (rule Cons.IH [OF _ _ _ m2(2) len2(2)])
      show "length as = length ws'" using Cons.prems(1) by (simp add: ws)
      show "string_apart N b m2 (as ! i) (ws' ! i)" if "i < length ws'" for i
        using string_apart_outside [OF rest [OF that]] o by blast
      show "string_apart N b m2 (literal E '' '') [32]" using string_apart_outside [OF Cons.prems(3)] o by blast
    qed
    then obtain m' where "join_args E b as m2 = Some m'" "cstr m' b ((s @ w @ [32]) @ joined ws')" "\<forall>a. N \<le> unat (a - b) \<longrightarrow> m' a = m2 a" by blast
    then show ?thesis using False ne m1(1) m2(1) o by (auto simp: ws joined_Cons)
  qed
qed

end
