(* ===== verification/Boot.thy ===== *)
theory Boot imports ShellOk ShellLaws begin

text \<open>
  The boot, \<^verbatim>\<open>core/boot.c\<close>, and the kernel's main loop, \<^verbatim>\<open>kernel.c\<close>: the order in which the
  parts are set up, on the one state they share.
\<close>

section \<open>The logo\<close>

text \<open>The loops run to the end of the string: here its bytes.  \<open>max\<close> and \<open>current\<close> are 32-bit.\<close>

fun logo_width_loop :: "u8 list \<Rightarrow> u32 \<Rightarrow> u32 \<Rightarrow> u32" where
  "logo_width_loop [] widest current = (if current > widest then current else widest)"
| "logo_width_loop (c # cs) widest current =
     (if c = 10 then logo_width_loop cs (if current > widest then current else widest) 0
      else logo_width_loop cs widest (current + 1))"

definition get_logo_width :: "u8 list \<Rightarrow> u32" where
  "get_logo_width logo = logo_width_loop logo 0 0"

definition get_logo_height :: "u8 list \<Rightarrow> u32" where
  "get_logo_height logo = fold (\<lambda>c lines. if c = 10 then lines + 1 else lines) logo 1"

text \<open>The loop of \<open>boot_screen\<close>: a new line goes to the next row and back to the first column of the logo.\<close>

fun logo_loop :: "u32 \<Rightarrow> u8 list \<Rightarrow> u32 \<Rightarrow> u32 \<Rightarrow> vga \<Rightarrow> vga" where
  "logo_loop start_col [] row col v = v"
| "logo_loop start_col (c # cs) row col v =
     (if c = 10 then logo_loop start_col cs (row + 1) start_col (vga_set_cursor (unat (row + 1)) (unat start_col) v)
      else logo_loop start_col cs row (col + 1) (vga_putchar c v))"

definition boot_screen :: "vga \<Rightarrow> vga" where
  "boot_screen v =
     (let v = vga_set_color 0x1F (vga_clear v);
          logo_width = get_logo_width (bytes_of boot_logo);
          logo_height = get_logo_height (bytes_of boot_logo);
          start_row = (25 - logo_height) div 2;
          start_col = (80 - logo_width) div 2;
          v = vga_set_color 0x0B v;
          v = vga_set_cursor (unat start_row) (unat start_col) v;
          v = logo_loop start_col (bytes_of boot_logo) start_row start_col v
      in vga_set_color 0x07 v)"

section \<open>The steps of the boot\<close>

text \<open>A step between its two status lines.\<close>

definition boot_step :: "string \<Rightarrow> (kernel \<Rightarrow> run option) \<Rightarrow> kernel \<Rightarrow> run option" where
  "boot_step msg f k =
     run_bind (f (on_screen (status_begin (bytes_of msg)) k)) (\<lambda>k. returns (on_screen status_end_ok k))"

fun boot_steps :: "(string \<times> (kernel \<Rightarrow> run option)) list \<Rightarrow> kernel \<Rightarrow> run option" where
  "boot_steps [] k = returns k"
| "boot_steps ((msg, f) # steps) k = run_bind (boot_step msg f k) (boot_steps steps)"

definition on_tables :: "(tables \<Rightarrow> tables) \<Rightarrow> kernel \<Rightarrow> run option" where
  "on_tables f k = returns (k\<lparr>ktables := f (ktables k)\<rparr>)"

definition start_interrupts :: "env \<Rightarrow> tables \<Rightarrow> tables" where
  "start_interrupts E t = idt_set_gate 0x80 (entry E ''syscall_entry'' 0) (idt_init (entry E ''isr'') (entry E ''irq'') t)"

definition start_pit :: "kernel \<Rightarrow> run option" where
  "start_pit k = (case pit_init 100 (kio k) of Ret tr \<Rightarrow> returns (on_ports (\<lambda>_. tr) k)
     | Panic e \<Rightarrow> Some (Crashed e) | Fault e \<Rightarrow> Some (Crashed e))"

definition start_scheduler :: "env \<Rightarrow> kernel \<Rightarrow> run option" where
  "start_scheduler E k = map_option (\<lambda>s. Running (set_sched s k))
     (scheduler_init (entry E ''test_task_a'' 0) (entry E ''test_task_b'' 0) (sched_view k))"

definition start_paging :: "kernel \<Rightarrow> run option" where
  "start_paging k = returns (set_pages (paging_init (pages_view k)) k)"

text \<open>
  From the descriptor tables to the heap.  The scheduler makes its tasks before the heap is set
  up.  The interrupts are enabled in the middle; those that come are taken where the model has
  the processor halt.
\<close>

definition machine_steps :: "env \<Rightarrow> (string \<times> (kernel \<Rightarrow> run option)) list" where
  "machine_steps E =
    [(''Initializing GDT'', on_tables gdt_init),
     (''Initializing TSS'', on_tables tss_init),
     (''Initializing IDT'', on_tables (start_interrupts E)),
     (''Remapping PIC'', \<lambda>k. returns (on_ports (pic_remap (env_dev E)) k)),
     (''Setting hardware time frequency to 100Hz'', start_pit),
     (''Initializing Scheduler'', start_scheduler E),
     (''Enabling Interrupts'', returns),
     (''Initializing Paging'', start_paging),
     (''Initializing Heap'', \<lambda>k. returns (on_heap heap_init k))]"

definition start_filesystem :: "env \<Rightarrow> kernel \<Rightarrow> run option" where
  "start_filesystem E k =
     with_fs E (\<lambda>s. bind_run (boot_filesystem (literal E ''tmp'') (literal E ''/tmp'') s) (\<lambda>s. Some (Ret ((), s)))) (\<lambda>_. returns) k"

definition input_steps :: "env \<Rightarrow> (string \<times> (kernel \<Rightarrow> run option)) list" where
  "input_steps E =
    [(''Initializing Console'', \<lambda>k. returns (on_console console_init k)),
     (''Initializing Keyboard'', returns),
     (''Initializing Mouse'', \<lambda>k. returns (on_mouse (mouse_init (env_dev E)) k))]"

definition start_framebuffer :: "u32 \<Rightarrow> kernel \<Rightarrow> run option" where
  "start_framebuffer multiboot_addr k =
     (let c = clock_view k
      in Option.bind (framebuffer_init multiboot_addr (cur_fb (tm_cursor c)) (klogs k)) (\<lambda>(fb, l).
           returns (on_log (\<lambda>_. l) (set_clock (c\<lparr>tm_cursor := (tm_cursor c)\<lparr>cur_fb := fb\<rparr>\<rparr>) k))))"

definition fb_of :: "kernel \<Rightarrow> framebuffer" where "fb_of k = cur_fb (tm_cursor (clock_view k))"

definition start_cursor :: "kernel \<Rightarrow> run option" where
  "start_cursor k =
     (if fb_available (fb_of k)
      then let c = clock_view k;
               cx = (if fb_width (fb_of k) \<noteq> 0 then fb_width (fb_of k) div 2 else 0);
               cy = (if fb_height (fb_of k) \<noteq> 0 then fb_height (fb_of k) div 2 else 0)
           in returns (set_clock (c\<lparr>tm_cursor := cursor_init cx cy 0x00FFFFFF (tm_cursor c)\<rparr>) k)
      else returns k)"

definition demo_picture :: "kernel \<Rightarrow> run option" where
  "demo_picture k =
     (let c = clock_view k
      in Option.bind (framebuffer_demo_bootscreen (cur_fb (tm_cursor c))) (\<lambda>fb.
           returns (set_clock (c\<lparr>tm_cursor := (tm_cursor c)\<lparr>cur_fb := fb\<rparr>\<rparr>) k)))"

section \<open>The loading animation\<close>

primrec dots_loop :: "env \<Rightarrow> u32 \<Rightarrow> nat \<Rightarrow> kernel \<Rightarrow> run option" where
  "dots_loop E delay 0 k = returns k"
| "dots_loop E delay (Suc n) k = run_bind (kernel_sleep E delay (say ''.'' k)) (dots_loop E delay n)"

definition loading_animation :: "env \<Rightarrow> u32 \<Rightarrow> kernel \<Rightarrow> run option" where
  "loading_animation E duration_ms k =
     (let current = vga_get_column (kscreen k)
      in if current \<ge> 60 then returns k
         else let dots = 60 - current
         in if dots = 0 then returns k
         else let delay = duration_ms div of_nat dots;
                  delay = (if delay = 0 then 1 else delay)
         in dots_loop E delay dots k)"

section \<open>Booting\<close>

definition start_pmm :: "env \<Rightarrow> u32 \<Rightarrow> kernel \<Rightarrow> (int \<times> kernel) option" where
  "start_pmm E multiboot_addr k =
     (let v = pages_view k
      in map_option (\<lambda>(r, p). (if r = PMM_OK then 0 else 1, set_pages (v\<lparr>frames := p\<rparr>) k))
           (pmm_init (object E ''kernel_start'') (object E ''kernel_end'') multiboot_addr (frames v)))"

definition pmm_step :: "env \<Rightarrow> u32 \<Rightarrow> kernel \<Rightarrow> run option" where
  "pmm_step E multiboot_addr k =
     Option.bind (start_pmm E multiboot_addr (on_screen (status_begin (bytes_of ''Initializing PMM'')) k)) (\<lambda>(pmm_result, k).
       if pmm_result = 0 then returns (on_screen status_end_ok k)
       else let k = on_screen status_end_error k
            in if pmm_result = 1 then panic E (bytes_of ''PMM failed: Missing memory map'') k
               else if pmm_result = 2 then panic E (bytes_of ''PMM failed: Out of physical memory'') k
               else panic E (bytes_of ''PMM failed: Unknown error'') k)"

definition show_screens :: "env \<Rightarrow> kernel \<Rightarrow> run option" where
  "show_screens E k =
     run_bind (if fb_available (fb_of k) then run_bind (demo_picture k) (kernel_sleep E 1700) else kernel_sleep E 1700 k) (\<lambda>k.
     run_bind (kernel_sleep E 2200 (on_screen boot_screen (on_screen vga_clear k))) (\<lambda>k.
       let k = on_screen vga_clear k;
           k = on_screen (vga_enable_cursor (env_dev E) 14 15) k
       in returns (say_color boot_logo 0x0B k)))"

definition kernel_boot :: "env \<Rightarrow> u32 \<Rightarrow> u32 \<Rightarrow> kernel \<Rightarrow> run option" where
  "kernel_boot E multiboot_magic multiboot_addr k =
     (let k = on_screen vga_clear k;
          k = on_log log_init k;
          k = on_log (log_write (bytes_of ''boot: kernel_boot start\<newline>'')) k
      in Option.bind (multiboot_print_memory (kmem k) multiboot_addr (kscreen k)) (\<lambda>v.
         run_bind (start_framebuffer multiboot_addr (on_screen (\<lambda>_. v) k)) (\<lambda>k.
         run_bind (pmm_step E multiboot_addr k) (\<lambda>k.
         run_bind (boot_steps (machine_steps E) k) (\<lambda>k.
         run_bind (start_filesystem E k) (\<lambda>k.
         run_bind (boot_steps (input_steps E) k) (\<lambda>k.
         run_bind (start_cursor k) (\<lambda>k.
         run_bind (boot_step ''Booting system'' (loading_animation E 823) k) (show_screens E)))))))))"

partial_function (option) kernel_loop :: "env \<Rightarrow> kernel \<Rightarrow> run option" where
  "kernel_loop E k = run_bind (shell_update E k) (\<lambda>k. run_bind (next_interrupt E k) (kernel_loop E))"

definition kernel_main :: "env \<Rightarrow> u32 \<Rightarrow> u32 \<Rightarrow> kernel \<Rightarrow> run option" where
  "kernel_main E multiboot_magic multiboot_addr k =
     run_bind (kernel_boot E multiboot_magic multiboot_addr k) (\<lambda>k. kernel_loop E (shell_init k))"

end
