(* ===== verification/BootOk.thy ===== *)
theory BootOk imports Boot begin

text \<open>
  What the boot leaves behind: a kernel in order, on every path, and a main loop that only a
  panic ends.
\<close>

section \<open>Every step keeps the kernel in order\<close>

lemma logo_loop_wf: "vga_wf v \<Longrightarrow> vga_wf (logo_loop start_col cs row col v)"
  by (induction start_col cs row col v rule: logo_loop.induct) simp_all

lemma boot_screen_wf: "vga_wf v \<Longrightarrow> vga_wf (boot_screen v)"
  unfolding boot_screen_def Let_def by (intro vga_wf_ops logo_loop_wf)

lemma print_regions_wf:
  assumes run: "print_regions m a l v = Some w"
  shows "vga_wf v \<longrightarrow> vga_wf w"
proof (rule print_regions.raw_induct [OF _ run])
  fix pr m mmap limit v w
  assume ih: "\<And>m a l v w. pr m a l v = Some w \<Longrightarrow> vga_wf v \<longrightarrow> vga_wf w"
    and body: "(if mmap < limit
      then (let v = vga_print (bytes_of ''Region: '') v;
                v = vga_print_hex (ucast (mmap_base m mmap)) v;
                v = vga_print (bytes_of '' - '') v;
                v = vga_print_hex (ucast (mmap_base m mmap + mmap_len m mmap)) v;
                v = vga_print (bytes_of ''\<newline>'') v
            in pr m (mmap_next m mmap) limit v)
      else Some v) = Some w"
  show "vga_wf v \<longrightarrow> vga_wf w"
  proof
    assume v: "vga_wf v"
    have "vga_wf (vga_print s (vga_print_hex a (vga_print t (vga_print_hex b (vga_print u v)))))" for s t u a b
      by (intro vga_wf_ops v)
    with body v ih show "vga_wf w" unfolding Let_def by (metis option.inject)
  qed
qed

lemma print_memory_wf:
  assumes "vga_wf v" and "multiboot_print_memory m a v = Some w"
  shows "vga_wf w"
proof -
  have "vga_wf (vga_print s v)" for s by (intro vga_wf_ops assms)
  with assms(2) print_regions_wf show ?thesis unfolding multiboot_print_memory_def by (metis option.inject)
qed

lemma boot_step_ok:
  assumes "kernel_ok k" and "\<And>k. kernel_ok k \<Longrightarrow> holds_after kernel_ok (f k)"
  shows "holds_after kernel_ok (boot_step msg f k)"
  unfolding boot_step_def
proof (rule run_bind_ok)
  show "holds_after kernel_ok (f (on_screen (status_begin (bytes_of msg)) k))"
    by (intro assms(2) on_screen_ok assms(1) status_wf)
  show "holds_after kernel_ok (returns (on_screen status_end_ok k'))" if "kernel_ok k'" for k'
    using on_screen_ok [OF that status_wf(3)] by simp
qed

lemma boot_steps_ok:
  assumes "kernel_ok k" and "\<And>msg f k. (msg, f) \<in> set steps \<Longrightarrow> kernel_ok k \<Longrightarrow> holds_after kernel_ok (f k)"
  shows "holds_after kernel_ok (boot_steps steps k)"
  using assms
proof (induction steps arbitrary: k)
  case (Cons s steps)
  obtain msg f where s: "s = (msg, f)" by (cases s)
  show ?case unfolding s boot_steps.simps
  proof (rule run_bind_ok)
    show "holds_after kernel_ok (boot_step msg f k)" using Cons.prems s by (intro boot_step_ok) auto
    show "holds_after kernel_ok (boot_steps steps k')" if "kernel_ok k'" for k'
      using Cons.prems(2) by (intro Cons.IH that) auto
  qed
qed simp

lemma tables_ok [simp]: "kernel_ok (k\<lparr>ktables := t\<rparr>) \<longleftrightarrow> kernel_ok k"
  by (simp add: kernel_ok_def)

lemma set_word_same [simp]: "screen (sheap (set_word a v s)) = screen (sheap s)" "current_task (set_word a v s) = current_task s"
    "slog (set_word a v s) = slog s"
  by (simp_all add: set_word_def)

lemma add_task_same:
  "scheduler_add_task t s = Some s' \<Longrightarrow> screen (sheap s') = screen (sheap s) \<and> current_task s' = current_task s \<and> slog s' = slog s"
  by (auto simp: scheduler_add_task_def split: if_splits)

lemma task_create_same:
  assumes run: "task_create_kernel f s = Some (t, s')" and wf: "vga_wf (screen (sheap s))"
  shows "vga_wf (screen (sheap s')) \<and> current_task s' = current_task s \<and> slog s' = slog s"
proof -
  obtain stack h1 where h1: "kmalloc KERNEL_STACK_SIZE (sheap s) = Some (stack, h1)" "screen h1 = screen (sheap s)"
    using run kmalloc_screen by (auto simp: task_create_kernel_def bind_eq_Some_conv)
  show ?thesis
  proof (cases "stack = 0")
    case True
    then show ?thesis using run h1 wf by (auto simp: task_create_kernel_def)
  next
    case False
    obtain task h2 where h2: "kmalloc sizeof_task h1 = Some (task, h2)" "screen h2 = screen (sheap s)"
      using run h1 False kmalloc_screen by (fastforce simp: task_create_kernel_def bind_eq_Some_conv)
    show ?thesis
    proof (cases "task = 0")
      case True
      then show ?thesis using run h1 h2 False wf kfree_wf by (fastforce simp: task_create_kernel_def)
    next
      case t: False
      then show ?thesis using run h1 h2 False wf add_task_same
        by (fastforce simp: task_create_kernel_def Let_def)
    qed
  qed
qed

lemma start_scheduler_ok: "kernel_ok k \<Longrightarrow> holds_after kernel_ok (start_scheduler E k)"
proof -
  assume k: "kernel_ok k"
  let ?s = "(sched_view k)\<lparr>slog := log_write (bytes_of ''sched: init\<newline>'') (slog (sched_view k))\<rparr>"
  have v: "vga_wf (screen (sheap ?s))" "current_task ?s = 0" "log_ok (slog ?s)"
    using k by (simp_all add: sched_view_def kernel_ok_def kscreen_def log_write_text)
  have "vga_wf (screen (sheap s')) \<and> current_task s' = 0 \<and> log_ok (slog s')"
    if run: "scheduler_init a b (sched_view k) = Some s'" for a b s'
  proof -
    obtain t1 s1 t2 where "task_create_kernel a ?s = Some (t1, s1)" "task_create_kernel b s1 = Some (t2, s')"
      using run by (auto simp: scheduler_init_def scheduler_create_test_tasks_def bind_eq_Some_conv)
    with task_create_same v show ?thesis by metis
  qed
  then show ?thesis using k
    by (cases "scheduler_init (entry E ''test_task_a'' 0) (entry E ''test_task_b'' 0) (sched_view k)")
      (simp_all add: start_scheduler_def kernel_ok_def set_sched_def kscreen_def)
qed

lemma on_heap_same: "kernel_ok k \<Longrightarrow> screen (f (fheap (kfs k))) = screen (fheap (kfs k)) \<Longrightarrow> kernel_ok (on_heap f k)"
  by (simp add: on_heap_def kernel_ok_def kscreen_def)

lemma start_pit_ok: "kernel_ok k \<Longrightarrow> holds_after kernel_ok (start_pit k)"
  by (simp add: start_pit_def pit_init_def Let_def)

lemma machine_steps_ok: "(msg, f) \<in> set (machine_steps E) \<Longrightarrow> kernel_ok k \<Longrightarrow> holds_after kernel_ok (f k)"
  unfolding machine_steps_def
  by (auto simp: on_tables_def start_paging_def start_scheduler_ok start_pit_ok heap_init_def intro!: on_heap_same)

section \<open>The file systems and the input\<close>

lemma fs_screen_wf [simp]: "screen (fheap (fs_screen f s)) = f (screen (fheap s))"
  by (simp add: fs_screen_def)

lemma fd_init_screen [simp]: "fheap (fd_init s) = fheap s" by (simp add: fd_init_def)

lemma bind_run_Ret: "bind_run x f = Some (Ret y) \<longleftrightarrow> (\<exists>z. x = Some (Ret z) \<and> f z = Some (Ret y))"
  by (cases x) (auto simp: bind_run_def split: outcome.splits)

lemma instance_screen: "ramfs_create_instance s = Some (r, s') \<Longrightarrow> screen (fheap s') = screen (fheap s)"
  using kmalloc_screen by (auto simp: ramfs_create_instance_def ramfs_init_ops_def Let_def bind_eq_Some_conv)

lemma mount_screen:
  assumes "vfs_mount p r s = Some (Ret s')"
  shows "screen (fheap s') = screen (fheap s)"
proof -
  obtain q s1 where "vfs_lookup p s = Some (Ret (q, s1))" "fheap s' = fheap s1"
    using assms by (auto simp: vfs_mount_def bind_run_Ret split: if_splits)
  with lookup_screen(1) [of s p] show ?thesis by simp
qed

lemma boot_filesystem_wf:
  assumes run: "boot_filesystem a b s = Some (Ret s')" and wf: "vga_wf (screen (fheap s))"
  shows "vga_wf (screen (fheap s'))"
proof -
  let ?s0 = "begin_step ''Initializing Root Filesystem'' (end_step (fd_init (begin_step ''Initializing FD''
    (end_step (vfs_init (begin_step ''Initializing VFS'' s))))))"
  have w0: "vga_wf (screen (fheap ?s0))"
    using wf by (simp add: begin_step_def end_step_def vfs_init_def)
  obtain r s1 where 1: "ramfs_create_instance ?s0 = Some (r, s1)"
    using run by (auto simp: boot_filesystem_def Let_def bind_eq_Some_conv)
  let ?s1 = "begin_step ''Mounting /tmp as RAMFS'' (end_step (s1\<lparr>vfs_root := r\<rparr>))"
  have w1: "vga_wf (screen (fheap ?s1))"
    using w0 instance_screen [OF 1] by (simp add: begin_step_def end_step_def)
  obtain c s2 where 2: "ramfs_create (vfs_root ?s1) a VFS_DIR ?s1 = Some (Ret (c, s2))"
    using run 1 by (auto simp: boot_filesystem_def Let_def bind_run_Ret split: option.splits if_splits)
  obtain t s3 s4 where 3: "ramfs_create_instance s2 = Some (t, s3)" "vfs_mount b t s3 = Some (Ret s4)" "s' = end_step s4"
    using run 1 2 by (auto simp: boot_filesystem_def Let_def bind_run_Ret bind_eq_Some_conv split: option.splits if_splits)
  have "screen (fheap s2) = screen (fheap ?s1)" using create_screen [of ?s1 "vfs_root ?s1" a VFS_DIR] 2 by simp
  then have "vga_wf (screen (fheap s4))" using w1 instance_screen [OF 3(1)] mount_screen [OF 3(2)] by simp
  then show ?thesis by (simp add: 3(3) end_step_def)
qed

lemma bind_run_Fault: "bind_run x f = Some (Fault e) \<longleftrightarrow> x = Some (Fault e) \<or> (\<exists>z. x = Some (Ret z) \<and> f z = Some (Fault e))"
  by (cases x) (auto simp: bind_run_def split: outcome.splits)

lemma mount_faults: "vfs_mount p r s = Some (Fault e) \<Longrightarrow> e \<in> crash_sites"
  using lookup_screen(1) [of s p] by (auto simp: vfs_mount_def bind_run_Fault split: if_splits)

lemma boot_filesystem_faults:
  assumes run: "boot_filesystem a b s = Some (Fault e)"
  shows "e \<in> crash_sites"
proof -
  have "same_screen t (ramfs_create p a VFS_DIR t)" for p t by (rule create_screen)
  then show ?thesis using run mount_faults same_screen_fault
    by (fastforce simp: boot_filesystem_def Let_def bind_run_Fault bind_eq_Some_conv split: option.splits if_splits)
qed

lemma start_filesystem_ok:
  assumes k: "kernel_ok k"
  shows "holds_after kernel_ok (start_filesystem E k)"
proof -
  let ?r = "boot_filesystem (literal E ''tmp'') (literal E ''/tmp'') (kfs k)"
  consider "?r = None" | e where "?r = Some (Panic e)" | e where "?r = Some (Fault e)" | s where "?r = Some (Ret s)"
    by (metis option.exhaust outcome.exhaust)
  then show ?thesis
  proof cases
    case 4
    have "vga_wf (screen (fheap s))" using boot_filesystem_wf [OF 4] k by (simp add: kernel_ok_def kscreen_def)
    then show ?thesis using k by (simp add: start_filesystem_def with_fs_def 4 kernel_ok_def)
  qed (simp_all add: start_filesystem_def with_fs_def k panic_ok boot_filesystem_faults)
qed

lemma mouse_init_ok: "mouse_ok m \<Longrightarrow> mouse_ok (mouse_init dev m)"
  by (simp add: mouse_init_def mouse_set_defaults_def mouse_enable_wheel_probe_def mouse_ok_def split_beta Let_def)

lemma console_init_ok: "console_ok c \<Longrightarrow> console_ok (console_init c)" "con_screen (console_init c) = con_screen c"
  by (simp_all add: console_init_def console_ok_def)

lemma input_steps_ok: "(msg, f) \<in> set (input_steps E) \<Longrightarrow> kernel_ok k \<Longrightarrow> holds_after kernel_ok (f k)"
  unfolding input_steps_def
  by (auto intro!: on_console_ok on_mouse_ok mouse_init_ok console_init_ok simp: console_init_ok(2))

section \<open>The graphics and the pauses\<close>

lemma set_clock_ok:
  assumes "kernel_ok k" and "tm_mouse c = tm_mouse (kclock k)" and "tcur_screen (tm_tcur c) = kscreen k"
  shows "kernel_ok (set_clock c k)"
  using assms by (simp add: kernel_ok_def)

lemma log_dec_ok: "log_write_dec n l = Some l' \<Longrightarrow> log_ok l \<Longrightarrow> log_ok l'"
  by (auto simp: log_write_dec_def log_write_text)

lemma fb_init_ok: "framebuffer_init a fb l = Some (fb', l') \<Longrightarrow> log_ok l \<Longrightarrow> log_ok l'"
  by (auto simp: framebuffer_init_def split_beta Let_def bind_eq_Some_conv log_write_text dest!: log_dec_ok split: if_splits)

lemma start_framebuffer_ok:
  assumes k: "kernel_ok k"
  shows "holds_after kernel_ok (start_framebuffer a k)"
proof (cases "framebuffer_init a (cur_fb (tm_cursor (clock_view k))) (klogs k)")
  case (Some r)
  obtain fb l where r: "r = (fb, l)" by (cases r)
  have "log_ok l" using fb_init_ok Some r k by (auto simp: kernel_ok_def)
  moreover have "kernel_ok (set_clock ((clock_view k)\<lparr>tm_cursor := (tm_cursor (clock_view k))\<lparr>cur_fb := fb\<rparr>\<rparr>) k)"
    by (rule set_clock_ok [OF k]) simp_all
  ultimately show ?thesis using Some r by (simp add: start_framebuffer_def Let_def on_log_ok)
qed (simp add: start_framebuffer_def Let_def)

lemma start_cursor_ok: "kernel_ok k \<Longrightarrow> holds_after kernel_ok (start_cursor k)"
  by (simp add: start_cursor_def Let_def set_clock_ok)

lemma demo_ok: "kernel_ok k \<Longrightarrow> holds_after kernel_ok (demo_picture k)"
  by (cases "framebuffer_demo_bootscreen (cur_fb (tm_cursor (clock_view k)))") (simp_all add: demo_picture_def Let_def set_clock_ok)

lemma sleep_ok: "kernel_ok k \<Longrightarrow> holds_after kernel_ok (kernel_sleep E ms k)"
  by (rule kernel_oks)

lemma dots_ok: "kernel_ok k \<Longrightarrow> holds_after kernel_ok (dots_loop E d n k)"
  by (induction n arbitrary: k) (auto intro!: run_bind_ok sleep_ok say_ok)

lemma animation_ok: "kernel_ok k \<Longrightarrow> holds_after kernel_ok (loading_animation E ms k)"
  by (simp add: loading_animation_def Let_def dots_ok)

lemma pmm_step_ok:
  assumes k: "kernel_ok k"
  shows "holds_after kernel_ok (pmm_step E a k)"
proof -
  have k1: "kernel_ok (on_screen (status_begin (bytes_of ''Initializing PMM'')) k)" by (intro on_screen_ok k status_wf)
  have "kernel_ok k'" if "start_pmm E a k0 = Some (r, k')" "kernel_ok k0" for k0 r k'
    using that by (auto simp: start_pmm_def Let_def)
  moreover have "kernel_ok (on_screen status_end_ok k')" "kernel_ok (on_screen status_end_error k')" if "kernel_ok k'" for k'
    by (intro on_screen_ok that status_wf; assumption)+
  ultimately show ?thesis using k1
    by (cases "start_pmm E a (on_screen (status_begin (bytes_of ''Initializing PMM'')) k)")
      (auto simp: pmm_step_def Let_def panic_ok)
qed

lemma show_screens_ok: "kernel_ok k \<Longrightarrow> holds_after kernel_ok (show_screens E k)"
  unfolding show_screens_def Let_def
  by (intro run_bind_ok) (auto intro!: run_bind_ok demo_ok sleep_ok on_screen_ok boot_screen_wf simp: say_color_def)

lemma machine_ok: "kernel_ok k \<Longrightarrow> holds_after kernel_ok (boot_steps (machine_steps E) k)"
  by (erule boot_steps_ok) (rule machine_steps_ok)

lemma input_ok: "kernel_ok k \<Longrightarrow> holds_after kernel_ok (boot_steps (input_steps E) k)"
  by (erule boot_steps_ok) (rule input_steps_ok)

lemma booting_ok: "kernel_ok k \<Longrightarrow> holds_after kernel_ok (boot_step msg (loading_animation E ms) k)"
  by (rule boot_step_ok [OF _ animation_ok])

lemma log_init_ok: "log_ok l \<Longrightarrow> log_ok (log_init l)"
proof -
  assume "log_ok l"
  then have "log_ok (l\<lparr>log_head := 0, log_used := 0\<rparr>)" by (simp add: log_ok_def)
  then show "log_ok (log_init l)" by (simp add: log_init_def log_write_text)
qed

lemma boot_ok:
  assumes k: "kernel_ok k"
  shows "holds_after kernel_ok (kernel_boot E magic a k)"
proof -
  let ?k = "on_log (log_write (bytes_of ''boot: kernel_boot start\<newline>'')) (on_log log_init (on_screen vga_clear k))"
  have k1: "kernel_ok ?k"
    by (intro on_log_ok on_screen_ok k) (simp_all add: log_write_text log_init_ok)
  show ?thesis
  proof (cases "multiboot_print_memory (kmem ?k) a (kscreen ?k)")
    case (Some v)
    have "kernel_ok (on_screen (\<lambda>_. v) ?k)"
      using print_memory_wf [OF _ Some] k1 by (intro on_screen_ok k1) (simp add: kernel_ok_def)
    then have "holds_after kernel_ok (start_framebuffer a (on_screen (\<lambda>_. v) ?k))" by (rule start_framebuffer_ok)
    then show ?thesis unfolding kernel_boot_def Let_def Some bind.bind_lunit
      by (rule run_bind_ok [OF _ run_bind_ok [OF pmm_step_ok run_bind_ok [OF machine_ok run_bind_ok [OF start_filesystem_ok
            run_bind_ok [OF input_ok run_bind_ok [OF start_cursor_ok run_bind_ok [OF booting_ok show_screens_ok]]]]]]])
  qed (simp add: kernel_boot_def Let_def)
qed

section \<open>The main loop\<close>

text \<open>A call that never returns normally.\<close>

definition never_returns :: "run option \<Rightarrow> bool" where
  "never_returns r \<longleftrightarrow> (\<forall>k. r \<noteq> Some (Running k))"

lemma run_bind_never: "(\<And>k. never_returns (f k)) \<Longrightarrow> never_returns (run_bind r f)"
proof (cases r)
  case (Some x)
  then show "(\<And>k. never_returns (f k)) \<Longrightarrow> never_returns (run_bind r f)" by (cases x) (simp_all add: never_returns_def)
qed (simp add: never_returns_def)

lemma kernel_loop_ends:
  assumes run: "kernel_loop E k = Some r"
  shows "never_returns (Some r) \<and> (kernel_ok k \<longrightarrow> holds_after kernel_ok (Some r))"
proof (rule kernel_loop.raw_induct [OF _ run])
  fix kl E k r
  assume ih: "\<And>E k r. kl E k = Some r \<Longrightarrow> never_returns (Some r) \<and> (kernel_ok k \<longrightarrow> holds_after kernel_ok (Some r))"
    and body: "run_bind (shell_update E k) (\<lambda>k. run_bind (next_interrupt E k) (kl E)) = Some r"
  have "never_returns (kl E k')" for k' using ih by (cases "kl E k'") (auto simp: never_returns_def)
  then have "never_returns (Some r)" unfolding body [symmetric] by (intro run_bind_never)
  moreover have "holds_after kernel_ok (Some r)" if k: "kernel_ok k"
  proof -
    have 1: "holds_after kernel_ok (kl E k')" if "kernel_ok k'" for k'
      using ih that by (cases "kl E k'") auto
    have 2: "holds_after kernel_ok (shell_update E k)"
      using shell_update_ok k by (cases "shell_update E k") auto
    show ?thesis unfolding body [symmetric] by (intro run_bind_ok 1 2 next_interrupt_ok)
  qed
  ultimately show "never_returns (Some r) \<and> (kernel_ok k \<longrightarrow> holds_after kernel_ok (Some r))" by blast
qed

lemma shell_init_ok: "kernel_ok k \<Longrightarrow> kernel_ok (shell_init k)"
  unfolding shell_init_def by (intro prompt_ok) (simp add: kernel_ok_def)

text \<open>
  C31. The kernel never returns to its loader: from a state whose buffers have their sizes and
  whose indices are in range \<open>kernel_main\<close> runs for ever, or it ends in a panic, and then the screen,
  the log, the rings and the line editor are still in order, or it leaves the code: at a call through
  the table of operations of a node, where the node has no such operation, or where the boot mounts its
  file system in a table that held eight already.  No other end is possible: it neither switches to a
  task nor raises a divide error that is not handled.
\<close>

theorem kernel_main_never_returns:
  assumes "kernel_ok k" and "kernel_main E magic a k = Some r"
  shows "(\<exists>k'. r = Halted k' \<and> kernel_ok k') \<or> (\<exists>e. r = Crashed e \<and> e \<in> {''ops'', ''create'', ''read'', ''write'', ''mounts''})"
proof -
  have "never_returns (kernel_loop E k')" for k' using kernel_loop_ends by (cases "kernel_loop E k'") (auto simp: never_returns_def)
  then have n: "never_returns (Some r)" unfolding assms(2) [symmetric] kernel_main_def by (intro run_bind_never)
  have "holds_after kernel_ok (kernel_loop E (shell_init k'))" if "kernel_ok k'" for k'
    using kernel_loop_ends shell_init_ok [OF that] by (cases "kernel_loop E (shell_init k')") auto
  then have "holds_after kernel_ok (Some r)" unfolding assms(2) [symmetric] kernel_main_def
    by (intro run_bind_ok boot_ok assms(1))
  with n show ?thesis by (cases r) (auto simp: never_returns_def crash_sites_def)
qed

section \<open>Without a memory map\<close>

lemma framebuffer_init_total:
  "\<exists>fb' l'. framebuffer_init a fb l = Some (fb', l') \<and> fb_mem fb' = fb_mem fb \<and> (log_ok l \<longrightarrow> log_ok l')"
proof -
  have "fb_mem (snd (framebuffer_parse a fb)) = fb_mem fb" by (simp add: framebuffer_parse_def Let_def)
  moreover have "log_write_dec n l = Some (log_write (utoa_text 10 (unat n)) l)" for n l
    by (simp add: log_write_dec_def utoa_string_eq)
  then have "\<exists>l'. framebuffer_init a fb l = Some (snd (framebuffer_parse a fb), l')"
    by (simp add: framebuffer_init_def split_beta Let_def)
  then obtain fb' l' where r: "framebuffer_init a fb l = Some (fb', l')" and "fb' = snd (framebuffer_parse a fb)" by blast
  ultimately show ?thesis using fb_init_ok [OF r] r by auto
qed

lemma start_framebuffer_runs:
  assumes "kernel_ok k"
  shows "\<exists>k'. start_framebuffer a k = Some (Running k') \<and> kernel_ok k' \<and> kmem k' = kmem k"
proof -
  obtain fb l where r: "framebuffer_init a (cur_fb (tm_cursor (clock_view k))) (klogs k) = Some (fb, l)" "fb_mem fb = kmem k"
    using framebuffer_init_total [of a "cur_fb (tm_cursor (clock_view k))" "klogs k"] by (auto simp: clock_view_def Let_def)
  then show ?thesis using start_framebuffer_ok [OF assms, of a]
    by (auto simp: start_framebuffer_def Let_def returns_def set_clock_def)
qed

lemma panic_kmem: "panic E msg k = Some (Halted k') \<Longrightarrow> kmem k' = kmem k"
  by (auto simp: panic_def split_beta)

lemma pmm_step_missing:
  assumes k: "kernel_ok k" and "mbi_flags (kmem k) a AND push_bit 6 1 = 0"
  shows "\<exists>k'. kernel_ok k' \<and> kmem k' = kmem k \<and> pmm_step E a k = panic E (bytes_of ''PMM failed: Missing memory map'') k'"
proof -
  define k1 where "k1 = on_screen (status_begin (bytes_of ''Initializing PMM'')) k"
  have k1: "kernel_ok k1" "kmem k1 = kmem k" unfolding k1_def by (intro on_screen_ok k status_wf, assumption) simp
  define k2 where "k2 = set_pages ((pages_view k1)\<lparr>frames := frames (pages_view k1)\<rparr>) k1"
  have k2: "kernel_ok k2" "kmem k2 = kmem k" unfolding k2_def using k1 by (simp, simp add: set_pages_def pages_view_def)
  have "pmem (frames (pages_view k1)) = kmem k" by (simp add: pages_view_def k1(2))
  then have "start_pmm E a k1 = Some (1, k2)" using assms(2) by (simp add: start_pmm_def Let_def pmm_init_def k2_def)
  then have "pmm_step E a k = panic E (bytes_of ''PMM failed: Missing memory map'') (on_screen status_end_error k2)"
    unfolding pmm_step_def k1_def by simp
  moreover have "kernel_ok (on_screen status_end_error k2)" by (rule on_screen_ok [OF k2(1) status_wf(4)])
  ultimately show ?thesis using k2(2) by (intro exI [of _ "on_screen status_end_error k2"]) simp
qed

lemma main_needs_map:
  assumes "kernel_ok k" and "mbi_flags (kmem k) a AND push_bit 6 1 = 0"
  shows "\<exists>k' t. kernel_main E magic a k = Some (Halted k') \<and> kernel_ok k' \<and> kmem k' = kmem k
    \<and> log_text (klogs k') = last_of 8192 (t @ bytes_of ''panic: PMM failed: Missing memory map\<newline>'')"
proof -
  let ?k = "on_log (log_write (bytes_of ''boot: kernel_boot start\<newline>'')) (on_log log_init (on_screen vga_clear k))"
  define v where "v = vga_print (bytes_of ''No memory map found\<newline>'') (kscreen ?k)"
  have k0: "kernel_ok ?k" by (intro on_log_ok on_screen_ok assms(1)) (simp_all add: log_write_text log_init_ok)
  have m: "multiboot_print_memory (kmem ?k) a (kscreen ?k) = Some v"
    using assms(2) by (simp add: multiboot_print_memory_def v_def)
  have "kernel_ok (on_screen (\<lambda>_. v) ?k)"
    using print_memory_wf [OF _ m] k0 by (intro on_screen_ok k0) (simp add: kernel_ok_def)
  from start_framebuffer_runs [OF this] obtain k2 where k2: "start_framebuffer a (on_screen (\<lambda>_. v) ?k) = Some (Running k2)"
    "kernel_ok k2" "kmem k2 = kmem k" by auto
  from pmm_step_missing [OF k2(2)] k2(3) assms(2) obtain k3 where
    k3: "kernel_ok k3" "kmem k3 = kmem k" "pmm_step E a k2 = panic E (bytes_of ''PMM failed: Missing memory map'') k3" by auto
  obtain k' where k': "panic E (bytes_of ''PMM failed: Missing memory map'') k3 = Some (Halted k')" using panic_halts by blast
  have "kernel_main E magic a k = Some (Halted k')"
    unfolding kernel_main_def kernel_boot_def Let_def m bind.bind_lunit k2(1) run_bind_simps k3(3) k' ..
  moreover have "kernel_ok k'" using panic_ok [OF k3(1)] k' by (metis holds_after_simps(2))
  moreover have "log_text (klogs k') = last_of 8192 (log_text (klogs k3) @ bytes_of ''panic: PMM failed: Missing memory map\<newline>'')"
    using panic_text [OF _ k'] k3(1) by (simp add: kernel_ok_def)
  ultimately show ?thesis using panic_kmem [OF k'] k3(2) by auto
qed

text \<open>
  C38. A loader that gives no memory map: the boot ends in a panic, no byte of the memory has been
  changed, and the message is the last line of the log.
\<close>

theorem boot_needs_memory_map:
  assumes "kernel_ok k" and "mbi_flags (kmem k) a AND push_bit 6 1 = 0"
  shows "\<exists>k' t. kernel_main E magic a k = Some (Halted k') \<and> kernel_ok k' \<and> kmem k' = kmem k
    \<and> log_text (klogs k') = last_of 8192 (t @ bytes_of ''panic: PMM failed: Missing memory map\<newline>'')"
  using assms by (rule main_needs_map)

lemma boot_needs_memory_map_witness:
  "\<exists>k'. kernel_main (env_quiet 0 (32, 0)) 0x2BADB002 0x9000 kernel_start = Some (Halted k') \<and> kmem k' = kmem kernel_start"
proof -
  have "mbi_flags (kmem kernel_start) 0x9000 = 0"
    by (simp add: kmem_def kernel_start_def fs_start_def fresh_heap_def heap_init_def fmem_def mbi_flags_def load32_def ad_def)
  then have "mbi_flags (kmem kernel_start) 0x9000 AND push_bit 6 1 = 0" by simp
  from boot_needs_memory_map [OF kernel_start_ok this] show ?thesis by blast
qed

lemma kernel_main_never_returns_witness:
  "\<exists>r k'. kernel_main (env_quiet 0 (32, 0)) 0x2BADB002 0x9000 kernel_start = Some r \<and> r = Halted k' \<and> kernel_ok k'"
proof -
  have "mbi_flags (kmem kernel_start) 0x9000 = 0"
    by (simp add: kmem_def kernel_start_def fs_start_def fresh_heap_def heap_init_def fmem_def mbi_flags_def load32_def ad_def)
  then have "mbi_flags (kmem kernel_start) 0x9000 AND push_bit 6 1 = 0" by simp
  from main_needs_map [OF kernel_start_ok this] obtain k' where
    k': "kernel_main (env_quiet 0 (32, 0)) 0x2BADB002 0x9000 kernel_start = Some (Halted k')" by blast
  from kernel_main_never_returns [OF kernel_start_ok k'] k' show ?thesis by auto
qed

end
