(* ===== verification/BootHeap.thy ===== *)
theory BootHeap imports Sched begin

text \<open>
  The heap as the boot leaves it.  \<^verbatim>\<open>core/boot.c\<close> starts the scheduler before it sets up the heap, so
  the stacks and the structures of the two test tasks are allocated while \<open>heap_start\<close>, \<open>heap_end\<close>
  and \<open>heap_head\<close> are 0.  The first block then lies at address 0, which \<open>heap_head\<close> cannot tell from
  a null pointer, and is forgotten; the list begins with the second block.
\<close>

section \<open>Allocations before the heap is set up\<close>

definition unset_heap :: "heap \<Rightarrow> bool" where
  "unset_heap h \<longleftrightarrow> heap_start h = 0 \<and> heap_end h = 0 \<and> heap_head h = 0"

definition early_heap :: "heap \<Rightarrow> blk list \<Rightarrow> nat \<Rightarrow> bool" where
  "early_heap h bs e \<longleftrightarrow> heap_start h = 0 \<and> heap_end h = ad e \<and> heap_head h = first_ad bs 0
     \<and> seg (hmem h) 0 bs 0 \<and> (\<forall>b\<in>set bs. \<not> bfree b)"

lemma early_first:
  assumes "unset_heap h"
  shows "\<exists>h'. kmalloc 4096 h = Some (ad 20, h') \<and> early_heap h' [] 4116 \<and> touches (hmem h) (hmem h') {0..<4120}"
proof -
  have e: "heap_end h = ad 0" "heap_head h = 0" "heap_start h = 0" using assms by (auto simp: unset_heap_def ad_def)
  have r: "kmalloc 4096 h = Some (kmalloc_first 4096 h)" using e by (simp add: kmalloc_def Let_def ad_def)
  define m where "m = store32 (store32 (store32 (store32 (store32 (store32 (hmem h) (ad 0) HEAP_MAGIC)
    (ad 4) 4096) (ad 8) 0) (ad 12) 0) (ad 16) 0) (ad 4116) HEAP_MAGIC"
  have "kmalloc_first 4096 h = (ad 20, h\<lparr>hmem := m, heap_head := 0, heap_end := ad 4116\<rparr>)"
    using e by (simp add: kmalloc_first_def Let_def bh_defs m_def) (simp add: ad_def)
  moreover have "touches (hmem h) m {0..<4120}" unfolding m_def by (intro touches_store touches_refl) auto
  ultimately show ?thesis using e by (simp add: r early_heap_def)
qed

lemma early_second:
  assumes "early_heap h [] 4116"
  shows "\<exists>h'. kmalloc 24 h = Some (ad 4136, h') \<and> early_heap h' [Blk 4116 24 False] 4160
    \<and> touches (hmem h) (hmem h') {4116..<4164}"
proof -
  have e: "heap_end h = ad 4116" "heap_head h = 0" "heap_start h = 0" using assms by (auto simp: early_heap_def)
  have r: "kmalloc 24 h = Some (kmalloc_first 24 h)" using e by (simp add: kmalloc_def Let_def ad_def)
  define m where "m = store32 (store32 (store32 (store32 (store32 (store32 (hmem h) (ad 4116) HEAP_MAGIC)
    (ad 4120) 24) (ad 4124) 0) (ad 4128) 0) (ad 4132) 0) (ad 4160) HEAP_MAGIC"
  have "kmalloc_first 24 h = (ad 4136, h\<lparr>hmem := m, heap_head := ad 4116, heap_end := ad 4160\<rparr>)"
    using e by (simp add: kmalloc_first_def Let_def bh_defs m_def) (simp add: ad_def)
  moreover have "touches (hmem h) m {4116..<4164}" unfolding m_def by (intro touches_store touches_refl) auto
  moreover have "hdr m (Blk 4116 24 False) 0 0"
    by (simp add: hdr_def bend_def m_def rd_rules) (simp add: ad_def)
  ultimately show ?thesis using e by (simp add: r early_heap_def)
qed

lemma early_append:
  assumes e: "early_heap h (cs @ [c]) e" and la: "laid lo (cs @ [c]) e" "0 < lo" "4 dvd e"
    and n: "0 < n" "(ad n + 7) AND NOT 7 = ad n" and room: "e + 24 + n < 0x400000"
  shows "\<exists>h'. kmalloc (ad n) h = Some (ad (e + 20), h') \<and> early_heap h' ((cs @ [c]) @ [Blk e n False]) (e + 24 + n)
    \<and> touches (hmem h) (hmem h') ({e..<e + 24 + n} \<union> {baddr c..<baddr c + 20})"
proof -
  have v: "heap_start h = 0" "heap_end h = ad e" "heap_head h = ad (baddr (hd (cs @ [c])))" "seg (hmem h) 0 (cs @ [c]) 0"
      "\<forall>b\<in>set (cs @ [c]). \<not> bfree b"
    using e by (cases cs; simp add: early_heap_def)+
  have "find (fits n) (cs @ [c]) = None" using v(5) by (auto simp: find_None_iff fits_def)
  then have s: "kmalloc_search (hmem h) (ad n) (ad (baddr (hd (cs @ [c])))) = Some (False, ad (baddr c))"
    using search_walk [OF v(4) _ la(1,2), of n] room by simp
  have "0 < baddr (hd (cs @ [c]))" "bend (hd (cs @ [c])) \<le> e"
    using laid_mem [OF la(1) hd_in_set] la(2) by auto
  then have nz: "ad (baddr (hd (cs @ [c]))) \<noteq> 0" using room by (simp add: ad_eq_0_iff bend_def)
  have "(0x800000 :: u32) - ad e - 20 - 4 = ad (0x800000 - e - 24)"
    using room by (simp add: ad_def of_nat_diff)
  then have sm: "\<not> (0x800000 :: u32) - ad e - 20 - 4 < ad n" using room by (simp add: ad_less_iff)
  have n0: "ad n \<noteq> 0" using n(1) room by (simp add: ad_eq_0_iff)
  obtain m where m: "kmalloc_append (ad n) (ad (baddr c)) h = (ad (e + 20), h\<lparr>hmem := m, heap_end := ad (e + 24 + n)\<rparr>)"
      "seg m 0 ((cs @ [c]) @ [Blk e n False]) 0" "touches (hmem h) m ({e..<e + 24 + n} \<union> {baddr c..<baddr c + 20})"
    using append_words [OF la(1) v(4,2) la(3) n(1)] room by auto
  have "kmalloc (ad n) h = Some (kmalloc_append (ad n) (ad (baddr c)) h)"
    using n0 n(2) sm nz s v(2,3) by (simp add: kmalloc_def Let_def)
  moreover have "early_heap (h\<lparr>hmem := m, heap_end := ad (e + 24 + n)\<rparr>) ((cs @ [c]) @ [Blk e n False]) (e + 24 + n)"
    using v m(2) by (cases cs) (auto simp: early_heap_def)
  ultimately show ?thesis using m(1,3) by simp
qed

section \<open>The tasks of the boot\<close>

text \<open>The words of a task are written into its block and its stack; the headers of the heap stay.\<close>

lemma fill_task_words:
  assumes "p + 4096 \<le> t \<or> t + 24 \<le> p" and "p + 4096 \<le> 4294967296" and "t + 24 \<le> 4294967296"
  shows "rd (smem (fill_task p t entry s)) t = next_pid s"
    and "rd (smem (fill_task p t entry s)) (t + 4) = TASK_READY"
    and "rd (smem (fill_task p t entry s)) (t + 8) = ad p"
    and "rd (smem (fill_task p t entry s)) (t + 12) = ad (p + 4092)"
    and "rd (smem (fill_task p t entry s)) (t + 16) = entry"
    and "y + 4 \<le> 4294967296 \<Longrightarrow> y + 4 \<le> t \<or> t + 24 \<le> y \<Longrightarrow> y + 4 \<le> p + 4092 \<or> p + 4096 \<le> y \<Longrightarrow>
      rd (smem (fill_task p t entry s)) y = rd (smem s) y"
  using assms by (auto simp: fill_task_def rd_rules)

lemma fill_task_touches:
  assumes "p + 4096 \<le> 4294967296" and "t + 24 \<le> 4294967296"
  shows "touches (smem s) (smem (fill_task p t entry s)) ({t..<t + 24} \<union> {p + 4092..<p + 4096})"
  unfolding fill_task_def smem_simps using assms by (intro touches_store touches_refl) auto

lemma fill_task_heap [simp]:
  "heap_start (sheap (fill_task p t entry s)) = heap_start (sheap s)"
  "heap_end (sheap (fill_task p t entry s)) = heap_end (sheap s)"
  "heap_head (sheap (fill_task p t entry s)) = heap_head (sheap s)"
  "ready_queue (fill_task p t entry s) = ready_queue s" "next_pid (fill_task p t entry s) = next_pid s + 1"
  "current_task (fill_task p t entry s) = current_task s" "jumps (fill_task p t entry s) = jumps s"
  "slog (fill_task p t entry s) = slog s" "screen (sheap (fill_task p t entry s)) = screen (sheap s)"
  by (simp_all add: fill_task_def set_word_def)

definition early_blocks :: "blk list" where
  "early_blocks = [Blk 4116 24 False, Blk 4160 4096 False, Blk 8280 24 False]"

lemma early_heap_words:
  assumes "early_heap (sheap s) bs e" and "heap_start (sheap s') = 0" "heap_end (sheap s') = ad e"
    "heap_head (sheap s') = first_ad bs 0"
    and "\<And>c y. c \<in> set bs \<Longrightarrow> y \<in> {baddr c, baddr c + 4, baddr c + 8, baddr c + 12, baddr c + 16, bend c} \<Longrightarrow>
      rd (smem s') y = rd (smem s) y"
  shows "early_heap (sheap s') bs e"
  using assms seg_words [of "hmem (sheap s)" 0 bs 0 "hmem (sheap s')"] by (auto simp: early_heap_def smem_def)

definition boot_task :: "sched \<Rightarrow> nat \<Rightarrow> u32 \<Rightarrow> u32 \<Rightarrow> bool" where
  "boot_task s t pid entry \<longleftrightarrow> t_pid (smem s) (ad t) = pid \<and> t_state (smem s) (ad t) = TASK_READY
     \<and> t_eip (smem s) (ad t) = entry"

lemma first_task:
  assumes h: "unset_heap (sheap s)" and q: "ready_queue s = 0"
  shows "\<exists>s'. task_create_kernel entry s = Some (ad 4136, s') \<and> early_heap (sheap s') [Blk 4116 24 False] 4160
    \<and> queue_ok s' [4136] \<and> boot_task s' 4136 (next_pid s) entry \<and> next_pid s' = next_pid s + 1
    \<and> current_task s' = current_task s \<and> jumps s' = jumps s \<and> touches (smem s) (smem s') {0..<8328}"
proof -
  obtain h1 where h1: "kmalloc 4096 (sheap s) = Some (ad 20, h1)" "early_heap h1 [] 4116"
      "touches (smem s) (hmem h1) {0..<4120}"
    unfolding smem_def using early_first [OF h] by blast
  obtain h2 where h2: "kmalloc 24 h1 = Some (ad 4136, h2)" "early_heap h2 [Blk 4116 24 False] 4160"
      "touches (hmem h1) (hmem h2) {4116..<4164}"
    using early_second [OF h1(2)] by blast
  define s1 where "s1 = fill_task 20 4136 entry (s\<lparr>sheap := h2\<rparr>)"
  have run: "task_create_kernel entry s = map_option (\<lambda>s. (ad 4136, s)) (scheduler_add_task (ad 4136) s1)"
    unfolding s1_def by (rule task_create_kernel_eq [OF h1(1) _ h2(1)]) (simp_all add: ad_eq_0_iff)
  note w = fill_task_words [where p = 20 and t = 4136 and entry = entry and s = "s\<lparr>sheap := h2\<rparr>", folded s1_def]
  have "queue_ok s1 []" using q by (simp add: queue_ok_def tasks_at_def task_ring_def s1_def)
  from add_task_ok [OF this, of 4136] obtain s' where
    s': "scheduler_add_task (ad 4136) s1 = Some s'" "queue_ok s' [4136]"
      "\<And>y. y + 4 \<le> 4294967296 \<Longrightarrow> y + 4 \<le> 4156 \<or> 4160 \<le> y \<Longrightarrow> rd (smem s') y = rd (smem s1) y"
      "s' = set_word (ad 4156) (ad 4136) (s1\<lparr>ready_queue := ad 4136\<rparr>)" by (auto simp: tasks_at_def)
  have v: "heap_start (sheap s') = 0" "heap_end (sheap s') = ad 4160" "heap_head (sheap s') = ad 4116"
      "next_pid s' = next_pid s + 1" "current_task s' = current_task s" "jumps s' = jumps s"
    using h2(2) by (auto simp: s'(4) s1_def early_heap_def) (simp_all add: set_word_def)
  have "early_heap (sheap s') [Blk 4116 24 False] 4160"
  proof (rule early_heap_words [where s = "s\<lparr>sheap := h2\<rparr>"])
    show "rd (smem s') y = rd (smem (s\<lparr>sheap := h2\<rparr>)) y" if "c \<in> set [Blk 4116 24 False]"
      "y \<in> {baddr c, baddr c + 4, baddr c + 8, baddr c + 12, baddr c + 16, bend c}" for c y
      using that s'(3) [of y] w(6) [of y] by (auto simp: bend_def)
  qed (use h2(2) v in simp_all)
  moreover have "boot_task s' 4136 (next_pid s) entry"
    using w(1,2,5) s'(3) by (simp add: boot_task_def task_ad)
  moreover have "touches (smem s) (smem s') {0..<8328}"
  proof -
    have "touches (smem s) (hmem h2) {0..<8328}"
      by (rule touches_trans [OF touches_mono [OF h1(3)] touches_mono [OF h2(3)]]) auto
    moreover have "touches (hmem h2) (smem s1) {0..<8328}"
      using fill_task_touches [of 20 4136 "s\<lparr>sheap := h2\<rparr>" entry] by (simp add: s1_def touches_mono)
    moreover have "touches (smem s1) (smem s') {0..<8328}"
      unfolding s'(4) smem_simps by (intro touches_store touches_refl) auto
    ultimately show ?thesis by (blast intro: touches_trans)
  qed
  ultimately show ?thesis using run s'(1,2) v by auto
qed

lemma second_task:
  assumes h: "early_heap (sheap s) [Blk 4116 24 False] 4160" and q: "queue_ok s [4136]" and a: "boot_task s 4136 pid entry"
  shows "\<exists>s'. task_create_kernel entry' s = Some (ad 8300, s') \<and> early_heap (sheap s') early_blocks 8328
    \<and> queue_ok s' [4136, 8300] \<and> boot_task s' 4136 pid entry \<and> boot_task s' 8300 (next_pid s) entry'
    \<and> next_pid s' = next_pid s + 1 \<and> current_task s' = current_task s \<and> jumps s' = jumps s
    \<and> touches (smem s) (smem s') {0..<8328}"
proof -
  have num: "ad 4096 = 4096" "ad 24 = 24" by (simp_all add: ad_def)
  obtain h1 where h1: "kmalloc (ad 4096) (sheap s) = Some (ad 4180, h1)"
      "early_heap h1 [Blk 4116 24 False, Blk 4160 4096 False] 8280"
      "touches (smem s) (hmem h1) ({4160..<8280} \<union> {4116..<4136})"
    using early_append [of "sheap s" "[]" "Blk 4116 24 False" 4160 4 4096] h by (auto simp: bend_def ad_def smem_def)
  obtain h2 where h2: "kmalloc (ad 24) h1 = Some (ad 8300, h2)" "early_heap h2 early_blocks 8328"
      "touches (hmem h1) (hmem h2) ({8280..<8328} \<union> {4160..<4180})"
    using early_append [of h1 "[Blk 4116 24 False]" "Blk 4160 4096 False" 8280 4 24] h1(2)
    by (auto simp: bend_def ad_def early_blocks_def)
  have old: "rd (hmem h2) y = rd (smem s) y" if "4136 \<le> y" "y + 4 \<le> 4160" for y
  proof -
    have "{y..<y + 4} \<inter> ({4160..<8280} \<union> {4116..<4136}) = {}" "{y..<y + 4} \<inter> ({8280..<8328} \<union> {4160..<4180}) = {}"
      using that by auto
    with touches_rd [OF h1(3), of y] touches_rd [OF h2(3), of y] that show ?thesis by simp
  qed
  define s0 where "s0 = s\<lparr>sheap := h2\<rparr>"
  define s1 where "s1 = fill_task 4180 8300 entry' s0"
  have run: "task_create_kernel entry' s = map_option (\<lambda>s. (ad 8300, s)) (scheduler_add_task (ad 8300) s1)"
    unfolding s1_def s0_def by (rule task_create_kernel_eq [OF h1(1) [unfolded num] _ h2(1) [unfolded num]])
      (simp_all add: ad_eq_0_iff)
  note w = fill_task_words [where p = 4180 and t = 8300 and entry = entry' and s = s0, folded s1_def]
  have keep: "rd (smem s1) y = rd (smem s) y" if "4136 \<le> y" "y + 4 \<le> 4160" for y
    using w(6) [of y] old that by (simp add: s0_def)
  have "queue_ok s1 [4136]" using q keep [of 4156]
    by (simp add: queue_ok_def tasks_at_def task_ring_def) (simp add: s1_def s0_def)
  from add_task_ok [OF this, of 8300] obtain s' where
    s': "scheduler_add_task (ad 8300) s1 = Some s'" "queue_ok s' [4136, 8300]"
      "\<And>y. y + 4 \<le> 4294967296 \<Longrightarrow> y + 4 \<le> 8320 \<or> 8324 \<le> y \<Longrightarrow> y + 4 \<le> 4156 \<or> 4160 \<le> y \<Longrightarrow> rd (smem s') y = rd (smem s1) y"
      "s' = set_word (ad 8320) (ad 4136) (set_word (ad 4156) (ad 8300) s1)" by (auto simp: tasks_at_def)
  have v: "heap_start (sheap s') = 0" "heap_end (sheap s') = ad 8328" "heap_head (sheap s') = first_ad early_blocks 0"
      "next_pid s' = next_pid s + 1" "current_task s' = current_task s" "jumps s' = jumps s"
    using h2(2) by (auto simp: s'(4) s1_def early_heap_def) (simp_all add: set_word_def s0_def)
  have "early_heap (sheap s') early_blocks 8328"
  proof (rule early_heap_words [where s = s0])
    show "rd (smem s') y = rd (smem s0) y" if "c \<in> set early_blocks"
      "y \<in> {baddr c, baddr c + 4, baddr c + 8, baddr c + 12, baddr c + 16, bend c}" for c y
      using that s'(3) [of y] w(6) [of y] by (auto simp: bend_def early_blocks_def)
  qed (use h2(2) v in \<open>simp_all add: s0_def\<close>)
  moreover have "boot_task s' 8300 (next_pid s) entry'"
    using w(1,2,5) s'(3) by (simp add: boot_task_def task_ad s0_def)
  moreover have "boot_task s' 4136 pid entry"
    using a s'(3) keep by (simp add: boot_task_def task_ad)
  moreover have "touches (smem s) (smem s') {0..<8328}"
  proof -
    have "touches (smem s) (hmem h1) {0..<8328}" by (rule touches_mono [OF h1(3)]) auto
    moreover have "touches (hmem h1) (hmem h2) {0..<8328}" by (rule touches_mono [OF h2(3)]) auto
    moreover have "touches (hmem h2) (smem s1) {0..<8328}"
      using fill_task_touches [of 4180 8300 s0 entry'] by (simp add: s1_def s0_def touches_mono)
    moreover have "touches (smem s1) (smem s') {0..<8328}"
      unfolding s'(4) smem_simps by (intro touches_store touches_refl) auto
    ultimately show ?thesis by (blast intro: touches_trans)
  qed
  ultimately show ?thesis using run s'(1,2) v by auto
qed

section \<open>The heap after the boot\<close>

lemma early_heap_ok:
  assumes "early_heap h early_blocks 8328"
  shows "heap_ok (heap_init h) early_blocks 0x400000"
  using assms by (simp add: early_heap_def heap_ok_def heap_init_def early_blocks_def early_used_def bend_def)
    (simp add: ad_def)

lemma used_early: "used early_blocks = {(4136, 24), (4180, 4096), (8300, 24)}"
  by (auto simp: early_blocks_def)

lemma scheduler_init_runs:
  assumes "unset_heap (sheap s)" and "ready_queue s = 0"
  shows "\<exists>s'. scheduler_init a b s = Some s' \<and> early_heap (sheap s') early_blocks 8328 \<and> queue_ok s' [4136, 8300]
    \<and> boot_task s' 4136 (next_pid s) a \<and> boot_task s' 8300 (next_pid s + 1) b
    \<and> current_task s' = current_task s \<and> jumps s' = jumps s \<and> touches (smem s) (smem s') {0..<8328}"
proof -
  let ?s = "s\<lparr>slog := log_write (bytes_of ''sched: init\<newline>'') (slog s)\<rparr>"
  obtain s1 where s1: "task_create_kernel a ?s = Some (ad 4136, s1)" "early_heap (sheap s1) [Blk 4116 24 False] 4160"
      "queue_ok s1 [4136]" "boot_task s1 4136 (next_pid s) a" "next_pid s1 = next_pid s + 1"
      "current_task s1 = current_task s" "jumps s1 = jumps s" "touches (smem s) (smem s1) {0..<8328}"
    using first_task [of ?s a] assms by auto
  obtain s2 where s2: "task_create_kernel b s1 = Some (ad 8300, s2)" "early_heap (sheap s2) early_blocks 8328"
      "queue_ok s2 [4136, 8300]" "boot_task s2 4136 (next_pid s) a" "boot_task s2 8300 (next_pid s1) b"
      "current_task s2 = current_task s1" "jumps s2 = jumps s1" "touches (smem s1) (smem s2) {0..<8328}"
    using second_task [OF s1(2,3,4), of b] by blast
  have "scheduler_init a b s = Some s2"
    using s1(1) s2(1) by (simp add: scheduler_init_def scheduler_create_test_tasks_def)
  with s1(5-8) s2 show ?thesis by (auto intro: touches_trans)
qed

text \<open>
  The scheduler's start before the heap is set up, with the heap's variables still 0: it returns
  with both test tasks in the queue, ready; \<open>heap_init\<close> then leaves a heap in order whose
  list holds three blocks below the heap (the stack of the first task is in none of them), and the
  tasks lie in blocks in use.
\<close>

theorem early_scheduler_start:
  assumes "unset_heap (sheap s)" and "ready_queue s = 0"
  shows "\<exists>s'. scheduler_init a b s = Some s' \<and> boot_task s' 4136 (next_pid s) a \<and> boot_task s' 8300 (next_pid s + 1) b
    \<and> sched_inv (s'\<lparr>sheap := heap_init (sheap s')\<rparr>) early_blocks 0x400000 [4136, 8300]"
proof -
  obtain s' where s': "scheduler_init a b s = Some s'" "early_heap (sheap s') early_blocks 8328" "queue_ok s' [4136, 8300]"
      "boot_task s' 4136 (next_pid s) a" "boot_task s' 8300 (next_pid s + 1) b"
    using scheduler_init_runs [OF assms] by blast
  have "sched_inv (s'\<lparr>sheap := heap_init (sheap s')\<rparr>) early_blocks 0x400000 [4136, 8300]"
    using s'(3) early_heap_ok [OF s'(2)]
    by (auto simp: sched_inv_def queue_ok_def smem_def heap_init_def used_early)
  with s' show ?thesis by blast
qed

text \<open>Then \<open>heap_validate\<close> finds a block outside the heap.\<close>

theorem booted_heap_invalid:
  assumes "unset_heap (sheap s)" and "ready_queue s = 0"
  shows "\<exists>s' h. scheduler_init a b s = Some s' \<and> heap_init (sheap s') = h
    \<and> heap_validate h = Some (heap_print ''Block outside heap range!\<newline>'' h)"
proof -
  obtain s' where s': "scheduler_init a b s = Some s'" "early_heap (sheap s') early_blocks 8328"
    using scheduler_init_runs [OF assms] by blast
  from heap_validate_ok [OF early_heap_ok [OF s'(2)]] s'(1) show ?thesis
    by (simp add: heap_verdict_def early_blocks_def)
qed

end
