(* ===== verification/LowFrames.thy ===== *)
theory LowFrames imports Paging BootHeap FsInv begin

text \<open>
  The frames below the kernel.  \<^verbatim>\<open>pmm_init\<close> reserves the kernel and its bitmap, not the memory below the
  kernel, so on a machine whose memory map begins at 0 the lowest frames are free and are given
  out first: frame 0, the address of which is the code's sign that there is no frame, and frames 1
  and 2, which hold the tasks that were allocated before the heap was set up.
\<close>

definition low_map :: "pmm \<Rightarrow> bool" where
  "low_map p \<longleftrightarrow> pmm_wf p \<and> 0x100000 \<le> unat (bitmap p) \<and> unat (bitmap p) + 4 * bitmap_words p \<le> 0x400000
     \<and> 32 \<le> unat (total_frames p)"

lemma alloc_lowest:
  assumes wf: "pmm_wf p" and f: "f < 32 * (unat (total_frames p) div 32)" "\<not> frame_used p f" "\<And>g. g < f \<Longrightarrow> frame_used p g"
  shows "pmm_alloc_frame p = (ad (4096 * f), set_frame (ad f) p)"
proof -
  have "find (\<lambda>f. \<not> frame_used p f) [0..<32 * (unat (total_frames p) div 32)] = Some f"
    using f by (simp add: find_upt_Some)
  then show ?thesis using first_free_frame_eq [OF wf] by (simp add: pmm_alloc_frame_def) (simp add: ad_def)
qed

lemma low_frames: "low_map p \<Longrightarrow> f < 32 \<Longrightarrow> f < 32 * (unat (total_frames p) div 32) \<and> f < 32 * bitmap_words p"
proof -
  assume "low_map p" "f < 32"
  then have "1 \<le> unat (total_frames p) div 32" using div_le_mono [of 32 "unat (total_frames p)" 32] by (simp add: low_map_def)
  then show ?thesis using \<open>f < 32\<close> div_le_mono [of "unat (total_frames p)" "unat (total_frames p) + 31" 32]
    unfolding bitmap_words_def by linarith
qed

lemma set_frame_touches:
  assumes "low_map p" and "f < 32 * bitmap_words p"
  shows "touches (pmem p) (pmem (set_frame (ad f) p)) {0x100000..<0x400000}"
proof -
  have wf: "pmm_wf p" using assms(1) by (simp add: low_map_def)
  have i: "f div 32 < bitmap_words p" using assms(2) by (simp add: less_mult_imp_div_less)
  show ?thesis
    unfolding set_frame_def ad_div_32 [OF wf_frame [OF wf assms(2)]] set_bitmap_word_ad
    using i assms(1) by (auto simp: low_map_def intro!: touches_store)
qed

lemma fill_table_touches:
  assumes T: "T + 4096 \<le> 4294967296"
  shows "touches m (fill_table a g (ad T) m) {T..<T + 4096}"
proof -
  have "touches m (fold (\<lambda>i m. store32 m (ad T + 4 * of_nat i) (g i)) [a..<b] m) {T..<T + 4096}" if "b \<le> 1024" for b
    using that
  proof (induction b)
    case (Suc b)
    have "ad T + 4 * of_nat b = ad (T + 4 * b)" by (simp add: ad_def)
    then show ?case using Suc T by (cases "a \<le> b") (auto intro: touches_store)
  qed simp
  then show ?thesis by (simp add: fill_table_def)
qed

text \<open>A store below the kernel leaves the bitmap alone.\<close>

lemma low_store_frames:
  assumes p: "low_map p" and t: "touches (pmem p) m' S" and S: "S \<inter> {0x100000..<0x400000} = {}"
  shows "low_map (p\<lparr>pmem := m'\<rparr>)" and "f < 32 * bitmap_words p \<Longrightarrow> frame_used (p\<lparr>pmem := m'\<rparr>) f = frame_used p f"
proof -
  have bw: "bitmap_words (p\<lparr>pmem := m'\<rparr>) = bitmap_words p" by (simp add: bitmap_words_def)
  then show "low_map (p\<lparr>pmem := m'\<rparr>)" using p by (simp add: low_map_def pmm_wf_def)
  assume "f < 32 * bitmap_words p"
  then have i: "f div 32 < bitmap_words p" by (simp add: less_mult_imp_div_less)
  have "rd m' (unat (bitmap p) + 4 * (f div 32)) = rd (pmem p) (unat (bitmap p) + 4 * (f div 32))"
  proof (rule touches_rd [OF t])
    have "{unat (bitmap p) + 4 * (f div 32)..<unat (bitmap p) + 4 * (f div 32) + 4} \<subseteq> {0x100000..<0x400000}"
      using i p by (auto simp: low_map_def)
    then show "{unat (bitmap p) + 4 * (f div 32)..<unat (bitmap p) + 4 * (f div 32) + 4} \<inter> S = {}" using S by blast
  qed (use i p in \<open>auto simp: low_map_def\<close>)
  then show "frame_used (p\<lparr>pmem := m'\<rparr>) f = frame_used p f" by (simp add: frame_used_def)
qed

lemma set_frame_low: "low_map p \<Longrightarrow> low_map (set_frame (ad f) p)"
  by (simp add: low_map_def)

text \<open>With frame 0 free, \<open>paging_init\<close> puts the first page table at address 0.\<close>

lemma paging_init_low:
  assumes p: "low_map (frames v)" and f0: "\<not> frame_used (frames v) 0"
  shows "low_map (frames (paging_init v))"
    and "f < 32 \<Longrightarrow> frame_used (frames (paging_init v)) f \<longleftrightarrow> f = 0 \<or> frame_used (frames v) f"
    and "page_tables (paging_init v) = replicate 1024 0"
    and "page_directory (paging_init v) = (replicate 1024 0)[0 := PRESENT OR WRITABLE]"
    and "touches (pmem (frames v)) (pmem (frames (paging_init v))) ({0..<4096} \<union> {0x100000..<0x400000})"
    and "0 < j \<Longrightarrow> j < 1024 \<Longrightarrow> rd (pmem (frames (paging_init v))) (4 * j) = of_nat j * 4096 OR PRESENT OR WRITABLE"
proof -
  let ?p = "set_frame (ad 0) (frames v)"
  let ?g = "\<lambda>i. (of_nat i * 4096) OR PRESENT OR WRITABLE :: u32"
  define m where "m = fill_table 1 ?g (ad 0) (fill_table 0 (\<lambda>i. 0) (ad 0) (pmem ?p))"
  have wf: "pmm_wf (frames v)" using p by (simp add: low_map_def)
  have a: "pmm_alloc_frame (frames v) = (ad 0, ?p)"
    using alloc_lowest [OF wf, of 0] low_frames [OF p, of 0] f0 by simp
  have fr: "frames (paging_init v) = ?p\<lparr>pmem := m\<rparr>"
    by (simp add: paging_init_def a set_mem_def enable_paging_def load_page_directory_def m_def)
  have pl: "low_map ?p" using p by (rule set_frame_low)
  have t: "touches (pmem ?p) m {0..<4096}" unfolding m_def
    using fill_table_touches [of 0] touches_trans by fastforce
  note k = low_store_frames [OF pl t]
  show "low_map (frames (paging_init v))" unfolding fr by (rule k(1)) auto
  show "frame_used (frames (paging_init v)) f \<longleftrightarrow> f = 0 \<or> frame_used (frames v) f" if f: "f < 32"
    unfolding fr using k(2) [of f] set_frame_used [OF wf, of 0 f] low_frames [OF p] f by simp
  have "(replicate 1024 0)[0 := 0] = replicate 1024 (0 :: u32)" by (subst list_update_same_conv) simp_all
  then show "page_tables (paging_init v) = replicate 1024 0"
    by (simp add: paging_init_def a set_mem_def enable_paging_def load_page_directory_def ad_0)
  show "page_directory (paging_init v) = (replicate 1024 0)[0 := PRESENT OR WRITABLE]"
    by (simp add: paging_init_def a set_mem_def enable_paging_def load_page_directory_def ad_0)
  have "touches (pmem (frames v)) (pmem ?p) ({0..<4096} \<union> {0x100000..<0x400000})"
    by (rule touches_mono [OF set_frame_touches [OF p]]) (use low_frames [OF p, of 0] in auto)
  moreover have "touches (pmem ?p) m ({0..<4096} \<union> {0x100000..<0x400000})" by (rule touches_mono [OF t]) auto
  ultimately show "touches (pmem (frames v)) (pmem (frames (paging_init v))) ({0..<4096} \<union> {0x100000..<0x400000})"
    unfolding fr by (simp add: touches_def)
  show "rd (pmem (frames (paging_init v))) (4 * j) = ?g j" if "0 < j" "j < 1024"
    using that fill_table_eq [of 0 1024 j ?g 1] unfolding fr by (simp add: m_def fill_table_def)
qed

text \<open>
  The first page of the heap: its fault is given frame 1, and frame 2 becomes the page table.  Every
  word of frame 2 is zero then but the first; the page shares frame 1 with the page at \<open>0x1000\<close>.
\<close>

lemma first_heap_page:
  assumes p: "low_map (frames v)" and u: "frame_used (frames v) 0" "\<not> frame_used (frames v) 1" "\<not> frame_used (frames v) 2"
    and t: "page_tables v ! 1 = 0" and len: "length (page_tables v) = 1024" "length (page_directory v) = 1024"
  obtains fr where "pmm_alloc_frame (frames v) = (0x1000, fr)"
    and "rd (pmem (frames (map_page 0x400000 0x1000 (v\<lparr>frames := fr\<rparr>)))) 0x2000 = 0x1003"
    and "\<And>j. 0 < j \<Longrightarrow> j < 1024 \<Longrightarrow> rd (pmem (frames (map_page 0x400000 0x1000 (v\<lparr>frames := fr\<rparr>)))) (0x2000 + 4 * j) = 0"
    and "page_directory (map_page 0x400000 0x1000 (v\<lparr>frames := fr\<rparr>)) = (page_directory v)[1 := 0x2003]"
    and "touches (pmem (frames v)) (pmem (frames (map_page 0x400000 0x1000 (v\<lparr>frames := fr\<rparr>))))
      ({0x2000..<0x3000} \<union> {0x100000..<0x400000})"
proof -
  let ?p1 = "set_frame (ad 1) (frames v)" and ?p2 = "set_frame (ad 2) (set_frame (ad 1) (frames v))"
  have wf: "pmm_wf (frames v)" using p by (simp add: low_map_def)
  note lf = low_frames [OF p]
  have a1: "pmm_alloc_frame (frames v) = (ad 4096, ?p1)"
    using alloc_lowest [OF wf, of 1] lf [of 1] u by simp
  have u1: "frame_used ?p1 f \<longleftrightarrow> f = 1 \<or> frame_used (frames v) f" if "f < 32" for f
    using set_frame_used [OF wf, of 1 f] lf that by simp
  have l1: "low_map ?p1" using p by (rule set_frame_low)
  have b: "frame_used ?p1 g" if "g < 2" for g
  proof -
    from that have "g = 0 \<or> g = 1" by linarith
    then show ?thesis using u1 [of 0] u1 [of 1] u by auto
  qed
  have a2: "pmm_alloc_frame ?p1 = (ad 8192, ?p2)"
    using alloc_lowest [of ?p1 2] lf [of 2] u1 [of 2] u b wf by simp
  define e where "e = (0x1000 AND 0xFFFFF000 OR PRESENT OR WRITABLE :: u32)"
  have e3: "e = 0x1003" by (simp add: e_def)
  define m where "m = store32 (fill_table 0 (\<lambda>i. 0) (ad 8192) (pmem ?p2)) (ad 8192) e"
  have i: "unat (drop_bit 22 (0x400000 :: u32)) = 1" "drop_bit 12 (0x400000 :: u32) AND 0x3FF = 0"
    by (simp_all add: drop_bit_eq_div)
  have mp: "pmem (frames (map_page 0x400000 0x1000 (v\<lparr>frames := ?p1\<rparr>))) = m"
      "page_directory (map_page 0x400000 0x1000 (v\<lparr>frames := ?p1\<rparr>)) = (page_directory v)[1 := ad 8192 OR PRESENT OR WRITABLE]"
    using t unfolding map_page_def Let_def i by (simp_all add: a2 [unfolded One_nat_def] set_mem_def m_def e_def)
  show thesis
  proof (rule that [of ?p1])
    show "pmm_alloc_frame (frames v) = (0x1000, ?p1)" using a1 by (simp add: ad_def)
    show "rd (pmem (frames (map_page 0x400000 0x1000 (v\<lparr>frames := ?p1\<rparr>)))) 0x2000 = 0x1003"
      unfolding mp m_def e3 [symmetric] using rd_store_same by simp
    show "rd (pmem (frames (map_page 0x400000 0x1000 (v\<lparr>frames := ?p1\<rparr>)))) (0x2000 + 4 * j) = 0" if "0 < j" "j < 1024" for j
      unfolding mp m_def using that fill_table_eq [of 8192 1024 j "\<lambda>i. 0" 0]
      by (simp add: fill_table_def rd_store_above)
    show "page_directory (map_page 0x400000 0x1000 (v\<lparr>frames := ?p1\<rparr>)) = (page_directory v)[1 := 0x2003]"
      unfolding mp by (simp add: ad_def)
    let ?S = "{0x2000..<0x3000} \<union> {0x100000..<0x400000} :: nat set"
    have "touches (pmem (frames v)) (pmem ?p1) ?S"
      by (rule touches_mono [OF set_frame_touches [OF p]]) (use lf [of 1] in auto)
    moreover have "touches (pmem ?p1) (pmem ?p2) ?S"
      by (rule touches_mono [OF set_frame_touches [OF l1]]) (use lf [of 2] in auto)
    moreover have "touches (pmem ?p2) m ?S" unfolding m_def
      by (intro touches_store touches_mono [OF fill_table_touches]) auto
    ultimately show "touches (pmem (frames v)) (pmem (frames (map_page 0x400000 0x1000 (v\<lparr>frames := ?p1\<rparr>)))) ?S"
      unfolding mp by (simp add: touches_def)
  qed
qed

end
