(* ===== verification/BootMachine.thy ===== *)
theory BootMachine imports BootOk LowFrames begin

text \<open>
  The machine as the boot leaves it, on the kernel's one state: the tasks of the scheduler, the page
  table and the heap, one after the other in the same low memory, and what the first page fault of
  the heap does to them.
\<close>

section \<open>Steps that leave memory, heap, scheduler and pages alone\<close>

definition same_machine :: "kernel \<Rightarrow> kernel \<Rightarrow> bool" where
  "same_machine k k' \<longleftrightarrow> kmem k' = kmem k \<and> heap_start (fheap (kfs k')) = heap_start (fheap (kfs k))
     \<and> heap_end (fheap (kfs k')) = heap_end (fheap (kfs k)) \<and> heap_head (fheap (kfs k')) = heap_head (fheap (kfs k))
     \<and> ksched k' = ksched k \<and> kpages k' = kpages k"

lemma same_machine_refl: "same_machine k k" by (simp add: same_machine_def)

lemma same_machine_trans: "same_machine k k' \<Longrightarrow> same_machine k' k'' \<Longrightarrow> same_machine k k''"
  by (simp add: same_machine_def)

lemma same_machine_ops: "same_machine k (on_screen f k)" "same_machine k (on_ports g k)" "same_machine k (k\<lparr>ktables := t\<rparr>)"
  by (simp_all add: same_machine_def on_ports_def) (simp_all add: on_screen_def)

definition quiet :: "(kernel \<Rightarrow> run option) \<Rightarrow> bool" where
  "quiet f \<longleftrightarrow> (\<forall>k. \<exists>k'. f k = Some (Running k') \<and> same_machine k k')"

lemma quiet_ops: "quiet (\<lambda>k. returns (on_ports g k))" "quiet (on_tables h)" "quiet returns" "quiet start_pit"
  by (auto simp: quiet_def returns_def on_tables_def start_pit_def pit_init_def Let_def same_machine_ops same_machine_refl)

lemma boot_step_runs:
  assumes "f (on_screen (status_begin (bytes_of msg)) k) = Some (Running k')"
  shows "boot_step msg f k = Some (Running (on_screen status_end_ok k'))"
  using assms by (simp add: boot_step_def returns_def)

lemma quiet_steps:
  assumes "\<forall>(msg, f)\<in>set steps. quiet f"
  shows "\<exists>k'. boot_steps steps k = Some (Running k') \<and> same_machine k k'"
  using assms
proof (induction steps arbitrary: k)
  case Nil
  then show ?case by (simp add: returns_def same_machine_refl)
next
  case (Cons s steps)
  obtain msg f where s: "s = (msg, f)" by (cases s)
  have "quiet f" using Cons.prems s by simp
  then obtain k1 where k1: "f (on_screen (status_begin (bytes_of msg)) k) = Some (Running k1)"
      "same_machine (on_screen (status_begin (bytes_of msg)) k) k1" unfolding quiet_def by blast
  obtain k2 where k2: "boot_steps steps (on_screen status_end_ok k1) = Some (Running k2)"
      "same_machine (on_screen status_end_ok k1) k2" using Cons by fastforce
  have "same_machine k k2"
    by (rule same_machine_trans [OF same_machine_trans [OF same_machine_ops(1) k1(2)]
        same_machine_trans [OF same_machine_ops(1) k2(2)]])
  then show ?case using boot_step_runs [of f msg k k1, OF k1(1)] k2(1) by (simp add: s)
qed

lemma boot_steps_append: "boot_steps (xs @ ys) k = run_bind (boot_steps xs k) (boot_steps ys)"
proof (induction xs arbitrary: k)
  case (Cons x xs)
  obtain msg f where x: "x = (msg, f)" by (cases x)
  show ?case
  proof (cases "boot_step msg f k")
    case (Some r)
    then show ?thesis using Cons by (cases r) (simp_all add: x)
  qed (simp add: x)
qed (simp add: returns_def)

section \<open>The tasks in low memory\<close>

definition tasks_made :: "kernel \<Rightarrow> u32 \<Rightarrow> u32 \<Rightarrow> u32 \<Rightarrow> bool" where
  "tasks_made k pid a b \<longleftrightarrow> early_heap (fheap (kfs k)) early_blocks 8328 \<and> queue_ok (sched_view k) [4136, 8300]
     \<and> boot_task (sched_view k) 4136 pid a \<and> boot_task (sched_view k) 8300 (pid + 1) b"

lemma sched_view_simps [simp]:
  "smem (sched_view k) = kmem k" "sheap (sched_view k) = fheap (kfs k)" "ready_queue (sched_view k) = ready_queue (ksched k)"
  "next_pid (sched_view k) = next_pid (ksched k)"
  by (simp_all add: sched_view_def smem_def kmem_def fmem_def)

lemma tasks_made_kept:
  assumes t: "tasks_made k pid a b" and m: "touches (kmem k) (kmem k') S" "S \<inter> {4096..<8328} = {}"
    and v: "heap_start (fheap (kfs k')) = heap_start (fheap (kfs k))" "heap_end (fheap (kfs k')) = heap_end (fheap (kfs k))"
      "heap_head (fheap (kfs k')) = heap_head (fheap (kfs k))" "ready_queue (ksched k') = ready_queue (ksched k)"
  shows "tasks_made k' pid a b"
proof -
  have r: "rd (kmem k') y = rd (kmem k) y" if "4096 \<le> y" "y + 4 \<le> 8328" for y
    by (rule touches_rd [OF m(1)]) (use m(2) that in \<open>auto simp: disjoint_iff\<close>)
  have h: "heap_start (fheap (kfs k)) = 0" "heap_end (fheap (kfs k)) = ad 8328" "heap_head (fheap (kfs k)) = first_ad early_blocks 0"
    using t by (auto simp: tasks_made_def early_heap_def)
  have "early_heap (sheap (sched_view k')) early_blocks 8328"
  proof (rule early_heap_words [where s = "sched_view k"])
    show "rd (smem (sched_view k')) y = rd (smem (sched_view k)) y" if "c \<in> set early_blocks"
      "y \<in> {baddr c, baddr c + 4, baddr c + 8, baddr c + 12, baddr c + 16, bend c}" for c y
      using that r [of y] by (auto simp: bend_def early_blocks_def)
  qed (use t h v in \<open>simp_all add: tasks_made_def\<close>)
  moreover have "queue_ok (sched_view k') [4136, 8300]"
    using t v(4) r by (auto simp: tasks_made_def queue_ok_def task_ring_def less_Suc_eq)
  moreover have "boot_task (sched_view k') u p e = boot_task (sched_view k) u p e" if "u \<in> {4136, 8300}" for u p e
    using that r by (auto simp: boot_task_def task_ad)
  ultimately show ?thesis using t by (simp add: tasks_made_def)
qed

section \<open>The steps from the tables to the heap\<close>

lemma pages_view_same: "same_machine k k' \<Longrightarrow> pages_view k' = pages_view k"
  by (simp add: same_machine_def pages_view_def)

lemma tasks_made_same: "same_machine k k' \<Longrightarrow> tasks_made k pid a b \<Longrightarrow> tasks_made k' pid a b"
  by (rule tasks_made_kept [where S = "{}"]) (auto simp: same_machine_def)

lemma one_step: "f (on_screen (status_begin (bytes_of msg)) k) = Some (Running k') \<Longrightarrow>
  boot_steps ((msg, f) # steps) k = boot_steps steps (on_screen status_end_ok k')"
  using boot_step_runs [of f msg k k'] by simp

lemma scheduler_step:
  assumes h: "unset_heap (fheap (kfs k))" and q: "ready_queue (ksched k) = 0"
  shows "\<exists>k'. start_scheduler E k = Some (Running k') \<and> touches (kmem k) (kmem k') {0..<8328} \<and> kpages k' = kpages k
    \<and> tasks_made k' (next_pid (ksched k)) (entry E ''test_task_a'' 0) (entry E ''test_task_b'' 0)"
proof -
  from scheduler_init_runs [of "sched_view k" "entry E ''test_task_a'' 0" "entry E ''test_task_b'' 0"] h q
  obtain s' where s': "scheduler_init (entry E ''test_task_a'' 0) (entry E ''test_task_b'' 0) (sched_view k) = Some s'"
      "early_heap (sheap s') early_blocks 8328" "queue_ok s' [4136, 8300]"
      "boot_task s' 4136 (next_pid (ksched k)) (entry E ''test_task_a'' 0)"
      "boot_task s' 8300 (next_pid (ksched k) + 1) (entry E ''test_task_b'' 0)" "touches (kmem k) (smem s') {0..<8328}"
    by auto
  have "kmem (set_sched s' k) = smem s'" "fheap (kfs (set_sched s' k)) = sheap s'" "ksched (set_sched s' k) = s'"
      "kpages (set_sched s' k) = kpages k"
    by (simp_all add: set_sched_def kmem_def fmem_def smem_def)
  with s' show ?thesis
    by (intro exI [of _ "set_sched s' k"]) (simp add: start_scheduler_def tasks_made_def queue_ok_def boot_task_def)
qed

lemma paging_step:
  assumes t: "tasks_made k pid a b" and p: "low_map (frames (pages_view k))" "\<not> frame_used (frames (pages_view k)) 0"
  shows "\<exists>k'. start_paging k = Some (Running k') \<and> tasks_made k' pid a b \<and> pages_view k' = paging_init (pages_view k)"
proof -
  define k' where "k' = set_pages (paging_init (pages_view k)) k"
  note P = paging_init_low [OF p]
  have m: "kmem k' = pmem (frames (paging_init (pages_view k)))" by (simp add: k'_def set_pages_def)
  have "tasks_made k' pid a b"
  proof (rule tasks_made_kept [OF t])
    show "touches (kmem k) (kmem k') ({0..<4096} \<union> {0x100000..<0x400000})" using P(5) by (simp add: m pages_view_def)
  qed (auto simp: k'_def set_pages_def set_kmem_def set_fmem_def)
  moreover have "pages_view k' = paging_init (pages_view k)"
    using m by (simp add: pages_view_def k'_def set_pages_def)
  ultimately show ?thesis by (simp add: start_paging_def returns_def k'_def)
qed

lemma machine_runs:
  assumes h: "unset_heap (fheap (kfs k))" and q: "ready_queue (ksched k) = 0"
    and p: "low_map (frames (pages_view k))" and f: "\<And>f. f < 3 \<Longrightarrow> \<not> frame_used (frames (pages_view k)) f"
  shows "\<exists>k' v. boot_steps (machine_steps E) k = Some (Running k') \<and> heap_ok (fheap (kfs k')) early_blocks 0x400000
    \<and> sched_inv (sched_view k') early_blocks 0x400000 [4136, 8300]
    \<and> boot_task (sched_view k') 4136 (next_pid (ksched k)) (entry E ''test_task_a'' 0)
    \<and> boot_task (sched_view k') 8300 (next_pid (ksched k) + 1) (entry E ''test_task_b'' 0)
    \<and> low_map (frames v) \<and> (\<forall>f<3. \<not> frame_used (frames v) f) \<and> pages_view k' = paging_init v"
proof -
  let ?pid = "next_pid (ksched k)" and ?a = "entry E ''test_task_a'' 0" and ?b = "entry E ''test_task_b'' 0"
  have split: "machine_steps E = take 5 (machine_steps E) @
      [(''Initializing Scheduler'', start_scheduler E), (''Enabling Interrupts'', returns), (''Initializing Paging'', start_paging),
       (''Initializing Heap'', \<lambda>k. returns (on_heap heap_init k))]" by (simp add: machine_steps_def)
  have "\<forall>(msg, f)\<in>set (take 5 (machine_steps E)). quiet f" by (simp add: machine_steps_def quiet_ops)
  from quiet_steps [OF this] obtain k1 where
    k1: "boot_steps (take 5 (machine_steps E)) k = Some (Running k1)" "same_machine k k1" by blast
  define k2 where "k2 = on_screen (status_begin (bytes_of ''Initializing Scheduler'')) k1"
  have s2: "same_machine k k2" using k1(2) same_machine_ops(1) same_machine_trans unfolding k2_def by blast
  then have "unset_heap (fheap (kfs k2))" "ready_queue (ksched k2) = 0" "next_pid (ksched k2) = ?pid"
    using h q by (simp_all add: same_machine_def unset_heap_def)
  with scheduler_step [of k2 E] obtain k3 where k3: "start_scheduler E k2 = Some (Running k3)"
      "touches (kmem k2) (kmem k3) {0..<8328}" "kpages k3 = kpages k2" "tasks_made k3 ?pid ?a ?b" by auto
  have fr3: "frames (pages_view k3) = frames (pages_view k)\<lparr>pmem := kmem k3\<rparr>"
    using s2 k3(3) by (simp add: pages_view_def same_machine_def)
  have t3: "touches (pmem (frames (pages_view k))) (kmem k3) {0..<8328}"
    using k3(2) s2 by (simp add: pages_view_def same_machine_def)
  note l3 = low_store_frames [OF p t3, folded fr3]
  define k4 where "k4 = on_screen (status_begin (bytes_of ''Initializing Paging'')) (on_screen status_end_ok
      (on_screen (status_begin (bytes_of ''Enabling Interrupts'')) (on_screen status_end_ok k3)))"
  have s4: "same_machine k3 k4" unfolding k4_def by (meson same_machine_ops(1) same_machine_trans)
  define v where "v = pages_view k4"
  have v3: "v = pages_view k3" using s4 by (simp add: v_def pages_view_same)
  have lv: "low_map (frames v)" unfolding v3 by (rule l3(1)) auto
  have fv: "\<not> frame_used (frames v) g" if "g < 3" for g
    unfolding v3 using l3(2) [of g] f [OF that] low_frames [OF p, of g] that by auto
  obtain k5 where k5: "start_paging k4 = Some (Running k5)" "tasks_made k5 ?pid ?a ?b" "pages_view k5 = paging_init v"
    using paging_step [OF tasks_made_same [OF s4 k3(4)]] lv fv [of 0] unfolding v_def by auto
  define k6 where "k6 = on_screen (status_begin (bytes_of ''Initializing Heap'')) (on_screen status_end_ok k5)"
  have s6: "same_machine k5 k6" unfolding k6_def by (meson same_machine_ops(1) same_machine_trans)
  define k7 where "k7 = on_screen status_end_ok (on_heap heap_init k6)"
  have run: "boot_steps (machine_steps E) k = Some (Running k7)"
  proof -
    have "boot_steps (machine_steps E) k = boot_steps [(''Initializing Scheduler'', start_scheduler E), (''Enabling Interrupts'', returns),
        (''Initializing Paging'', start_paging), (''Initializing Heap'', \<lambda>k. returns (on_heap heap_init k))] k1"
      by (subst split) (simp only: boot_steps_append k1(1) run_bind_simps)
    also have "\<dots> = boot_steps [(''Enabling Interrupts'', returns), (''Initializing Paging'', start_paging),
        (''Initializing Heap'', \<lambda>k. returns (on_heap heap_init k))] (on_screen status_end_ok k3)"
      by (rule one_step) (rule k3(1) [unfolded k2_def])
    also have "\<dots> = boot_steps [(''Initializing Paging'', start_paging), (''Initializing Heap'', \<lambda>k. returns (on_heap heap_init k))]
        (on_screen status_end_ok (on_screen (status_begin (bytes_of ''Enabling Interrupts'')) (on_screen status_end_ok k3)))"
      by (rule one_step) (rule returns_def)
    also have "\<dots> = boot_steps [(''Initializing Heap'', \<lambda>k. returns (on_heap heap_init k))] (on_screen status_end_ok k5)"
      by (rule one_step) (rule k5(1) [unfolded k4_def])
    also have "\<dots> = boot_steps [] (on_screen status_end_ok (on_heap heap_init k6))"
      unfolding k6_def by (rule one_step) (rule returns_def)
    finally show ?thesis by (simp add: returns_def k7_def)
  qed
  have t6: "tasks_made k6 ?pid ?a ?b" by (rule tasks_made_same [OF s6 k5(2)])
  have h7: "fheap (kfs k7) = heap_init (fheap (kfs k6))\<lparr>screen := kscreen k7\<rparr>" "kmem k7 = kmem k6" "ksched k7 = ksched k6"
      "kpages k7 = kpages k6"
    by (simp_all add: k7_def on_heap_def on_screen_def kscreen_def heap_init_def kmem_def fmem_def)
  have ok7: "heap_ok (fheap (kfs k7)) early_blocks 0x400000"
    using early_heap_ok t6 by (simp add: h7 tasks_made_def)
  have "sched_inv (sched_view k7) early_blocks 0x400000 [4136, 8300]"
    using ok7 t6 h7 by (auto simp: sched_inv_def tasks_made_def queue_ok_def used_early)
  moreover have "boot_task (sched_view k7) u pd e = boot_task (sched_view k6) u pd e" for u pd e
    by (simp add: boot_task_def h7)
  moreover have "pages_view k7 = paging_init v"
    using k5(3) pages_view_same [OF s6] h7 by (simp add: pages_view_def)
  ultimately show ?thesis using run ok7 t6 lv fv by (auto simp: tasks_made_def)
qed

section \<open>The first page fault of the heap\<close>

lemma translate_word:
  assumes "page_directory v ! unat (drop_bit 10 (drop_bit 12 va)) = t OR PRESENT OR WRITABLE" "t AND 0xFFFFF000 = t"
    and "load32 (pmem (frames v)) (t + 4 * (drop_bit 12 va AND 0x3FF)) = 0x1003"
  shows "translate v va = Some (0x1000 OR (va AND 0xFFF))"
proof -
  have "(t OR PRESENT OR WRITABLE) AND 0xFFFFF000 = t" using entry_addr [of t] assms(2) by simp
  with assms entry_present [of t] show ?thesis by (simp add: translate_def Let_def)
qed

lemma first_pages:
  assumes "page_directory v = (replicate 1024 0)[0 := PRESENT OR WRITABLE, 1 := 0x2003]"
    and "rd (pmem (frames v)) 4 = 0x1003" and "rd (pmem (frames v)) 0x2000 = 0x1003" and page: "drop_bit 12 va \<in> {1, 0x400}"
  shows "translate v va = Some (0x1000 OR (va AND 0xFFF))"
proof -
  have two: "xs[0 := x, 1 := y] ! 0 = x" "xs[0 := x, 1 := y] ! 1 = y" if "length xs = 1024" for xs :: "u32 list" and x y
    using that by simp_all
  note pd = two [OF length_replicate, of 0 "PRESENT OR WRITABLE" "0x2003", folded assms(1)]
  have l: "load32 (pmem (frames v)) 4 = 0x1003" "load32 (pmem (frames v)) 0x2000 = 0x1003"
    using assms(2,3) by (simp_all add: rd_def ad_def)
  consider "drop_bit 12 va = 1" | "drop_bit 12 va = 0x400" using page by blast
  then show ?thesis
  proof cases
    case 1
    have "drop_bit 10 (1 :: u32) = 0" by (simp add: drop_bit_eq_div)
    then have "page_directory v ! unat (drop_bit 10 (drop_bit 12 va)) = 0 OR PRESENT OR WRITABLE"
      by (simp only: 1 pd(1) unsigned_0 or.left_neutral)
    then show ?thesis by (rule translate_word) (simp_all only: 1, simp_all add: l)
  next
    case 2
    have "unat (drop_bit 10 (0x400 :: u32)) = 1" by (simp add: drop_bit_eq_div)
    then have "page_directory v ! unat (drop_bit 10 (drop_bit 12 va)) = 0x2003" by (simp only: 2 pd(2))
    moreover have "(0x2000 :: u32) OR PRESENT OR WRITABLE = 0x2003" by simp
    ultimately have "page_directory v ! unat (drop_bit 10 (drop_bit 12 va)) = 0x2000 OR PRESENT OR WRITABLE" by (simp only:)
    then show ?thesis by (rule translate_word) (simp_all only: 2, simp_all add: l)
  qed
qed

lemma fault_step:
  assumes v: "pages_view k = paging_init v" and p: "low_map (frames v)" and f: "\<forall>f<3. \<not> frame_used (frames v) f"
    and e: "e AND 0x1 = 0" "e AND 0x4 = 0" "cpu_cr2 (env_cpu E k) AND 0xFFFFF000 = 0x400000"
  shows "\<exists>k'. isr_handler E sc 14 e k = Some (Running k') \<and> boot_task (sched_view k') 8300 0 0
    \<and> bh_magic (kmem k') (ad 8280) = 0
    \<and> (\<forall>va. drop_bit 12 va \<in> {1, 0x400} \<longrightarrow> translate (pages_view k') va = Some (0x1000 OR (va AND 0xFFF)))"
proof -
  note P = paging_init_low [OF p f [THEN spec, of 0, simplified]]
  have u: "frame_used (frames (paging_init v)) 0" "\<not> frame_used (frames (paging_init v)) 1" "\<not> frame_used (frames (paging_init v)) 2"
    using P(2) f by simp_all
  have t1: "page_tables (paging_init v) ! 1 = 0" "length (page_tables (paging_init v)) = 1024"
      "length (page_directory (paging_init v)) = 1024" by (simp_all add: P(3,4))
  obtain fr where fr: "pmm_alloc_frame (frames (paging_init v)) = (0x1000, fr)"
    and w0: "rd (pmem (frames (map_page 0x400000 0x1000 ((paging_init v)\<lparr>frames := fr\<rparr>)))) 0x2000 = 0x1003"
    and w: "\<And>j. 0 < j \<Longrightarrow> j < 1024 \<Longrightarrow> rd (pmem (frames (map_page 0x400000 0x1000 ((paging_init v)\<lparr>frames := fr\<rparr>)))) (0x2000 + 4 * j) = 0"
    and pd: "page_directory (map_page 0x400000 0x1000 ((paging_init v)\<lparr>frames := fr\<rparr>)) = (page_directory (paging_init v))[1 := 0x2003]"
    and tch: "touches (pmem (frames (paging_init v))) (pmem (frames (map_page 0x400000 0x1000 ((paging_init v)\<lparr>frames := fr\<rparr>))))
      ({0x2000..<0x3000} \<union> {0x100000..<0x400000})"
    by (rule first_heap_page [OF P(1) u t1]) (rule that)
  define w' where "w' = map_page 0x400000 0x1000 ((paging_init v)\<lparr>frames := fr\<rparr>)"
  define w2 where "w2 = w'\<lparr>flushed := 0x400000 # flushed w'\<rparr>"
  have run: "isr_handler E sc 14 e k = Some (Running (set_pages w2 (set_pages ((paging_init v)\<lparr>frames := fr\<rparr>) k)))"
    using e by (simp add: isr_handler_def page_fault_def Let_def demand_page_def v fr returns_def w2_def w'_def)
  define k' where "k' = set_pages w2 (set_pages ((paging_init v)\<lparr>frames := fr\<rparr>) k)"
  have pv: "pages_view k' = w2" "kmem k' = pmem (frames w')"
    by (simp_all add: k'_def set_pages_def pages_view_def w2_def)
  have z: "rd (kmem k') y = 0" if "y = 8192 + 4 * j" "0 < j" "j < 1024" for y j
    using w [of j] that by (simp add: pv w'_def)
  have "boot_task (sched_view k') 8300 0 0"
    using z [of 8300 27] z [of 8304 28] z [of 8316 31] by (simp add: boot_task_def task_ad)
  moreover have "bh_magic (kmem k') (ad 8280) = 0" using z [of 8280 22] by (simp add: bh_ad)
  moreover have "translate w2 va = Some (0x1000 OR (va AND 0xFFF))" if page: "drop_bit 12 va \<in> {1, 0x400}" for va
  proof (rule first_pages [OF _ _ _ page])
    show "page_directory w2 = (replicate 1024 0)[0 := PRESENT OR WRITABLE, 1 := 0x2003]"
    proof -
      have "page_directory w2 = page_directory w'" by (simp add: w2_def)
      then show ?thesis using pd [folded w'_def, unfolded P(4)] by (rule trans)
    qed
    have "rd (pmem (frames w')) 4 = rd (pmem (frames (paging_init v))) 4"
      unfolding w'_def by (rule touches_rd [OF tch]) auto
    then show "rd (pmem (frames w2)) 4 = 0x1003" using P(6) [of 1] by (simp add: w2_def)
    show "rd (pmem (frames w2)) 0x2000 = 0x1003" using w0 by (simp add: w2_def w'_def)
  qed
  moreover have "isr_handler E sc 14 e k = Some (Running k')" using run by (simp only: k'_def)
  ultimately show ?thesis unfolding pv(1) [symmetric] by (intro exI [of _ k'] conjI allI impI)
qed

section \<open>What the boot leaves\<close>

text \<open>
  C19. The steps of the boot from the descriptor tables to the heap, on a machine whose lowest three
  frames are free: they return, with both test tasks ready in the queue and the heap's list in order.
  But the list holds the tasks' blocks, which lie below the heap, so that \<open>heap_validate\<close> reports them.
\<close>

theorem boot_makes_tasks:
  assumes "unset_heap (fheap (kfs k))" and "ready_queue (ksched k) = 0"
    and "low_map (frames (pages_view k))" and "\<And>f. f < 3 \<Longrightarrow> \<not> frame_used (frames (pages_view k)) f"
  shows "\<exists>k'. boot_steps (machine_steps E) k = Some (Running k')
    \<and> sched_inv (sched_view k') early_blocks 0x400000 [4136, 8300]
    \<and> boot_task (sched_view k') 4136 (next_pid (ksched k)) (entry E ''test_task_a'' 0)
    \<and> boot_task (sched_view k') 8300 (next_pid (ksched k) + 1) (entry E ''test_task_b'' 0)
    \<and> heap_validate (fheap (kfs k')) = Some (heap_print ''Block outside heap range!\<newline>'' (fheap (kfs k')))"
proof -
  obtain k' where k': "boot_steps (machine_steps E) k = Some (Running k')" "heap_ok (fheap (kfs k')) early_blocks 0x400000"
    "sched_inv (sched_view k') early_blocks 0x400000 [4136, 8300]"
    "boot_task (sched_view k') 4136 (next_pid (ksched k)) (entry E ''test_task_a'' 0)"
    "boot_task (sched_view k') 8300 (next_pid (ksched k) + 1) (entry E ''test_task_b'' 0)"
    using machine_runs [OF assms] by blast
  have "heap_verdict early_blocks = ''Block outside heap range!\<newline>''" by (simp add: heap_verdict_def early_blocks_def)
  with heap_validate_ok [OF k'(2)] k' show ?thesis by metis
qed

text \<open>
  C9. The first page fault of the heap after these steps returns, but the page table that it makes is put
  on frame 2, over the second test task: its entry point, its process number and the header of its
  block are 0 then.  The page of the heap gets frame 1, in which the first task lies, and both
  \<open>0x400000\<close> and \<open>0x1000\<close> are translated to it.
\<close>

theorem first_heap_fault_hits_tasks:
  assumes "unset_heap (fheap (kfs k))" and "ready_queue (ksched k) = 0"
    and "low_map (frames (pages_view k))" and "\<And>f. f < 3 \<Longrightarrow> \<not> frame_used (frames (pages_view k)) f"
  shows "\<exists>k'. boot_steps (machine_steps E) k = Some (Running k')
    \<and> boot_task (sched_view k') 8300 (next_pid (ksched k) + 1) (entry E ''test_task_b'' 0)
    \<and> (\<forall>sc e. e AND 0x1 = 0 \<longrightarrow> e AND 0x4 = 0 \<longrightarrow> cpu_cr2 (env_cpu E k') AND 0xFFFFF000 = 0x400000 \<longrightarrow>
        (\<exists>k''. isr_handler E sc 14 e k' = Some (Running k'') \<and> boot_task (sched_view k'') 8300 0 0
           \<and> bh_magic (kmem k'') (ad 8280) = 0
           \<and> (\<forall>va. drop_bit 12 va \<in> {1, 0x400} \<longrightarrow> translate (pages_view k'') va = Some (0x1000 OR (va AND 0xFFF)))))"
proof -
  obtain k' v where k': "boot_steps (machine_steps E) k = Some (Running k')"
    "boot_task (sched_view k') 8300 (next_pid (ksched k) + 1) (entry E ''test_task_b'' 0)"
    "low_map (frames v)" "\<forall>f<3. \<not> frame_used (frames v) f" "pages_view k' = paging_init v"
    using machine_runs [OF assms] by blast
  show ?thesis using k'(1,2) fault_step [OF k'(5,3,4)] by blast
qed

section \<open>A kernel just loaded\<close>

text \<open>The heap's variables are 0, the memory is empty, and the frames, 64 of them, are all free.\<close>

definition kernel_loaded :: kernel where
  "kernel_loaded = kernel_start\<lparr>
     kfs := fs_start\<lparr>fheap := \<lparr>hmem = \<lambda>_. 0, heap_start = 0, heap_end = 0, heap_head = 0, screen = vga_initial (replicate 2000 0)\<rparr>\<rparr>,
     kpages := vm_64\<lparr>frames := \<lparr>pmem = \<lambda>_. 0, bitmap = 0x100000, total_frames = 64\<rparr>\<rparr>\<rparr>"

lemma kernel_loaded_facts:
  "unset_heap (fheap (kfs kernel_loaded))" "ready_queue (ksched kernel_loaded) = 0" "next_pid (ksched kernel_loaded) = 1"
  "low_map (frames (pages_view kernel_loaded))" "\<not> frame_used (frames (pages_view kernel_loaded)) f"
proof -
  have "frames (pages_view kernel_loaded) = \<lparr>pmem = \<lambda>_. 0, bitmap = 0x100000, total_frames = 64\<rparr>"
    by (simp add: pages_view_def kernel_loaded_def kmem_def fmem_def)
  moreover have "rd (\<lambda>_. 0) y = 0" for y by (simp add: rd_def load32_def)
  ultimately show "low_map (frames (pages_view kernel_loaded))" "\<not> frame_used (frames (pages_view kernel_loaded)) f"
    by (simp_all add: low_map_def pmm_wf_def bitmap_words_def frame_used_def)
qed (simp_all add: kernel_loaded_def unset_heap_def kernel_start_def sched_start_def)

lemma boot_makes_tasks_witness:
  "\<exists>k'. boot_steps (machine_steps (env_quiet 0x400014 (32, 0))) kernel_loaded = Some (Running k')
     \<and> boot_task (sched_view k') 8300 2 0"
proof -
  obtain k' where "boot_steps (machine_steps (env_quiet 0x400014 (32, 0))) kernel_loaded = Some (Running k')"
    "boot_task (sched_view k') 8300 (next_pid (ksched kernel_loaded) + 1) (entry (env_quiet 0x400014 (32, 0)) ''test_task_b'' 0)"
    using boot_makes_tasks [OF kernel_loaded_facts(1,2,4,5)] by blast
  then show ?thesis by (auto simp: kernel_loaded_facts(3) env_quiet_def)
qed

lemma first_heap_fault_hits_tasks_witness:
  "\<exists>k' k''. boot_steps (machine_steps (env_quiet 0x400014 (32, 0))) kernel_loaded = Some (Running k')
     \<and> boot_task (sched_view k') 8300 2 0 \<and> isr_handler (env_quiet 0x400014 (32, 0)) returns 14 2 k' = Some (Running k'')
     \<and> boot_task (sched_view k'') 8300 0 0 \<and> translate (pages_view k'') 0x400028 = Some 0x1028"
proof -
  let ?E = "env_quiet 0x400014 (32, 0)"
  obtain k' where k': "boot_steps (machine_steps ?E) kernel_loaded = Some (Running k')"
    "boot_task (sched_view k') 8300 (next_pid (ksched kernel_loaded) + 1) (entry ?E ''test_task_b'' 0)"
    "\<forall>sc e. e AND 0x1 = 0 \<longrightarrow> e AND 0x4 = 0 \<longrightarrow> cpu_cr2 (env_cpu ?E k') AND 0xFFFFF000 = 0x400000 \<longrightarrow>
        (\<exists>k''. isr_handler ?E sc 14 e k' = Some (Running k'') \<and> boot_task (sched_view k'') 8300 0 0
           \<and> bh_magic (kmem k'') (ad 8280) = 0
           \<and> (\<forall>va. drop_bit 12 va \<in> {1, 0x400} \<longrightarrow> translate (pages_view k'') va = Some (0x1000 OR (va AND 0xFFF))))"
    using first_heap_fault_hits_tasks [OF kernel_loaded_facts(1,2,4,5)] by blast
  have "(2 :: u32) AND 1 = 0" "(2 :: u32) AND 4 = 0" "cpu_cr2 (env_cpu ?E k') AND 0xFFFFF000 = 0x400000"
    by (simp_all add: env_quiet_def)
  with k'(3) obtain k'' where k'': "isr_handler ?E returns 14 2 k' = Some (Running k'')" "boot_task (sched_view k'') 8300 0 0"
    "\<forall>va. drop_bit 12 va \<in> {1, 0x400} \<longrightarrow> translate (pages_view k'') va = Some (0x1000 OR (va AND 0xFFF))" by blast
  have "drop_bit 12 (0x400028 :: u32) = 0x400" by (simp add: drop_bit_eq_div)
  then have "translate (pages_view k'') 0x400028 = Some 0x1028" using k''(3) [THEN spec, of "0x400028"] by simp
  moreover have "boot_task (sched_view k') 8300 2 0" using k'(2) by (simp add: kernel_loaded_facts(3) env_quiet_def)
  ultimately show ?thesis using k'(1) k''(1,2) by blast
qed

end
