(* ===== verification/ShellRuns.thy ===== *)
theory ShellRuns imports ShellLaws begin

text \<open>What single commands print, from the line that is typed to the screen.\<close>

section \<open>The state before a command\<close>

text \<open>
  The line \<open>t\<close> is at \<open>input\<close>, apart from the local copy that \<open>execute_command\<close> makes, and the names
  of the commands are where the compiler put them.
\<close>

definition line_ready :: "env \<Rightarrow> kernel \<Rightarrow> u32 \<Rightarrow> u8 list \<Rightarrow> bool" where
  "line_ready E k input t \<longleftrightarrow> cstr (kmem k) input t \<and> length t < 256
     \<and> apart 256 (object E ''execute_command.local_buffer'') 256 input
     \<and> (\<forall>(n, h)\<in>set commands. literal_ok E (object E ''execute_command.local_buffer'') (kmem k) n)"

lemma line_runs:
  assumes "line_ready E k input t" and "words t = w # ws" and "command_named w = Some h"
  shows "\<exists>argv m'. length argv = min 8 (Suc (length ws)) \<and> (\<forall>i<length argv. cstr m' (argv ! i) ((w # ws) ! i)
      \<and> (\<exists>d. argv ! i = object E ''execute_command.local_buffer'' + of_nat d \<and> d + length ((w # ws) ! i) < 256))
    \<and> (\<forall>a. 256 \<le> unat (a - object E ''execute_command.local_buffer'') \<longrightarrow> m' a = kmem k a)
    \<and> execute_command E input k = h E argv (set_kmem m' k)"
  using execute_runs [of k input t _ E] assms by (fastforce simp: line_ready_def)

lemma echo_named: "command_named (bytes_of ''echo'') = Some cmd_echo"
  and calc_named: "command_named (bytes_of ''calc'') = Some cmd_calc"
  by (simp_all add: command_named_def commands_def)

section \<open>Calculating\<close>

lemma print_at_cstr: "cstr (kmem k) p s \<Longrightarrow> print_at p c k = c (on_screen (vga_print s) k)"
  by (simp add: print_at_def print_string_cstr on_screen_def)

text \<open>What \<open>calc\<close> prints: the sum, difference or product modulo \<open>2\<^sup>3\<^sup>2\<close>, zero for an unknown operator, and nothing for a quotient.\<close>

definition calc_text :: "u8 \<Rightarrow> u32 \<Rightarrow> u32 \<Rightarrow> u8 list" where
  "calc_text oper a b =
     (if oper = of_char CHR ''+'' then utoa_text 10 (unat (a + b)) @ [10]
      else if oper = of_char CHR ''-'' then utoa_text 10 (unat (a - b)) @ [10]
      else if oper = of_char CHR ''*'' then utoa_text 10 (unat (a * b)) @ [10]
      else if oper = of_char CHR ''/'' then (if b \<noteq> 0 then [] else bytes_of ''Division by zero!\<newline>'')
      else [48, 10])"

lemma calc_prints_number:
  assumes "unat (object E ''cmd_calc.buf'') + 33 \<le> 4294967296"
  shows "\<exists>k'. Option.bind (utoa (kmem k) r (object E ''cmd_calc.buf'') 10) (\<lambda>m.
      print_at (object E ''cmd_calc.buf'') (\<lambda>k. returns (say ''\<newline>'' k)) (set_kmem m k)) = Some (Running k')
    \<and> kscreen k' = vga_print (utoa_text 10 (unat r) @ [10]) (kscreen k)"
proof -
  obtain m where m: "utoa (kmem k) r (object E ''cmd_calc.buf'') 10 = Some m" "cstr m (object E ''cmd_calc.buf'') (utoa_text 10 (unat r))"
    using utoa_cstr [of "object E ''cmd_calc.buf''" 10 "kmem k" r] assms by auto
  have "0 \<notin> set (utoa_text 10 (unat r))" by (rule zero_notin_utoa_text) simp_all
  then show ?thesis using m print_at_cstr [of "set_kmem m k" "object E ''cmd_calc.buf''"]
    by (simp add: returns_def say_def vga_print_append)
qed

lemma word_in_line: "w \<in> set (parts sep t) \<Longrightarrow> w \<noteq> [] \<and> set w \<subseteq> set t"
proof (induction "length t" arbitrary: t rule: less_induct)
  case less
  let ?u = "dropWhile (\<lambda>c. c = sep) t"
  let ?v = "dropWhile (\<lambda>c. c \<noteq> sep) ?u"
  have p: "parts sep t = (if ?u = [] then [] else takeWhile (\<lambda>c. c \<noteq> sep) ?u # parts sep ?v)"
    by (subst parts.simps) (simp add: Let_def)
  have u: "?u \<noteq> []" using less.prems p by (cases "?u = []") simp_all
  have su: "set ?u \<subseteq> set t" "set ?v \<subseteq> set ?u" "set (takeWhile (\<lambda>c. c \<noteq> sep) ?u) \<subseteq> set ?u"
    by (meson set_dropWhileD set_takeWhileD subsetI)+
  have ne: "takeWhile (\<lambda>c. c \<noteq> sep) ?u \<noteq> []"
    using hd_dropWhile [of "\<lambda>c. c = sep" t] u by (cases ?u) auto
  have "length ?u \<le> length t" "length ?v < length ?u"
    using hd_dropWhile [of "\<lambda>c. c = sep" t] u by (simp_all add: length_dropWhile_le) (cases ?u; simp add: length_dropWhile_le le_imp_less_Suc)
  then have l: "length ?v < length t" by linarith
  consider "w = takeWhile (\<lambda>c. c \<noteq> sep) ?u" | "w \<in> set (parts sep ?v)"
    using less.prems [unfolded p if_not_P [OF u]] by (meson set_ConsD)
  then show ?case
  proof cases
    case 1
    then show ?thesis using ne su by (metis subset_trans)
  next
    case 2
    from less.hyps [OF l 2] su show ?thesis by blast
  qed
qed

lemma divide_error_panics:
  "\<exists>k0 k'. divide_error E k = Some (Halted k') \<and> panic E (bytes_of ''CPU Exception'') k0 = Some (Halted k')
     \<and> kscreen k0 = vga_print (bytes_of ''EXCEPTION: Divide By Zero\<newline>'') (kscreen k)"
proof -
  define k0 where "k0 = say ''\<newline>'' (say (exception_messages ! 0) (say ''EXCEPTION: '' k))"
  obtain k' where k': "panic E (bytes_of ''CPU Exception'') k0 = Some (Halted k')" using panic_halts by blast
  have "divide_error E k = panic E (bytes_of ''CPU Exception'') k0"
    unfolding divide_error_def isr_handler_def Let_def k0_def by (simp del: vga_print.simps)
  moreover have split: "bytes_of ''EXCEPTION: Divide By Zero\<newline>'' = bytes_of ''EXCEPTION: '' @ bytes_of ''Divide By Zero'' @ bytes_of ''\<newline>''"
    by simp
  have z: "0 \<notin> set (bytes_of ''EXCEPTION: '')" "0 \<notin> set (bytes_of ''Divide By Zero'')" by simp_all
  have "kscreen k0 = vga_print (bytes_of ''EXCEPTION: Divide By Zero\<newline>'') (kscreen k)"
    unfolding split vga_print_append [OF z(1)] vga_print_append [OF z(2)] k0_def say_def kscreen_simps exception_messages_def nth_Cons_0 ..
  ultimately show ?thesis using k' by auto
qed

text \<open>
  C37. Calculating in the shell: the line \<open>calc a op b\<close> prints what the operator makes of the two numbers
  as \<open>atoi\<close> reads them, in 32-bit arithmetic.  A quotient is never printed; and the one that does not fit,
  of the least integer by -1, raises the divide error, which ends in a panic.
\<close>

theorem calc_prints:
  assumes line: "line_ready E k input t" and w: "words t = [bytes_of ''calc'', a, oper, b]"
    and buf: "unat (object E ''cmd_calc.buf'') + 33 \<le> 4294967296"
  shows "if hd oper = of_char CHR ''/'' \<and> dec_value 0 a = 0x80000000 \<and> dec_value 0 b = 0xFFFFFFFF
    then \<exists>k0 k'. execute_command E input k = Some (Halted k') \<and> panic E (bytes_of ''CPU Exception'') k0 = Some (Halted k')
      \<and> kscreen k0 = vga_print (bytes_of ''EXCEPTION: Divide By Zero\<newline>'') (kscreen k)
    else \<exists>k'. execute_command E input k = Some (Running k')
      \<and> kscreen k' = vga_print (calc_text (hd oper) (dec_value 0 a) (dec_value 0 b)) (kscreen k)"
proof -
  obtain argv m' where r: "length argv = min 8 (Suc (length [a, oper, b]))"
      "\<forall>i<length argv. cstr m' (argv ! i) ([bytes_of ''calc'', a, oper, b] ! i)"
    and run: "execute_command E input k = cmd_calc E argv (set_kmem m' k)"
    using line_runs [OF line w calc_named] by blast
  have argv: "length argv = 4" using r(1) by simp
  have s: "cstr m' (argv ! i) ([bytes_of ''calc'', a, oper, b] ! i)" if "i < 4" for i using r(2) argv that by simp
  have ab: "atoi m' (argv ! 1) = Some (dec_value 0 a)" "atoi m' (argv ! 3) = Some (dec_value 0 b)"
    using s [of 1] s [of 3] by (simp_all add: atoi_cstr)
  have "oper \<noteq> []" using word_in_line [of oper 32 t] w by simp
  then have c: "m' (argv ! 2) = hd oper" using s [of 2] by (cases oper) simp_all
  note num = calc_prints_number [OF buf, of "set_kmem m' k"]
  let ?c = "hd oper" and ?a = "dec_value 0 a" and ?b = "dec_value 0 b"
  note calc = cmd_calc_def argv ab [unfolded One_nat_def] c Let_def
  consider "?c = of_char CHR ''+''" | "?c = of_char CHR ''-''" | "?c = of_char CHR ''*''"
    | "?c = of_char CHR ''/''" "?a = 0x80000000 \<and> ?b = 0xFFFFFFFF" | "?c = of_char CHR ''/''" "\<not> (?a = 0x80000000 \<and> ?b = 0xFFFFFFFF)"
    | "?c \<noteq> of_char CHR ''+''" "?c \<noteq> of_char CHR ''-''" "?c \<noteq> of_char CHR ''*''" "?c \<noteq> of_char CHR ''/''" by blast
  then show ?thesis
  proof cases
    case 1
    then show ?thesis using num [of "?a + ?b"] run by (simp add: calc calc_text_def)
  next
    case 2
    then show ?thesis using num [of "?a - ?b"] run by (simp add: calc calc_text_def)
  next
    case 3
    then show ?thesis using num [of "?a * ?b"] run by (simp add: calc calc_text_def)
  next
    case 4
    then have "execute_command E input k = divide_error E (set_kmem m' k)" using run by (simp add: calc)
    with divide_error_panics [of E "set_kmem m' k"] 4 show ?thesis by simp
  next
    case 5
    then show ?thesis using run by (auto simp: calc calc_text_def returns_def say_def)
  next
    case 6
    then show ?thesis using num [of 0] run by (simp add: calc calc_text_def utoa_text_def)
  qed
qed

section \<open>Echo\<close>

lemma length_joined: "ws \<noteq> [] \<Longrightarrow> Suc (length (joined ws)) = (\<Sum>w\<leftarrow>ws. Suc (length w))"
proof (induction ws)
  case (Cons w ws)
  then show ?case by (cases "ws = []") (simp_all add: joined_Cons)
qed simp

lemma words_cut:
  assumes "words t \<noteq> []"
  shows "\<exists>w x. words t = w # words x \<and> (length w + Suc (length x) \<le> length t \<or> x = [] \<and> length w \<le> length t)"
proof -
  define u where "u = dropWhile (\<lambda>c. c = 32) t"
  define w v where "w = takeWhile (\<lambda>c. c \<noteq> 32) u" and "v = dropWhile (\<lambda>c. c \<noteq> 32) u"
  have u: "u \<noteq> []" using assms words_blank [of t] unfolding u_def by metis
  have wt: "words t = w # words v" using words_step [OF u_def [symmetric] u] by (simp add: w_def v_def)
  have "u = w @ v" by (simp add: w_def v_def)
  then have l: "length w + length v = length u" by simp
  have lu: "length u \<le> length t" unfolding u_def by (rule length_dropWhile_le)
  show ?thesis
  proof (cases v)
    case Nil
    then show ?thesis using wt l lu by (intro exI [of _ w] exI [of _ "[]"]) simp
  next
    case (Cons c x)
    have "c = 32" using hd_dropWhile [of "\<lambda>c. c \<noteq> 32" u] Cons unfolding v_def by auto
    then have "words v = words x" using Cons by (simp add: words_space)
    then show ?thesis using wt l lu Cons by (intro exI [of _ w] exI [of _ x]) simp
  qed
qed

lemma words_length: "(\<Sum>w\<leftarrow>words t. Suc (length w)) \<le> Suc (length t)"
proof (induction "length t" arbitrary: t rule: less_induct)
  case less
  show ?case
  proof (cases "words t = []")
    case False
    from words_cut [OF this] obtain w x where wt: "words t = w # words x"
      "length w + Suc (length x) \<le> length t \<or> x = [] \<and> length w \<le> length t" by blast
    then show ?thesis using less [of x] by auto
  qed simp
qed

lemma sum_take_le: "(\<Sum>w\<leftarrow>take n ws. Suc (length w)) \<le> (\<Sum>w\<leftarrow>ws. Suc (length w))"
  using append_take_drop_id [of n ws] by (metis le_add1 map_append sum_list_append)

lemma joined_words_length:
  assumes "words t = w # ws"
  shows "length (joined (take n ws)) \<le> length t"
proof (cases "take n ws = []")
  case False
  then show ?thesis using words_length [of t] length_joined [OF False] sum_take_le [of n ws] assms by simp
qed auto

text \<open>
  C36. Echo: a line \<open>echo w\<^sub>1 w\<^sub>2 \<dots>\<close> prints its arguments, at most seven, with one space between them however
  many the line had, and a new line.
\<close>

theorem echo_prints:
  assumes line: "line_ready E k input t" and w: "words t = bytes_of ''echo'' # ws"
    and ap: "apart 1024 (object E ''cmd_echo.buffer'') 256 (object E ''execute_command.local_buffer'')"
    and sp: "string_apart 1024 (object E ''cmd_echo.buffer'') (kmem k) (literal E '' '') [32]"
    and sp2: "apart 256 (object E ''execute_command.local_buffer'') 2 (literal E '' '')"
  shows "\<exists>k'. execute_command E input k = Some (Running k')
    \<and> kscreen k' = vga_print (joined (take 7 ws) @ [10]) (kscreen k)"
proof -
  let ?b = "object E ''cmd_echo.buffer''" and ?B = "object E ''execute_command.local_buffer''"
  obtain argv m' where r: "length argv = min 8 (Suc (length ws))"
      "\<forall>i<length argv. cstr m' (argv ! i) ((bytes_of ''echo'' # ws) ! i)
        \<and> (\<exists>d. argv ! i = ?B + of_nat d \<and> d + length ((bytes_of ''echo'' # ws) ! i) < 256)"
      "\<forall>a. 256 \<le> unat (a - ?B) \<longrightarrow> m' a = kmem k a"
    and run: "execute_command E input k = cmd_echo E argv (set_kmem m' k)"
    using line_runs [OF line w echo_named] by blast
  let ?as = "drop 1 argv" and ?ws = "take 7 ws" and ?m = "m'(?b := 0)"
  have la: "length ?as = length ?ws" using r(1) by simp
  have m: "?m a = m' a" if "1024 \<le> unat (a - ?b)" for a using that by auto
  have args: "string_apart 1024 ?b ?m (?as ! i) (?ws ! i)" if i: "i < length ?ws" for i
  proof -
    from i r(1) have "Suc i < length argv" by simp
    with r(2) i obtain d where d: "cstr m' (?as ! i) (?ws ! i)" "?as ! i = ?B + of_nat d" "d + length (?ws ! i) < 256"
      by (fastforce simp: nth_Cons')
    have "apart 1024 (?b + of_nat 0) (length (?ws ! i) + 1) (?B + of_nat d)"
      by (rule apart_part [OF ap]) (use d(3) in auto)
    then have "string_apart 1024 ?b m' (?as ! i) (?ws ! i)" using d by (simp add: string_apart_def)
    from string_apart_outside [OF this m] show ?thesis .
  qed
  have space: "string_apart 1024 ?b ?m (literal E '' '') [32]"
  proof -
    have "cstr m' (literal E '' '') [32]"
    proof (rule cstr_cong)
      show "cstr (kmem k) (literal E '' '') [32]" using sp by (simp add: string_apart_def)
      show "m' (literal E '' '' + of_nat i) = kmem k (literal E '' '' + of_nat i)" if "i \<le> length [32 :: u8]" for i
        using apart_outside [OF sp2, of i] that r(3) by simp
    qed
    then have "string_apart 1024 ?b m' (literal E '' '') [32]" using sp by (simp add: string_apart_def)
    from string_apart_outside [OF this m] show ?thesis .
  qed
  have len: "length ([] :: u8 list) + length (joined ?ws) < 1024"
    using joined_words_length [OF w, of 7] line by (simp add: line_ready_def)
  have "cstr ?m ?b []" by simp
  from join_args_joins [OF la args space this len] obtain m1 where
    m1: "join_args E ?b ?as ?m = Some m1" "cstr m1 ?b (joined ?ws)" by auto
  have "0 \<notin> set (joined ?ws)" using m1(2) by (simp add: cstr_read_bytes)
  then show ?thesis using run m1 print_at_cstr [of "set_kmem m1 (set_kmem m' k)" ?b "joined ?ws"]
    by (simp add: cmd_echo_def returns_def say_def vga_print_append)
qed

section \<open>Concrete lines\<close>

lemma words_Cons:
  "words (c # t) = (if c = 32 then words t else (c # takeWhile (\<lambda>c. c \<noteq> 32) t) # words (dropWhile (\<lambda>c. c \<noteq> 32) t))"
  using words_step [of "c # t" "c # t"] by (simp add: words_space)

text \<open>Strings in slots of 32 bytes from \<open>0x110000\<close> on.\<close>

definition slots :: "u8 list list \<Rightarrow> mem" where
  "slots ss a = (let q = unat a - 0x110000; i = q div 32; j = q mod 32
     in if 0x110000 \<le> unat a \<and> i < length ss \<and> j < length (ss ! i) then ss ! i ! j else 0)"

lemma cstr_at:
  assumes "\<And>j. j < length s \<Longrightarrow> m (p + of_nat j) = s ! j" and "m (p + of_nat (length s)) = 0" and "0 \<notin> set s"
  shows "cstr m p s"
  using assms
proof (induction s arbitrary: p)
  case (Cons c s)
  have "cstr m (p + 1) s"
  proof (rule Cons.IH)
    show "m (p + 1 + of_nat j) = s ! j" if "j < length s" for j
      using Cons.prems(1) [of "Suc j"] that by (simp add: add.assoc)
  qed (use Cons.prems in \<open>simp_all add: add.assoc\<close>)
  then show ?case using Cons.prems(1) [of 0] Cons.prems(3) by simp
qed simp

lemma slots_cstr:
  assumes "i < length ss" and "length (ss ! i) < 32" and "0 \<notin> set (ss ! i)" and "length ss \<le> 64"
  shows "cstr (slots ss) (of_nat (0x110000 + 32 * i)) (ss ! i)"
proof (rule cstr_at)
  have at: "slots ss (of_nat (0x110000 + 32 * i) + of_nat j) = (if j < length (ss ! i) then ss ! i ! j else 0)" if j: "j < 32" for j
  proof -
    have u: "unat (of_nat (0x110000 + 32 * i) + of_nat j :: u32) = 0x110000 + 32 * i + j"
      using assms(1,4) j unat_of_nat32 [of "0x110000 + 32 * i + j"] by simp
    have "0x110000 + 32 * i + j - 0x110000 = j + i * 32" by simp
    with j have "(0x110000 + 32 * i + j - 0x110000) div 32 = i" "(0x110000 + 32 * i + j - 0x110000) mod 32 = j"
      by (simp_all only: div_mult_self1 mod_mult_self1) simp_all
    then show ?thesis using assms(1) unfolding slots_def Let_def u by simp
  qed
  show "slots ss (of_nat (0x110000 + 32 * i) + of_nat j) = ss ! i ! j" if "j < length (ss ! i)" for j
    using at [of j] assms(2) that by simp
  show "slots ss (of_nat (0x110000 + 32 * i) + of_nat (length (ss ! i))) = 0" using at [of "length (ss ! i)"] assms(2) by simp
qed (use assms in simp)

text \<open>
  The names of the commands and the space are in the slots, the line is at \<open>0x120000\<close>, its copy
  at \<open>0x130000\<close> and the buffer of \<open>echo\<close> at \<open>0x140000\<close>.
\<close>

definition some_literals :: "string list" where "some_literals = map fst commands @ ['' '']"

fun place_of :: "string \<Rightarrow> string list \<Rightarrow> nat" where
  "place_of s [] = 0"
| "place_of s (x # xs) = (if x = s then 0 else Suc (place_of s xs))"

definition shell_env :: env where
  "shell_env = (env_quiet 0 (32, 0))\<lparr>literal := \<lambda>s. of_nat (0x110000 + 32 * place_of s some_literals),
     object := \<lambda>s. if s = ''execute_command.local_buffer'' then of_nat 0x130000 else of_nat 0x140000\<rparr>"

lemma literal_at: "literal shell_env s = of_nat (0x110000 + 32 * place_of s some_literals)"
  by (simp add: shell_env_def)

definition typed :: "u8 list \<Rightarrow> kernel" where
  "typed t = set_kmem (write_bytes (slots (map bytes_of some_literals)) (of_nat 0x120000) (t @ [0])) kernel_start"

lemma place_of_nth: "s \<in> set xs \<Longrightarrow> place_of s xs < length xs \<and> xs ! place_of s xs = s"
  by (induction xs) auto

lemma some_literals_short: "\<forall>s\<in>set some_literals. length s < 32 \<and> 0 \<notin> set (bytes_of s)" "length some_literals = 34"
  by (simp_all add: some_literals_def commands_def)

lemma typed_literal:
  assumes "s \<in> set some_literals" and "length t < 256"
  shows "cstr (kmem (typed t)) (literal shell_env s) (bytes_of s)"
    and "0x110000 + 32 * place_of s some_literals + length s + 1 \<le> 0x120000"
proof -
  let ?i = "place_of s some_literals" and ?ss = "map bytes_of some_literals"
  have i: "?i < 34" "some_literals ! ?i = s" using place_of_nth [OF assms(1)] some_literals_short(2) by auto
  have s: "length s < 32" "0 \<notin> set (bytes_of s)" using some_literals_short(1) assms(1) by auto
  show "0x110000 + 32 * ?i + length s + 1 \<le> 0x120000" using i s by simp
  have "cstr (slots ?ss) (of_nat (0x110000 + 32 * ?i)) (?ss ! ?i)"
    using i s some_literals_short(2) by (intro slots_cstr) simp_all
  then have c: "cstr (slots ?ss) (literal shell_env s) (bytes_of s)" using i some_literals_short(2) by (simp add: shell_env_def)
  show "cstr (kmem (typed t)) (literal shell_env s) (bytes_of s)"
  proof (rule cstr_cong [OF c])
    fix j assume "j \<le> length (bytes_of s)"
    moreover have "apart 256 (of_nat 0x120000) (length s + 1) (literal shell_env s)"
      unfolding literal_at using s i by (intro apart_of_nat) auto
    ultimately have "length (t @ [0]) \<le> unat (literal shell_env s + of_nat j - of_nat 0x120000)"
      using apart_outside [of 256 "of_nat 0x120000" "length s + 1" "literal shell_env s" j] s assms(2) by simp
    then show "kmem (typed t) (literal shell_env s + of_nat j) = slots ?ss (literal shell_env s + of_nat j)"
      by (simp add: typed_def shell_env_def write_bytes_outside)
  qed
qed

lemma typed_apart:
  assumes "s \<in> set some_literals" and "0x130000 \<le> a" and "a \<le> 0x140000"
  shows "apart 1024 (of_nat a) (length s + 1) (literal shell_env s)"
proof -
  have s: "length s < 32" using some_literals_short(1) assms(1) by auto
  have "place_of s some_literals < 34" using place_of_nth [OF assms(1)] some_literals_short(2) by auto
  then show ?thesis unfolding literal_at using s assms(2,3) by (intro apart_of_nat) auto
qed

lemma apart_shorter: "apart n a k b \<Longrightarrow> n' \<le> n \<Longrightarrow> apart n' a k b"
  by (simp add: apart_def)

lemma typed_ready:
  assumes "length t < 256" and "0 \<notin> set t"
  shows "line_ready shell_env (typed t) (of_nat 0x120000) t"
proof -
  have B: "object shell_env ''execute_command.local_buffer'' = of_nat 0x130000" by (simp add: shell_env_def)
  have "cstr (kmem (typed t)) (of_nat 0x120000) t"
    unfolding typed_def kmem_simps using assms by (intro cstr_write_bytes) auto
  moreover have "apart 256 (of_nat 0x130000) 256 (of_nat 0x120000)" by (intro apart_of_nat) auto
  moreover have "literal_ok shell_env (of_nat 0x130000) (kmem (typed t)) n" if "(n, h) \<in> set commands" for n h
  proof -
    have n: "n \<in> set some_literals" using that by (force simp: some_literals_def)
    have "apart 256 (of_nat 0x130000) (length n + 1) (literal shell_env n)"
      by (rule apart_shorter [OF typed_apart [OF n]]) auto
    then show ?thesis using typed_literal(1) [OF n assms(1)] some_literals_short(1) n by (auto simp: literal_ok_def)
  qed
  ultimately show ?thesis using assms(1) unfolding line_ready_def B by blast
qed

lemma typed_screen [simp]: "kscreen (typed t) = kscreen kernel_start"
  by (simp add: typed_def)

lemma calc_prints_witness:
  "\<exists>k'. execute_command shell_env (of_nat 0x120000) (typed (bytes_of ''calc 2 - 3'')) = Some (Running k')
    \<and> kscreen k' = vga_print (bytes_of ''4294967295\<newline>'') (kscreen kernel_start)"
proof -
  let ?t = "bytes_of ''calc 2 - 3''"
  have line: "line_ready shell_env (typed ?t) (of_nat 0x120000) ?t" by (rule typed_ready) simp_all
  have w: "words ?t = [bytes_of ''calc'', [50], [45], [51]]" by (simp add: words_Cons)
  have "unat (object shell_env ''cmd_calc.buf'') + 33 \<le> 4294967296" by (simp add: shell_env_def)
  moreover have "hd [45] \<noteq> (of_char CHR ''/'' :: u8)" by simp
  ultimately have "\<exists>k'. execute_command shell_env (of_nat 0x120000) (typed ?t) = Some (Running k')
    \<and> kscreen k' = vga_print (calc_text 45 2 3) (kscreen kernel_start)" using calc_prints [OF line w] by simp
  moreover have "calc_text 45 2 3 = bytes_of ''4294967295\<newline>''"
  proof -
    have u: "unat (2 - 3 :: u32) = 4294967295" by (simp add: unsigned_minus_1_eq_mask mask_eq_exp_minus_1)
    have "utoa_text 10 4294967295 = bytes_of ''4294967295''"
      by (simp add: utoa_text_def utoa_digit_def lsb_digits.simps)
    moreover have "calc_text 45 2 3 = utoa_text 10 (unat (2 - 3 :: u32)) @ [10]" unfolding calc_text_def by simp
    ultimately show ?thesis unfolding u by simp
  qed
  ultimately show ?thesis by (simp only:)
qed

lemma echo_prints_witness:
  "\<exists>k'. execute_command shell_env (of_nat 0x120000) (typed (bytes_of '' echo  hi   you'')) = Some (Running k')
    \<and> kscreen k' = vga_print (bytes_of ''hi you\<newline>'') (kscreen kernel_start)"
proof -
  let ?t = "bytes_of '' echo  hi   you''"
  have line: "line_ready shell_env (typed ?t) (of_nat 0x120000) ?t" by (rule typed_ready) simp_all
  have w: "words ?t = bytes_of ''echo'' # [[104, 105], [121, 111, 117]]" by (simp add: words_Cons)
  have b: "object shell_env ''cmd_echo.buffer'' = of_nat 0x140000" "object shell_env ''execute_command.local_buffer'' = of_nat 0x130000"
    by (simp_all add: shell_env_def)
  have ap: "apart 1024 (of_nat 0x140000) 256 (of_nat 0x130000)" by (intro apart_of_nat) auto
  have sl: "'' '' \<in> set some_literals" by (simp add: some_literals_def)
  have sp: "string_apart 1024 (of_nat 0x140000) (kmem (typed ?t)) (literal shell_env '' '') [32]"
    using typed_apart [OF sl, of "0x140000"] typed_literal(1) [OF sl, of ?t] by (simp add: string_apart_def)
  have sp2: "apart 256 (of_nat 0x130000) 2 (literal shell_env '' '')"
    using apart_shorter [OF typed_apart [OF sl, of "0x130000"], of 256] by (simp add: numeral_2_eq_2)
  from echo_prints [OF line w ap [folded b] sp [folded b] sp2 [folded b]]
  have "\<exists>k'. execute_command shell_env (of_nat 0x120000) (typed ?t) = Some (Running k')
    \<and> kscreen k' = vga_print (joined (take 7 [[104, 105], [121, 111, 117]]) @ [10]) (kscreen kernel_start)" by (simp only: typed_screen)
  moreover have "joined (take 7 [[104, 105], [121, 111, 117]]) @ [10] = bytes_of ''hi you\<newline>''" by simp
  ultimately show ?thesis by (simp only:)
qed

lemma parse_arguments_words_witness:
  "\<exists>argv m'. parse_arguments (of_nat 0x120000) (kmem (typed (bytes_of '' echo  hi''))) = Some (argv, m') \<and> length argv = 2
     \<and> cstr m' (argv ! 0) (bytes_of ''echo'') \<and> cstr m' (argv ! 1) (bytes_of ''hi'')"
proof -
  let ?t = "bytes_of '' echo  hi''"
  have "cstr (kmem (typed ?t)) (of_nat 0x120000) ?t" using typed_ready [of ?t] by (simp add: line_ready_def)
  moreover have w: "words ?t = [bytes_of ''echo'', bytes_of ''hi'']" by (simp add: words_Cons)
  ultimately obtain argv m' where r: "parse_arguments (of_nat 0x120000) (kmem (typed ?t)) = Some (argv, m')"
      "length argv = min 8 (length [bytes_of ''echo'', bytes_of ''hi''])"
      "\<forall>i<length argv. cstr m' (argv ! i) ([bytes_of ''echo'', bytes_of ''hi''] ! i)"
    using parse_arguments_words [of "kmem (typed ?t)" "of_nat 0x120000" ?t] unfolding w by blast
  have "length argv = 2" using r(2) by simp
  moreover have "cstr m' (argv ! 0) (bytes_of ''echo'')" "cstr m' (argv ! 1) (bytes_of ''hi'')"
    using r(3) \<open>length argv = 2\<close> by (simp_all add: numeral_2_eq_2 All_less_Suc2)
  ultimately show ?thesis using r(1) by blast
qed

lemma execute_command_runs_witness:
  "\<exists>m'. execute_command shell_env (of_nat 0x120000) (typed (bytes_of ''mkdir x'')) = returns (say ''Unknown command\<newline>'' (set_kmem m' kernel_start))"
proof -
  let ?t = "bytes_of ''mkdir x''"
  have line: "line_ready shell_env (typed ?t) (of_nat 0x120000) ?t" by (rule typed_ready) simp_all
  have w: "words ?t = [bytes_of ''mkdir'', bytes_of ''x'']" by (simp add: words_Cons)
  have n: "command_named (bytes_of ''mkdir'') = None" by (simp add: command_named_def commands_def)
  have tk: "set_kmem m (typed t) = set_kmem m kernel_start" for m t by (simp add: typed_def set_kmem_def set_fmem_def)
  obtain m' where "execute_command shell_env (of_nat 0x120000) (typed ?t) = (if words ?t = [] then returns (set_kmem m' (typed ?t))
      else case command_named (hd (words ?t)) of Some h \<Rightarrow> None | None \<Rightarrow> returns (say ''Unknown command\<newline>'' (set_kmem m' (typed ?t))))"
    using execute_command_runs [of "typed ?t" "of_nat 0x120000" ?t, OF _ _ refl] line unfolding line_ready_def w list.sel n option.case by blast
  then show ?thesis unfolding w list.sel n option.case tk by auto
qed

end
