(* ===== verification/ShellFiles.thy ===== *)
theory ShellFiles imports ShellOk ShellRuns begin

text \<open>
  The shell on files: what \<open>rd\<close> makes of a line, from the words that are typed through the walk over the
  path, the descriptor and the file to the screen.
\<close>

section \<open>The text that is printed\<close>

text \<open>
  The buffer of \<open>cmd_rd\<close> has 256 bytes, all zero before the read of at most 255: it prints the file up
  to its first zero byte.
\<close>

definition rd_text :: "fs \<Rightarrow> (nat \<rightharpoonup> anode) \<Rightarrow> nat \<Rightarrow> u8 list \<Rightarrow> u8 list" where
  "rd_text s N r f = (case (walk N (mount_target s) r (path_parts f), lowest_free s) of
     (Some q, Some i) \<Rightarrow> takeWhile (\<lambda>c. c \<noteq> 0) (take 255 (a_bytes (the (N q)))) @ [10]
   | _ \<Rightarrow> bytes_of ''File not found\<newline>'')"

lemma cstr_takeWhile:
  assumes "read_bytes m p (length x) = x" and "m (p + of_nat (length x)) = 0"
  shows "cstr m p (takeWhile (\<lambda>c. c \<noteq> 0) x)"
  using assms
proof (induction x arbitrary: p)
  case (Cons c x)
  have "cstr m (p + 1) (takeWhile (\<lambda>c. c \<noteq> 0) x)"
    by (rule Cons.IH) (use Cons.prems in \<open>simp_all add: add.assoc\<close>)
  then show ?case using Cons.prems(1) by simp
qed simp

lemma buffer_cstr:
  assumes t: "touches (memset m (ad b) 0 256) m' {b..<b + length x}" and x: "read_bytes m' (ad b) (length x) = x" "length x < 256"
    and b: "b + 256 \<le> 4294967296"
  shows "cstr m' (ad b) (takeWhile (\<lambda>c. c \<noteq> 0) x)"
proof (rule cstr_takeWhile [OF x(1)])
  have "m' (ad (b + length x)) = memset m (ad b) 0 256 (ad (b + length x))"
    using t x(2) b by (simp add: touches_def)
  also have "\<dots> = write_bytes m (ad b) (replicate 256 0) (ad b + of_nat (length x))" by (simp add: memset_correct ad_def)
  also have "\<dots> = replicate 256 0 ! length x" by (rule write_bytes_inside) (use x(2) in auto)
  finally show "m' (ad b + of_nat (length x)) = 0" using x(2) by (simp add: ad_def)
qed

lemma used_after_close:
  assumes "lowest_free s = Some i" and "i < length (fd_table s)"
  shows "map fd_used ((fd_table s)[i := d\<lparr>fd_used := False\<rparr>]) = map fd_used (fd_table s)"
  using assms by (intro nth_equalityI) (auto simp: nth_list_update lowest_free_def find_Some_iff)

lemma on_screen_fs:
  "fs_ok (kfs k) bs e N \<Longrightarrow> fs_ok (kfs (Kernel.on_screen f k)) bs e N" "fd_table (kfs (Kernel.on_screen f k)) = fd_table (kfs k)"
  by (auto simp: fs_ok_def fs_refs_def heap_ok_def Kernel.on_screen_def fmem_def)

section \<open>Reading\<close>

lemma rd_runs:
  assumes ok: "fs_ok (kfs k) bs e N" and r: "vfs_root (kfs k) = ad r" "r \<in> dom N"
    and f: "2 \<le> length argv" "cstr (kmem k) (argv ! 1) f" "\<forall>c\<in>set (path_parts f). length c < 64"
    and pt: "part_at (kfs k) = ad pt" "off_heap pt 64" "pt + 64 \<le> 4294967296"
    and ap: "apart 64 (ad pt) (length f + 1) (argv ! 1)"
    and b: "object E ''cmd_rd.buffer'' = ad b" "off_heap b 256" "b + 256 \<le> 4294967296"
  shows "\<exists>k'. cmd_rd E argv k = Some (Running k') \<and> kscreen k' = vga_print (rd_text (kfs k) N r f) (kscreen k)
    \<and> fs_ok (kfs k') bs e N \<and> map fd_used (fd_table (kfs k')) = map fd_used (fd_table (kfs k))"
proof -
  let ?s = "kfs k" and ?w = "walk N (mount_target (kfs k)) r (path_parts f)"
  from sys_open_runs [OF ok r f(2) [unfolded kmem_def] f(3) pt ap [folded pt(1)]] obtain m s where
    o: "sys_open (argv ! 1) ?s = Some (Ret (case (?w, lowest_free ?s) of (Some q, Some i) \<Rightarrow> int i | _ \<Rightarrow> -1, s))"
      "fs_ok s bs e N" "s = (set_fmem m ?s)\<lparr>fd_table := (case (?w, lowest_free ?s) of
        (Some q, Some i) \<Rightarrow> (fd_table ?s)[i := \<lparr>fd_used = True, fd_node = ad q, fd_offset = 0\<rparr>] | _ \<Rightarrow> fd_table ?s)\<rparr>" by blast
  have scr: "screen (fheap s) = kscreen k" using same_screen_Ret [OF open_screen o(1)] by (simp add: kscreen_def)
  have argc: "\<not> length argv < 2" using f(1) by simp
  show ?thesis
  proof (cases "(?w, lowest_free ?s)")
    case (Pair w l)
    show ?thesis
    proof (cases "w = None \<or> l = None")
      case True
      then have "sys_open (argv ! 1) ?s = Some (Ret (-1, s))" "fd_table s = fd_table ?s" "rd_text ?s N r f = bytes_of ''File not found\<newline>''"
        using o Pair by (auto simp: rd_text_def split: option.splits)
      then show ?thesis using argc scr o(2) on_screen_fs by (simp add: cmd_rd_def with_fs_def returns_def say_def)
    next
      case False
      then obtain q i where qi: "?w = Some q" "lowest_free ?s = Some i" using Pair by auto
      have q: "q \<in> dom N" using walk_dom [OF ok r(2) qi(1)] .
      then obtain a where a: "N q = Some a" by auto
      have len: "length (fd_table ?s) = 32" using ok by (simp add: fs_ok_def fs_refs_def)
      have i: "i < 32" using qi(2) by (auto simp: lowest_free_def find_Some_iff)
      let ?d = "\<lparr>fd_used = True, fd_node = ad q, fd_offset = 0\<rparr>"
      have op: "sys_open (argv ! 1) ?s = Some (Ret (int i, s))" and tab: "fd_table s = (fd_table ?s)[i := ?d]"
        using o(1,3) qi by simp_all
      let ?m = "memset (fmem s) (ad b) 0 256"
      define s1 where "s1 = set_fmem ?m s"
      have t1: "touches (fmem s) ?m {b..<b + 256}"
        unfolding memset_correct by (rule touches_write) (use b(3) in auto)
      have ok1: "fs_ok s1 bs e N" unfolding s1_def by (rule fs_touch_outside [OF o(2) t1 off_heap_disjoint [OF b(2)]])
      have d1: "fd_table s1 ! i = ?d" "fd_valid (int i) s1" using tab len i by (simp_all add: s1_def fd_valid_def)
      define s2 where "s2 = snd (sys_seek (int i) 0 s1)"
      have s2: "s2 = set_fd i (\<lambda>d. d\<lparr>fd_offset := 0\<rparr>) s1" using d1(2) by (simp add: s2_def sys_seek_def)
      have ok2: "fs_ok s2 bs e N" unfolding s2 by (rule fs_set_fd [OF ok1]) (use i d1 a in auto)
      have d2: "fd_table s2 ! nat (int i) = ?d" "fd_valid (int i) s2" "fd_table s2 = fd_table s"
        using tab len i d1 by (simp_all add: s2 s1_def fd_valid_def)
      define x where "x = take 255 (a_bytes a)"
      have u: "unat (256 - 1 :: u32) = 255" by simp
      have x: "x = take (unat (256 - 1 :: u32)) (drop (unat (fd_offset ?d)) (a_bytes a))" by (simp add: x_def)
      have out: "off_heap b (unat (256 - 1 :: u32))" "b + unat (256 - 1 :: u32) \<le> 4294967296"
        unfolding u using b(2,3) by (auto simp: off_heap_def)
      have sz: "unat (fd_offset ?d) + unat (256 - 1 :: u32) \<le> 0x7FFFFFFF" by simp
      have nd: "fd_node ?d = ad q" by simp
      from sys_read_runs [OF ok2 d2(2,1) nd a sz out x] obtain s3 where
        rd: "sys_read (int i) (ad b) (256 - 1) s2 = Some (Ret (int (length x), s3))" "read_bytes (fmem s3) (ad b) (length x) = x"
          "fs_ok s3 bs e N" "fd_table s3 = (fd_table s2)[i := ?d\<lparr>fd_offset := 0 + of_nat (length x)\<rparr>]"
          "touches (fmem s2) (fmem s3) {b..<b + length x}" by auto
      have scr3: "screen (fheap s3) = kscreen k"
        using same_screen_Ret [OF sys_read_screen rd(1)] scr by (simp add: s2 s1_def set_fmem_def)
      have c: "cstr (fmem s3) (ad b) (takeWhile (\<lambda>c. c \<noteq> 0) x)"
      proof (rule buffer_cstr [OF _ rd(2) _ b(3)])
        show "touches ?m (fmem s3) {b..<b + length x}" using rd(5) by (simp add: s2 s1_def)
      qed (simp add: x_def)
      have text_is: "rd_text ?s N r f = takeWhile (\<lambda>c. c \<noteq> 0) x @ [10]" using qi a by (simp add: rd_text_def x_def)
      have z: "0 \<notin> set (takeWhile (\<lambda>c. c \<noteq> 0) x)" by (auto dest: set_takeWhileD)
      define k3 where "k3 = k\<lparr>kfs := s3\<rparr>"
      have k3: "kmem k3 = fmem s3" "kscreen k3 = kscreen k" "kfs k3 = s3" using scr3 by (simp_all add: k3_def)
      have "cmd_rd E argv k = (if int (length x) > 0 then print_at (ad b) (\<lambda>k. returns (close_fd (int i) (say ''\<newline>'' k))) k3
          else returns (close_fd (int i) (say ''\<newline>'' k3)))"
        using argc op rd(1) by (simp add: cmd_rd_def with_fs_def b(1) Let_def seek_start_def set_kmem_def s2_def s1_def kmem_def k3_def)
      also have "\<dots> = Some (Running (close_fd (int i) (Kernel.on_screen (vga_print (rd_text ?s N r f)) k3)))"
        using print_at_cstr [of k3 "ad b"] c k3(1) unfolding text_is vga_print_append [OF z]
        by (cases "x = []") (simp_all add: returns_def say_def Kernel.on_screen_def kscreen_def)
      finally have run: "cmd_rd E argv k = Some (Running (close_fd (int i) (Kernel.on_screen (vga_print (rd_text ?s N r f)) k3)))" .
      show ?thesis
      proof (intro exI conjI)
        show "kscreen (close_fd (int i) (Kernel.on_screen (vga_print (rd_text ?s N r f)) k3)) = vga_print (rd_text ?s N r f) (kscreen k)"
          using k3(2) by (simp add: close_fd_def kscreen_def Kernel.on_screen_def)
        have ok4: "fs_ok (kfs (Kernel.on_screen (vga_print (rd_text ?s N r f)) k3)) bs e N" using on_screen_fs(1) rd(3) by (simp add: k3(3))
        show "fs_ok (kfs (close_fd (int i) (Kernel.on_screen (vga_print (rd_text ?s N r f)) k3))) bs e N"
          unfolding close_fd_def sys_close_def using i fs_set_fd [OF ok4, of i "\<lambda>d. d\<lparr>fd_used := False\<rparr>"] by simp
        have "fd_table (kfs (close_fd (int i) (Kernel.on_screen (vga_print (rd_text ?s N r f)) k3)))
            = (fd_table ?s)[i := \<lparr>fd_used = True, fd_node = ad q, fd_offset = of_nat (length x)\<rparr>\<lparr>fd_used := False\<rparr>]"
          using i len rd(4) d2(3) tab by (simp add: close_fd_def sys_close_def on_screen_fs(2) k3(3))
        then show "map fd_used (fd_table (kfs (close_fd (int i) (Kernel.on_screen (vga_print (rd_text ?s N r f)) k3)))) = map fd_used (fd_table ?s)"
          using used_after_close [OF qi(2), of "\<lparr>fd_used = True, fd_node = ad q, fd_offset = of_nat (length x)\<rparr>"] i len by simp
      qed (rule run)
    qed
  qed
qed

lemma rd_named: "command_named (bytes_of ''rd'') = Some cmd_rd"
  by (simp add: command_named_def commands_def)

text \<open>
  C6. Reading a file in the shell: the line \<open>rd f \<dots>\<close> walks the path \<open>f\<close> over the tree and the mounts, opens
  the node on the lowest free descriptor and prints its first 255 bytes, up to the first zero, and a new
  line; without a node or a free descriptor it prints that the file was not found.  The tree and the files
  are as before, and no descriptor stays open.
\<close>

theorem rd_prints:
  assumes line: "line_ready E k input t" and w: "words t = bytes_of ''rd'' # f # ws"
    and ok: "fs_ok (kfs k) bs e N" and r: "vfs_root (kfs k) = ad r" "r \<in> dom N"
    and short: "\<forall>c\<in>set (path_parts f). length c < 64"
    and pt: "part_at (kfs k) = ad pt" "off_heap pt 64" "pt + 64 \<le> 4294967296"
    and lb: "object E ''execute_command.local_buffer'' = ad l" "off_heap l 256" "l + 256 \<le> 4294967296" "pt + 64 \<le> l \<or> l + 256 \<le> pt"
    and b: "object E ''cmd_rd.buffer'' = ad b" "off_heap b 256" "b + 256 \<le> 4294967296"
  shows "\<exists>k'. execute_command E input k = Some (Running k') \<and> kscreen k' = vga_print (rd_text (kfs k) N r f) (kscreen k)
    \<and> fs_ok (kfs k') bs e N \<and> map fd_used (fd_table (kfs k')) = map fd_used (fd_table (kfs k))"
proof -
  obtain argv m' where args: "length argv = min 8 (Suc (length (f # ws)))"
      "\<forall>i<length argv. cstr m' (argv ! i) ((bytes_of ''rd'' # f # ws) ! i)
        \<and> (\<exists>d. argv ! i = ad l + of_nat d \<and> d + length ((bytes_of ''rd'' # f # ws) ! i) < 256)"
      "\<forall>a. 256 \<le> unat (a - ad l) \<longrightarrow> m' a = kmem k a"
    and run: "execute_command E input k = cmd_rd E argv (set_kmem m' k)"
    using line_runs [OF line w rd_named] unfolding lb(1) by blast
  have l2: "2 \<le> length argv" using args(1) by simp
  then have "1 < length argv" by simp
  with args(2) obtain d where f: "cstr m' (argv ! 1) f" "argv ! 1 = ad l + of_nat d" "d + length f < 256" by fastforce
  have "apart 64 (ad pt) 256 (ad l)" unfolding ad_def by (rule apart_of_nat) (use pt(3) lb(3,4) in auto)
  from apart_part [OF this, of 0 64 d "length f + 1"] f(3) have ap: "apart 64 (ad pt) (length f + 1) (argv ! 1)" unfolding f(2) by simp
  have t: "touches (fmem (kfs k)) m' {l..<l + 256}"
    unfolding touches_def
  proof (intro allI impI)
    fix y :: nat assume y: "y < 4294967296" "y \<notin> {l..<l + 256}"
    have "apart 256 (ad l) 1 (ad y)" unfolding ad_def by (rule apart_of_nat) (use y lb(3) in auto)
    then show "m' (ad y) = fmem (kfs k) (ad y)" using args(3) by (simp add: apart_def kmem_def)
  qed
  have ok': "fs_ok (kfs (set_kmem m' k)) bs e N"
    using fs_touch_outside [OF ok t off_heap_disjoint [OF lb(2)]] by (simp add: set_kmem_def)
  have "mount_target (kfs (set_kmem m' k)) = mount_target (kfs k)"
    by (rule ext) (simp add: set_kmem_def set_fmem_def mount_target_def)
  then have same: "vfs_root (kfs (set_kmem m' k)) = ad r" "part_at (kfs (set_kmem m' k)) = ad pt"
      "fd_table (kfs (set_kmem m' k)) = fd_table (kfs k)" "rd_text (kfs (set_kmem m' k)) N r f = rd_text (kfs k) N r f"
    using r(1) pt(1) by (simp_all add: set_kmem_def set_fmem_def rd_text_def lowest_free_def)
  have f': "cstr (kmem (set_kmem m' k)) (argv ! 1) f" using f(1) by simp
  from rd_runs [OF ok' same(1) r(2) l2 f' short same(2) pt(2,3) ap b] show ?thesis using run by (simp add: same)
qed

section \<open>A concrete line\<close>

text \<open>The strings of the shell, the line and its copy laid over the memory of a state with one file.\<close>

definition overlay :: "mem \<Rightarrow> mem \<Rightarrow> mem" where
  "overlay m m' a = (if 0x110000 \<le> unat a \<and> unat a < 0x150000 then m a else m' a)"

definition files_kernel :: "fs \<Rightarrow> u8 list \<Rightarrow> kernel" where
  "files_kernel s t = kernel_start\<lparr>kfs := set_fmem (overlay (kmem (typed t)) (fmem s)) s\<rparr>"

lemma files_cstr:
  assumes "cstr (kmem (typed t)) (of_nat a) u" and "0x110000 \<le> a" and "a + length u < 0x150000"
  shows "cstr (kmem (files_kernel s t)) (of_nat a) u"
proof (rule cstr_cong [OF assms(1)])
  fix i assume "i \<le> length u"
  then have "unat (of_nat a + of_nat i :: u32) = a + i" using assms(3) unat_of_nat32 [of "a + i"] by simp
  with assms(2,3) \<open>i \<le> length u\<close> show "kmem (files_kernel s t) (of_nat a + of_nat i) = kmem (typed t) (of_nat a + of_nat i)"
    by (simp add: files_kernel_def overlay_def)
qed

lemma files_ready:
  assumes "line_ready shell_env (typed t) (of_nat 0x120000) t"
  shows "line_ready shell_env (files_kernel s t) (of_nat 0x120000) t"
proof -
  have t: "cstr (kmem (typed t)) (of_nat 0x120000) t" "length t < 256" using assms by (simp_all add: line_ready_def)
  have "cstr (kmem (files_kernel s t)) (literal shell_env n) (bytes_of n)" if "(n, h) \<in> set commands" for n h
  proof -
    have n: "n \<in> set some_literals" using that by (force simp: some_literals_def)
    show ?thesis unfolding literal_at
      by (rule files_cstr [OF typed_literal(1) [OF n t(2), unfolded literal_at]]) (use typed_literal(2) [OF n t(2)] in auto)
  qed
  moreover have "cstr (kmem (files_kernel s t)) (of_nat 0x120000) t" by (rule files_cstr [OF t(1)]) (use t(2) in auto)
  ultimately show ?thesis using assms by (fastforce simp: line_ready_def literal_ok_def)
qed

lemma rd_prints_witness:
  "\<exists>k k'. execute_command shell_env (of_nat 0x120000) k = Some (Running k')
    \<and> cstr (kmem k) (of_nat 0x120000) (bytes_of ''rd /tmp'') \<and> kscreen k' = vga_print (bytes_of ''tmp\<newline>'') (kscreen k)"
proof -
  obtain s bs e r c f where s: "fs_ok s bs e [c \<mapsto> f, r \<mapsto> (empty_node [47] VFS_DIR)\<lparr>a_kids := [c]\<rparr>]"
      "a_name f = [116, 109, 112]" "a_bytes f = [116, 109, 112]" "r \<noteq> c" "vfs_root s = ad r" "part_at s = ad 0x102000" "mount_count s = 0"
      "fd_table s = (replicate 32 \<lparr>fd_used = False, fd_node = 0, fd_offset = 0\<rparr>)[0 := \<lparr>fd_used = True, fd_node = ad c, fd_offset = 0\<rparr>]"
    by (rule one_file)
  let ?t = "bytes_of ''rd /tmp''" and ?N = "[c \<mapsto> f, r \<mapsto> (empty_node [47] VFS_DIR)\<lparr>a_kids := [c]\<rparr>]"
  define k where "k = files_kernel s ?t"
  have t: "touches (fmem s) (overlay (kmem (typed ?t)) (fmem s)) {0x110000..<0x150000}"
    by (auto simp: touches_def overlay_def ad_def unat_of_nat32)
  have "off_heap 0x110000 0x40000" by simp
  from off_heap_disjoint [OF this] have "{0x110000..<0x150000} \<inter> heap_area = {}" by simp
  from fs_touch_outside [OF s(1) t this] have ok: "fs_ok (kfs k) bs e ?N" by (simp add: k_def files_kernel_def)
  have line: "line_ready shell_env k (of_nat 0x120000) ?t"
    unfolding k_def by (rule files_ready [OF typed_ready]) simp_all
  have w: "words ?t = bytes_of ''rd'' # [47, 116, 109, 112] # []" by (simp add: words_Cons)
  have k: "vfs_root (kfs k) = ad r" "part_at (kfs k) = ad 0x102000" "mount_count (kfs k) = 0" "fd_table (kfs k) = fd_table s"
    using s(5-7) by (simp_all add: k_def files_kernel_def set_fmem_def)
  have mt: "mount_target (kfs k) x = x" for x by (simp add: mount_target_def k(3))
  have wk: "walk ?N (mount_target (kfs k)) r (path_parts [47, 116, 109, 112]) = Some c"
    unfolding path_parts_tmp using s(2,4) by (simp add: mt named_def empty_node_def)
  have lf: "lowest_free (kfs k) = Some 1" unfolding lowest_free_def find_upt_Some k(4) s(8) by (simp add: less_Suc_eq)
  have txt_is: "rd_text (kfs k) ?N r [47, 116, 109, 112] = bytes_of ''tmp\<newline>''"
    using s(3,4) by (simp add: rd_text_def wk lf)
  have short: "\<forall>c\<in>set (path_parts [47, 116, 109, 112]). length c < 64" unfolding path_parts_tmp by simp
  have lb: "object shell_env ''execute_command.local_buffer'' = ad 0x130000" "object shell_env ''cmd_rd.buffer'' = ad 0x140000"
    by (simp_all add: shell_env_def ad_def)
  have "\<exists>k'. execute_command shell_env (of_nat 0x120000) k = Some (Running k')
      \<and> kscreen k' = vga_print (rd_text (kfs k) ?N r [47, 116, 109, 112]) (kscreen k)"
    using rd_prints [OF line w ok k(1) _ short k(2) _ _ lb(1) _ _ _ lb(2)] by auto
  moreover have "cstr (kmem k) (of_nat 0x120000) ?t" using line by (simp add: line_ready_def)
  ultimately show ?thesis unfolding txt_is by blast
qed

end
