(* ===== verification/Spec2Isabelle.thy ===== *)
theory Spec2Isabelle imports BootMachine ShellFiles begin

text \<open>
  ZynthexOS, a 32-bit x86 kernel in C: a model of its sources under \<^verbatim>\<open>src/src/kernel\<close> and of the
  assembly under \<^verbatim>\<open>src/src/boot\<close>, and the theorems about it.

  \<^bold>\<open>The program.\<close>  A multiboot loader jumps to \<open>kernel_main\<close>, which boots (\<^verbatim>\<open>core/boot.c\<close>) and then runs the
  shell for ever, halting the processor between its turns.  The boot sets up the physical memory
  manager (a bitmap of frames behind the kernel), the descriptor tables, the interrupt controllers
  and the timer, the scheduler with two test tasks, paging (the first four megabytes mapped to
  themselves, but the first page), the heap at \<open>0x400000\<close>, the file systems (two trees of nodes on the
  heap, the second mounted on \<open>/tmp\<close> of the first), the line editor, keyboard and mouse.  From then
  on everything happens in interrupts or in a command of the shell: the timer counts ticks and moves the
  cursor of the mouse, keyboard and mouse fill their rings, a page fault in the heap is given a
  frame, and the shell takes the keys from the ring, edits a line and executes it.

  \<^bold>\<open>How C is modelled.\<close>  The memory is a total function from 32-bit addresses to bytes; heap blocks,
  file system nodes, tasks, page tables, the bitmap, strings and pixels live in it at the offsets of
  their structures, so that aliasing and overflows are the program's own.  It is one flat address space: that the
  kernel's addresses are translated is modelled where translation is the subject
  (\<open>Paging.translate\<close>), but a read or write elsewhere goes to the address itself.  Static variables and arrays are
  fields of records.  Integers are words of their width (\<open>u8\<close>, \<open>u16\<close>, \<open>u32\<close>, \<open>u64\<close>); signed arithmetic of the
  graphics is on \<open>int\<close>, wrapped to 32 bits.  Port accesses are a trace, and a read is answered by the
  device, a function of the trace so far.  A loop that may not end is a partial function with
  option: \<open>None\<close> is not returning, and a theorem that says \<open>Some\<close> says that the loop ends.  There is no
  fuel but in \<open>mouse_wait\<close>, whose 100000 tries are the code's own.  Ends other than returning are values: a panic
  (\<open>Panic\<close>, \<open>Halted\<close>), a switch to a task, whose jump never comes back to the caller (\<open>Leaves\<close>, \<open>Switched\<close>), or what C
  leaves undefined (\<open>Fault\<close>, \<open>Crashed\<close>); of these the booting and the running kernel can reach only five places,
  \<open>Kernel.crash_sites\<close>: four kinds of calls through a missing node operation and a full table of mounts.
  What the processor itself does is written out where the code relies on it: the translation of addresses, the
  interrupt frame and the privileges of the gates, the marks it sets in the descriptors it loads (\<open>Descriptors.mark_descriptor\<close>),
  and the exception of a quotient that does not fit (\<open>Interrupts.divide_error\<close>).

  \<^bold>\<open>The theories\<close>, in the order of the imports, with the sources they model and what they show.

  \<^item> \<open>Prelude\<close>, \<open>Memory\<close>: types and collections of rules; bytes, words and ranges of the memory.
  \<^item> \<open>Kstring\<close> (\<^verbatim>\<open>lib/string.c\<close>): every routine against the string in the memory (\<open>cstr\<close>); \<open>utoa\<close> and \<open>atoi\<close> are inverse.
  \<^item> \<open>Ports\<close> (\<^verbatim>\<open>drivers/io.c\<close>, \<^verbatim>\<open>pic.c\<close>, \<^verbatim>\<open>pit.c\<close>): the controllers end with their vectors at 32 and 40.
  \<^item> \<open>Vga\<close> (\<^verbatim>\<open>video/vga.c\<close>): both buffers and the cursor; every operation keeps them in range; what printing a text leaves in the cells.
  \<^item> \<open>Heap\<close> (\<^verbatim>\<open>mm/heap.c\<close>) is the code; \<open>HeapSpec\<close> the list of blocks it stands for and the first-fit
    allocator on that list; \<open>HeapAlloc\<close> and \<open>HeapFree\<close> that \<open>kmalloc\<close> and \<open>kfree\<close> do what the allocator does;
    \<open>HeapLaws\<close> the contract of an allocator as a locale, interpreted by \<open>kmalloc\<close>; \<open>HeapRuns\<close> concrete heaps
    and the two ways in which \<open>kfree\<close> breaks the list: a merge into a gap that has no room for the tail (\<open>tails_fit\<close> says that it
    has), and the release of the last block; \<open>HeapClient\<close> what users of the heap need.
  \<^item> \<open>Pmm\<close>, \<open>PmmLaws\<close> (\<^verbatim>\<open>mm/pmm.c\<close>, \<^verbatim>\<open>core/multiboot.c\<close>): the frames that are free after the boot, allocation of the lowest.
  \<^item> \<open>Paging\<close> (\<^verbatim>\<open>mm/paging.c\<close>): the walk of the processor through directory and tables is the reference for \<open>map_page\<close>.
  \<^item> \<open>Ring\<close>, \<open>Input\<close> (\<^verbatim>\<open>drivers/keyboard.c\<close>, \<^verbatim>\<open>mouse.c\<close>, \<^verbatim>\<open>core/console.c\<close>, \<^verbatim>\<open>mouse_mode.c\<close>): the contract of a bounded queue as
    a locale, interpreted by both rings; the line editor against the line it edits.
  \<^item> \<open>Klog\<close> (\<^verbatim>\<open>core/log.c\<close>): the log holds the last 8192 characters written.
  \<^item> \<open>Sched\<close> (\<^verbatim>\<open>sched/\<close>, \<^verbatim>\<open>boot/task_switch.s\<close>): tasks and their ring on the heap, the choice of the next, the switch, which leaves the caller for good, and that no task is ever started.
  \<^item> \<open>Vfs\<close> (\<^verbatim>\<open>fs/\<close>) is the code; \<open>FsInv\<close> the tree of nodes it stands for, on blocks of the heap; \<open>FsOps\<close>,
    \<open>FsPath\<close>, \<open>FsLaws\<close> creating, writing, growing, walking paths and mounts, descriptors; \<open>FsBoot\<close> (with the status lines of
    \<open>Status\<close>, \<^verbatim>\<open>core/status.c\<close>) the file systems of the boot.
  \<^item> \<open>Framebuffer\<close>, \<open>FbLaws\<close>, \<open>FbLine\<close> (\<^verbatim>\<open>video/framebuffer.c\<close>, \<^verbatim>\<open>font8x8.h\<close>): filling, and Bresenham's lines against the straight line.
  \<^item> \<open>Cursors\<close>, \<open>Timer\<close> (\<^verbatim>\<open>video/cursor.c\<close>, \<^verbatim>\<open>text_cursor.c\<close>, \<^verbatim>\<open>core/time.c\<close>): mouse events and ticks, sleeping.
  \<^item> \<open>Descriptors\<close> (\<^verbatim>\<open>arch/x86/gdt.c\<close>, \<^verbatim>\<open>tss.c\<close>, \<^verbatim>\<open>core/idt.c\<close>): what the processor reads from the tables and marks in them.
  \<^item> \<open>Debug\<close> (\<^verbatim>\<open>core/debug.c\<close>, \<^verbatim>\<open>arch/x86/cpuid.c\<close>): panics and the processor's state.
  \<^item> \<open>Kernel\<close>: the components put together on one state, with the memory, the screen, the trace and the
    log shared, and the invariant \<open>kernel_ok\<close> of the whole.
  \<^item> \<open>Interrupts\<close> (\<^verbatim>\<open>core/idt.c\<close>, \<^verbatim>\<open>sys/syscall.c\<close>, \<^verbatim>\<open>boot/isr_stubs.s\<close>, \<^verbatim>\<open>isr_common_stub.s\<close>, \<^verbatim>\<open>syscall_entry.s\<close>): every interrupt is handled; page
    faults of the heap; the stubs give registers and stack back; sleeping with the real handlers.
  \<^item> \<open>Shell\<close> (\<^verbatim>\<open>shell/shell.c\<close>): all commands, the parser and the loop; \<open>ShellOk\<close> the invariant over commands,
    turns of the shell and interrupts, as reachability in a step relation; \<open>ShellLaws\<close> the words of a line and the
    command they select; \<open>ShellRuns\<close> what \<open>calc\<close> and \<open>echo\<close> print, \<open>ShellFiles\<close> what \<open>rd\<close> reads from a file and prints.
  \<^item> \<open>Boot\<close>, \<open>BootOk\<close> (\<^verbatim>\<open>core/boot.c\<close>, \<^verbatim>\<open>kernel.c\<close>): the boot in its order, and how it ends; \<open>BootHeap\<close> the tasks
    that are allocated before the heap is set up, \<open>LowFrames\<close> the frames they lie in, and \<open>BootMachine\<close> both in the booted kernel.

  \<^bold>\<open>Parameters.\<close>  What is not in the sources is an argument: the device that answers a port, what the
  registers hold and \<open>cpuid\<close> gives, the interrupt that ends a halt, the addresses that linker and
  compiler give to code, literals and local arrays, the date of the build (record \<open>env\<close>).  Theorems that read a literal or
  a local array assume that it is in the memory and apart from what is written.

  \<^bold>\<open>Bounds.\<close>  The theorems on the heap are about states \<open>heap_ok h bs e\<close> as they are from \<open>heap_init\<close> on: the blocks
  \<open>bs\<close> in order, those of the heap from \<open>0x400000\<close> up to \<open>e\<close> below \<open>0x800000\<close>, and before them blocks in use below the
  kernel.  There are such blocks because the boot starts the scheduler before it calls \<open>heap_init\<close>: \<open>early_blocks\<close> are the
  ones of a booted kernel (\<open>BootMachine.boot_makes_tasks\<close>).  \<open>off_heap\<close> says that a string or buffer lies in neither
  range, as those in the kernel's image do.  Behind \<open>e\<close> the theorems ask for the room that an operation needs.
  In the flat address space every page of the heap is there.  In the machine it is made by a page fault, and on a machine
  whose memory map begins at 0 the first one overwrites the tasks (\<open>BootMachine.first_heap_fault_hits_tasks\<close>).

  \<^bold>\<open>Not modelled.\<close>  \<^verbatim>\<open>boot/boot.s\<close> (the multiboot header and the stack before \<open>kernel_main\<close>) and \<^verbatim>\<open>boot/context_switch.s\<close>,
  which nothing calls.  Interrupts that come while C code runs: the model takes them where the
  processor halts, and the theorems on the handlers hold in every state.  What a task would do after a switch: no task is ever started.
\<close>

end
